(* ===== verification/Prelude.thy ===== *)
theory Prelude
  imports Main "HOL-Library.Word"
begin

text \<open>
  What the components share: the machine integers of the code as words, bytes and
  strings as lists, C++ failures (undefined behaviour, thrown exceptions) as values of
  a sum type, the collections of simplification rules, and generic lemmas on lists and
  words.

  A \<open>std::string\<close> or \<open>std::deque\<close> is a list and its \<open>size()\<close> is the natural number
  \<open>length\<close>; a counter that the code keeps in a \<open>uint64_t\<close> or \<open>size_t\<close> is a
  \<open>64 word\<close>, so that its arithmetic wraps as it does in the code.
\<close>

subsection \<open>Machine integers and bytes\<close>

type_synonym u8 = "8 word"
type_synonym u16 = "16 word"
type_synonym u32 = "32 word"
type_synonym u64 = "64 word"

type_synonym byte = u8
type_synonym bytes = "byte list"

abbreviation u64_max :: u64 where
  "u64_max \<equiv> - 1"

subsection \<open>Failures\<close>

text \<open>
  \<open>Undefined\<close> is undefined behaviour of the C++ abstract machine (an access outside an
  object, \<open>front()\<close> on an empty container, an empty \<open>optional\<close>, an invalid iterator,
  division by zero); \<open>Throws\<close> is a thrown exception with its message.  \<open>Diverges\<close> stands
  for a computation that does not return, where a partial function (\<open>None\<close>) is called
  from code that is modelled with \<open>result\<close>.
\<close>

datatype cpp_error = Undefined string | Throws string | Diverges

type_synonym 'a result = "cpp_error + 'a"

fun bind_result :: "'a result \<Rightarrow> ('a \<Rightarrow> 'b result) \<Rightarrow> 'b result" where
  "bind_result (Inl e) f = Inl e"
| "bind_result (Inr x) f = f x"

lemma bind_result_Inr_iff [simp]:
  "bind_result m f = Inr y \<longleftrightarrow> (\<exists>x. m = Inr x \<and> f x = Inr y)"
  by (cases m) auto

lemma bind_result_assoc:
  "bind_result (bind_result m f) g = bind_result m (\<lambda>x. bind_result (f x) g)"
  by (cases m) auto

lemma bind_result_cong [fundef_cong]:
  "m = m' \<Longrightarrow> (\<And>x. m' = Inr x \<Longrightarrow> f x = f' x) \<Longrightarrow> bind_result m f = bind_result m' f'"
  by (cases m') auto

fun returned :: "'a result option \<Rightarrow> 'a result" where
  "returned None = Inl Diverges"
| "returned (Some r) = r"

text \<open>A computation that ends, if only with an error.\<close>

definition ends :: "'a result \<Rightarrow> bool" where
  "ends r \<longleftrightarrow> r \<noteq> Inl Diverges"

lemma ends_simps [simp]:
  "ends (Inr x)" "ends (Inl (Throws m))" "ends (Inl (Undefined m))" "\<not> ends (Inl Diverges)"
  by (simp_all add: ends_def)

lemma ends_bind [simp]: "ends (bind_result m f) \<longleftrightarrow> ends m \<and> (\<forall>x. m = Inr x \<longrightarrow> ends (f x))"
  by (cases m) (auto simp: ends_def)

lemma ends_bindI: "ends m \<Longrightarrow> (\<And>x. m = Inr x \<Longrightarrow> ends (f x)) \<Longrightarrow> ends (bind_result m f)"
  by simp

lemma ends_Inl: "ends (Inl e :: 'a result) \<longleftrightarrow> ends (Inl e :: 'b result)"
  by (simp add: ends_def)

subsection \<open>Collections of rules\<close>

named_theorems word_nat_simps \<open>words read as natural numbers, under their bounds\<close>
named_theorems stream_simps \<open>observers of a byte stream after an operation\<close>
named_theorems wire_simps \<open>serialised forms and parsers\<close>

subsection \<open>Words read as natural numbers\<close>

lemma unat_add_small [word_nat_simps]:
  fixes a b :: "'a::len word"
  assumes "unat a + unat b < 2 ^ LENGTH('a)"
  shows "unat (a + b) = unat a + unat b"
  using assms by (simp add: unat_word_ariths)

lemma unat_sub_le [word_nat_simps]:
  fixes a b :: "'a::len word"
  assumes "unat b \<le> unat a"
  shows "unat (a - b) = unat a - unat b"
  using assms by (simp add: unat_sub word_le_nat_alt)

lemma unat_of_nat_small [word_nat_simps]:
  assumes "n < 2 ^ LENGTH('a::len)"
  shows "unat (of_nat n :: 'a word) = n"
  using assms by (simp add: unat_of_nat take_bit_nat_eq_self)

lemma unat_of_nat_le: "unat (of_nat n :: 'a::len word) \<le> n"
  by (simp add: unat_of_nat take_bit_eq_mod)

lemma unat_of_nat_unat_le:
  fixes w :: "'a::len word"
  assumes "n \<le> unat w"
  shows "unat (of_nat n :: 'a word) = n"
  by (rule unat_of_nat_small) (rule le_less_trans [OF assms unsigned_less])

lemma u64_less [simp]: "unat (w :: u64) < 18446744073709551616"
  using unsigned_less [of w] by simp

lemma u32_less [simp]: "unat (w :: u32) < 4294967296"
  using unsigned_less [of w] by simp

lemma u16_less [simp]: "unat (w :: u16) < 65536"
  using unsigned_less [of w] by simp

lemma u8_less [simp]: "unat (w :: u8) < 256"
  using unsigned_less [of w] by simp

lemma u64_eq_iff_mod: "(of_nat a :: u64) = of_nat b \<longleftrightarrow> a mod 2 ^ 64 = b mod 2 ^ 64"
  by (simp add: word_of_nat_eq_iff take_bit_eq_mod)

subsection \<open>Lists\<close>

lemma take_append_take_drop: "take m xs @ take n (drop m xs) = take (m + n) xs"
  by (simp add: take_add)

lemma length_concat_pos:
  "[] \<notin> set q \<Longrightarrow> q \<noteq> [] \<Longrightarrow> 0 < length (concat q)"
  by (cases q) auto

lemma concat_eq_Nil_iff: "[] \<notin> set q \<Longrightarrow> concat q = [] \<longleftrightarrow> q = []"
  by (cases q) auto

end
