(* ===== verification/Byte_Stream.thy ===== *)
theory Byte_Stream
  imports Prelude
begin

text \<open>
  The in-memory byte stream of \<open>src/byte_stream.hh\<close>, \<open>src/byte_stream.cc\<close> and
  \<open>src/byte_stream_helpers.cc\<close>: a bounded FIFO of bytes kept as a deque of buffers,
  written through the \<open>Writer\<close> interface and read through the \<open>Reader\<close> interface,
  which are two views of one \<open>ByteStream\<close> object.  Each buffer of the deque is owned by
  the stream alone, so its in-place shortening in \<open>Reader::pop\<close> is a list update.
\<close>

subsection \<open>State\<close>

record byte_stream =
  bs_capacity :: u64
  bs_current_size :: u64
  bs_q :: "bytes list"
  bs_closed :: bool
  bs_error :: bool
  bs_bytes_pushed :: u64
  bs_bytes_popped :: u64

definition new_byte_stream :: "u64 \<Rightarrow> byte_stream" where
  "new_byte_stream capacity =
     \<lparr>bs_capacity = capacity, bs_current_size = 0, bs_q = [], bs_closed = False,
      bs_error = False, bs_bytes_pushed = 0, bs_bytes_popped = 0\<rparr>"

subsection \<open>The Writer interface\<close>

definition available_capacity :: "byte_stream \<Rightarrow> u64" where
  "available_capacity bs = bs_capacity bs - bs_current_size bs"

definition writer_push :: "bytes \<Rightarrow> byte_stream \<Rightarrow> byte_stream" where
  "writer_push data bs =
     (let num_bytes = min (unat (available_capacity bs)) (length data);
          bs = bs\<lparr>bs_bytes_pushed := bs_bytes_pushed bs + of_nat num_bytes,
                  bs_current_size := bs_current_size bs + of_nat num_bytes\<rparr>;
          data = take num_bytes data
      in if num_bytes > 0 then bs\<lparr>bs_q := bs_q bs @ [data]\<rparr> else bs)"

definition writer_close :: "byte_stream \<Rightarrow> byte_stream" where
  "writer_close bs = bs\<lparr>bs_closed := True\<rparr>"

definition writer_set_error :: "byte_stream \<Rightarrow> byte_stream" where
  "writer_set_error bs = bs\<lparr>bs_error := True\<rparr>"

definition writer_is_closed :: "byte_stream \<Rightarrow> bool" where
  "writer_is_closed bs = bs_closed bs"

definition writer_bytes_pushed :: "byte_stream \<Rightarrow> u64" where
  "writer_bytes_pushed bs = bs_bytes_pushed bs"

subsection \<open>The Reader interface\<close>

definition reader_peek :: "byte_stream \<Rightarrow> bytes" where
  "reader_peek bs = (case bs_q bs of [] \<Rightarrow> [] | b # _ \<Rightarrow> b)"

definition reader_is_finished :: "byte_stream \<Rightarrow> bool" where
  "reader_is_finished bs \<longleftrightarrow> bs_closed bs \<and> bs_current_size bs = 0"

definition reader_has_error :: "byte_stream \<Rightarrow> bool" where
  "reader_has_error bs = bs_error bs"

definition reader_bytes_buffered :: "byte_stream \<Rightarrow> u64" where
  "reader_bytes_buffered bs = bs_current_size bs"

definition reader_bytes_popped :: "byte_stream \<Rightarrow> u64" where
  "reader_bytes_popped bs = bs_bytes_popped bs"

text \<open>
  One round of the loop of \<open>Reader::pop\<close>: either the front buffer is shortened by
  \<open>memmove\<close> and \<open>resize\<close>, or it is removed from the deque.
\<close>

function pop_loop :: "nat \<Rightarrow> byte_stream \<Rightarrow> byte_stream" where
  "pop_loop num_bytes bs =
     (case bs_q bs of
        [] \<Rightarrow> bs
      | buffer # rest \<Rightarrow>
          if num_bytes > 0 then
            (let pop_length = min num_bytes (length buffer);
                 q = (if length buffer > pop_length then drop pop_length buffer # rest else rest)
             in pop_loop (num_bytes - pop_length)
                  (bs\<lparr>bs_q := q,
                      bs_bytes_popped := bs_bytes_popped bs + of_nat pop_length,
                      bs_current_size := bs_current_size bs - of_nat pop_length\<rparr>))
          else bs)"
  by pat_completeness auto
termination
  by (relation "measure (\<lambda>(n, bs). n + length (bs_q bs))") (auto simp: min_def)

declare pop_loop.simps [simp del]

definition reader_pop :: "u64 \<Rightarrow> byte_stream \<Rightarrow> byte_stream" where
  "reader_pop len bs = pop_loop (unat (min len (bs_current_size bs))) bs"

text \<open>
  The helper \<open>read\<close>: peeks and pops until \<open>len\<close> bytes are collected or the stream is
  empty, and throws when the stream holds bytes but \<open>peek\<close> shows none.
\<close>

function read_loop :: "nat \<Rightarrow> byte_stream \<Rightarrow> bytes \<Rightarrow> (byte_stream \<times> bytes) result" where
  "read_loop len bs out =
     (if reader_bytes_buffered bs \<noteq> 0 \<and> length out < len then
        (let view = reader_peek bs
         in if view = [] then Inl (Throws ''Reader::peek() returned empty string_view'')
            else let view = take (len - length out) view
                 in read_loop len (reader_pop (of_nat (length view)) bs) (out @ view))
      else Inr (bs, out))"
  by pat_completeness auto
termination
  by (relation "measure (\<lambda>(len, bs, out). len - length out)")
     (auto simp: min_def simp flip: length_greater_0_conv)

declare read_loop.simps [simp del]

definition read_stream :: "byte_stream \<Rightarrow> u64 \<Rightarrow> (byte_stream \<times> bytes) result" where
  "read_stream bs len = read_loop (unat len) bs []"

subsection \<open>Invariant and content\<close>

definition stream_content :: "byte_stream \<Rightarrow> bytes" where
  "stream_content bs = concat (bs_q bs)"

definition stream_inv :: "byte_stream \<Rightarrow> bool" where
  "stream_inv bs \<longleftrightarrow>
     unat (bs_current_size bs) = length (stream_content bs) \<and>
     bs_current_size bs \<le> bs_capacity bs \<and>
     [] \<notin> set (bs_q bs) \<and>
     bs_bytes_pushed bs = bs_bytes_popped bs + bs_current_size bs"

lemma new_stream_inv [simp]: "stream_inv (new_byte_stream c)"
  by (simp add: stream_inv_def new_byte_stream_def stream_content_def)

lemma stream_content_new [stream_simps]: "stream_content (new_byte_stream c) = []"
  by (simp add: new_byte_stream_def stream_content_def)

lemma stream_inv_size:
  "stream_inv bs \<Longrightarrow> length (stream_content bs) = unat (bs_current_size bs)"
  by (simp add: stream_inv_def)

lemma stream_inv_cap:
  "stream_inv bs \<Longrightarrow> length (stream_content bs) \<le> unat (bs_capacity bs)"
  by (simp add: stream_inv_def word_le_nat_alt)

lemma available_capacity_nat:
  "stream_inv bs \<Longrightarrow>
     unat (available_capacity bs) = unat (bs_capacity bs) - length (stream_content bs)"
  by (simp add: available_capacity_def stream_inv_def word_le_nat_alt unat_sub_le)

subsection \<open>Writing\<close>

lemma writer_push_content [stream_simps]:
  "stream_content (writer_push data bs) =
     stream_content bs @ take (unat (available_capacity bs)) data"
  by (auto simp: writer_push_def stream_content_def Let_def min_def)

lemma writer_push_fields [stream_simps]:
  "bs_capacity (writer_push data bs) = bs_capacity bs"
  "bs_closed (writer_push data bs) = bs_closed bs"
  "bs_error (writer_push data bs) = bs_error bs"
  "bs_bytes_popped (writer_push data bs) = bs_bytes_popped bs"
  "bs_bytes_pushed (writer_push data bs) =
     bs_bytes_pushed bs + of_nat (min (unat (available_capacity bs)) (length data))"
  "bs_current_size (writer_push data bs) =
     bs_current_size bs + of_nat (min (unat (available_capacity bs)) (length data))"
  by (simp_all add: writer_push_def Let_def)

lemma writer_push_current_size:
  assumes "stream_inv bs"
  shows "unat (bs_current_size (writer_push data bs)) =
           length (stream_content bs) + min (unat (available_capacity bs)) (length data)"
proof -
  let ?n = "min (unat (available_capacity bs)) (length data)"
  have n: "unat (of_nat ?n :: u64) = ?n"
    by (rule unat_of_nat_unat_le [of _ "available_capacity bs"]) simp
  have "unat (bs_current_size bs) + ?n \<le> unat (bs_capacity bs)"
    using assms stream_inv_cap [OF assms]
    by (simp add: available_capacity_nat stream_inv_size)
  then have "unat (bs_current_size bs) + unat (of_nat ?n :: u64) < 2 ^ LENGTH(64)"
    using le_less_trans [OF _ unsigned_less [of "bs_capacity bs"]] by (simp only: n)
  then have "unat (bs_current_size bs + of_nat ?n) =
               unat (bs_current_size bs) + unat (of_nat ?n :: u64)"
    by (rule unat_add_small)
  with n show ?thesis
    using assms by (simp add: stream_simps stream_inv_size)
qed

lemma writer_push_inv [simp]:
  assumes "stream_inv bs"
  shows "stream_inv (writer_push data bs)"
proof -
  let ?bs = "writer_push data bs"
  have "unat (bs_current_size ?bs) = length (stream_content ?bs)"
    using writer_push_current_size [OF assms] by (simp add: stream_simps)
  moreover have "unat (bs_current_size ?bs) \<le> unat (bs_capacity ?bs)"
    using writer_push_current_size [OF assms, of data] stream_inv_cap [OF assms]
    by (simp add: stream_simps available_capacity_nat [OF assms])
  moreover have "[] \<notin> set (bs_q ?bs)"
    using assms by (auto simp: writer_push_def Let_def stream_inv_def)
  moreover have "bs_bytes_pushed ?bs = bs_bytes_popped ?bs + bs_current_size ?bs"
    using assms by (simp add: stream_simps stream_inv_def)
  ultimately show ?thesis
    by (simp add: stream_inv_def word_le_nat_alt)
qed

lemma writer_push_available:
  assumes "stream_inv bs"
  shows "unat (available_capacity (writer_push data bs)) =
           unat (available_capacity bs) - length data"
  using assms stream_inv_cap [OF assms]
  by (simp add: available_capacity_nat stream_simps)

lemma writer_close_fields [stream_simps]:
  "stream_content (writer_close bs) = stream_content bs"
  "bs_capacity (writer_close bs) = bs_capacity bs"
  "bs_closed (writer_close bs) = True"
  "bs_error (writer_close bs) = bs_error bs"
  "bs_bytes_popped (writer_close bs) = bs_bytes_popped bs"
  "bs_bytes_pushed (writer_close bs) = bs_bytes_pushed bs"
  "bs_current_size (writer_close bs) = bs_current_size bs"
  "available_capacity (writer_close bs) = available_capacity bs"
  "stream_inv (writer_close bs) = stream_inv bs"
  by (simp_all add: writer_close_def stream_content_def stream_inv_def available_capacity_def)

lemma writer_set_error_fields [stream_simps]:
  "stream_content (writer_set_error bs) = stream_content bs"
  "bs_capacity (writer_set_error bs) = bs_capacity bs"
  "bs_closed (writer_set_error bs) = bs_closed bs"
  "bs_error (writer_set_error bs) = True"
  "bs_bytes_popped (writer_set_error bs) = bs_bytes_popped bs"
  "bs_bytes_pushed (writer_set_error bs) = bs_bytes_pushed bs"
  "bs_current_size (writer_set_error bs) = bs_current_size bs"
  "available_capacity (writer_set_error bs) = available_capacity bs"
  "stream_inv (writer_set_error bs) = stream_inv bs"
  by (simp_all add: writer_set_error_def stream_content_def stream_inv_def
      available_capacity_def)

subsection \<open>Reading\<close>

lemma pop_loop_frame [stream_simps]:
  "bs_capacity (pop_loop n bs) = bs_capacity bs"
  "bs_closed (pop_loop n bs) = bs_closed bs"
  "bs_error (pop_loop n bs) = bs_error bs"
  "bs_bytes_pushed (pop_loop n bs) = bs_bytes_pushed bs"
proof (induction n bs rule: pop_loop.induct)
  case (1 n bs)
  { case 1 with "1.IH"(1) show ?case
      by (subst pop_loop.simps) (auto simp: Let_def split: list.split)
  next case 2 with "1.IH"(2) show ?case
      by (subst pop_loop.simps) (auto simp: Let_def split: list.split)
  next case 3 with "1.IH"(3) show ?case
      by (subst pop_loop.simps) (auto simp: Let_def split: list.split)
  next case 4 with "1.IH"(4) show ?case
      by (subst pop_loop.simps) (auto simp: Let_def split: list.split) }
qed

lemma pop_loop_queue:
  assumes "[] \<notin> set (bs_q bs)" and "n \<le> length (concat (bs_q bs))"
  shows "concat (bs_q (pop_loop n bs)) = drop n (concat (bs_q bs)) \<and>
         [] \<notin> set (bs_q (pop_loop n bs)) \<and>
         bs_bytes_popped (pop_loop n bs) = bs_bytes_popped bs + of_nat n \<and>
         bs_current_size (pop_loop n bs) = bs_current_size bs - of_nat n"
  using assms
proof (induction n bs rule: pop_loop.induct)
  case (1 n bs)
  show ?case
  proof (cases "bs_q bs")
    case Nil
    with "1.prems" show ?thesis by (subst (1 2 3 4) pop_loop.simps) simp
  next
    case (Cons b rest)
    show ?thesis
    proof (cases "n > 0")
      case False
      with Cons "1.prems" show ?thesis by (subst (1 2 3 4) pop_loop.simps) simp
    next
      case True
      let ?k = "min n (length b)"
      let ?q = "if length b > ?k then drop ?k b # rest else rest"
      let ?bs = "bs\<lparr>bs_q := ?q, bs_bytes_popped := bs_bytes_popped bs + of_nat ?k,
                    bs_current_size := bs_current_size bs - of_nat ?k\<rparr>"
      have step: "pop_loop n bs = pop_loop (n - ?k) ?bs"
        using Cons True by (subst pop_loop.simps) (simp add: Let_def)
      have q: "[] \<notin> set ?q" "concat ?q = drop ?k (concat (bs_q bs))"
        using "1.prems" Cons by (auto simp: min_def)
      have k: "n - ?k \<le> length (concat ?q)"
        using "1.prems" Cons by (auto simp: min_def)
      note IH = "1.IH" [OF Cons True refl refl, simplified, OF q(1) k [simplified]]
      have "drop (n - ?k) (concat ?q) = drop n (concat (bs_q bs))"
        unfolding q(2) drop_drop by (simp add: min_def)
      moreover have "of_nat ?k + of_nat (n - ?k) = (of_nat n :: u64)"
        by (simp flip: of_nat_add)
      ultimately show ?thesis
        unfolding step using IH by (simp add: algebra_simps)
    qed
  qed
qed
lemma reader_pop_fields [stream_simps]:
  "bs_capacity (reader_pop len bs) = bs_capacity bs"
  "bs_closed (reader_pop len bs) = bs_closed bs"
  "bs_error (reader_pop len bs) = bs_error bs"
  "bs_bytes_pushed (reader_pop len bs) = bs_bytes_pushed bs"
  by (simp_all add: reader_pop_def stream_simps)

lemma unat_min_word: "unat (min a (b :: 'a::len word)) = min (unat a) (unat b)"
  by (simp add: min_def word_le_nat_alt)

lemma reader_pop_loop:
  assumes inv: "stream_inv bs"
  shows "stream_content (reader_pop len bs) = drop (unat len) (stream_content bs)"
  "[] \<notin> set (bs_q (reader_pop len bs))"
  "bs_bytes_popped (reader_pop len bs) = bs_bytes_popped bs + min len (bs_current_size bs)"
  "bs_current_size (reader_pop len bs) = bs_current_size bs - min len (bs_current_size bs)"
proof -
  let ?n = "unat (min len (bs_current_size bs))"
  have n: "?n = min (unat len) (length (concat (bs_q bs)))"
    using inv by (simp add: stream_inv_def stream_content_def unat_min_word)
  have q: "[] \<notin> set (bs_q bs)" "?n \<le> length (concat (bs_q bs))"
    using inv by (simp_all add: stream_inv_def n)
  note l = pop_loop_queue [OF q]
  show "stream_content (reader_pop len bs) = drop (unat len) (stream_content bs)"
    using l n by (simp add: reader_pop_def stream_content_def min_def)
  show "[] \<notin> set (bs_q (reader_pop len bs))"
    using l by (simp add: reader_pop_def)
  show "bs_bytes_popped (reader_pop len bs) = bs_bytes_popped bs + min len (bs_current_size bs)"
    "bs_current_size (reader_pop len bs) = bs_current_size bs - min len (bs_current_size bs)"
    using l by (simp_all add: reader_pop_def)
qed

lemma reader_pop_inv [simp]:
  assumes inv: "stream_inv bs"
  shows "stream_inv (reader_pop len bs)"
proof -
  have "unat (bs_current_size (reader_pop len bs)) =
          unat (bs_current_size bs) - min (unat len) (unat (bs_current_size bs))"
    by (subst reader_pop_loop(4) [OF inv], subst unat_sub_le) (simp_all add: unat_min_word)
  then show ?thesis
    using inv reader_pop_loop [OF inv]
    by (auto simp: stream_inv_def stream_simps word_le_nat_alt min_def)
qed

lemma reader_pop_available:
  assumes inv: "stream_inv bs"
  shows "unat (available_capacity (reader_pop len bs)) =
           unat (available_capacity bs) + min (unat len) (length (stream_content bs))"
  using inv stream_inv_cap [OF inv]
  by (simp add: available_capacity_nat stream_simps reader_pop_loop min_def)

lemma reader_peek_content:
  assumes "stream_inv bs"
  obtains rest where "stream_content bs = reader_peek bs @ rest"
    and "reader_peek bs = [] \<longleftrightarrow> stream_content bs = []"
  using assms
  by (cases "bs_q bs") (auto simp: stream_inv_def stream_content_def reader_peek_def)

lemma read_loop_correct:
  assumes "stream_inv bs" and "length out \<le> len" and "len < 2 ^ 64"
  shows "\<exists>bs'. read_loop len bs out =
                  Inr (bs', out @ take (len - length out) (stream_content bs)) \<and>
               stream_inv bs' \<and>
               stream_content bs' = drop (len - length out) (stream_content bs) \<and>
               bs_closed bs' = bs_closed bs \<and> bs_error bs' = bs_error bs \<and>
               bs_capacity bs' = bs_capacity bs \<and> bs_bytes_pushed bs' = bs_bytes_pushed bs"
  using assms
proof (induction len bs out rule: read_loop.induct)
  case (1 len bs out)
  let ?d = "len - length out"
  obtain rest where c: "stream_content bs = reader_peek bs @ rest"
    and e: "reader_peek bs = [] \<longleftrightarrow> stream_content bs = []"
    using reader_peek_content [OF "1.prems"(1)] .
  have z: "reader_bytes_buffered bs = 0 \<longleftrightarrow> stream_content bs = []"
    using "1.prems"(1)
    by (simp add: reader_bytes_buffered_def stream_inv_def flip: unat_eq_zero)
  show ?case
  proof (cases "stream_content bs \<noteq> [] \<and> length out < len")
    case False
    then show ?thesis
      using "1.prems" z by (subst read_loop.simps) auto
  next
    case True
    let ?v = "take ?d (reader_peek bs)"
    let ?bs = "reader_pop (of_nat (length ?v)) bs"
    have v: "unat (of_nat (length ?v) :: u64) = length ?v"
      using "1.prems"(3) by (intro unat_of_nat_small) simp
    have content: "stream_content ?bs = drop (length ?v) (stream_content bs)"
      by (simp only: reader_pop_loop(1) [OF "1.prems"(1)] v)
    have step: "read_loop len bs out = read_loop len ?bs (out @ ?v)"
      using True e z by (subst read_loop.simps) (simp add: Let_def)
    have "\<exists>bs'. read_loop len ?bs (out @ ?v) =
              Inr (bs', (out @ ?v) @ take (len - length (out @ ?v)) (stream_content ?bs)) \<and>
            stream_inv bs' \<and>
            stream_content bs' = drop (len - length (out @ ?v)) (stream_content ?bs) \<and>
            bs_closed bs' = bs_closed ?bs \<and> bs_error bs' = bs_error ?bs \<and>
            bs_capacity bs' = bs_capacity ?bs \<and> bs_bytes_pushed bs' = bs_bytes_pushed ?bs"
      using True e z "1.prems" by (intro "1.IH") (auto simp: min_def)
    moreover have "?v @ take (len - length (out @ ?v)) (stream_content ?bs) =
                   take ?d (stream_content bs)"
      unfolding content c using "1.prems"(2) by (simp add: take_append min_def)
    moreover have "drop (len - length (out @ ?v)) (stream_content ?bs) =
                   drop ?d (stream_content bs)"
      unfolding content drop_drop using "1.prems"(2) by (simp add: min_def)
    ultimately show ?thesis
      unfolding step by (simp add: stream_simps)
  qed
qed

lemma read_stream_correct:
  assumes "stream_inv bs"
  obtains bs' where "read_stream bs len = Inr (bs', take (unat len) (stream_content bs))"
    and "stream_inv bs'" and "stream_content bs' = drop (unat len) (stream_content bs)"
    and "bs_closed bs' = bs_closed bs" and "bs_error bs' = bs_error bs"
    and "bs_capacity bs' = bs_capacity bs" and "bs_bytes_pushed bs' = bs_bytes_pushed bs"
proof -
  have "unat len < 2 ^ 64" by simp
  then show ?thesis
    using read_loop_correct [OF assms, of "[]" "unat len"] that
    by (auto simp: read_stream_def)
qed

subsection \<open>The stream as an interface\<close>

text \<open>
  What a client of the \<open>Writer\<close> relies on (\<open>byte_sink\<close>), and what a client of both
  ends relies on (\<open>byte_pipe\<close>): bytes come out in the order they went in.
\<close>

locale byte_sink =
  fixes push :: "bytes \<Rightarrow> 's \<Rightarrow> 's"
    and room :: "'s \<Rightarrow> nat"
    and content :: "'s \<Rightarrow> bytes"
    and invar :: "'s \<Rightarrow> bool"
  assumes push_invar: "invar s \<Longrightarrow> invar (push d s)"
    and push_content: "invar s \<Longrightarrow> content (push d s) = content s @ take (room s) d"
    and push_room: "invar s \<Longrightarrow> room (push d s) = room s - length d"
begin

lemma push_fits:
  "invar s \<Longrightarrow> length d \<le> room s \<Longrightarrow> content (push d s) = content s @ d"
  by (simp add: push_content)

lemma push_full: "invar s \<Longrightarrow> room s = 0 \<Longrightarrow> content (push d s) = content s"
  by (simp add: push_content)

lemma fold_push:
  "invar s \<Longrightarrow>
     invar (fold push ds s) \<and>
     content (fold push ds s) = content s @ take (room s) (concat ds) \<and>
     room (fold push ds s) = room s - length (concat ds)"
proof (induction ds arbitrary: s)
  case Nil
  then show ?case by simp
next
  case (Cons d ds)
  from Cons.IH [of "push d s"] Cons.prems show ?case
    by (simp add: push_invar push_content push_room)
qed

end

locale byte_pipe = byte_sink +
  fixes pop :: "nat \<Rightarrow> 's \<Rightarrow> 's"
  assumes pop_invar: "invar s \<Longrightarrow> invar (pop n s)"
    and pop_content: "invar s \<Longrightarrow> content (pop n s) = drop n (content s)"
    and pop_room: "invar s \<Longrightarrow> room (pop n s) = room s + min n (length (content s))"
begin

lemma push_pop_fifo:
  assumes "invar s" and "length d \<le> room s"
  shows "content (pop (length (content s)) (push d s)) = d"
  using assms by (simp add: push_invar push_fits pop_content)

lemma capacity_constant:
  assumes "invar s"
  shows "room (pop n s) + length (content (pop n s)) = room s + length (content s)"
    and "room (push d s) + length (content (push d s)) = room s + length (content s)"
  using assms by (simp_all add: pop_room pop_content push_room push_content)

end

definition stream_room :: "byte_stream \<Rightarrow> nat" where
  "stream_room bs = unat (available_capacity bs)"

definition stream_pop_nat :: "nat \<Rightarrow> byte_stream \<Rightarrow> byte_stream" where
  "stream_pop_nat n bs = reader_pop (of_nat (min n (2 ^ 64 - 1))) bs"

lemma stream_pop_nat_len: "unat (of_nat (min n (2 ^ 64 - 1)) :: u64) = min n (2 ^ 64 - 1)"
  by (rule unat_of_nat_small) simp

lemma stream_content_bound:
  assumes "stream_inv bs"
  shows "length (stream_content bs) \<le> 2 ^ 64 - 1"
proof -
  have "unat (bs_current_size bs) < 2 ^ 64" by simp
  with assms show ?thesis by (simp only: stream_inv_size)
qed

interpretation stream: byte_pipe writer_push stream_room stream_content stream_inv stream_pop_nat
proof unfold_locales
  fix s d assume inv: "stream_inv s"
  then show "stream_inv (writer_push d s)" by simp
  from inv show "stream_content (writer_push d s) = stream_content s @ take (stream_room s) d"
    by (simp add: stream_room_def stream_simps)
  from inv show "stream_room (writer_push d s) = stream_room s - length d"
    by (simp add: stream_room_def writer_push_available)
next
  fix s n assume inv: "stream_inv s"
  then show "stream_inv (stream_pop_nat n s)" by (simp add: stream_pop_nat_def)
  from inv show "stream_content (stream_pop_nat n s) = drop n (stream_content s)"
    using stream_content_bound [OF inv]
    by (simp only: stream_pop_nat_def reader_pop_loop stream_pop_nat_len) (auto simp: min_def)
  from inv show "stream_room (stream_pop_nat n s) =
      stream_room s + min n (length (stream_content s))"
    using stream_content_bound [OF inv]
    by (simp only: stream_pop_nat_def reader_pop_available stream_pop_nat_len stream_room_def)
qed

subsection \<open>Specification: a bounded FIFO with its history\<close>

text \<open>
  The contract of the stream, without buffers or machine integers: the bytes accepted so
  far, how many of them have been taken, the capacity and the two flags.
\<close>

record stream_spec =
  sp_capacity :: nat
  sp_accepted :: bytes
  sp_taken :: nat
  sp_closed :: bool
  sp_error :: bool

datatype stream_op = Push bytes | Pop u64 | Close | Set_error

fun exec_op :: "stream_op \<Rightarrow> byte_stream \<Rightarrow> byte_stream" where
  "exec_op (Push d) bs = writer_push d bs"
| "exec_op (Pop n) bs = reader_pop n bs"
| "exec_op Close bs = writer_close bs"
| "exec_op Set_error bs = writer_set_error bs"

definition sp_room :: "stream_spec \<Rightarrow> nat" where
  "sp_room p = sp_capacity p - (length (sp_accepted p) - sp_taken p)"

fun spec_op :: "stream_op \<Rightarrow> stream_spec \<Rightarrow> stream_spec" where
  "spec_op (Push d) p = p\<lparr>sp_accepted := sp_accepted p @ take (sp_room p) d\<rparr>"
| "spec_op (Pop n) p = p\<lparr>sp_taken := min (sp_taken p + unat n) (length (sp_accepted p))\<rparr>"
| "spec_op Close p = p\<lparr>sp_closed := True\<rparr>"
| "spec_op Set_error p = p\<lparr>sp_error := True\<rparr>"

definition new_spec :: "u64 \<Rightarrow> stream_spec" where
  "new_spec c = \<lparr>sp_capacity = unat c, sp_accepted = [], sp_taken = 0, sp_closed = False,
                 sp_error = False\<rparr>"

definition stream_refines :: "byte_stream \<Rightarrow> stream_spec \<Rightarrow> bool" where
  "stream_refines bs p \<longleftrightarrow>
     stream_inv bs \<and>
     unat (bs_capacity bs) = sp_capacity p \<and>
     sp_taken p \<le> length (sp_accepted p) \<and>
     stream_content bs = drop (sp_taken p) (sp_accepted p) \<and>
     writer_bytes_pushed bs = of_nat (length (sp_accepted p)) \<and>
     reader_bytes_popped bs = of_nat (sp_taken p) \<and>
     writer_is_closed bs = sp_closed p \<and>
     reader_has_error bs = sp_error p"

lemma stream_refines_room: "stream_refines bs p \<Longrightarrow> unat (available_capacity bs) = sp_room p"
  by (simp add: stream_refines_def available_capacity_nat sp_room_def)

lemma stream_refines_new: "stream_refines (new_byte_stream c) (new_spec c)"
  by (simp add: stream_refines_def stream_simps)
     (simp add: new_byte_stream_def new_spec_def writer_bytes_pushed_def
       reader_bytes_popped_def writer_is_closed_def reader_has_error_def)

lemma stream_refines_push:
  assumes "stream_refines bs p"
  shows "stream_refines (writer_push d bs) (spec_op (Push d) p)"
  using assms stream_refines_room [OF assms]
  by (simp add: stream_refines_def stream_simps writer_bytes_pushed_def
      reader_bytes_popped_def writer_is_closed_def reader_has_error_def min.commute)

lemma stream_refines_pop:
  assumes r: "stream_refines bs p"
  shows "stream_refines (reader_pop n bs) (spec_op (Pop n) p)"
proof -
  have inv: "stream_inv bs" using r by (simp add: stream_refines_def)
  let ?m = "min n (bs_current_size bs)"
  have m: "unat ?m = min (unat n) (length (sp_accepted p) - sp_taken p)"
    using r stream_inv_size [OF inv] by (simp add: stream_refines_def unat_min_word)
  have "sp_taken p + unat ?m = min (sp_taken p + unat n) (length (sp_accepted p))"
    using r unfolding m by (auto simp: stream_refines_def min_def)
  moreover have "of_nat (sp_taken p + unat ?m) = of_nat (sp_taken p) + ?m"
    by simp
  ultimately have "of_nat (min (sp_taken p + unat n) (length (sp_accepted p))) =
               of_nat (sp_taken p) + ?m"
    by simp
  then show ?thesis
    using r by (auto simp: stream_refines_def stream_simps reader_pop_loop writer_bytes_pushed_def
        reader_bytes_popped_def writer_is_closed_def reader_has_error_def min_def add.commute)
qed

lemma stream_refines_op:
  assumes "stream_refines bs p"
  shows "stream_refines (exec_op op bs) (spec_op op p)"
proof (cases op)
  case (Push d)
  then show ?thesis using stream_refines_push [OF assms] by simp
next
  case (Pop n)
  then show ?thesis using stream_refines_pop [OF assms] by simp
next
  case Close
  then show ?thesis
    using assms by (simp add: stream_refines_def stream_simps writer_bytes_pushed_def
        reader_bytes_popped_def writer_is_closed_def reader_has_error_def)
next
  case Set_error
  then show ?thesis
    using assms by (simp add: stream_refines_def stream_simps writer_bytes_pushed_def
        reader_bytes_popped_def writer_is_closed_def reader_has_error_def)
qed

lemma stream_refines_run:
  "stream_refines bs p \<Longrightarrow> stream_refines (fold exec_op ops bs) (fold spec_op ops p)"
  by (induction ops arbitrary: bs p) (auto intro: stream_refines_op)

subsection \<open>Properties\<close>

text \<open>
  C2: Whatever sequence of pushes, pops, closes and errors is applied to a fresh byte
  stream of capacity \<open>c\<close>, the implementation (a deque of buffers and wrapping 64-bit
  counters) behaves as the bounded FIFO of the specification: what is buffered is exactly
  what was accepted and not yet taken, in order, the byte counters count it, no push
  exceeds the capacity, and the flags agree.
\<close>

theorem stream_run_refines_fifo:
  "stream_refines (fold exec_op ops (new_byte_stream c)) (fold spec_op ops (new_spec c))"
  by (rule stream_refines_run [OF stream_refines_new])

text \<open>
  On a well-formed stream the helper \<open>read\<close> never throws: it returns exactly the
  first \<open>len\<close> buffered bytes (all of them when fewer are buffered), removes them and
  nothing else, and keeps the stream well-formed.
\<close>

theorem stream_read_exact:
  assumes "stream_inv bs"
  shows "\<exists>bs'. read_stream bs len = Inr (bs', take (unat len) (stream_content bs)) \<and>
               stream_content bs' = drop (unat len) (stream_content bs) \<and> stream_inv bs'"
  by (rule read_stream_correct [OF assms, of len]) blast

theorem stream_read_exact_witness:
  "\<exists>bs'. read_stream (writer_push [1, 2, 3] (new_byte_stream 2)) 1 = Inr (bs', [1]) \<and>
         stream_content bs' = [2] \<and> stream_inv bs'"
proof -
  have "stream_content (writer_push [1, 2, 3] (new_byte_stream 2)) = [1, 2]"
    by (simp add: stream_simps) (simp add: available_capacity_def new_byte_stream_def)
  then show ?thesis
    using stream_read_exact [of "writer_push [1, 2, 3] (new_byte_stream 2)" 1] by simp
qed

end
