(* ===== verification/Wrapping_Integers.thy ===== *)
theory Wrapping_Integers
  imports Prelude
begin

text \<open>
  The 32-bit sequence numbers of \<open>src/wrapping_integers.hh\<close> and
  \<open>src/wrapping_integers.cc\<close>: \<open>Wrap32\<close>, its conversion from a 64-bit absolute sequence
  number (\<open>wrap\<close>) and back (\<open>unwrap\<close>, given a checkpoint near the wanted answer).
\<close>

subsection \<open>Definitions\<close>

datatype wrap32 = Wrap32 (raw_value: u32)

definition wrap32_plus :: "wrap32 \<Rightarrow> u32 \<Rightarrow> wrap32" where
  "wrap32_plus w n = Wrap32 (raw_value w + n)"

definition wrap :: "u64 \<Rightarrow> wrap32 \<Rightarrow> wrap32" where
  "wrap n zero_point = wrap32_plus zero_point (ucast n)"

definition abs_distance :: "u64 \<Rightarrow> u64 \<Rightarrow> u64" where
  "abs_distance checkpoint num =
     (if checkpoint > num then checkpoint - num else num - checkpoint)"

text \<open>One round of the loop over the three candidates; the state is (result, distance).\<close>

definition closest_step :: "u64 \<Rightarrow> u64 \<Rightarrow> u64 \<times> u64 \<Rightarrow> u64 \<times> u64" where
  "closest_step checkpoint num st =
     (let cur_distance = abs_distance checkpoint num
      in if cur_distance < snd st then (num, cur_distance) else st)"

definition unwrap_candidates :: "u64 \<Rightarrow> u64 \<Rightarrow> u64 list" where
  "unwrap_candidates offset nearest_multiple =
     [(nearest_multiple - 1) * 2 ^ 32 + offset,
      nearest_multiple * 2 ^ 32 + offset,
      (nearest_multiple + 1) * 2 ^ 32 + offset]"

definition unwrap :: "wrap32 \<Rightarrow> wrap32 \<Rightarrow> u64 \<Rightarrow> u64" where
  "unwrap w zero_point checkpoint =
     (let offset = ucast (raw_value w - raw_value zero_point) :: u64;
          nearest_multiple = checkpoint div 2 ^ 32;
          nums = unwrap_candidates offset nearest_multiple
      in fst (fold (closest_step checkpoint) nums (0, u64_max)))"

subsection \<open>The loop finds a closest candidate\<close>

lemma fold_closest_inv:
  assumes "snd st = abs_distance cp (fst st)"
  shows "fst (fold (closest_step cp) nums st) \<in> insert (fst st) (set nums) \<and>
         snd (fold (closest_step cp) nums st) =
           abs_distance cp (fst (fold (closest_step cp) nums st)) \<and>
         snd (fold (closest_step cp) nums st) \<le> snd st \<and>
         (\<forall>x \<in> set nums. snd (fold (closest_step cp) nums st) \<le> abs_distance cp x)"
  using assms
proof (induction nums arbitrary: st)
  case Nil
  then show ?case by simp
next
  case (Cons x nums)
  let ?st = "closest_step cp x st"
  have st: "snd ?st = abs_distance cp (fst ?st)" "fst ?st \<in> {fst st, x}"
    "snd ?st \<le> snd st" "snd ?st \<le> abs_distance cp x"
    using Cons.prems by (auto simp: closest_step_def Let_def)
  show ?case
    using Cons.IH [OF st(1)] st(2-4) by (auto intro: order_trans)
qed

lemma fold_closest:
  assumes "abs_distance cp x < u64_max" and "x \<in> set nums"
  shows "fst (fold (closest_step cp) nums (r, u64_max)) \<in> set nums"
    and "\<forall>y \<in> set nums.
           abs_distance cp (fst (fold (closest_step cp) nums (r, u64_max))) \<le> abs_distance cp y"
  using assms(2)
proof (induction nums)
  case (Cons y nums)
  let ?st = "closest_step cp y (r, u64_max)"
  { case 1
    show ?case
    proof (cases "abs_distance cp y < u64_max")
      case True
      then have st: "?st = (y, abs_distance cp y)"
        by (simp add: closest_step_def Let_def)
      show ?thesis using fold_closest_inv [of ?st cp nums] by (auto simp: st)
    next
      case False
      then have st: "?st = (r, u64_max)" by (simp add: closest_step_def Let_def)
      with False assms(1) 1 have "x \<in> set nums" by auto
      then show ?thesis using Cons.IH(1) st by simp
    qed
  next
    case 2
    show ?case
    proof (cases "abs_distance cp y < u64_max")
      case True
      then have st: "?st = (y, abs_distance cp y)"
        by (simp add: closest_step_def Let_def)
      show ?thesis using fold_closest_inv [of ?st cp nums] unfolding fold_simps st by auto
    next
      case False
      then have st: "?st = (r, u64_max)" by (simp add: closest_step_def Let_def)
      have "abs_distance cp y = u64_max" using False by (simp add: not_less word_order.extremum_unique)
      moreover from False assms(1) 2 have "x \<in> set nums" by auto
      ultimately show ?thesis using Cons.IH(2) st by auto
    qed }
qed simp_all

subsection \<open>Reading the words as natural numbers\<close>

definition nat_distance :: "nat \<Rightarrow> nat \<Rightarrow> nat" where
  "nat_distance a b = (if a > b then a - b else b - a)"

lemma unat_abs_distance: "unat (abs_distance cp x) = nat_distance (unat cp) (unat x)"
  by (simp add: abs_distance_def nat_distance_def unat_sub_le word_less_nat_alt)

definition offset_of :: "wrap32 \<Rightarrow> wrap32 \<Rightarrow> nat" where
  "offset_of w zero_point = unat (raw_value w - raw_value zero_point)"

lemma offset_of_less [simp]: "offset_of w z < 4294967296"
  by (simp add: offset_of_def)

lemma wrap_eq_iff: "wrap n z = w \<longleftrightarrow> unat n mod 2 ^ 32 = offset_of w z"
proof -
  have "wrap n z = w \<longleftrightarrow> ucast n = raw_value w - raw_value z"
    by (cases w) (auto simp: wrap_def wrap32_plus_def algebra_simps)
  also have "\<dots> \<longleftrightarrow> unat (ucast n :: u32) = unat (raw_value w - raw_value z)"
    by (simp add: word_unat_eq_iff)
  also have "unat (ucast n :: u32) = unat n mod 2 ^ 32"
    by (simp add: unsigned_ucast_eq take_bit_eq_mod)
  finally show ?thesis by (simp add: offset_of_def)
qed

lemma unat_candidate:
  fixes k :: u64 and off :: u32
  shows "unat (k * 2 ^ 32 + ucast off) = (unat k * 2 ^ 32 + unat off) mod 2 ^ 64"
proof -
  have "unat off < 2 ^ 64" by (rule less_trans [OF u32_less]) simp
  then show ?thesis
    by (simp add: unat_word_ariths unsigned_ucast_eq take_bit_nat_eq_self mod_simps)
qed

subsection \<open>The candidates\<close>

lemma candidates_wrap:
  assumes "x \<in> set (unwrap_candidates (ucast (raw_value w - raw_value z)) k)"
  shows "wrap x z = w"
proof -
  have "unat x mod 2 ^ 32 = offset_of w z"
    if "x = j * 2 ^ 32 + ucast (raw_value w - raw_value z)" for j :: u64
  proof -
    have "unat x mod 2 ^ 32 = (unat j * 2 ^ 32 + offset_of w z) mod 2 ^ 32"
      unfolding that unat_candidate offset_of_def
      by (subst mod_mod_cancel) (simp_all add: le_imp_power_dvd)
    then show ?thesis by simp
  qed
  from this [of "k - 1"] this [of k] this [of "k + 1"] assms show ?thesis
    unfolding wrap_eq_iff unwrap_candidates_def set_simps by blast
qed

lemma candidate_word:
  fixes n j :: u64
  assumes "unat n = unat j * 2 ^ 32 + offset_of w z"
  shows "n = j * 2 ^ 32 + ucast (raw_value w - raw_value z)"
proof -
  have "unat n < 2 ^ 64" by simp
  with assms show ?thesis
    by (simp only: word_unat_eq_iff unat_candidate offset_of_def) simp
qed

lemma near_multiples:
  fixes m k d :: nat
  assumes "nat_distance (k * d + r) (m * d + q) < d" and "r < d" and "q < d"
  shows "m = k \<or> m = k + 1 \<or> m + 1 = k"
proof (rule ccontr)
  assume "\<not> ?thesis"
  then have "k + 2 \<le> m \<or> m + 2 \<le> k" by arith
  then have "k * d + 2 * d \<le> m * d \<or> m * d + 2 * d \<le> k * d"
    by (metis add_mult_distrib mult_le_mono1)
  with assms show False by (auto simp: nat_distance_def split: if_splits)
qed

lemma candidates_complete:
  assumes w: "wrap n z = w" and near: "nat_distance (unat cp) (unat n) < 2 ^ 32"
  shows "n \<in> set (unwrap_candidates (ucast (raw_value w - raw_value z)) (cp div 2 ^ 32))"
proof -
  let ?k = "cp div 2 ^ 32" and ?o = "offset_of w z"
  define m where "m = unat n div 2 ^ 32"
  have k: "unat ?k = unat cp div 2 ^ 32" by (simp add: unat_div)
  have o: "unat n mod 2 ^ 32 = ?o" using w by (simp add: wrap_eq_iff)
  have n: "unat n = m * 2 ^ 32 + ?o"
    unfolding m_def o [symmetric] by (rule div_mult_mod_eq [symmetric])
  have m: "m < 2 ^ 32" using u64_less [of n] by (simp add: m_def less_mult_imp_div_less)
  have "m = unat ?k \<or> m = unat ?k + 1 \<or> m + 1 = unat ?k"
    unfolding k
  proof (rule near_multiples)
    show "nat_distance (unat cp div 2 ^ 32 * 2 ^ 32 + unat cp mod 2 ^ 32) (m * 2 ^ 32 + ?o) < 2 ^ 32"
      using near unfolding n div_mult_mod_eq .
  qed simp_all
  then consider "m = unat ?k" | "m = unat ?k + 1" | "m + 1 = unat ?k" by blast
  then show ?thesis
  proof cases
    case 1
    with n have "n = ?k * 2 ^ 32 + ucast (raw_value w - raw_value z)"
      by (intro candidate_word) simp
    then show ?thesis by (simp add: unwrap_candidates_def)
  next
    case 2
    have "unat (?k + 1) = m"
      using 2 m by (subst unat_add_small) simp_all
    with n have "n = (?k + 1) * 2 ^ 32 + ucast (raw_value w - raw_value z)"
      by (intro candidate_word) simp
    then show ?thesis by (simp add: unwrap_candidates_def)
  next
    case 3
    have "unat (?k - 1) = m"
      using 3 by (subst unat_sub_le) simp_all
    with n have "n = (?k - 1) * 2 ^ 32 + ucast (raw_value w - raw_value z)"
      by (intro candidate_word) simp
    then show ?thesis by (simp add: unwrap_candidates_def)
  qed
qed

lemma candidate_middle:
  "abs_distance cp (cp div 2 ^ 32 * 2 ^ 32 + ucast (off :: u32)) < 2 ^ 32"
proof -
  let ?x = "cp div 2 ^ 32 * 2 ^ 32 + ucast off"
  have "unat cp div 2 ^ 32 * 2 ^ 32 + unat off < 2 ^ 64"
  proof -
    have "unat cp div 4294967296 < 4294967296"
      using u64_less [of cp] by (simp add: less_mult_imp_div_less)
    with u32_less [of off]
    have "unat cp div 4294967296 * 4294967296 + unat off < 18446744073709551616"
      by linarith
    then show ?thesis by simp
  qed
  moreover have "unat (cp div 2 ^ 32) = unat cp div 2 ^ 32" by (simp add: unat_div)
  ultimately have x: "unat ?x = unat cp div 2 ^ 32 * 2 ^ 32 + unat off"
    unfolding unat_candidate by simp
  have "nat_distance (unat cp) (unat ?x) < 2 ^ 32"
    using div_mult_mod_eq [of "unat cp" "2 ^ 32"] mod_less_divisor [of "2 ^ 32" "unat cp"]
      u32_less [of off]
    unfolding x nat_distance_def by (auto simp del: u32_less)
  then show ?thesis by (simp add: word_less_nat_alt unat_abs_distance)
qed

lemma unwrap_closest_candidate:
  "unwrap w z cp \<in> set (unwrap_candidates (ucast (raw_value w - raw_value z)) (cp div 2 ^ 32))"
  "\<forall>y \<in> set (unwrap_candidates (ucast (raw_value w - raw_value z)) (cp div 2 ^ 32)).
     nat_distance (unat cp) (unat (unwrap w z cp)) \<le> nat_distance (unat cp) (unat y)"
  "nat_distance (unat cp) (unat (unwrap w z cp)) < 2 ^ 32"
proof -
  let ?off = "raw_value w - raw_value z"
  let ?nums = "unwrap_candidates (ucast ?off) (cp div 2 ^ 32)"
  let ?x = "cp div 2 ^ 32 * 2 ^ 32 + ucast ?off"
  have x: "?x \<in> set ?nums" by (simp add: unwrap_candidates_def)
  have "abs_distance cp ?x < u64_max"
    by (rule less_trans [OF candidate_middle]) simp
  note c = fold_closest [OF this x, of 0]
  show "unwrap w z cp \<in> set ?nums"
    using c(1) by (simp add: unwrap_def Let_def)
  show *: "\<forall>y \<in> set ?nums.
      nat_distance (unat cp) (unat (unwrap w z cp)) \<le> nat_distance (unat cp) (unat y)"
    using c(2) by (simp add: unwrap_def Let_def word_le_nat_alt unat_abs_distance)
  have "nat_distance (unat cp) (unat ?x) < 2 ^ 32"
    using candidate_middle [of cp ?off] by (simp add: word_less_nat_alt unat_abs_distance)
  with * x show "nat_distance (unat cp) (unat (unwrap w z cp)) < 2 ^ 32"
    by (meson le_less_trans)
qed

subsection \<open>Properties\<close>

lemma wrap_unwrap_id: "wrap (unwrap w z cp) z = w"
  by (rule candidates_wrap [OF unwrap_closest_candidate(1)])

lemma unwrap_least_distance:
  assumes "wrap n z = w"
  shows "nat_distance (unat cp) (unat (unwrap w z cp)) \<le> nat_distance (unat cp) (unat n)"
proof (cases "nat_distance (unat cp) (unat n) < 2 ^ 32")
  case True
  from candidates_complete [OF assms True] unwrap_closest_candidate(2) show ?thesis by blast
next
  case False
  with unwrap_closest_candidate(3) [of cp w z] show ?thesis by linarith
qed

lemma mod_eq_near:
  assumes "a mod d = b mod d" and "nat_distance c a < e" and "nat_distance c b < e" and "2 * e \<le> d"
  shows "a = (b :: nat)"
proof (rule ccontr)
  assume "a \<noteq> b"
  have "d \<le> nat_distance a b"
    using assms(1) \<open>a \<noteq> b\<close> mod_eq_dvd_iff_nat [of a b d] mod_eq_dvd_iff_nat [of b a d]
    by (auto simp: nat_distance_def intro: dvd_imp_le)
  moreover have "nat_distance a b < 2 * e"
    using assms(2,3) by (auto simp: nat_distance_def split: if_splits)
  ultimately show False using assms(4) by simp
qed

lemma unwrap_wrap_near:
  assumes "nat_distance (unat cp) (unat n) < 2 ^ 31"
  shows "unwrap (wrap n z) z cp = n"
proof -
  have "wrap (unwrap (wrap n z) z cp) z = wrap n z" by (rule wrap_unwrap_id)
  then have "unat (unwrap (wrap n z) z cp) mod 2 ^ 32 = unat n mod 2 ^ 32"
    by (metis wrap_eq_iff)
  moreover have "nat_distance (unat cp) (unat (unwrap (wrap n z) z cp)) < 2 ^ 31"
    using unwrap_least_distance [of n z "wrap n z" cp] assms by simp
  ultimately have "unat (unwrap (wrap n z) z cp) = unat n"
    using assms by (rule mod_eq_near) simp
  then show ?thesis by (simp add: word_unat_eq_iff)
qed

text \<open>
  C28: \<open>unwrap\<close> returns an absolute sequence number that wraps to the given 32-bit
  number, and among all 64-bit numbers that do, one that is closest to the checkpoint.
\<close>

theorem unwrap_closest:
  "wrap (unwrap w z cp) z = w \<and>
   (\<forall>n. wrap n z = w \<longrightarrow>
      nat_distance (unat cp) (unat (unwrap w z cp)) \<le> nat_distance (unat cp) (unat n))"
  using wrap_unwrap_id unwrap_least_distance by blast

theorem unwrap_closest_witness:
  "nat_distance 10 (unat (unwrap (Wrap32 5) (Wrap32 5) 10)) \<le> nat_distance 10 (2 ^ 32)"
proof -
  have "wrap (2 ^ 32) (Wrap32 5) = Wrap32 5"
    by (simp add: wrap_def wrap32_plus_def)
  then have "nat_distance (unat (10 :: u64)) (unat (unwrap (Wrap32 5) (Wrap32 5) 10)) \<le>
      nat_distance (unat (10 :: u64)) (unat (2 ^ 32 :: u64))"
    using unwrap_closest [of "Wrap32 5" "Wrap32 5" 10] by blast
  then show ?thesis by simp
qed

text \<open>
  Wrapping an absolute sequence number and unwrapping it again gives the number back
  whenever the checkpoint is less than \<open>2 ^ 31\<close> away from it.
\<close>

theorem unwrap_wrap_roundtrip:
  assumes "nat_distance (unat cp) (unat n) < 2 ^ 31"
  shows "unwrap (wrap n z) z cp = n"
  by (rule unwrap_wrap_near [OF assms])

theorem unwrap_wrap_roundtrip_witness:
  "unwrap (wrap (3 * 2 ^ 32 + 17) (Wrap32 15)) (Wrap32 15) (3 * 2 ^ 32) = 3 * 2 ^ 32 + 17"
  by (rule unwrap_wrap_roundtrip) (simp add: nat_distance_def)

end
