(* ===== verification/Circ_Buffer.thy ===== *)
theory Circ_Buffer
  imports Prelude
begin

text \<open>
  The circular byte buffer of \<open>src/CircBuffer.h\<close>, in which the reassembler stores bytes
  that arrived early: absolute index \<open>i\<close> lives in cell \<open>i mod size\<close>.  The C library
  copies are modelled with their bounds: a copy that leaves its source or destination is
  undefined behaviour.
\<close>

subsection \<open>Memory copies\<close>

definition memcpy :: "bytes \<Rightarrow> nat \<Rightarrow> bytes \<Rightarrow> nat \<Rightarrow> nat \<Rightarrow> bytes result" where
  "memcpy dst dst_off src src_off n =
     (if dst_off + n \<le> length dst \<and> src_off + n \<le> length src
      then Inr (take dst_off dst @ take n (drop src_off src) @ drop (dst_off + n) dst)
      else Inl (Undefined ''memcpy out of bounds''))"

definition memset :: "bytes \<Rightarrow> nat \<Rightarrow> byte \<Rightarrow> nat \<Rightarrow> bytes result" where
  "memset dst dst_off c n =
     (if dst_off + n \<le> length dst
      then Inr (take dst_off dst @ replicate n c @ drop (dst_off + n) dst)
      else Inl (Undefined ''memset out of bounds''))"

abbreviation blank :: byte where
  "blank \<equiv> 32"

subsection \<open>State and operations\<close>

record circ_buffer =
  cb_buffer :: bytes
  cb_first_unpopped :: u64
  cb_size :: u64
  cb_size_set :: bool

definition new_circ_buffer :: circ_buffer where
  "new_circ_buffer = \<lparr>cb_buffer = [], cb_first_unpopped = 0, cb_size = 65000,
                      cb_size_set = False\<rparr>"

definition circ_buffer_of_size :: "u64 \<Rightarrow> circ_buffer" where
  "circ_buffer_of_size sz =
     \<lparr>cb_buffer = replicate (unat sz) blank, cb_first_unpopped = 0, cb_size = sz,
      cb_size_set = True\<rparr>"

definition circ_set_size :: "u64 \<Rightarrow> circ_buffer \<Rightarrow> circ_buffer" where
  "circ_set_size sz cb =
     (if cb_size_set cb then cb
      else cb\<lparr>cb_buffer := replicate (unat sz) blank, cb_size := sz, cb_size_set := True\<rparr>)"

definition circ_insert :: "u64 \<Rightarrow> bytes \<Rightarrow> circ_buffer \<Rightarrow> circ_buffer result" where
  "circ_insert first_index data cb =
     (if cb_size cb = 0 then Inl (Undefined ''modulo by zero'')
      else
        let index = unat (first_index mod cb_size cb);
            first_size = unat (cb_size cb - first_index mod cb_size cb)
        in if first_size < length data
           then bind_result (memcpy (cb_buffer cb) index data 0 first_size) (\<lambda>buffer.
                bind_result (memcpy buffer 0 data first_size (length data - first_size)) (\<lambda>buffer.
                Inr (cb\<lparr>cb_buffer := buffer\<rparr>)))
           else bind_result (memcpy (cb_buffer cb) index data 0 (length data)) (\<lambda>buffer.
                Inr (cb\<lparr>cb_buffer := buffer\<rparr>)))"

definition circ_pop_bs :: "u64 \<Rightarrow> circ_buffer \<Rightarrow> circ_buffer" where
  "circ_pop_bs delta cb = cb\<lparr>cb_first_unpopped := cb_first_unpopped cb + delta\<rparr>"

definition circ_pop :: "u64 \<Rightarrow> nat \<Rightarrow> circ_buffer \<Rightarrow> (circ_buffer \<times> bytes) result" where
  "circ_pop index amount cb =
     (if cb_size cb = 0 then Inl (Undefined ''modulo by zero'')
      else
        let data = replicate amount blank;
            off = unat (index mod cb_size cb);
            distance_to_end = unat (cb_size cb - index mod cb_size cb)
        in if distance_to_end < amount
           then bind_result (memcpy data 0 (cb_buffer cb) off distance_to_end) (\<lambda>data.
                bind_result (memset (cb_buffer cb) off blank distance_to_end) (\<lambda>buffer.
                bind_result (memcpy data distance_to_end buffer 0 (length data - distance_to_end)) (\<lambda>data.
                bind_result (memset buffer 0 blank (length data - distance_to_end)) (\<lambda>buffer.
                Inr (cb\<lparr>cb_buffer := buffer\<rparr>, data)))))
           else bind_result (memcpy data 0 (cb_buffer cb) off amount) (\<lambda>data.
                bind_result (memset (cb_buffer cb) off blank amount) (\<lambda>buffer.
                Inr (cb\<lparr>cb_buffer := buffer\<rparr>, data))))"

definition circ_set_first_unpopped :: "u64 \<Rightarrow> circ_buffer \<Rightarrow> circ_buffer" where
  "circ_set_first_unpopped i cb = cb\<lparr>cb_first_unpopped := i\<rparr>"

subsection \<open>Cells by absolute index\<close>

definition circ_wf :: "circ_buffer \<Rightarrow> bool" where
  "circ_wf cb \<longleftrightarrow> cb_size_set cb \<and> cb_size cb \<noteq> 0 \<and> length (cb_buffer cb) = unat (cb_size cb)"

definition cell :: "circ_buffer \<Rightarrow> nat \<Rightarrow> byte" where
  "cell cb i = cb_buffer cb ! (i mod unat (cb_size cb))"

lemma circ_set_size_wf: "sz \<noteq> 0 \<Longrightarrow> \<not> cb_size_set cb \<Longrightarrow> circ_wf (circ_set_size sz cb)"
  by (simp add: circ_wf_def circ_set_size_def)

lemma circ_set_size_id [simp]: "cb_size_set cb \<Longrightarrow> circ_set_size sz cb = cb"
  by (simp add: circ_set_size_def)

lemma circ_set_first_unpopped_simps [simp]:
  "circ_wf (circ_set_first_unpopped i cb) = circ_wf cb"
  "cell (circ_set_first_unpopped i cb) = cell cb"
  "cb_size (circ_set_first_unpopped i cb) = cb_size cb"
  "cb_size_set (circ_set_first_unpopped i cb) = cb_size_set cb"
  "cb_buffer (circ_set_first_unpopped i cb) = cb_buffer cb"
  by (simp_all add: circ_set_first_unpopped_def circ_wf_def cell_def fun_eq_iff)

lemma mod_add_shift:
  fixes f j n :: nat
  assumes "j < n"
  shows "(f + j) mod n = (if f mod n + j < n then f mod n + j else f mod n + j - n)"
proof -
  have n: "0 < n" using assms by simp
  have "(f + j) mod n = (f mod n + j) mod n" by (simp add: mod_add_left_eq)
  moreover have "(f mod n + j) mod n = f mod n + j - n" if "\<not> f mod n + j < n"
  proof -
    have "f mod n + j - n < n" using mod_less_divisor [OF n, of f] assms by linarith
    with that show ?thesis by (simp add: le_mod_geq)
  qed
  ultimately show ?thesis by simp
qed

text \<open>
  Overwriting a block of a ring of \<open>n\<close> cells, starting at cell \<open>k\<close> and running around the
  end when the block does not fit.
\<close>

definition ring_write :: "bytes \<Rightarrow> nat \<Rightarrow> bytes \<Rightarrow> bytes" where
  "ring_write buf k data =
     (let first_size = length buf - k
      in if first_size < length data
         then drop first_size data @ drop (length data - first_size) (take k buf) @
              take first_size data
         else take k buf @ data @ drop (k + length data) buf)"

lemma length_ring_write [simp]:
  assumes "k < length buf" and "length data \<le> length buf"
  shows "length (ring_write buf k data) = length buf"
proof (cases "length buf - k < length data")
  case True
  with assms show ?thesis by (simp add: ring_write_def Let_def)
next
  case False
  with assms show ?thesis by (simp add: ring_write_def Let_def)
qed

lemma nth_ring_write:
  assumes k: "f mod length buf = k" "k < length buf"
    and d: "length data \<le> length buf" and j: "j < length buf"
  shows "ring_write buf k data ! ((f + j) mod length buf) =
           (if j < length data then data ! j else buf ! ((f + j) mod length buf))"
proof -
  have m: "(f + j) mod length buf = (if k + j < length buf then k + j else k + j - length buf)"
    using mod_add_shift [OF j, of f] k by simp
  show ?thesis
  proof (cases "length buf - k < length data")
    case True
    show ?thesis
    proof (cases "k + j < length buf")
      case False
      then have "length buf - k \<le> j" by simp
      then obtain p where p: "j = length buf - k + p"
        using le_Suc_ex by blast
      have m': "(f + j) mod length buf = p"
        using m False k(2) by (simp add: p)
      show ?thesis
        unfolding m' using True k(2) d j p
        by (auto simp: ring_write_def Let_def nth_append)
    next
      case fits: True
      let ?fs = "length buf - k"
      let ?A = "drop ?fs data @ drop (length data - ?fs) (take k buf)"
      have A: "length ?A = k" using True k(2) d by simp
      have w: "ring_write buf k data = ?A @ take ?fs data"
        using True by (simp add: ring_write_def Let_def)
      have "(?A @ take ?fs data) ! (k + j) = take ?fs data ! j"
        using nth_append_length_plus [of ?A "take ?fs data" j] unfolding A .
      with fits True m show ?thesis unfolding w by auto
    qed
  next
    case False
    have "k + j - length buf < k" "\<not> j < length data" if "\<not> k + j < length buf"
      using that False k(2) j by auto
    with False m k d j show ?thesis
      by (auto simp: ring_write_def Let_def nth_append)
  qed
qed

lemma unat_index:
  assumes "circ_wf cb"
  shows "unat (i mod cb_size cb) = unat i mod length (cb_buffer cb)"
    and "unat (cb_size cb - i mod cb_size cb) =
           length (cb_buffer cb) - unat i mod length (cb_buffer cb)"
proof -
  have pos: "0 < unat (cb_size cb)"
    using assms by (simp add: circ_wf_def unat_gt_0)
  then have le: "unat i mod unat (cb_size cb) \<le> unat (cb_size cb)"
    using mod_less_divisor less_imp_le by blast
  show "unat (i mod cb_size cb) = unat i mod length (cb_buffer cb)"
    using assms by (simp add: circ_wf_def unat_mod)
  show "unat (cb_size cb - i mod cb_size cb) =
           length (cb_buffer cb) - unat i mod length (cb_buffer cb)"
    using assms le by (subst unat_sub_le) (simp_all add: circ_wf_def unat_mod)
qed

lemma circ_insert_ring:
  assumes wf: "circ_wf cb" and len: "length data \<le> length (cb_buffer cb)"
  shows "circ_insert i data cb =
           Inr (cb\<lparr>cb_buffer :=
             ring_write (cb_buffer cb) (unat i mod length (cb_buffer cb)) data\<rparr>)"
proof -
  have nz: "cb_size cb \<noteq> 0" using wf by (simp add: circ_wf_def)
  then have "cb_buffer cb \<noteq> []" using wf by (auto simp: circ_wf_def unat_eq_zero)
  then have k: "unat i mod length (cb_buffer cb) < length (cb_buffer cb)" by simp
  then show ?thesis
    using nz len unat_index [OF wf, of i]
    by (auto simp: circ_insert_def Let_def memcpy_def ring_write_def min_def drop_take)
qed

definition ring_read :: "bytes \<Rightarrow> nat \<Rightarrow> nat \<Rightarrow> bytes" where
  "ring_read buf i amount = map (\<lambda>j. buf ! ((i + j) mod length buf)) [0..<amount]"

lemma ring_read_split:
  assumes k: "i mod length buf = k" "k < length buf" and a: "amount \<le> length buf"
  shows "ring_read buf i amount =
           (if length buf - k < amount
            then drop k buf @ take (amount - (length buf - k)) buf
            else take amount (drop k buf))"
proof (rule nth_equalityI)
  fix j assume "j < length (ring_read buf i amount)"
  then have j: "j < amount" by (simp add: ring_read_def)
  with a have "j < length buf" by simp
  from mod_add_shift [OF this, of i] k(1)
  have m: "(i + j) mod length buf = (if k + j < length buf then k + j else k + j - length buf)"
    by simp
  show "ring_read buf i amount ! j =
          (if length buf - k < amount
           then drop k buf @ take (amount - (length buf - k)) buf
           else take amount (drop k buf)) ! j"
    using j m a k(2) by (auto simp: ring_read_def nth_append add.commute)
qed (use k(2) a in \<open>auto simp: ring_read_def\<close>)

lemma wrapped_pop:
  assumes "length buf = k + d" and "r \<le> k"
  shows "bind_result (memcpy (replicate (d + r) blank) 0 buf k d) (\<lambda>data.
         bind_result (memset buf k blank d) (\<lambda>buffer.
         bind_result (memcpy data d buffer 0 (length data - d)) (\<lambda>data.
         bind_result (memset buffer 0 blank (length data - d)) (\<lambda>buffer.
         Inr (cb\<lparr>cb_buffer := buffer\<rparr>, data))))) =
         Inr (cb\<lparr>cb_buffer := replicate r blank @ drop r (take k buf) @ replicate d blank\<rparr>,
              drop k buf @ take r buf)"
  using assms by (simp add: memcpy_def memset_def min_def)

lemma circ_pop_ring:
  assumes wf: "circ_wf cb" and len: "amount \<le> length (cb_buffer cb)"
  shows "circ_pop i amount cb =
           Inr (cb\<lparr>cb_buffer := ring_write (cb_buffer cb) (unat i mod length (cb_buffer cb))
                                 (replicate amount blank)\<rparr>,
                ring_read (cb_buffer cb) (unat i) amount)"
proof -
  let ?buf = "cb_buffer cb" and ?k = "unat i mod length (cb_buffer cb)"
  have nz: "cb_size cb \<noteq> 0" using wf by (simp add: circ_wf_def)
  then have ne: "?buf \<noteq> []" using wf by (auto simp: circ_wf_def unat_eq_zero)
  then have k: "?k < length ?buf" by simp
  note idx = unat_index [OF wf, of i] and rd = ring_read_split [OF refl k len]
  show ?thesis
  proof (cases "length ?buf - ?k < amount")
    case True
    define d where "d = length ?buf - ?k"
    define r where "r = amount - d"
    have a: "amount = d + r" and r: "r \<le> ?k" and n: "length ?buf = ?k + d" and d: "d < amount"
      using True k len by (auto simp: d_def r_def)
    have w: "ring_write ?buf ?k (replicate amount blank) =
               replicate r blank @ drop r (take ?k ?buf) @ replicate d blank"
      using True by (simp add: ring_write_def Let_def a flip: d_def)
    show ?thesis
      unfolding rd circ_pop_def Let_def idx w
      using wrapped_pop [OF n r, of cb] nz d by (simp add: a flip: d_def)
  next
    case False
    with nz len k show ?thesis
      unfolding rd circ_pop_def Let_def idx
      by (simp add: memcpy_def memset_def ring_write_def)
  qed
qed

text \<open>
  A window of \<open>size\<close> consecutive absolute indices has one cell for each index.
\<close>

lemma ring_write_cell:
  fixes u i x :: nat
  assumes len: "length data \<le> length buf" and pos: "buf \<noteq> []"
    and win: "u \<le> i" "i + length data \<le> u + length buf" "u \<le> x" "x < u + length buf"
  shows "ring_write buf (i mod length buf) data ! (x mod length buf) =
           (if i \<le> x \<and> x < i + length data then data ! (x - i) else buf ! (x mod length buf))"
proof -
  let ?n = "length buf"
  have k: "i mod ?n < ?n" using pos by simp
  define j where "j = (if i \<le> x then x - i else x + ?n - i)"
  have j: "j < ?n" and "(i + j) mod ?n = x mod ?n"
    and c: "j < length data \<longleftrightarrow> i \<le> x \<and> x < i + length data" and "i \<le> x \<Longrightarrow> j = x - i"
    using win len by (auto simp: j_def)
  with nth_ring_write [OF refl k len j] show ?thesis by auto
qed

lemma circ_insert_cells:
  assumes wf: "circ_wf cb" and len: "length data \<le> unat (cb_size cb)"
  obtains cb' where "circ_insert i data cb = Inr cb'" and "circ_wf cb'"
    and "cb_size cb' = cb_size cb"
    and "\<forall>u x. u \<le> unat i \<and> unat i + length data \<le> u + unat (cb_size cb) \<and>
           u \<le> x \<and> x < u + unat (cb_size cb) \<longrightarrow>
           cell cb' x = (if unat i \<le> x \<and> x < unat i + length data
                         then data ! (x - unat i) else cell cb x)"
proof -
  let ?cb = "cb\<lparr>cb_buffer := ring_write (cb_buffer cb) (unat i mod length (cb_buffer cb)) data\<rparr>"
  have n: "unat (cb_size cb) = length (cb_buffer cb)" and ne: "cb_buffer cb \<noteq> []"
    using wf by (auto simp: circ_wf_def unat_eq_zero)
  from circ_insert_ring [OF wf, of data i] len n have "circ_insert i data cb = Inr ?cb" by simp
  moreover have "circ_wf ?cb" using wf len ne n by (simp add: circ_wf_def)
  moreover have "cb_size ?cb = cb_size cb" by simp
  ultimately show thesis
  proof (rule that [of ?cb])
    show "\<forall>u x. u \<le> unat i \<and> unat i + length data \<le> u + unat (cb_size cb) \<and>
        u \<le> x \<and> x < u + unat (cb_size cb) \<longrightarrow>
        cell ?cb x = (if unat i \<le> x \<and> x < unat i + length data then data ! (x - unat i) else cell cb x)"
    proof (intro allI impI, elim conjE)
      fix u x
      assume "u \<le> unat i" "unat i + length data \<le> u + unat (cb_size cb)" "u \<le> x" "x < u + unat (cb_size cb)"
      then show "cell ?cb x = (if unat i \<le> x \<and> x < unat i + length data then data ! (x - unat i) else cell cb x)"
        using ring_write_cell [of data "cb_buffer cb" u "unat i" x] len ne
        by (simp add: cell_def n)
    qed
  qed
qed

lemma circ_pop_cells:
  assumes wf: "circ_wf cb" and len: "amount \<le> unat (cb_size cb)"
  obtains cb' where "circ_pop i amount cb = Inr (cb', map (cell cb) [unat i..<unat i + amount])"
    and "circ_wf cb'" and "cb_size cb' = cb_size cb"
    and "\<forall>u x. u \<le> unat i \<and> unat i + amount \<le> u + unat (cb_size cb) \<and>
           u \<le> x \<and> x < u + unat (cb_size cb) \<and> \<not> (unat i \<le> x \<and> x < unat i + amount) \<longrightarrow>
           cell cb' x = cell cb x"
proof -
  let ?cb = "cb\<lparr>cb_buffer := ring_write (cb_buffer cb) (unat i mod length (cb_buffer cb))
                                (replicate amount blank)\<rparr>"
  have n: "unat (cb_size cb) = length (cb_buffer cb)" and ne: "cb_buffer cb \<noteq> []"
    using wf by (auto simp: circ_wf_def unat_eq_zero)
  have "ring_read (cb_buffer cb) (unat i) amount = map (cell cb) [unat i..<unat i + amount]"
    by (rule nth_equalityI) (simp_all add: ring_read_def cell_def n)
  with circ_pop_ring [OF wf, of amount i] len n
  have "circ_pop i amount cb = Inr (?cb, map (cell cb) [unat i..<unat i + amount])" by simp
  moreover have "circ_wf ?cb" using wf len ne n by (simp add: circ_wf_def)
  moreover have "cb_size ?cb = cb_size cb" by simp
  ultimately show thesis
  proof (rule that [of ?cb])
    show "\<forall>u x. u \<le> unat i \<and> unat i + amount \<le> u + unat (cb_size cb) \<and>
        u \<le> x \<and> x < u + unat (cb_size cb) \<and> \<not> (unat i \<le> x \<and> x < unat i + amount) \<longrightarrow>
        cell ?cb x = cell cb x"
    proof (intro allI impI, elim conjE)
      fix u x
      assume "u \<le> unat i" "unat i + amount \<le> u + unat (cb_size cb)" "u \<le> x" "x < u + unat (cb_size cb)"
        "\<not> (unat i \<le> x \<and> x < unat i + amount)"
      then show "cell ?cb x = cell cb x"
        using ring_write_cell [of "replicate amount blank" "cb_buffer cb" u "unat i" x] len ne
        by (simp add: cell_def n del: de_Morgan_conj)
    qed
  qed
qed

end
