(* ===== verification/Interval_Set.thy ===== *)
theory Interval_Set
  imports Prelude
begin

text \<open>
  The set of half-open intervals \<open>[start, end)\<close> of \<open>src/Intervals.h\<close>, with which the
  reassembler remembers which bytes it holds.  The C++ \<open>std::set\<close> of two-element vectors
  is its sequence of elements in the vectors' lexicographic order.
\<close>

subsection \<open>State and operations\<close>

type_synonym interval = "u64 \<times> u64"
type_synonym interval_set = "interval list"

definition interval_less :: "interval \<Rightarrow> interval \<Rightarrow> bool" where
  "interval_less i j \<longleftrightarrow> fst i < fst j \<or> (fst i = fst j \<and> snd i < snd j)"

text \<open>\<open>std::set::insert\<close>: in order, no effect on an element that is present.\<close>

fun set_insert :: "interval \<Rightarrow> interval_set \<Rightarrow> interval_set" where
  "set_insert i [] = [i]"
| "set_insert i (j # js) =
     (if interval_less i j then i # j # js
      else if interval_less j i then j # set_insert i js
      else j # js)"

definition contains :: "u64 \<Rightarrow> u64 \<Rightarrow> u64 \<Rightarrow> bool" where
  "contains val start fin \<longleftrightarrow> start \<le> val \<and> val \<le> fin"

text \<open>
  The loop of \<open>get_mergeable\<close>: true as soon as an interval of the set contains \<open>i\<close>;
  otherwise collects the intervals that overlap or touch it.
\<close>

fun get_mergeable :: "interval \<Rightarrow> interval_set \<Rightarrow> interval list \<Rightarrow> bool \<times> interval list" where
  "get_mergeable i [] mergeable = (False, mergeable)"
| "get_mergeable i (e # es) mergeable =
     (if contains (fst i) (fst e) (snd e) \<and> contains (snd i) (fst e) (snd e) then (True, mergeable)
      else if contains (fst e) (fst i) (snd i) \<or> contains (snd e) (fst i) (snd i)
      then get_mergeable i es (mergeable @ [e])
      else get_mergeable i es mergeable)"

definition merge_step :: "interval \<Rightarrow> u64 \<times> u64 \<times> interval_set \<Rightarrow> u64 \<times> u64 \<times> interval_set" where
  "merge_step it st =
     (let (interval_start, interval_end, intervals) = st
      in (min interval_start (fst it), max interval_end (snd it), remove1 it intervals))"

definition merge_and_insert :: "interval \<Rightarrow> interval_set \<Rightarrow> interval_set" where
  "merge_and_insert i intervals =
     (let (contained, mergeable) = get_mergeable i intervals []
      in if fst i = snd i then intervals
         else if contained then intervals
         else let (s, e, intervals) = fold merge_step mergeable (fst i, snd i, intervals)
              in set_insert (s, e) intervals)"

definition interval_length :: "interval \<Rightarrow> u64" where
  "interval_length i = snd i - fst i"

subsection \<open>Well-formed sets and what they cover\<close>

definition interval_ok :: "interval \<Rightarrow> bool" where
  "interval_ok i \<longleftrightarrow> fst i < snd i"

text \<open>Non-empty, sorted, disjoint, and with a gap between neighbours.\<close>

definition intervals_wf :: "interval_set \<Rightarrow> bool" where
  "intervals_wf is \<longleftrightarrow> (\<forall>i \<in> set is. interval_ok i) \<and> sorted_wrt (\<lambda>i j. snd i < fst j) is"

definition span :: "interval \<Rightarrow> nat set" where
  "span i = {unat (fst i)..<unat (snd i)}"

definition covered :: "interval_set \<Rightarrow> nat set" where
  "covered is = (\<Union>i \<in> set is. span i)"

lemma covered_simps [simp]:
  "covered [] = {}"
  "covered (i # is) = span i \<union> covered is"
  "covered (is @ js) = covered is \<union> covered js"
  by (auto simp: covered_def)

lemma intervals_wf_Nil [simp]: "intervals_wf []"
  by (simp add: intervals_wf_def)

lemma intervals_wf_append:
  "intervals_wf (xs @ ys) \<longleftrightarrow>
     intervals_wf xs \<and> intervals_wf ys \<and> (\<forall>x \<in> set xs. \<forall>y \<in> set ys. snd x < fst y)"
  by (auto simp: intervals_wf_def sorted_wrt_append)

lemma intervals_wf_Cons:
  "intervals_wf (x # ys) \<longleftrightarrow>
     interval_ok x \<and> intervals_wf ys \<and> (\<forall>y \<in> set ys. snd x < fst y)"
  by (auto simp: intervals_wf_def)

subsection \<open>Before, touching, after\<close>

definition touches :: "u64 \<Rightarrow> u64 \<Rightarrow> interval \<Rightarrow> bool" where
  "touches s e i \<longleftrightarrow> fst i \<le> e \<and> s \<le> snd i"

lemma split_intervals:
  assumes "intervals_wf is" and "s \<le> e"
  obtains l t r where "is = l @ t @ r" and "\<forall>i \<in> set l. snd i < s"
    and "\<forall>i \<in> set t. touches s e i" and "\<forall>i \<in> set r. e < fst i"
  using assms(1)
proof (induction "is" arbitrary: thesis)
  case Nil
  then show ?case by fastforce
next
  case (Cons i "is")
  from Cons.prems(2) have wf: "interval_ok i" "intervals_wf is" "\<forall>j \<in> set is. snd i < fst j"
    by (simp_all add: intervals_wf_Cons)
  obtain l t r where ih: "is = l @ t @ r" "\<forall>i \<in> set l. snd i < s"
    "\<forall>i \<in> set t. touches s e i" "\<forall>i \<in> set r. e < fst i"
    using Cons.IH [OF _ wf(2)] by blast
  consider "snd i < s" | "e < fst i" | "touches s e i" "s \<le> snd i"
    by (fastforce simp: touches_def not_less)
  then show ?case
  proof cases
    case 1
    with ih show ?thesis by (intro Cons.prems(1) [of "i # l" t r]) auto
  next
    case 2
    have "\<forall>j \<in> set is. e < fst j"
      using wf 2 by (fastforce simp: interval_ok_def)
    with 2 show ?thesis by (intro Cons.prems(1) [of "[]" "[]" "i # is"]) auto
  next
    case 3
    have "l = []"
      using ih(1,2) wf 3(2) by (cases l) (auto simp: intervals_wf_Cons interval_ok_def)
    with ih 3 show ?thesis by (intro Cons.prems(1) [of "[]" "i # t" r]) auto
  qed
qed

lemma get_mergeable_result:
  "get_mergeable i es acc = (c, ms) \<Longrightarrow>
     (c \<longleftrightarrow> (\<exists>e \<in> set es. contains (fst i) (fst e) (snd e) \<and> contains (snd i) (fst e) (snd e))) \<and>
     (\<not> c \<longrightarrow> ms = acc @ filter (\<lambda>e. contains (fst e) (fst i) (snd i) \<or>
                                     contains (snd e) (fst i) (snd i)) es)"
  by (induction i es acc rule: get_mergeable.induct) (auto split: if_splits)

lemma mergeable_touches:
  assumes "fst i \<le> snd i" and "interval_ok e"
    and "\<not> (contains (fst i) (fst e) (snd e) \<and> contains (snd i) (fst e) (snd e))"
  shows "(contains (fst e) (fst i) (snd i) \<or> contains (snd e) (fst i) (snd i)) \<longleftrightarrow>
         touches (fst i) (snd i) e"
  using assms by (auto simp: contains_def touches_def interval_ok_def)

lemma span_merge:
  assumes "touches s e i" and "s \<le> e" and "interval_ok i"
  shows "span (min s (fst i), max e (snd i)) = span (s, e) \<union> span i"
  using assms
  by (auto simp: span_def touches_def interval_ok_def min_def max_def word_le_nat_alt
      word_less_nat_alt)

lemma fold_merge_step:
  assumes "\<forall>i \<in> set t. touches s e i \<and> interval_ok i" and "s \<le> e" and "distinct t"
    and "\<forall>i \<in> set t. i \<notin> set l"
  shows "\<exists>s' e'. fold merge_step t (s, e, l @ t @ r) = (s', e', l @ r) \<and> s' \<le> s \<and> e \<le> e' \<and>
           s' \<in> insert s (fst ` set t) \<and> e' \<in> insert e (snd ` set t) \<and>
           span (s', e') = span (s, e) \<union> covered t"
  using assms
proof (induction t arbitrary: s e)
  case Nil
  then show ?case by simp
next
  case (Cons i t)
  let ?s = "min s (fst i)" and ?e = "max e (snd i)"
  have i: "touches s e i" "interval_ok i" using Cons.prems by auto
  have "\<exists>s' e'. fold merge_step t (?s, ?e, l @ t @ r) = (s', e', l @ r) \<and> s' \<le> ?s \<and> ?e \<le> e' \<and>
          s' \<in> insert ?s (fst ` set t) \<and> e' \<in> insert ?e (snd ` set t) \<and>
          span (s', e') = span (?s, ?e) \<union> covered t"
    using Cons.prems i by (intro Cons.IH) (auto simp: touches_def min_le_iff_disj le_max_iff_disj)
  then obtain s' e' where ih: "fold merge_step t (?s, ?e, l @ t @ r) = (s', e', l @ r)"
    "s' \<le> ?s" "?e \<le> e'" "s' \<in> insert ?s (fst ` set t)" "e' \<in> insert ?e (snd ` set t)"
    "span (s', e') = span (?s, ?e) \<union> covered t" by blast
  have "remove1 i (l @ (i # t) @ r) = l @ t @ r"
    using Cons.prems by (simp add: remove1_append)
  with ih(1) have "fold merge_step (i # t) (s, e, l @ (i # t) @ r) = (s', e', l @ r)"
    by (simp add: merge_step_def)
  moreover have "s' \<in> insert s (fst ` set (i # t))" "e' \<in> insert e (snd ` set (i # t))"
    using ih(4,5) by (auto simp: min_def max_def split: if_splits)
  moreover have "s' \<le> s" "e \<le> e'" using ih(2,3) by simp_all
  moreover have "span (s', e') = span (s, e) \<union> covered (i # t)"
    using ih(6) span_merge [OF i(1) Cons.prems(2) i(2)] by (simp add: Un_assoc)
  ultimately show ?case by blast
qed

lemma interval_less_asym: "interval_less i j \<Longrightarrow> \<not> interval_less j i"
  unfolding interval_less_def by (metis order.asym order.irrefl)

lemma set_insert_between:
  assumes "\<forall>i \<in> set l. interval_less i x" and "\<forall>i \<in> set r. interval_less x i"
  shows "set_insert x (l @ r) = l @ x # r"
  using assms
proof (induction l)
  case Nil
  then show ?case by (cases r) auto
next
  case (Cons i l)
  from Cons.prems have "interval_less i x" "\<not> interval_less x i"
    by (auto dest: interval_less_asym)
  with Cons show ?case by simp
qed

subsection \<open>Merging\<close>

lemma merge_contained:
  assumes "fst i \<le> snd i" and "e \<in> set is"
    and "contains (fst i) (fst e) (snd e)" and "contains (snd i) (fst e) (snd e)"
  shows "span i \<subseteq> covered is"
proof -
  have "span i \<subseteq> span e"
    using assms(3,4) by (auto simp: span_def contains_def word_le_nat_alt)
  with assms(2) show ?thesis by (auto simp: covered_def)
qed

lemma intervals_wf_distinct: "intervals_wf is \<Longrightarrow> distinct is"
  by (induction "is") (auto simp: intervals_wf_Cons interval_ok_def)

lemma merge_and_insert_merge:
  assumes wf: "intervals_wf is" and less: "s < e"
    and nc: "\<not> fst (get_mergeable (s, e) is [])"
  obtains l t r s' e' where "is = l @ t @ r" and "merge_and_insert (s, e) is = l @ (s', e') # r"
    and "intervals_wf (l @ (s', e') # r)" and "span (s', e') = span (s, e) \<union> covered t"
proof -
  obtain l t r where lr: "is = l @ t @ r" "\<forall>i \<in> set l. snd i < s"
    "\<forall>i \<in> set t. touches s e i" "\<forall>i \<in> set r. e < fst i"
    using split_intervals [OF wf less_imp_le [OF less]] .
  have ok: "\<forall>i \<in> set is. interval_ok i" using wf by (simp add: intervals_wf_def)
  obtain ms where gm: "get_mergeable (s, e) is [] = (False, ms)"
    using nc by (cases "get_mergeable (s, e) is []") auto
  have m: "(contains (fst i) s e \<or> contains (snd i) s e) = touches s e i" if "i \<in> set is" for i
    using mergeable_touches [of "(s, e)" i] get_mergeable_result [OF gm] ok less that by simp
  have "ms = filter (touches s e) is"
    using get_mergeable_result [OF gm] m by (simp cong: filter_cong)
  also have "\<dots> = t"
    using lr by (auto simp: touches_def filter_empty_conv filter_id_conv not_le)
  finally have ms: "ms = t" .
  have d: "distinct is" using wf by (rule intervals_wf_distinct)
  have "\<exists>s' e'. fold merge_step t (s, e, l @ t @ r) = (s', e', l @ r) \<and> s' \<le> s \<and> e \<le> e' \<and>
          s' \<in> insert s (fst ` set t) \<and> e' \<in> insert e (snd ` set t) \<and>
          span (s', e') = span (s, e) \<union> covered t"
    using lr ok d less by (intro fold_merge_step) auto
  then obtain s' e' where f: "fold merge_step t (s, e, l @ t @ r) = (s', e', l @ r)"
    "s' \<le> s" "e \<le> e'" "s' \<in> insert s (fst ` set t)" "e' \<in> insert e (snd ` set t)"
    "span (s', e') = span (s, e) \<union> covered t" by blast
  have l: "\<forall>i \<in> set l. snd i < s'" and r: "\<forall>i \<in> set r. e' < fst i"
    using f(4,5) lr wf by (auto simp: intervals_wf_append)
  have less': "s' < e'" using f(2,3) less by simp
  have wf': "intervals_wf (l @ (s', e') # r)"
    using wf l r less' unfolding lr(1)
    by (auto simp: intervals_wf_append intervals_wf_Cons interval_ok_def)
  have "merge_and_insert (s, e) is = set_insert (s', e') (l @ r)"
    using gm f(1) less_imp_neq [OF less] unfolding lr(1) ms by (simp add: merge_and_insert_def)
  also have "\<dots> = l @ (s', e') # r"
  proof (rule set_insert_between)
    show "\<forall>i \<in> set l. interval_less i (s', e')"
      using l ok unfolding lr(1)
      by (auto simp: interval_less_def interval_ok_def intro: less_trans)
    show "\<forall>i \<in> set r. interval_less (s', e') i"
      using r less' by (auto simp: interval_less_def intro: less_trans)
  qed
  finally show thesis using that lr(1) wf' f(6) by blast
qed

lemma merge_and_insert_correct:
  assumes wf: "intervals_wf is" and le: "s \<le> e"
  shows "intervals_wf (merge_and_insert (s, e) is)"
    and "covered (merge_and_insert (s, e) is) = covered is \<union> span (s, e)"
proof -
  obtain c ms where gm: "get_mergeable (s, e) is [] = (c, ms)" by fastforce
  have "intervals_wf (merge_and_insert (s, e) is) \<and>
        covered (merge_and_insert (s, e) is) = covered is \<union> span (s, e)"
  proof (cases "s = e")
    case True
    with wf show ?thesis by (simp add: merge_and_insert_def gm span_def)
  next
    case ne: False
    show ?thesis
    proof (cases c)
      case True
      then have "merge_and_insert (s, e) is = is" by (simp add: merge_and_insert_def gm)
      moreover have "span (s, e) \<subseteq> covered is"
        using get_mergeable_result [OF gm] True le merge_contained [of "(s, e)"] by auto
      ultimately show ?thesis using wf by auto
    next
      case False
      obtain l t r s' e' where "is = l @ t @ r" "merge_and_insert (s, e) is = l @ (s', e') # r"
        "intervals_wf (l @ (s', e') # r)" "span (s', e') = span (s, e) \<union> covered t"
        by (rule merge_and_insert_merge [OF wf, of s e]) (use le ne False gm in auto)
      then show ?thesis by auto
    qed
  qed
  then show "intervals_wf (merge_and_insert (s, e) is)"
    and "covered (merge_and_insert (s, e) is) = covered is \<union> span (s, e)" by simp_all
qed

lemma finite_covered [simp]: "finite (covered is)"
  by (simp add: covered_def span_def)

lemma span_ahead:
  assumes "intervals_wf (i # is)" and "x \<in> covered is"
  shows "unat (snd i) < x"
  using assms
  by (auto simp: intervals_wf_Cons covered_def span_def word_less_nat_alt)

lemma covered_from:
  assumes "intervals_wf is" and "x \<in> covered is"
  shows "unat (fst (hd is)) \<le> x"
  using assms
proof (induction "is")
  case (Cons i "is")
  then have "unat (fst i) < unat (snd i)"
    by (simp add: intervals_wf_Cons interval_ok_def word_less_nat_alt)
  with Cons.prems span_ahead [OF Cons.prems(1), of x] show ?case
    by (auto simp: span_def)
qed simp

lemma sum_interval_length:
  assumes "intervals_wf is"
  shows "(\<Sum>i\<leftarrow>is. unat (interval_length i)) = card (covered is)"
  using assms
proof (induction "is")
  case (Cons i "is")
  have wf: "interval_ok i" "intervals_wf is" using Cons.prems by (simp_all add: intervals_wf_Cons)
  have "unat (interval_length i) = card (span i)"
    using wf(1) by (simp add: interval_length_def span_def interval_ok_def unat_sub_le
        word_less_nat_alt less_imp_le)
  moreover have "span i \<inter> covered is = {}"
    using span_ahead [OF Cons.prems] by (fastforce simp: span_def)
  ultimately show ?case
    using Cons.IH wf(2) by (simp add: card_Un_disjoint span_def)
qed simp

subsection \<open>Properties\<close>

text \<open>
  C29: Inserting an interval into a well-formed interval set keeps it sorted, disjoint and
  with no two neighbours touching, and adds exactly the indices of the new interval to the
  ones the set covers, whether it is empty, contained, overlapping several intervals or
  adjacent to some.
\<close>

theorem interval_set_insert_union:
  assumes "intervals_wf is" and "s \<le> e"
  shows "intervals_wf (merge_and_insert (s, e) is) \<and>
         covered (merge_and_insert (s, e) is) = covered is \<union> {unat s..<unat e}"
  using merge_and_insert_correct [OF assms] by (simp add: span_def)

theorem interval_set_insert_union_witness:
  "merge_and_insert (3, 7) [(1, 3), (5, 6), (9, 10)] = [(1, 7), (9, 10)] \<and>
   covered (merge_and_insert (3, 7) [(1, 3), (5, 6), (9, 10)]) =
     covered [(1, 3), (5, 6), (9, 10)] \<union> {3..<7}"
proof
  show "merge_and_insert (3, 7) [(1, 3), (5, 6), (9, 10)] = [(1, 7), (9, 10)]"
    by (simp add: merge_and_insert_def merge_step_def contains_def interval_less_def)
  have "intervals_wf [(1, 3), (5, 6), (9, 10)]"
    by (simp add: intervals_wf_def interval_ok_def)
  then show "covered (merge_and_insert (3, 7) [(1, 3), (5, 6), (9, 10)]) =
      covered [(1, 3), (5, 6), (9, 10)] \<union> {3..<7}"
    using interval_set_insert_union [of "[(1, 3), (5, 6), (9, 10)]" 3 7] by simp
qed

end
