(* ===== verification/Reassembler.thy ===== *)
theory Reassembler
  imports Byte_Stream Circ_Buffer Interval_Set
begin

text \<open>
  The stream reassembler of \<open>src/reassembler.hh\<close> and \<open>src/reassembler.cc\<close>: it stores
  substrings that arrive out of order (bytes in the circular buffer, indices in the
  interval set) and writes bytes to the output stream as soon as they are next in line.
\<close>

subsection \<open>State and operations\<close>

record reassembler =
  ra_first_unassembled :: u64
  ra_first_unacceptable :: u64
  ra_first_unpopped :: u64
  ra_fixed_buffer :: circ_buffer
  ra_intervals :: interval_set
  ra_size :: u64
  ra_last_index :: u64
  ra_last_received :: bool

definition new_reassembler :: reassembler where
  "new_reassembler =
     \<lparr>ra_first_unassembled = 0, ra_first_unacceptable = 0, ra_first_unpopped = 0,
      ra_fixed_buffer = new_circ_buffer, ra_intervals = [], ra_size = 0,
      ra_last_index = 0, ra_last_received = False\<rparr>"

text \<open>Steps 0, 1, 1.1 and 1.2 of \<open>insert\<close>.\<close>

definition ra_prepare ::
  "u64 \<Rightarrow> bytes \<Rightarrow> bool \<Rightarrow> byte_stream \<Rightarrow> reassembler \<Rightarrow> reassembler" where
  "ra_prepare first_index data is_last out ra =
     (let ra = (if is_last
                then ra\<lparr>ra_last_index := first_index + of_nat (length data),
                        ra_last_received := True\<rparr>
                else ra);
          ra = ra\<lparr>ra_first_unpopped := reader_bytes_popped out,
                  ra_first_unassembled := writer_bytes_pushed out,
                  ra_first_unacceptable := writer_bytes_pushed out + available_capacity out\<rparr>;
          cb = (if bs_capacity out > 0
                then circ_set_size (bs_capacity out) (ra_fixed_buffer ra)
                else ra_fixed_buffer ra)
      in ra\<lparr>ra_fixed_buffer := circ_set_first_unpopped (ra_first_unpopped ra) cb\<rparr>)"

text \<open>\<open>memmove\<close> towards the front of the string; moving no bytes is always allowed.\<close>

definition memmove_front :: "nat \<Rightarrow> nat \<Rightarrow> bytes \<Rightarrow> bytes result" where
  "memmove_front shift n data =
     (if n = 0 then Inr data
      else if shift + n \<le> length data then Inr (take n (drop shift data) @ drop n data)
      else Inl (Undefined ''memmove out of bounds''))"

definition string_resize :: "nat \<Rightarrow> bytes \<Rightarrow> bytes" where
  "string_resize n data = take n data @ replicate (n - length data) 0"

text \<open>Step 4: pop the first interval when it starts at the next byte of the stream.\<close>

definition ra_deliver :: "reassembler \<Rightarrow> byte_stream \<Rightarrow> (reassembler \<times> byte_stream) result" where
  "ra_deliver ra out =
     (case ra_intervals ra of
        [] \<Rightarrow> Inr (ra, out)
      | smallest # rest \<Rightarrow>
          if fst smallest = ra_first_unassembled ra then
            bind_result (circ_pop (fst smallest) (unat (snd smallest - fst smallest))
                           (ra_fixed_buffer ra)) (\<lambda>(cb, buffer).
            Inr (ra\<lparr>ra_intervals := rest, ra_fixed_buffer := cb\<rparr>, writer_push buffer out))
          else Inr (ra, out))"

text \<open>Step 5.\<close>

definition ra_close :: "reassembler \<Rightarrow> byte_stream \<Rightarrow> byte_stream" where
  "ra_close ra out =
     (if ra_last_received ra \<and> writer_bytes_pushed out = ra_last_index ra
      then writer_close out else out)"

definition reassembler_insert ::
  "u64 \<Rightarrow> bytes \<Rightarrow> bool \<Rightarrow> reassembler \<Rightarrow> byte_stream \<Rightarrow> (reassembler \<times> byte_stream) result" where
  "reassembler_insert first_index data is_last ra out =
     (let ra = ra_prepare first_index data is_last out ra;
          old_start = first_index;
          start = max (min first_index (ra_first_unacceptable ra)) (ra_first_unassembled ra);
          fin = max (min (first_index + of_nat (length data)) (ra_first_unacceptable ra))
                    (ra_first_unassembled ra)
      in if fin < start then Inr (ra, out)
         else if start < old_start then Inr (ra, out)
         else
           bind_result (if start > old_start
                        then memmove_front (unat (start - old_start)) (unat (fin - start)) data
                        else Inr data) (\<lambda>data.
           let data = string_resize (unat (fin - start)) data in
           bind_result (circ_insert start data (ra_fixed_buffer ra)) (\<lambda>cb.
           let ra = ra\<lparr>ra_fixed_buffer := cb,
                       ra_intervals := merge_and_insert (start, fin) (ra_intervals ra)\<rparr> in
           bind_result (ra_deliver ra out) (\<lambda>(ra, out).
           Inr (ra, ra_close ra out)))))"

definition bytes_pending :: "reassembler \<Rightarrow> u64" where
  "bytes_pending ra =
     fold (\<lambda>i pending_size. pending_size + interval_length i) (ra_intervals ra) 0"

subsection \<open>Abstract view: stored bytes as a partial map\<close>

text \<open>
  \<open>pending ra\<close> maps the absolute index of each stored byte to the byte.  The
  specification of \<open>insert\<close> is on such maps: \<open>spec_store\<close> adds the bytes that fall in
  the window from \<open>u\<close> (the next byte of the stream) to \<open>v\<close> (the first byte that does not
  fit), \<open>spec_run\<close> is the longest run of known bytes from \<open>u\<close>, and \<open>spec_rest\<close> forgets
  the delivered ones.
\<close>

definition pending :: "reassembler \<Rightarrow> nat \<Rightarrow> byte option" where
  "pending ra i = (if i \<in> covered (ra_intervals ra) then Some (cell (ra_fixed_buffer ra) i) else None)"

definition spec_store ::
  "nat \<Rightarrow> nat \<Rightarrow> nat \<Rightarrow> bytes \<Rightarrow> (nat \<Rightarrow> byte option) \<Rightarrow> nat \<Rightarrow> byte option" where
  "spec_store u v f d p i =
     (if u \<le> i \<and> i < v \<and> f \<le> i \<and> i < f + length d then Some (d ! (i - f)) else p i)"

definition spec_run :: "nat \<Rightarrow> nat \<Rightarrow> (nat \<Rightarrow> byte option) \<Rightarrow> bytes" where
  "spec_run u v p = map (\<lambda>i. the (p i)) (takeWhile (\<lambda>i. p i \<noteq> None) [u..<v])"

definition spec_rest :: "nat \<Rightarrow> (nat \<Rightarrow> byte option) \<Rightarrow> nat \<Rightarrow> byte option" where
  "spec_rest n p i = (if i < n then None else p i)"

definition next_index :: "byte_stream \<Rightarrow> nat" where
  "next_index out = unat (bs_bytes_pushed out)"

definition window_end :: "byte_stream \<Rightarrow> nat" where
  "window_end out = next_index out + unat (available_capacity out)"

subsection \<open>Invariant\<close>

text \<open>No byte counter of the stream is about to pass \<open>2 ^ 64\<close>.\<close>

definition no_wrap :: "byte_stream \<Rightarrow> bool" where
  "no_wrap out \<longleftrightarrow> unat (bs_bytes_popped out) + unat (bs_capacity out) < 2 ^ 64"

definition ra_buffer_ok :: "reassembler \<Rightarrow> byte_stream \<Rightarrow> bool" where
  "ra_buffer_ok ra out \<longleftrightarrow>
     (if cb_size_set (ra_fixed_buffer ra)
      then circ_wf (ra_fixed_buffer ra) \<and> cb_size (ra_fixed_buffer ra) = bs_capacity out
      else ra_intervals ra = [] \<and> cb_buffer (ra_fixed_buffer ra) = [] \<and>
           cb_size (ra_fixed_buffer ra) \<noteq> 0 \<and>
           (bs_capacity out = 0 \<longrightarrow> bs_bytes_pushed out = 0))"

definition ra_mid :: "reassembler \<Rightarrow> byte_stream \<Rightarrow> bool" where
  "ra_mid ra out \<longleftrightarrow>
     stream_inv out \<and> no_wrap out \<and> ra_buffer_ok ra out \<and> intervals_wf (ra_intervals ra) \<and>
     covered (ra_intervals ra) \<subseteq> {next_index out..<window_end out}"

definition ra_inv :: "reassembler \<Rightarrow> byte_stream \<Rightarrow> bool" where
  "ra_inv ra out \<longleftrightarrow> ra_mid ra out \<and> next_index out \<notin> covered (ra_intervals ra)"

lemma ra_inv_new: "ra_inv new_reassembler (new_byte_stream c)"
  by (simp add: ra_inv_def ra_mid_def ra_buffer_ok_def new_reassembler_def new_circ_buffer_def
      no_wrap_def next_index_def new_byte_stream_def)
     (simp flip: new_byte_stream_def)

lemma window:
  assumes "stream_inv out" and "no_wrap out"
  shows "next_index out = unat (bs_bytes_popped out) + length (stream_content out)"
    and "window_end out = unat (bs_bytes_popped out) + unat (bs_capacity out)"
    and "window_end out < 2 ^ 64"
    and "unat (bs_bytes_pushed out + available_capacity out) = window_end out"
proof -
  have le: "length (stream_content out) \<le> unat (bs_capacity out)"
    using stream_inv_cap [OF assms(1)] .
  have "bs_bytes_pushed out = bs_bytes_popped out + bs_current_size out"
    using assms(1) by (simp add: stream_inv_def)
  moreover have "unat (bs_bytes_popped out) + unat (bs_current_size out) < 2 ^ LENGTH(64)"
    using assms(2) le stream_inv_size [OF assms(1)] by (simp add: no_wrap_def)
  ultimately show n: "next_index out = unat (bs_bytes_popped out) + length (stream_content out)"
    using assms(1) by (simp add: next_index_def unat_add_small stream_inv_size)
  then show w: "window_end out = unat (bs_bytes_popped out) + unat (bs_capacity out)"
    using le by (simp add: window_end_def available_capacity_nat [OF assms(1)])
  then show "window_end out < 2 ^ 64" using assms(2) by (simp add: no_wrap_def)
  then show "unat (bs_bytes_pushed out + available_capacity out) = window_end out"
    by (simp add: window_end_def next_index_def unat_add_small)
qed

subsection \<open>The specification on maps\<close>

lemma takeWhile_upt:
  assumes "\<And>i. u \<le> i \<Longrightarrow> i < x \<Longrightarrow> Q i" and "u \<le> x" and "x \<le> v" and "x < v \<Longrightarrow> \<not> Q x"
  shows "takeWhile Q [u..<v] = [u..<x]"
proof -
  have "[u..<v] = [u..<x] @ [x..<v]" using assms(2,3) by (metis le_Suc_ex upt_add_eq_append)
  moreover have "takeWhile Q [x..<v] = []"
    using assms(4) by (cases "x < v") (simp_all add: upt_conv_Cons)
  moreover have "takeWhile Q ([u..<x] @ [x..<v]) = [u..<x] @ takeWhile Q [x..<v]"
    using assms(1) by (intro takeWhile_append2) simp
  ultimately show ?thesis by simp
qed

lemma spec_run_prefix:
  assumes "\<And>i. u \<le> i \<Longrightarrow> i < x \<Longrightarrow> p i = Some (g i)" and "u \<le> x" and "x \<le> v"
    and "x < v \<Longrightarrow> p x = None"
  shows "spec_run u v p = map g [u..<x]"
proof -
  have "takeWhile (\<lambda>i. p i \<noteq> None) [u..<v] = [u..<x]"
    using assms by (intro takeWhile_upt) auto
  with assms(1) show ?thesis by (simp add: spec_run_def)
qed

lemma spec_run_empty:
  assumes "p u = None"
  shows "spec_run u v p = []"
  using assms spec_run_prefix [of u u p _ v] by (cases "u \<le> v") (auto simp: spec_run_def)

lemma spec_rest_none:
  assumes "\<And>i. i < n \<Longrightarrow> p i = None"
  shows "spec_rest n p = p"
  using assms by (auto simp: spec_rest_def fun_eq_iff)

subsection \<open>Step 4 delivers the longest known run\<close>

lemma ra_mid_window:
  assumes "ra_mid ra out"
  shows "next_index out = unat (bs_bytes_popped out) + length (stream_content out)"
    and "window_end out = unat (bs_bytes_popped out) + unat (bs_capacity out)"
    and "window_end out < 2 ^ 64"
    and "unat (bs_bytes_pushed out + available_capacity out) = window_end out"
  using window [of out] assms by (simp_all add: ra_mid_def)

lemma pending_outside:
  assumes "ra_mid ra out" and "i < next_index out \<or> window_end out \<le> i"
  shows "pending ra i = None"
  using assms by (auto simp: ra_mid_def pending_def)

lemma ra_deliver_none:
  assumes mid: "ra_mid ra out" and un: "ra_first_unassembled ra = bs_bytes_pushed out"
    and hd: "ra_intervals ra = [] \<or> fst (hd (ra_intervals ra)) \<noteq> ra_first_unassembled ra"
  shows "ra_deliver ra out = Inr (ra, out) \<and> next_index out \<notin> covered (ra_intervals ra)"
proof (cases "ra_intervals ra")
  case Nil
  then show ?thesis by (simp add: ra_deliver_def)
next
  case (Cons i "is")
  then have ne: "fst i \<noteq> ra_first_unassembled ra" using hd by simp
  have wf: "intervals_wf (i # is)" using mid Cons by (simp add: ra_mid_def)
  have "unat (fst i) \<in> covered (ra_intervals ra)"
    using wf Cons by (auto simp: intervals_wf_Cons interval_ok_def span_def word_less_nat_alt)
  then have "next_index out \<le> unat (fst i)"
    using mid by (auto simp: ra_mid_def)
  with ne un have "next_index out < unat (fst i)"
    by (simp add: next_index_def word_unat_eq_iff)
  moreover have "\<forall>x \<in> covered (ra_intervals ra). unat (fst i) \<le> x"
    using covered_from [OF wf] Cons by auto
  ultimately have "next_index out \<notin> covered (ra_intervals ra)" by auto
  with Cons ne show ?thesis by (simp add: ra_deliver_def)
qed

lemma ra_deliver_some:
  assumes mid: "ra_mid ra out" and un: "ra_first_unassembled ra = bs_bytes_pushed out"
    and iv: "ra_intervals ra = (s, e) # is" and s: "s = ra_first_unassembled ra"
  obtains cb where "ra_deliver ra out =
      Inr (ra\<lparr>ra_intervals := is, ra_fixed_buffer := cb\<rparr>,
           writer_push (map (cell (ra_fixed_buffer ra)) [next_index out..<unat e]) out)"
    and "next_index out < unat e" and "unat e \<le> window_end out"
    and "circ_wf cb" and "cb_size cb = bs_capacity out"
    and "\<forall>x \<in> covered is. cell cb x = cell (ra_fixed_buffer ra) x"
proof -
  let ?cb = "ra_fixed_buffer ra" and ?n = "unat (e - s)"
  have wf: "intervals_wf ((s, e) # is)" and cov: "covered ((s, e) # is) \<subseteq> {next_index out..<window_end out}"
    using mid iv by (simp_all add: ra_mid_def)
  have se: "s < e" using wf by (simp add: intervals_wf_Cons interval_ok_def)
  have us: "unat s = next_index out" using s un by (simp add: next_index_def)
  have e: "next_index out < unat e" using se us by (simp add: word_less_nat_alt)
  have "unat e - 1 \<in> span (s, e)" using se by (auto simp: span_def word_less_nat_alt)
  then have "unat e - 1 < window_end out" using cov by auto
  then have ew: "unat e \<le> window_end out" by simp
  have n: "unat s + ?n = unat e" using se by (simp add: unat_sub_le word_less_nat_alt)
  have "cb_size_set ?cb" using mid iv by (auto simp: ra_mid_def ra_buffer_ok_def split: if_splits)
  then have cw: "circ_wf ?cb" and cs: "cb_size ?cb = bs_capacity out"
    using mid by (simp_all add: ra_mid_def ra_buffer_ok_def)
  have room: "window_end out \<le> next_index out + unat (cb_size ?cb)"
    using ra_mid_window(1,2) [OF mid] cs by simp
  then have len: "?n \<le> unat (cb_size ?cb)" using n ew us by simp
  obtain cb where pop: "circ_pop s ?n ?cb = Inr (cb, map (cell ?cb) [unat s..<unat s + ?n])"
    and cb: "circ_wf cb" "cb_size cb = cb_size ?cb"
    and same: "\<forall>u x. u \<le> unat s \<and> unat s + ?n \<le> u + unat (cb_size ?cb) \<and> u \<le> x \<and>
      x < u + unat (cb_size ?cb) \<and> \<not> (unat s \<le> x \<and> x < unat s + ?n) \<longrightarrow> cell cb x = cell ?cb x"
    using circ_pop_cells [OF cw len] .
  show thesis
  proof (rule that)
    show "ra_deliver ra out =
        Inr (ra\<lparr>ra_intervals := is, ra_fixed_buffer := cb\<rparr>,
             writer_push (map (cell ?cb) [next_index out..<unat e]) out)"
      using iv s pop n us by (simp add: ra_deliver_def)
    show "\<forall>x \<in> covered is. cell cb x = cell ?cb x"
    proof
      fix x assume x: "x \<in> covered is"
      have "\<not> (unat s \<le> x \<and> x < unat s + ?n)"
        using span_ahead [OF wf x] n by simp
      moreover have "next_index out \<le> x" "x < next_index out + unat (cb_size ?cb)"
        using cov x room by auto
      ultimately show "cell cb x = cell ?cb x"
        using same [rule_format, of "next_index out" x] us n ew room by simp
    qed
  qed (use e ew cb cs in auto)
qed

text \<open>After step 4: what a run that ends at \<open>m\<close> leaves.\<close>

lemma push_run:
  assumes inv: "stream_inv out" and nw: "no_wrap out"
    and m: "next_index out \<le> m" "m \<le> window_end out"
  shows "stream_inv (writer_push (map g [next_index out..<m]) out)"
    and "no_wrap (writer_push (map g [next_index out..<m]) out)"
    and "stream_content (writer_push (map g [next_index out..<m]) out) =
           stream_content out @ map g [next_index out..<m]"
    and "next_index (writer_push (map g [next_index out..<m]) out) = m"
    and "window_end (writer_push (map g [next_index out..<m]) out) = window_end out"
proof -
  let ?d = "map g [next_index out..<m]"
  show i: "stream_inv (writer_push ?d out)" using inv by simp
  show w: "no_wrap (writer_push ?d out)" using nw by (simp add: no_wrap_def stream_simps)
  have fits: "length ?d \<le> stream_room out"
    using m by (simp add: stream_room_def window_end_def)
  show c: "stream_content (writer_push ?d out) = stream_content out @ ?d"
    using stream.push_fits [OF inv fits] .
  have "length (stream_content (writer_push ?d out)) = length (stream_content out) + (m - next_index out)"
    by (simp only: c length_append length_map length_upt)
  then show "next_index (writer_push ?d out) = m"
    using window(1) [OF i w] window(1) [OF inv nw] m by (simp add: stream_simps)
  show "window_end (writer_push ?d out) = window_end out"
    using window(2) [OF i w] window(2) [OF inv nw] by (simp add: stream_simps)
qed

definition same_flags :: "byte_stream \<Rightarrow> byte_stream \<Rightarrow> bool" where
  "same_flags a b \<longleftrightarrow> bs_capacity a = bs_capacity b \<and> bs_bytes_popped a = bs_bytes_popped b \<and>
                     bs_closed a = bs_closed b \<and> bs_error a = bs_error b"

definition same_last :: "reassembler \<Rightarrow> reassembler \<Rightarrow> bool" where
  "same_last a b \<longleftrightarrow> ra_last_index a = ra_last_index b \<and> ra_last_received a = ra_last_received b"

definition delivers ::
  "(nat \<Rightarrow> byte option) \<Rightarrow> byte_stream \<Rightarrow> reassembler \<Rightarrow> byte_stream \<Rightarrow> bool" where
  "delivers p out ra' out' \<longleftrightarrow>
     (let run = spec_run (next_index out) (window_end out) p
      in stream_content out' = stream_content out @ run \<and>
         next_index out' = next_index out + length run \<and>
         window_end out' = window_end out \<and>
         pending ra' = spec_rest (next_index out + length run) p)"

lemma delivers_nothing:
  assumes "p (next_index out) = None" and "\<And>i. i < next_index out \<Longrightarrow> p i = None"
    and "pending ra' = p"
  shows "delivers p out ra' out"
  using assms by (simp add: delivers_def spec_run_empty spec_rest_none)

lemma ra_deliver_spec:
  assumes mid: "ra_mid ra out" and un: "ra_first_unassembled ra = bs_bytes_pushed out"
  shows "\<exists>ra' out'. ra_deliver ra out = Inr (ra', out') \<and> ra_inv ra' out' \<and>
           delivers (pending ra) out ra' out' \<and> same_flags out' out \<and> same_last ra' ra"
proof (cases "ra_intervals ra = [] \<or> fst (hd (ra_intervals ra)) \<noteq> ra_first_unassembled ra")
  case True
  note none = ra_deliver_none [OF mid un True]
  then have "pending ra (next_index out) = None" by (simp add: pending_def)
  then have "delivers (pending ra) out ra out"
    using pending_outside [OF mid] by (intro delivers_nothing) simp_all
  with none mid show ?thesis by (simp add: ra_inv_def same_flags_def same_last_def)
next
  case False
  then obtain s e "is" where iv: "ra_intervals ra = (s, e) # is"
    and s: "s = ra_first_unassembled ra"
    by (cases "ra_intervals ra") auto
  let ?cb = "ra_fixed_buffer ra" and ?u = "next_index out"
  obtain cb where dl: "ra_deliver ra out =
      Inr (ra\<lparr>ra_intervals := is, ra_fixed_buffer := cb\<rparr>,
           writer_push (map (cell ?cb) [?u..<unat e]) out)"
    and e: "?u < unat e" "unat e \<le> window_end out"
    and cb: "circ_wf cb" "cb_size cb = bs_capacity out"
    and same: "\<forall>x \<in> covered is. cell cb x = cell ?cb x"
    using ra_deliver_some [OF mid un iv s] .
  let ?ra = "ra\<lparr>ra_intervals := is, ra_fixed_buffer := cb\<rparr>"
  let ?out = "writer_push (map (cell ?cb) [?u..<unat e]) out"
  have wf: "intervals_wf ((s, e) # is)" "intervals_wf is"
    and cov: "covered is \<subseteq> {?u..<window_end out}"
    using mid iv by (simp_all add: ra_mid_def intervals_wf_Cons)
  have ahead: "\<And>x. x \<in> covered is \<Longrightarrow> unat e < x"
    using span_ahead [OF wf(1)] by simp
  have us: "unat s = ?u" using s un by (simp add: next_index_def)
  have inv: "stream_inv out" "no_wrap out" using mid by (simp_all add: ra_mid_def)
  note pr = push_run [OF inv less_imp_le [OF e(1)] e(2), of "cell ?cb"]
  have p: "pending ra i = (if ?u \<le> i \<and> i < unat e then Some (cell ?cb i) else pending ?ra i)" for i
    using iv us same by (auto simp: pending_def span_def)
  have run: "spec_run ?u (window_end out) (pending ra) = map (cell ?cb) [?u..<unat e]"
    using e p ahead by (intro spec_run_prefix) (auto simp: pending_def)
  have "pending ?ra = spec_rest (unat e) (pending ra)"
  proof
    fix i
    show "pending ?ra i = spec_rest (unat e) (pending ra) i"
      using p [of i] ahead [of i] by (auto simp: spec_rest_def pending_def)
  qed
  with pr run e have "delivers (pending ra) out ?ra ?out"
    by (simp add: delivers_def)
  moreover have "ra_buffer_ok ?ra ?out"
    using cb by (simp add: ra_buffer_ok_def circ_wf_def stream_simps)
  moreover have "covered is \<subseteq> {unat e..<window_end out}" "unat e \<notin> covered is"
    using cov ahead by (fastforce dest: less_imp_le)+
  ultimately have "ra_inv ?ra ?out" "delivers (pending ra) out ?ra ?out"
    using pr wf(2) by (simp_all add: ra_inv_def ra_mid_def)
  moreover have "same_flags ?out out" "same_last ?ra ra"
    by (simp_all add: same_flags_def same_last_def stream_simps)
  ultimately show ?thesis using dl by blast
qed

subsection \<open>Steps 1 to 3 store the bytes that fit\<close>

lemma ra_prepare_fields:
  "ra_intervals (ra_prepare f d l out ra) = ra_intervals ra"
  "ra_first_unassembled (ra_prepare f d l out ra) = bs_bytes_pushed out"
  "ra_first_unacceptable (ra_prepare f d l out ra) = bs_bytes_pushed out + available_capacity out"
  "ra_last_received (ra_prepare f d l out ra) = (ra_last_received ra \<or> l)"
  "ra_last_index (ra_prepare f d l out ra) =
     (if l then f + of_nat (length d) else ra_last_index ra)"
  by (simp_all add: ra_prepare_def Let_def writer_bytes_pushed_def)

lemma ra_prepare_mid:
  assumes "ra_mid ra out"
  shows "ra_mid (ra_prepare f d l out ra) out"
    and "pending (ra_prepare f d l out ra) = pending ra"
    and "bs_capacity out \<noteq> 0 \<Longrightarrow> circ_wf (ra_fixed_buffer (ra_prepare f d l out ra))"
proof -
  let ?cb = "ra_fixed_buffer ra" and ?ra = "ra_prepare f d l out ra"
  have fb: "ra_fixed_buffer ?ra = circ_set_first_unpopped (bs_bytes_popped out)
      (if bs_capacity out > 0 then circ_set_size (bs_capacity out) ?cb else ?cb)"
    by (simp add: ra_prepare_def Let_def reader_bytes_popped_def)
  have ok: "ra_buffer_ok ra out" using assms by (simp add: ra_mid_def)
  then have "ra_buffer_ok ?ra out"
    by (cases "cb_size_set ?cb")
       (auto simp: ra_buffer_ok_def ra_prepare_fields fb circ_set_size_def circ_wf_def
         word_gt_0)
  then show "ra_mid ?ra out" using assms by (simp add: ra_mid_def ra_prepare_fields)
  show "pending ?ra = pending ra"
  proof (cases "cb_size_set ?cb")
    case True
    then show ?thesis by (simp add: fun_eq_iff pending_def ra_prepare_fields fb)
  next
    case False
    then have "ra_intervals ra = []" using ok by (simp add: ra_buffer_ok_def)
    then show ?thesis by (simp add: fun_eq_iff pending_def ra_prepare_fields)
  qed
  show "circ_wf (ra_fixed_buffer ?ra)" if "bs_capacity out \<noteq> 0"
    using that ok circ_set_size_wf [of "bs_capacity out" ?cb]
    by (cases "cb_size_set ?cb") (auto simp: fb word_gt_0 ra_buffer_ok_def)
qed

text \<open>Storing a piece \<open>data\<close> that lies in the window.\<close>

lemma ra_store:
  assumes mid: "ra_mid ra out" and w: "bs_capacity out \<noteq> 0 \<Longrightarrow> circ_wf (ra_fixed_buffer ra)"
    and se: "start \<le> fin" and len: "length data = unat fin - unat start"
    and lo: "next_index out \<le> unat start" and hi: "unat fin \<le> window_end out"
  shows "\<exists>cb. circ_insert start data (ra_fixed_buffer ra) = Inr cb \<and>
           (let ra' = ra\<lparr>ra_fixed_buffer := cb,
                         ra_intervals := merge_and_insert (start, fin) (ra_intervals ra)\<rparr>
            in ra_mid ra' out \<and>
               pending ra' = spec_store (next_index out) (window_end out) (unat start) data (pending ra))"
proof -
  let ?cb = "ra_fixed_buffer ra" and ?is = "merge_and_insert (start, fin) (ra_intervals ra)"
  have wf: "intervals_wf (ra_intervals ra)"
    and cov: "covered (ra_intervals ra) \<subseteq> {next_index out..<window_end out}"
    using mid by (simp_all add: ra_mid_def)
  note m = merge_and_insert_correct [OF wf se]
  have sf: "unat start \<le> unat fin" using se by (simp add: word_le_nat_alt)
  have end': "unat start + length data = unat fin" using len sf by simp
  have cov': "covered ?is \<subseteq> {next_index out..<window_end out}"
    using cov m(2) lo hi by (auto simp: span_def)
  show ?thesis
  proof (cases "bs_capacity out = 0")
    case True
    then have "window_end out = next_index out"
      using ra_mid_window(1,2) [OF mid] stream_inv_cap [of out] mid by (simp add: ra_mid_def)
    then have eq: "unat fin = next_index out" "unat start = next_index out"
      using lo hi sf by simp_all
    then have d: "data = []" and sfe: "start = fin"
      using len by (simp_all add: word_unat_eq_iff)
    have emp: "ra_intervals ra = []"
      using cov \<open>window_end out = next_index out\<close> wf
      by (cases "ra_intervals ra")
         (auto simp: span_def intervals_wf_Cons interval_ok_def word_less_nat_alt)
    have nz: "\<not> cb_size_set ?cb \<and> cb_buffer ?cb = [] \<and> cb_size ?cb \<noteq> 0 \<and> bs_bytes_pushed out = 0"
      using mid True
      by (auto simp: ra_mid_def ra_buffer_ok_def circ_wf_def split: if_splits)
    then have "start = 0" using eq(2) by (simp add: next_index_def unat_eq_zero)
    then have "circ_insert start data ?cb = Inr ?cb"
      using nz d by (simp add: circ_insert_def memcpy_def)
    moreover have "?is = []" using emp sfe by (simp add: merge_and_insert_def)
    ultimately show ?thesis
      using mid emp d by (auto simp: ra_mid_def ra_buffer_ok_def pending_def spec_store_def fun_eq_iff)
  next
    case False
    then have cw: "circ_wf ?cb" using w by simp
    then have cs: "cb_size ?cb = bs_capacity out"
      using mid by (auto simp: ra_mid_def ra_buffer_ok_def circ_wf_def split: if_splits)
    have room: "window_end out \<le> next_index out + unat (cb_size ?cb)"
      using ra_mid_window(1,2) [OF mid] cs by simp
    have l: "length data \<le> unat (cb_size ?cb)" using end' lo hi room by simp
    obtain cb where ins: "circ_insert start data ?cb = Inr cb" and cb: "circ_wf cb"
      "cb_size cb = cb_size ?cb"
      and c: "\<forall>u x. u \<le> unat start \<and> unat start + length data \<le> u + unat (cb_size ?cb) \<and>
           u \<le> x \<and> x < u + unat (cb_size ?cb) \<longrightarrow>
           cell cb x = (if unat start \<le> x \<and> x < unat start + length data
                        then data ! (x - unat start) else cell ?cb x)"
      using circ_insert_cells [OF cw l, of start] .
    let ?ra = "ra\<lparr>ra_fixed_buffer := cb, ra_intervals := ?is\<rparr>"
    have "ra_mid ?ra out"
      using mid m(1) cov' cb cs by (simp add: ra_mid_def ra_buffer_ok_def circ_wf_def)
    moreover have "pending ?ra x =
        spec_store (next_index out) (window_end out) (unat start) data (pending ra) x" for x
    proof (cases "next_index out \<le> x \<and> x < window_end out")
      case True
      with c [rule_format, of "next_index out" x] lo hi room end'
      have "cell cb x = (if unat start \<le> x \<and> x < unat fin
                         then data ! (x - unat start) else cell ?cb x)" by simp
      with True m(2) end' show ?thesis
        by (auto simp: pending_def spec_store_def span_def)
    next
      case False
      then have "x \<notin> covered ?is" "x \<notin> covered (ra_intervals ra)" using cov cov' by auto
      with False show ?thesis by (auto simp: pending_def spec_store_def)
    qed
    ultimately show ?thesis using ins by (auto simp: fun_eq_iff)
  qed
qed

subsection \<open>Trimming to the window\<close>

lemma unat_max_word: "unat (max a (b :: 'a::len word)) = max (unat a) (unat b)"
  by (simp add: max_def word_le_nat_alt)

definition trim_from :: "nat \<Rightarrow> nat \<Rightarrow> nat" where
  "trim_from u f = max f u"

definition trim_to :: "nat \<Rightarrow> nat \<Rightarrow> nat \<Rightarrow> nat" where
  "trim_to u v e = max (min e v) u"

lemma trimmed_data:
  fixes d :: bytes
  assumes "f \<le> v" and "u \<le> v"
  defines "s \<equiv> trim_from u f" and "e \<equiv> trim_to u v (f + length d)"
  shows "\<exists>d1. (if f < s then memmove_front (s - f) (e - s) d else Inr d) = Inr d1 \<and>
              string_resize (e - s) d1 = take (e - s) (drop (s - f) d)"
    and "length (take (e - s) (drop (s - f) d)) = e - s"
    and "spec_store u v s (take (e - s) (drop (s - f) d)) p = spec_store u v f d p"
proof -
  have n: "e - s \<le> length d - (s - f)" and fs: "f \<le> s" "u \<le> s" "s \<le> e"
    using assms(1,2) by (auto simp: s_def e_def trim_from_def trim_to_def)
  have e: "\<And>i. u \<le> i \<Longrightarrow> i < v \<Longrightarrow> i < e \<longleftrightarrow> i < f + length d"
    by (auto simp: e_def trim_to_def)
  show l: "length (take (e - s) (drop (s - f) d)) = e - s" using n by simp
  have "e - s = 0 \<or> s - f + (e - s) \<le> length d" using n by linarith
  then show "\<exists>d1. (if f < s then memmove_front (s - f) (e - s) d else Inr d) = Inr d1 \<and>
              string_resize (e - s) d1 = take (e - s) (drop (s - f) d)"
    using n fs by (auto simp: memmove_front_def string_resize_def)
  show "spec_store u v s (take (e - s) (drop (s - f) d)) p = spec_store u v f d p"
  proof
    fix i
    have "(take (e - s) (drop (s - f) d)) ! (i - s) = d ! (i - f)"
      if "s \<le> i" "i < e" using that n fs by simp
    moreover have "s \<le> i \<longleftrightarrow> f \<le> i" if "u \<le> i"
      using that by (simp add: s_def trim_from_def)
    ultimately show "spec_store u v s (take (e - s) (drop (s - f) d)) p i = spec_store u v f d p i"
      using l e [of i] fs by (auto simp: spec_store_def)
  qed
qed

lemma insert_bounds:
  fixes d :: bytes
  assumes mid: "ra_mid ra out" and nw: "unat f + length d < 2 ^ 64"
  defines "start \<equiv> max (min f (bs_bytes_pushed out + available_capacity out)) (bs_bytes_pushed out)"
    and "fin \<equiv> max (min (f + of_nat (length d)) (bs_bytes_pushed out + available_capacity out))
                   (bs_bytes_pushed out)"
  shows "unat fin = trim_to (next_index out) (window_end out) (unat f + length d)"
    and "unat f \<le> window_end out \<Longrightarrow> unat start = trim_from (next_index out) (unat f)"
    and "start \<le> fin"
    and "start < f \<longleftrightarrow> window_end out < unat f"
proof -
  have "unat (of_nat (length d) :: u64) = length d"
    using nw by (intro unat_of_nat_small) simp
  then have fd: "unat (f + of_nat (length d)) = unat f + length d"
    using nw by (subst unat_add_small) simp_all
  have V: "unat (bs_bytes_pushed out + available_capacity out) = window_end out"
    using ra_mid_window(4) [OF mid] .
  have U: "next_index out \<le> window_end out" by (simp add: window_end_def)
  show fin: "unat fin = trim_to (next_index out) (window_end out) (unat f + length d)"
    by (simp add: fin_def unat_max_word unat_min_word fd V trim_to_def next_index_def)
  have start: "unat start = max (min (unat f) (window_end out)) (next_index out)"
    by (simp add: start_def unat_max_word unat_min_word V next_index_def)
  then show "unat f \<le> window_end out \<Longrightarrow> unat start = trim_from (next_index out) (unat f)"
    by (simp add: trim_from_def)
  show "start \<le> fin" using fin start by (auto simp: word_le_nat_alt trim_to_def)
  show "start < f \<longleftrightarrow> window_end out < unat f"
    using start U by (auto simp: word_less_nat_alt)
qed

subsection \<open>The whole insert\<close>

definition insert_closes :: "u64 \<Rightarrow> reassembler \<Rightarrow> byte_stream \<Rightarrow> byte_stream \<Rightarrow> bool" where
  "insert_closes f ra' out out' \<longleftrightarrow>
     unat f \<le> window_end out \<and> ra_last_received ra' \<and> bs_bytes_pushed out' = ra_last_index ra'"

definition insert_spec ::
  "u64 \<Rightarrow> bytes \<Rightarrow> bool \<Rightarrow> reassembler \<Rightarrow> byte_stream \<Rightarrow> reassembler \<Rightarrow> byte_stream \<Rightarrow> bool" where
  "insert_spec f d l ra out ra' out' \<longleftrightarrow>
     delivers (spec_store (next_index out) (window_end out) (unat f) d (pending ra)) out ra' out' \<and>
     ra_last_received ra' = (ra_last_received ra \<or> l) \<and>
     ra_last_index ra' = (if l then f + of_nat (length d) else ra_last_index ra) \<and>
     bs_closed out' = (bs_closed out \<or> insert_closes f ra' out out') \<and>
     bs_error out' = bs_error out \<and> bs_capacity out' = bs_capacity out \<and>
     bs_bytes_popped out' = bs_bytes_popped out"

lemma ra_close_simps:
  "ra_inv ra' (ra_close ra out) = ra_inv ra' out"
  "delivers p o' ra' (ra_close ra out) = delivers p o' ra' out"
  "bs_closed (ra_close ra out) =
     (bs_closed out \<or> ra_last_received ra \<and> bs_bytes_pushed out = ra_last_index ra)"
  "bs_error (ra_close ra out) = bs_error out"
  "bs_capacity (ra_close ra out) = bs_capacity out"
  "bs_bytes_popped (ra_close ra out) = bs_bytes_popped out"
  "bs_bytes_pushed (ra_close ra out) = bs_bytes_pushed out"
  by (auto simp: ra_close_def stream_simps ra_inv_def ra_mid_def ra_buffer_ok_def no_wrap_def
      delivers_def next_index_def window_end_def writer_bytes_pushed_def)

lemma insert_beyond_window:
  assumes inv: "ra_inv ra out" and nw: "unat f + length d < 2 ^ 64"
    and far: "window_end out < unat f"
  shows "\<exists>ra'. reassembler_insert f d l ra out = Inr (ra', out) \<and> ra_inv ra' out \<and>
               insert_spec f d l ra out ra' out"
proof -
  have mid: "ra_mid ra out" using inv by (simp add: ra_inv_def)
  let ?ra = "ra_prepare f d l out ra"
  note p = ra_prepare_mid [OF mid, of f d l]
  have ret: "reassembler_insert f d l ra out = Inr (?ra, out)"
    using insert_bounds(3,4) [OF mid nw] far
    by (simp add: reassembler_insert_def ra_prepare_fields Let_def not_less)
  have "ra_inv ?ra out" using p inv by (simp add: ra_inv_def ra_prepare_fields)
  moreover have "spec_store (next_index out) (window_end out) (unat f) d (pending ra) = pending ra"
    using far by (auto simp: spec_store_def fun_eq_iff)
  moreover have "pending ra (next_index out) = None"
    using inv by (simp add: ra_inv_def pending_def)
  ultimately have "ra_inv ?ra out \<and> insert_spec f d l ra out ?ra out"
    using far pending_outside [OF mid] p(2)
    by (auto simp: insert_spec_def insert_closes_def ra_prepare_fields intro!: delivers_nothing)
  with ret show ?thesis by blast
qed

lemma insert_in_window:
  assumes inv: "ra_inv ra out" and nw: "unat f + length d < 2 ^ 64"
    and near: "unat f \<le> window_end out"
  shows "\<exists>ra' out'. reassembler_insert f d l ra out = Inr (ra', out') \<and> ra_inv ra' out' \<and>
               insert_spec f d l ra out ra' out'"
proof -
  have mid: "ra_mid ra out" using inv by (simp add: ra_inv_def)
  let ?ra = "ra_prepare f d l out ra" and ?u = "next_index out" and ?v = "window_end out"
  let ?un = "bs_bytes_pushed out" and ?ac = "bs_bytes_pushed out + available_capacity out"
  define start where "start = max (min f ?ac) ?un"
  define fin where "fin = max (min (f + of_nat (length d)) ?ac) ?un"
  note p = ra_prepare_mid [OF mid, of f d l]
  note b = insert_bounds [OF mid nw, folded start_def fin_def]
  have uv: "?u \<le> ?v" by (simp add: window_end_def)
  let ?n = "unat fin - unat start"
  let ?d = "take ?n (drop (unat start - unat f) d)"
  note t = trimmed_data [OF near uv, of d, folded b(1) b(2) [OF near]]
  have n: "unat (fin - start) = ?n" using b(3) by (simp add: unat_sub_le word_le_nat_alt)
  have sh: "unat (start - f) = unat start - unat f"
    using near b(2) by (simp add: unat_sub_le trim_from_def)
  obtain d1 where d1: "(if start > f then memmove_front (unat (start - f)) (unat (fin - start)) d
                        else Inr d) = Inr d1" "string_resize (unat (fin - start)) d1 = ?d"
    using t(1) unfolding n sh word_less_nat_alt by blast
  have bounds: "?u \<le> unat start" "unat fin \<le> ?v"
    using b(1,2) near uv by (simp_all add: trim_from_def trim_to_def)
  obtain cb where ins: "circ_insert start ?d (ra_fixed_buffer ?ra) = Inr cb"
    and st: "ra_mid (?ra\<lparr>ra_fixed_buffer := cb,
                          ra_intervals := merge_and_insert (start, fin) (ra_intervals ?ra)\<rparr>) out"
      "pending (?ra\<lparr>ra_fixed_buffer := cb,
                     ra_intervals := merge_and_insert (start, fin) (ra_intervals ?ra)\<rparr>) =
         spec_store ?u ?v (unat f) d (pending ra)"
    using ra_store [OF p(1) p(3) b(3) t(2) bounds] unfolding t(3) p(2) Let_def by blast
  let ?ra1 = "?ra\<lparr>ra_fixed_buffer := cb,
                   ra_intervals := merge_and_insert (start, fin) (ra_intervals ?ra)\<rparr>"
  obtain ra2 out2 where dl: "ra_deliver ?ra1 out = Inr (ra2, out2)" "ra_inv ra2 out2"
    "delivers (pending ?ra1) out ra2 out2" "same_flags out2 out" "same_last ra2 ?ra1"
    using ra_deliver_spec [OF st(1)] by (auto simp: ra_prepare_fields)
  have "reassembler_insert f d l ra out = Inr (ra2, ra_close ra2 out2)"
    using b(3,4) near d1 ins dl(1)
    unfolding reassembler_insert_def ra_prepare_fields Let_def start_def [symmetric] fin_def [symmetric]
    by (simp add: not_less)
  moreover have "ra_inv ra2 (ra_close ra2 out2)"
    using dl(2) by (simp add: ra_close_simps)
  moreover have "insert_spec f d l ra out ra2 (ra_close ra2 out2)"
    using dl(3-5) near unfolding st(2)
    by (auto simp: insert_spec_def insert_closes_def ra_close_simps same_flags_def same_last_def
        ra_prepare_fields)
  ultimately show ?thesis by blast
qed

lemma reassembler_insert_spec:
  assumes "ra_inv ra out" and "unat f + length d < 2 ^ 64"
  obtains ra' out' where "reassembler_insert f d l ra out = Inr (ra', out')"
    and "ra_inv ra' out'" and "insert_spec f d l ra out ra' out'"
  using insert_beyond_window [OF assms, of l] insert_in_window [OF assms, of l]
  by (cases "unat f \<le> window_end out") (auto simp: not_le)

subsection \<open>How much is stored\<close>

lemma fold_pending_size:
  "fold (\<lambda>i n. n + interval_length i) is n = n + of_nat (\<Sum>i\<leftarrow>is. unat (interval_length i))"
  by (induction "is" arbitrary: n) (simp_all add: add.assoc)

lemma bytes_pending_card:
  assumes "ra_mid ra out"
  shows "unat (bytes_pending ra) = card (covered (ra_intervals ra))"
    and "card (covered (ra_intervals ra)) \<le> unat (available_capacity out)"
proof -
  let ?c = "covered (ra_intervals ra)"
  have wf: "intervals_wf (ra_intervals ra)" and "?c \<subseteq> {next_index out..<window_end out}"
    using assms by (simp_all add: ra_mid_def)
  then have "card ?c \<le> card {next_index out..<window_end out}"
    by (intro card_mono) auto
  then show le: "card ?c \<le> unat (available_capacity out)" by (simp add: window_end_def)
  have "bytes_pending ra = of_nat (card ?c)"
    by (simp add: bytes_pending_def fold_pending_size sum_interval_length [OF wf])
  with le show "unat (bytes_pending ra) = card ?c"
    by (simp add: unat_of_nat_unat_le)
qed

lemma insert_into_new:
  "\<exists>ra' out'. reassembler_insert 1 [66] False new_reassembler (new_byte_stream 4) = Inr (ra', out') \<and>
     ra_intervals ra' = [(1, 2)] \<and> stream_content out' = []"
  by (simp add: reassembler_insert_def ra_prepare_def new_reassembler_def new_byte_stream_def
      new_circ_buffer_def circ_set_size_def circ_set_first_unpopped_def writer_bytes_pushed_def
      reader_bytes_popped_def available_capacity_def string_resize_def circ_insert_def memcpy_def
      merge_and_insert_def ra_deliver_def ra_close_def stream_content_def Let_def)

subsection \<open>Properties\<close>

text \<open>
  C3: \<open>Reassembler::insert\<close> never leaves the circular buffer or the string it moves,
  keeps the reassembler's invariant, and refines its specification: the bytes of the
  substring that fall in the window are stored, the longest run of known bytes from the
  next index is written to the stream and forgotten, everything else is discarded, and
  the stream is closed exactly when the announced last index has been written (unless the
  substring starts beyond the window, when the code returns early).
\<close>

theorem reassembler_insert_refines:
  assumes "ra_inv ra out" and "unat first_index + length data < 2 ^ 64"
  shows "\<exists>ra' out'. reassembler_insert first_index data is_last ra out = Inr (ra', out') \<and>
           ra_inv ra' out' \<and> insert_spec first_index data is_last ra out ra' out'"
  by (rule reassembler_insert_spec [OF assms, of is_last]) blast

theorem reassembler_insert_refines_witness:
  "\<exists>ra' out'. reassembler_insert 1 [66] True new_reassembler (new_byte_stream 4) = Inr (ra', out') \<and>
     ra_inv ra' out' \<and> insert_spec 1 [66] True new_reassembler (new_byte_stream 4) ra' out'"
  by (rule reassembler_insert_refines) (simp_all add: ra_inv_new)

text \<open>
  \<open>bytes_pending\<close> is the number of distinct bytes stored, and never more than the
  room left in the stream.
\<close>

theorem bytes_pending_counts:
  assumes "ra_inv ra out"
  shows "unat (bytes_pending ra) = card {i. pending ra i \<noteq> None} \<and>
         bytes_pending ra \<le> available_capacity out"
proof -
  have mid: "ra_mid ra out" using assms by (simp add: ra_inv_def)
  have "{i. pending ra i \<noteq> None} = covered (ra_intervals ra)" by (auto simp: pending_def)
  with bytes_pending_card [OF mid] show ?thesis by (simp add: word_le_nat_alt)
qed

theorem bytes_pending_counts_witness:
  "\<exists>ra out. reassembler_insert 1 [66] False new_reassembler (new_byte_stream 4) = Inr (ra, out) \<and>
     bytes_pending ra = 1 \<and> unat (bytes_pending ra) = card {i. pending ra i \<noteq> None} \<and>
     bytes_pending ra \<le> available_capacity out"
proof -
  obtain ra out where ins:
      "reassembler_insert 1 [66] False new_reassembler (new_byte_stream 4) = Inr (ra, out)"
    and "ra_intervals ra = [(1, 2)]"
    using insert_into_new by blast
  then have "bytes_pending ra = 1" by (simp add: bytes_pending_def interval_length_def)
  moreover have "ra_inv ra out"
    by (rule reassembler_insert_spec [of new_reassembler "new_byte_stream 4" 1 "[66]" False])
       (use ins in \<open>simp_all add: ra_inv_new\<close>)
  ultimately show ?thesis using ins bytes_pending_counts [of ra out] by blast
qed

end
