(* ===== verification/Reassembly.thy ===== *)
theory Reassembly
  imports Reassembler
begin

text \<open>
  The reassembler, its output stream and a reader over a whole execution: substrings of
  one stream arrive in any order, overlapping and repeated, interleaved with reads.  The
  record carries two ghost fields, the bytes read so far and the indices that have been
  accepted into the window.
\<close>

subsection \<open>Executions\<close>

record reasm_sys =
  rs_ra :: reassembler
  rs_out :: byte_stream
  rs_read :: bytes
  rs_accepted :: "nat set"

datatype reasm_event = Arrive u64 bytes bool | Read u64

definition new_sys :: "u64 \<Rightarrow> reasm_sys" where
  "new_sys c = \<lparr>rs_ra = new_reassembler, rs_out = new_byte_stream c, rs_read = [],
                rs_accepted = {}\<rparr>"

definition in_window :: "byte_stream \<Rightarrow> u64 \<Rightarrow> bytes \<Rightarrow> nat set" where
  "in_window out f d = {max (next_index out) (unat f)..<min (window_end out) (unat f + length d)}"

fun sys_step :: "reasm_event \<Rightarrow> reasm_sys \<Rightarrow> reasm_sys result" where
  "sys_step (Arrive f d l) s =
     bind_result (reassembler_insert f d l (rs_ra s) (rs_out s)) (\<lambda>(ra, out).
     Inr (s\<lparr>rs_ra := ra, rs_out := out,
            rs_accepted := rs_accepted s \<union> in_window (rs_out s) f d\<rparr>))"
| "sys_step (Read n) s =
     bind_result (read_stream (rs_out s) n) (\<lambda>(out, d).
     Inr (s\<lparr>rs_out := out, rs_read := rs_read s @ d\<rparr>))"

fun sys_run :: "reasm_event list \<Rightarrow> reasm_sys \<Rightarrow> reasm_sys result" where
  "sys_run [] s = Inr s"
| "sys_run (e # es) s = bind_result (sys_step e s) (sys_run es)"

text \<open>An arriving substring is one of the stream \<open>str\<close>, and is marked last only at its end.\<close>

fun event_of :: "bytes \<Rightarrow> reasm_event \<Rightarrow> bool" where
  "event_of str (Arrive f d l) \<longleftrightarrow>
     unat f + length d \<le> length str \<and> d = take (length d) (drop (unat f) str) \<and>
     (l \<longrightarrow> unat f + length d = length str)"
| "event_of str (Read n) \<longleftrightarrow> True"

subsection \<open>Invariant\<close>

definition sys_inv :: "bytes \<Rightarrow> reasm_sys \<Rightarrow> bool" where
  "sys_inv str s \<longleftrightarrow>
     ra_inv (rs_ra s) (rs_out s) \<and>
     rs_read s @ stream_content (rs_out s) = take (next_index (rs_out s)) str \<and>
     length (rs_read s) = unat (bs_bytes_popped (rs_out s)) \<and>
     next_index (rs_out s) \<le> length str \<and>
     rs_accepted s \<subseteq> {..<length str} \<and>
     {..<next_index (rs_out s)} \<subseteq> rs_accepted s \<and>
     next_index (rs_out s) \<notin> rs_accepted s \<and>
     (\<forall>i. pending (rs_ra s) i =
            (if next_index (rs_out s) \<le> i \<and> i \<in> rs_accepted s then Some (str ! i) else None)) \<and>
     (ra_last_received (rs_ra s) \<longrightarrow> ra_last_index (rs_ra s) = of_nat (length str)) \<and>
     (bs_closed (rs_out s) \<longleftrightarrow>
        ra_last_received (rs_ra s) \<and> next_index (rs_out s) = length str)"

lemma sys_inv_new: "sys_inv str (new_sys c)"
  using ra_inv_new [of c]
  by (simp add: sys_inv_def new_sys_def stream_simps)
     (simp add: new_byte_stream_def new_reassembler_def next_index_def pending_def)

text \<open>The longest run in a stream whose known indices are \<open>known\<close>.\<close>

lemma spec_run_of_stream:
  assumes p: "\<And>i. u \<le> i \<Longrightarrow> p i = (if i \<in> known then Some (str ! i) else None)"
    and known: "known \<subseteq> {..<length str}" and uv: "\<And>i. i \<in> known \<Longrightarrow> u \<le> i \<Longrightarrow> i < v"
    and u: "u \<le> length str"
  obtains n where "spec_run u v p = map ((!) str) [u..<n]" and "u \<le> n" and "n \<le> length str"
    and "{u..<n} \<subseteq> known" and "n \<notin> known"
proof -
  define n where "n = (LEAST i. u \<le> i \<and> i \<notin> known)"
  have ex: "u \<le> length str \<and> length str \<notin> known" using u known by auto
  have n: "u \<le> n \<and> n \<notin> known" unfolding n_def 
    by (rule LeastI [where P = "\<lambda>i. u \<le> i \<and> i \<notin> known", OF ex])
  have nl: "n \<le> length str" unfolding n_def by (rule Least_le) (rule ex)
  have kn: "{u..<n} \<subseteq> known"
  proof
    fix i assume i: "i \<in> {u..<n}"
    then have "\<not> (u \<le> i \<and> i \<notin> known)"
      unfolding n_def by (intro not_less_Least) simp
    with i show "i \<in> known" by simp
  qed
  show thesis
  proof (rule that [OF _ _ nl kn])
    show "spec_run u v p = map ((!) str) [u..<n]"
    proof (cases "u \<le> v")
      case True
      have "n \<le> v"
      proof (cases "u < n")
        case True
        have "n - 1 \<in> {u..<n}" using True by auto
        then have "n - 1 < v" using kn uv by auto
        then show ?thesis by simp
      qed (use n True in simp)
      moreover have "p i = Some (str ! i)" if "u \<le> i" "i < n" for i
      proof -
        from that have "i \<in> {u..<n}" by simp
        with kn have "i \<in> known" by blast
        with p [OF that(1)] show ?thesis by simp
      qed
      moreover have "p n = None" using p [of n] n by simp
      ultimately show ?thesis using n by (intro spec_run_prefix) blast+
    next
      case False
      have "n = u"
      proof (rule ccontr)
        assume "n \<noteq> u"
        with n have "u \<in> {u..<n}" by simp
        with kn have "u \<in> known" by blast
        with uv [of u] False show False by simp
      qed
      with False show ?thesis by (simp add: spec_run_def)
    qed
  qed (use n in auto)
qed

lemma unat_of_length:
  assumes "length str < 2 ^ 64"
  shows "bs_bytes_pushed out = of_nat (length str) \<longleftrightarrow> next_index out = length str"
  using assms by (simp add: next_index_def word_unat_eq_iff unat_of_nat_small)

subsection \<open>Each event keeps the invariant\<close>

lemma take_map_nth:
  "u \<le> n \<Longrightarrow> n \<le> length str \<Longrightarrow> take u str @ map ((!) str) [u..<n] = take n str"
  by (rule nth_equalityI) (auto simp: nth_append)

lemma sys_inv_arrive:
  assumes inv: "sys_inv str s" and ev: "event_of str (Arrive f d l)"
    and small: "length str < 2 ^ 64"
  shows "\<exists>s'. sys_step (Arrive f d l) s = Inr s' \<and> sys_inv str s' \<and>
              bs_capacity (rs_out s') = bs_capacity (rs_out s)"
proof -
  let ?ra = "rs_ra s" and ?out = "rs_out s" and ?acc = "rs_accepted s"
  let ?u = "next_index ?out" and ?v = "window_end ?out"
  let ?acc' = "?acc \<union> in_window ?out f d"
  let ?p = "spec_store ?u ?v (unat f) d (pending ?ra)"
  have ri: "ra_inv ?ra ?out" using inv by (simp add: sys_inv_def)
  have fd: "unat f + length d \<le> length str" and d: "d = take (length d) (drop (unat f) str)"
    using ev by auto
  have nw: "unat f + length d < 2 ^ 64" using fd small by simp
  obtain ra' out' where ins: "reassembler_insert f d l ?ra ?out = Inr (ra', out')"
    and ri': "ra_inv ra' out'" and sp: "insert_spec f d l ?ra ?out ra' out'"
    using reassembler_insert_spec [OF ri nw] .
  have dn: "d ! (i - unat f) = str ! i" if "unat f \<le> i" "i < unat f + length d" for i
    using that fd by (subst d) simp
  have p: "?p i = (if i \<in> ?acc' then Some (str ! i) else None)" if "?u \<le> i" for i
    using inv that dn [of i] by (auto simp: sys_inv_def spec_store_def in_window_def)
  have acc': "?acc' \<subseteq> {..<length str}"
    using inv fd by (auto simp: sys_inv_def in_window_def)
  have pv: "i < ?v" if "i \<in> ?acc'" "?u \<le> i" for i
  proof (rule ccontr)
    assume "\<not> i < ?v"
    then have "pending ?ra i = None" "i \<notin> in_window ?out f d"
      using ri pending_outside [of ?ra ?out i] by (auto simp: ra_inv_def in_window_def)
    with inv that show False by (auto simp: sys_inv_def split: if_splits)
  qed
  have ul: "?u \<le> length str" using inv by (simp add: sys_inv_def)
  obtain n where run: "spec_run ?u ?v ?p = map ((!) str) [?u..<n]" and n: "?u \<le> n" "n \<le> length str"
    "{?u..<n} \<subseteq> ?acc'" "n \<notin> ?acc'"
    using spec_run_of_stream [OF p acc' pv ul] by blast
  have out': "stream_content out' = stream_content ?out @ map ((!) str) [?u..<n]"
    "next_index out' = n" "pending ra' = spec_rest n ?p"
    using sp n(1) by (simp_all add: insert_spec_def delivers_def run)
  have "rs_read s @ stream_content out' = take n str"
    using inv take_map_nth [OF n(1,2)] unfolding out'(1) sys_inv_def append_assoc [symmetric]
    by simp
  moreover have "pending ra' i = (if n \<le> i \<and> i \<in> ?acc' then Some (str ! i) else None)" for i
    using p [of i] n(1) by (auto simp: out'(3) spec_rest_def)
  moreover have "{..<n} \<subseteq> ?acc'"
    using inv n(3) by (fastforce simp: sys_inv_def not_le)
  moreover have last: "ra_last_received ra' \<longrightarrow> ra_last_index ra' = of_nat (length str)"
    using sp inv ev by (auto simp: insert_spec_def sys_inv_def simp flip: of_nat_add)
  moreover have "bs_closed out' \<longleftrightarrow> ra_last_received ra' \<and> n = length str"
  proof -
    have "?u \<le> ?v" by (simp add: window_end_def)
    have beyond: "\<not> ?v < unat f" if "n = length str" "ra_last_received ra'"
    proof
      assume far: "?v < unat f"
      then have "in_window ?out f d = {}" by (simp add: in_window_def)
      then have "n = ?u"
        using n inv by (metis Un_empty_right atLeastLessThan_iff le_neq_implies_less le_refl
            subsetD sys_inv_def)
      with that far fd \<open>?u \<le> ?v\<close> show False by simp
    qed
    have "bs_closed out' \<longleftrightarrow> bs_closed ?out \<or> (unat f \<le> ?v \<and> ra_last_received ra' \<and> n = length str)"
      using sp last unat_of_length [OF small, of out'] out'(2)
      by (auto simp: insert_spec_def insert_closes_def)
    moreover have "ra_last_received ra' \<and> n = length str" if "bs_closed ?out"
      using that inv sp n(1,2) by (auto simp: sys_inv_def insert_spec_def)
    ultimately show ?thesis using beyond by auto
  qed
  ultimately have "sys_inv str (s\<lparr>rs_ra := ra', rs_out := out', rs_accepted := ?acc'\<rparr>)"
    using ri' n acc' out'(2) inv sp by (simp add: sys_inv_def insert_spec_def)
  with ins sp show ?thesis by (auto simp: insert_spec_def)
qed

lemma sys_inv_read:
  assumes inv: "sys_inv str s" and small: "length str + unat (bs_capacity (rs_out s)) < 2 ^ 64"
  shows "\<exists>s'. sys_step (Read n) s = Inr s' \<and> sys_inv str s' \<and>
              bs_capacity (rs_out s') = bs_capacity (rs_out s)"
proof -
  let ?out = "rs_out s"
  have mid: "ra_mid (rs_ra s) ?out" using inv by (simp add: sys_inv_def ra_inv_def)
  then have si: "stream_inv ?out" by (simp add: ra_mid_def)
  obtain out' where rd: "read_stream ?out n = Inr (out', take (unat n) (stream_content ?out))"
    and o: "stream_inv out'" "stream_content out' = drop (unat n) (stream_content ?out)"
      "bs_closed out' = bs_closed ?out" "bs_capacity out' = bs_capacity ?out"
      "bs_bytes_pushed out' = bs_bytes_pushed ?out"
    using read_stream_correct [OF si, of n] by metis
  let ?read = "rs_read s @ take (unat n) (stream_content ?out)"
  have ni: "next_index out' = next_index ?out" using o(5) by (simp add: next_index_def)
  have whole: "?read @ stream_content out' = take (next_index ?out) str"
    using inv o(2) by (simp add: sys_inv_def)
  have "length ?read + length (stream_content out') = next_index ?out"
    using inv arg_cong [OF whole, of length] by (simp add: sys_inv_def)
  then have len: "length ?read = next_index ?out - length (stream_content out')" by simp
  have pl: "unat (bs_bytes_popped out') = length ?read"
  proof -
    have "bs_bytes_popped out' = bs_bytes_pushed out' - bs_current_size out'"
      using o(1) by (simp add: stream_inv_def)
    moreover have "length (stream_content out') \<le> next_index ?out"
      using \<open>length ?read + length (stream_content out') = next_index ?out\<close> by simp
    ultimately show ?thesis
      using o(5) stream_inv_size [OF o(1)] len by (simp add: next_index_def unat_sub_le)
  qed
  have "next_index ?out \<le> length str" using inv by (simp add: sys_inv_def)
  then have nw: "no_wrap out'" using pl len o(4) small by (simp add: no_wrap_def)
  have "window_end ?out \<le> window_end out'"
    using ra_mid_window(2) [OF mid] window(2) [OF o(1) nw] o(4) pl inv
    by (simp add: sys_inv_def)
  then have "ra_inv (rs_ra s) out'"
    using inv o nw ni by (fastforce simp: sys_inv_def ra_inv_def ra_mid_def ra_buffer_ok_def)
  then have "sys_inv str (s\<lparr>rs_out := out', rs_read := ?read\<rparr>)"
    using inv whole pl ni o(3) by (simp add: sys_inv_def)
  with rd o(4) show ?thesis by simp
qed

lemma sys_inv_step:
  assumes "sys_inv str s" and "event_of str e"
    and "length str + unat (bs_capacity (rs_out s)) < 2 ^ 64"
  shows "\<exists>s'. sys_step e s = Inr s' \<and> sys_inv str s' \<and>
              bs_capacity (rs_out s') = bs_capacity (rs_out s)"
proof (cases e)
  case (Arrive f d l)
  with assms show ?thesis using sys_inv_arrive [of str s f d l] by simp
next
  case (Read n)
  with assms show ?thesis using sys_inv_read [of str s n] by simp
qed

lemma sys_inv_run:
  assumes "sys_inv str s" and "\<forall>e \<in> set es. event_of str e"
    and "length str + unat (bs_capacity (rs_out s)) < 2 ^ 64"
  shows "\<exists>s'. sys_run es s = Inr s' \<and> sys_inv str s'"
  using assms
proof (induction es arbitrary: s)
  case (Cons e es)
  then obtain s' where "sys_step e s = Inr s'" "sys_inv str s'"
    "bs_capacity (rs_out s') = bs_capacity (rs_out s)"
    using sys_inv_step [of str s e] by auto
  with Cons show ?case by simp
qed simp

lemma sys_inv_next:
  assumes "sys_inv str s"
  shows "next_index (rs_out s) = (LEAST i. i \<notin> rs_accepted s)"
proof (rule Least_equality [symmetric])
  show "next_index (rs_out s) \<notin> rs_accepted s" using assms by (simp add: sys_inv_def)
  fix i assume "i \<notin> rs_accepted s"
  moreover have "{..<next_index (rs_out s)} \<subseteq> rs_accepted s"
    using assms by (simp add: sys_inv_def)
  ultimately show "next_index (rs_out s) \<le> i" by (meson lessThan_iff not_le subsetD)
qed

subsection \<open>Properties\<close>

text \<open>
  C4: Whatever substrings of a stream arrive, in any order, overlapping, repeated and
  interleaved with reads, no operation fails, and after each execution: the bytes read
  followed by the bytes buffered are a prefix of the stream; the prefix ends at the first
  index that has not yet been accepted into the window (so no byte is delivered late);
  and the stream is closed exactly when its end has been announced and all of it has been
  written.
\<close>

theorem reassembly_delivers_prefix:
  assumes "\<forall>e \<in> set es. event_of str e" and "length str + unat c < 2 ^ 64"
  shows "\<exists>s. sys_run es (new_sys c) = Inr s \<and>
           rs_read s @ stream_content (rs_out s) = take (LEAST i. i \<notin> rs_accepted s) str \<and>
           (bs_closed (rs_out s) \<longleftrightarrow>
              ra_last_received (rs_ra s) \<and> rs_read s @ stream_content (rs_out s) = str)"
proof -
  have "bs_capacity (rs_out (new_sys c)) = c" by (simp add: new_sys_def new_byte_stream_def)
  with assms obtain s where run: "sys_run es (new_sys c) = Inr s" and inv: "sys_inv str s"
    using sys_inv_run [OF sys_inv_new, of es str c] by auto
  have whole: "rs_read s @ stream_content (rs_out s) = take (next_index (rs_out s)) str"
    using inv by (simp add: sys_inv_def)
  moreover have "next_index (rs_out s) = length str \<longleftrightarrow>
      rs_read s @ stream_content (rs_out s) = str"
    unfolding whole using inv
    by (metis length_take min_absorb2 order_refl sys_inv_def take_all)
  ultimately show ?thesis
    using run inv sys_inv_next [OF inv] by (auto simp: sys_inv_def)
qed

theorem reassembly_delivers_prefix_witness:
  "\<exists>s. sys_run [Arrive 1 [2, 3] True, Read 5, Arrive 0 [1, 2] False, Read 2] (new_sys 3) = Inr s \<and>
       rs_read s @ stream_content (rs_out s) = take (LEAST i. i \<notin> rs_accepted s) [1, 2, 3]"
proof -
  have "\<forall>e \<in> set [Arrive 1 [2, 3] True, Read 5, Arrive 0 [1, 2] False, Read 2]. event_of [1, 2, 3] e"
    by simp
  from reassembly_delivers_prefix [OF this, of 3] show ?thesis by auto
qed

end
