(* ===== verification/Tcp_Messages.thy ===== *)
theory Tcp_Messages
  imports Wrapping_Integers
begin

text \<open>
  The messages between a TCP sender and a TCP receiver
  (\<open>util/tcp_sender_message.hh\<close>, \<open>util/tcp_receiver_message.hh\<close>) and the configuration
  constants of \<open>util/tcp_config.hh\<close>.
\<close>

record tcp_sender_message =
  sm_seqno :: wrap32
  sm_SYN :: bool
  sm_payload :: bytes
  sm_FIN :: bool

definition empty_sender_message :: tcp_sender_message where
  "empty_sender_message =
     \<lparr>sm_seqno = Wrap32 0, sm_SYN = False, sm_payload = [], sm_FIN = False\<rparr>"

definition sequence_length :: "tcp_sender_message \<Rightarrow> nat" where
  "sequence_length m = of_bool (sm_SYN m) + length (sm_payload m) + of_bool (sm_FIN m)"

record tcp_receiver_message =
  rm_ackno :: "wrap32 option"
  rm_window_size :: u16

definition MAX_PAYLOAD_SIZE :: nat where
  "MAX_PAYLOAD_SIZE = 1000"

definition DEFAULT_CAPACITY :: u64 where
  "DEFAULT_CAPACITY = 64000"

definition TIMEOUT_DFLT :: u16 where
  "TIMEOUT_DFLT = 1000"

definition MAX_RETX_ATTEMPTS :: nat where
  "MAX_RETX_ATTEMPTS = 8"

record tcp_config =
  cfg_rt_timeout :: u16
  cfg_recv_capacity :: u64
  cfg_send_capacity :: u64
  cfg_fixed_isn :: "wrap32 option"

definition default_tcp_config :: tcp_config where
  "default_tcp_config =
     \<lparr>cfg_rt_timeout = TIMEOUT_DFLT, cfg_recv_capacity = DEFAULT_CAPACITY,
      cfg_send_capacity = DEFAULT_CAPACITY, cfg_fixed_isn = None\<rparr>"

lemma sequence_length_pos:
  "0 < sequence_length m \<longleftrightarrow> sm_SYN m \<or> sm_FIN m \<or> sm_payload m \<noteq> []"
  by (auto simp: sequence_length_def)

end
