(* ===== verification/Tcp_Receiver.thy ===== *)
theory Tcp_Receiver
  imports Reassembly Tcp_Messages
begin

text \<open>
  The TCP receiver of \<open>src/tcp_receiver.hh\<close> and \<open>src/tcp_receiver.cc\<close>: it turns the
  sequence number of a segment into a stream index, hands the payload to the reassembler,
  and tells the peer which sequence number it needs next and how much it can take.
\<close>

subsection \<open>State and operations\<close>

record tcp_receiver =
  rcv_isn :: wrap32
  rcv_syn :: bool
  rcv_fin :: bool

definition new_tcp_receiver :: tcp_receiver where
  "new_tcp_receiver = \<lparr>rcv_isn = Wrap32 0, rcv_syn = False, rcv_fin = False\<rparr>"

text \<open>The stream index computed by \<open>receive\<close> for the first byte of the payload.\<close>

definition receiver_stream_index :: "tcp_sender_message \<Rightarrow> wrap32 \<Rightarrow> byte_stream \<Rightarrow> u64" where
  "receiver_stream_index message isn inbound =
     (let seqno = (if sm_SYN message then wrap32_plus (sm_seqno message) 1 else sm_seqno message)
      in unwrap seqno isn (writer_bytes_pushed inbound) - 1)"

definition receiver_receive ::
  "tcp_sender_message \<Rightarrow> tcp_receiver \<Rightarrow> reassembler \<Rightarrow> byte_stream \<Rightarrow>
   (tcp_receiver \<times> reassembler \<times> byte_stream) result" where
  "receiver_receive message r ra inbound =
     (let r = (if \<not> rcv_syn r \<and> sm_SYN message
               then r\<lparr>rcv_isn := sm_seqno message, rcv_syn := True\<rparr> else r)
      in if rcv_syn r then
           let stream_index = receiver_stream_index message (rcv_isn r) inbound;
               is_last_substring = sm_FIN message;
               r = r\<lparr>rcv_fin := rcv_fin r \<or> sm_FIN message\<rparr>
           in bind_result (reassembler_insert stream_index (sm_payload message)
                             is_last_substring ra inbound) (\<lambda>(ra, inbound).
              Inr (r, ra, inbound))
         else Inr (r, ra, inbound))"

definition receiver_send :: "tcp_receiver \<Rightarrow> byte_stream \<Rightarrow> tcp_receiver_message" where
  "receiver_send r inbound =
     \<lparr>rm_ackno =
        (if rcv_syn r
         then Some (wrap (writer_bytes_pushed inbound + 1 +
                          of_bool (rcv_fin r \<and> writer_is_closed inbound)) (rcv_isn r))
         else None),
      rm_window_size = ucast (min (available_capacity inbound) 65535)\<rparr>"

subsection \<open>Segments of a peer's stream\<close>

text \<open>
  A segment of the stream \<open>str\<close> sent with initial sequence number \<open>isn\<close>: the SYN has
  absolute sequence number 0, byte \<open>i\<close> of the stream has \<open>i + 1\<close>.
\<close>

definition segment_index :: "tcp_sender_message \<Rightarrow> nat \<Rightarrow> nat" where
  "segment_index m f = (if sm_SYN m then 0 else f + 1)"

definition segment_of :: "bytes \<Rightarrow> wrap32 \<Rightarrow> nat \<Rightarrow> tcp_sender_message \<Rightarrow> bool" where
  "segment_of str isn f m \<longleftrightarrow>
     sm_seqno m = wrap (of_nat (segment_index m f)) isn \<and>
     (sm_SYN m \<longrightarrow> f = 0) \<and>
     f + length (sm_payload m) \<le> length str \<and>
     sm_payload m = take (length (sm_payload m)) (drop f str) \<and>
     (sm_FIN m \<longrightarrow> f + length (sm_payload m) = length str)"

lemma wrap_plus:
  "wrap32_plus (wrap n z) k = wrap (n + ucast k) z"
proof -
  have "(ucast (n + ucast k) :: u32) = ucast n + k"
    by (simp add: word_unat_eq_iff unsigned_ucast_eq unat_word_ariths take_bit_eq_mod
        mod_mod_cancel mod_simps)
  then show ?thesis by (simp add: wrap32_plus_def wrap_def add.assoc)
qed

lemma segment_stream_index:
  assumes seg: "segment_of str isn f m" and small: "length str < 2 ^ 31 - 1"
    and near: "unat pushed \<le> length str"
  shows "unwrap (if sm_SYN m then wrap32_plus (sm_seqno m) 1 else sm_seqno m) isn pushed - 1 =
           of_nat f"
proof -
  have f: "f \<le> length str" using seg by (simp add: segment_of_def)
  have "(if sm_SYN m then wrap32_plus (sm_seqno m) 1 else sm_seqno m) = wrap (of_nat (f + 1)) isn"
    using seg by (auto simp: segment_of_def segment_index_def wrap_plus)
  moreover have n: "unat (of_nat (f + 1) :: u64) = f + 1"
    using f small by (intro unat_of_nat_small) simp
  moreover have "unwrap (wrap (of_nat (f + 1)) isn) isn pushed = of_nat (f + 1)"
    using f small near by (intro unwrap_wrap_near) (auto simp only: n nat_distance_def split: if_splits)
  ultimately show ?thesis by simp
qed

subsection \<open>Executions of the receiver\<close>

datatype receiver_event = Segment tcp_sender_message | Take u64

fun receiver_step ::
  "receiver_event \<Rightarrow> tcp_receiver \<times> reasm_sys \<Rightarrow> (tcp_receiver \<times> reasm_sys) result" where
  "receiver_step (Segment m) (r, s) =
     bind_result (receiver_receive m r (rs_ra s) (rs_out s)) (\<lambda>(r', ra, out).
     Inr (r', s\<lparr>rs_ra := ra, rs_out := out,
                rs_accepted := rs_accepted s \<union>
                  (if rcv_syn r'
                   then in_window (rs_out s) (receiver_stream_index m (rcv_isn r') (rs_out s))
                          (sm_payload m)
                   else {})\<rparr>))"
| "receiver_step (Take n) (r, s) = bind_result (sys_step (Read n) s) (\<lambda>s. Inr (r, s))"

fun receiver_run ::
  "receiver_event list \<Rightarrow> tcp_receiver \<times> reasm_sys \<Rightarrow> (tcp_receiver \<times> reasm_sys) result" where
  "receiver_run [] s = Inr s"
| "receiver_run (e # es) s = bind_result (receiver_step e s) (receiver_run es)"

text \<open>The segments that arrive are segments of one stream, sent from \<open>isn\<close>.\<close>

fun receiver_event_of :: "bytes \<Rightarrow> wrap32 \<Rightarrow> receiver_event \<Rightarrow> bool" where
  "receiver_event_of str isn (Segment m) \<longleftrightarrow> (\<exists>f. segment_of str isn f m)"
| "receiver_event_of str isn (Take n) \<longleftrightarrow> True"

definition receiver_inv :: "bytes \<Rightarrow> wrap32 \<Rightarrow> tcp_receiver \<times> reasm_sys \<Rightarrow> bool" where
  "receiver_inv str isn rs \<longleftrightarrow>
     (let (r, s) = rs
      in sys_inv str s \<and>
         (rcv_syn r \<longrightarrow> rcv_isn r = isn) \<and>
         (\<not> rcv_syn r \<longrightarrow> next_index (rs_out s) = 0 \<and> rs_accepted s = {} \<and>
            \<not> ra_last_received (rs_ra s) \<and> \<not> rcv_fin r) \<and>
         rcv_fin r = ra_last_received (rs_ra s))"

lemma receiver_inv_new: "receiver_inv str isn (new_tcp_receiver, new_sys c)"
  using sys_inv_new [of str c]
  by (simp add: receiver_inv_def new_tcp_receiver_def)
     (simp add: new_sys_def new_byte_stream_def next_index_def new_reassembler_def)

text \<open>Once the SYN is known, a segment is an arriving substring.\<close>

lemma receiver_receive_arrive:
  assumes seg: "segment_of str isn f m" and small: "length str < 2 ^ 31 - 1"
    and inv: "sys_inv str s"
  shows "receiver_stream_index m isn (rs_out s) = of_nat f"
    and "event_of str (Arrive (of_nat f) (sm_payload m) (sm_FIN m))"
proof -
  have "unat (bs_bytes_pushed (rs_out s)) \<le> length str"
    using inv by (simp add: sys_inv_def next_index_def)
  with segment_stream_index [OF seg small]
  show "receiver_stream_index m isn (rs_out s) = of_nat f"
    by (simp add: receiver_stream_index_def writer_bytes_pushed_def Let_def)
  have "f \<le> length str" using seg by (simp add: segment_of_def)
  then have "unat (of_nat f :: u64) = f"
    using small by (intro unat_of_nat_small) simp
  with seg show "event_of str (Arrive (of_nat f) (sm_payload m) (sm_FIN m))"
    by (simp add: segment_of_def)
qed

lemma receiver_inv_segment:
  assumes inv: "receiver_inv str isn (r, s)" and seg: "segment_of str isn f m"
    and small: "length str < 2 ^ 31 - 1"
  shows "\<exists>r' s'. receiver_step (Segment m) (r, s) = Inr (r', s') \<and>
           receiver_inv str isn (r', s') \<and> rcv_syn r' = (rcv_syn r \<or> sm_SYN m) \<and>
           bs_capacity (rs_out s') = bs_capacity (rs_out s)"
proof (cases "rcv_syn r \<or> sm_SYN m")
  case False
  then have "receiver_step (Segment m) (r, s) = Inr (r, s)"
    by (simp add: receiver_receive_def Let_def)
  moreover have "rcv_syn r = (rcv_syn r \<or> sm_SYN m)" using False by blast
  ultimately show ?thesis using inv by blast
next
  case True
  have si: "sys_inv str s" using inv by (simp add: receiver_inv_def)
  note arr = receiver_receive_arrive [OF seg small si]
  have isn: "rcv_isn (if \<not> rcv_syn r \<and> sm_SYN m then r\<lparr>rcv_isn := sm_seqno m, rcv_syn := True\<rparr> else r) = isn"
    using inv seg True by (auto simp: receiver_inv_def segment_of_def segment_index_def wrap_def
        wrap32_plus_def)
  have "length str < 2 ^ 64" using small by simp
  then obtain s' where st: "sys_step (Arrive (of_nat f) (sm_payload m) (sm_FIN m)) s = Inr s'"
    and inv': "sys_inv str s'" and cap: "bs_capacity (rs_out s') = bs_capacity (rs_out s)"
    using sys_inv_arrive [OF si arr(2)] by blast
  from st obtain ra out where
    ins: "reassembler_insert (of_nat f) (sm_payload m) (sm_FIN m) (rs_ra s) (rs_out s) = Inr (ra, out)"
    and s': "s' = s\<lparr>rs_ra := ra, rs_out := out,
        rs_accepted := rs_accepted s \<union> in_window (rs_out s) (of_nat f) (sm_payload m)\<rparr>"
    by auto
  let ?r = "(if \<not> rcv_syn r \<and> sm_SYN m then r\<lparr>rcv_isn := sm_seqno m, rcv_syn := True\<rparr> else r)
              \<lparr>rcv_fin := rcv_fin r \<or> sm_FIN m\<rparr>"
  have step: "receiver_step (Segment m) (r, s) = Inr (?r, s')"
    using True isn ins arr(1) s' by (auto simp: receiver_receive_def Let_def)
  have "unat (of_nat f :: u64) + length (sm_payload m) < 2 ^ 64"
    using arr(2) small by simp
  then have "ra_last_received ra = (ra_last_received (rs_ra s) \<or> sm_FIN m)"
    using reassembler_insert_spec [of "rs_ra s" "rs_out s" "of_nat f" "sm_payload m" "sm_FIN m"]
      si ins by (auto simp: sys_inv_def insert_spec_def)
  then have "receiver_inv str isn (?r, s')"
    using inv inv' isn True s' by (auto simp: receiver_inv_def)
  moreover have "rcv_syn ?r = (rcv_syn r \<or> sm_SYN m)" using True by auto
  ultimately show ?thesis using step cap by blast
qed

lemma receiver_inv_take:
  assumes inv: "receiver_inv str isn (r, s)"
    and small: "length str + unat (bs_capacity (rs_out s)) < 2 ^ 64"
  shows "\<exists>s'. receiver_step (Take n) (r, s) = Inr (r, s') \<and> receiver_inv str isn (r, s') \<and>
              bs_capacity (rs_out s') = bs_capacity (rs_out s)"
proof -
  have si: "sys_inv str s" using inv by (simp add: receiver_inv_def)
  obtain s' where st: "sys_step (Read n) s = Inr s'" and inv': "sys_inv str s'"
    and cap: "bs_capacity (rs_out s') = bs_capacity (rs_out s)"
    using sys_inv_read [OF si small, of n] by blast
  have "rs_accepted s' = rs_accepted s" "rs_ra s' = rs_ra s" using st by auto
  moreover from this have "next_index (rs_out s') = next_index (rs_out s)"
    using sys_inv_next [OF si] sys_inv_next [OF inv'] by simp
  ultimately have "receiver_inv str isn (r, s')"
    using inv inv' by (simp add: receiver_inv_def)
  moreover have "receiver_step (Take n) (r, s) = Inr (r, s')" using st by simp
  ultimately show ?thesis using cap by blast
qed

lemma receiver_inv_run:
  assumes "receiver_inv str isn (r, s)" and "\<forall>e \<in> set es. receiver_event_of str isn e"
    and "length str < 2 ^ 31 - 1" and "length str + unat (bs_capacity (rs_out s)) < 2 ^ 64"
  shows "\<exists>r' s'. receiver_run es (r, s) = Inr (r', s') \<and> receiver_inv str isn (r', s') \<and>
           (rcv_syn r' \<longleftrightarrow> rcv_syn r \<or> (\<exists>m. Segment m \<in> set es \<and> sm_SYN m))"
  using assms
proof (induction es arbitrary: r s)
  case (Cons e es)
  have "\<exists>r1 s1. receiver_step e (r, s) = Inr (r1, s1) \<and> receiver_inv str isn (r1, s1) \<and>
      (rcv_syn r1 \<longleftrightarrow> rcv_syn r \<or> (\<exists>m. e = Segment m \<and> sm_SYN m)) \<and>
      bs_capacity (rs_out s1) = bs_capacity (rs_out s)"
  proof (cases e)
    case (Segment m)
    then obtain f where "segment_of str isn f m" using Cons.prems(2) by auto
    from receiver_inv_segment [OF Cons.prems(1) this Cons.prems(3)] Segment show ?thesis by blast
  next
    case (Take n)
    with receiver_inv_take [OF Cons.prems(1,4), of n] show ?thesis by blast
  qed
  then obtain r1 s1 where st: "receiver_step e (r, s) = Inr (r1, s1)" "receiver_inv str isn (r1, s1)"
      "rcv_syn r1 \<longleftrightarrow> rcv_syn r \<or> (\<exists>m. e = Segment m \<and> sm_SYN m)"
      "bs_capacity (rs_out s1) = bs_capacity (rs_out s)" by blast
  have "\<exists>r' s'. receiver_run es (r1, s1) = Inr (r', s') \<and> receiver_inv str isn (r', s') \<and>
      (rcv_syn r' \<longleftrightarrow> rcv_syn r1 \<or> (\<exists>m. Segment m \<in> set es \<and> sm_SYN m))"
    using Cons.prems st by (intro Cons.IH) simp_all
  with st(1,3) show ?case by (fastforce simp: receiver_run.simps)
qed simp

subsection \<open>Properties\<close>

text \<open>
  C5: Segments of one stream arrive at the receiver in any order, repeated and
  interleaved with reads by the application.  No operation fails.  The bytes handed to
  the application followed by the bytes buffered are a prefix of the stream, ending at
  the first byte not yet accepted; the acknowledgment sent is empty until a SYN has
  arrived and afterwards is the wrapped number of the next sequence number needed (one
  for the SYN, one per byte written, one for the FIN once the stream is closed).
\<close>

theorem receiver_delivers_and_acks:
  assumes "\<forall>e \<in> set es. receiver_event_of str isn e"
    and "length str < 2 ^ 31 - 1" and "length str + unat c < 2 ^ 64"
  shows "\<exists>r s. receiver_run es (new_tcp_receiver, new_sys c) = Inr (r, s) \<and>
           rs_read s @ stream_content (rs_out s) = take (LEAST i. i \<notin> rs_accepted s) str \<and>
           rm_ackno (receiver_send r (rs_out s)) =
             (if \<exists>m. Segment m \<in> set es \<and> sm_SYN m
              then Some (wrap (of_nat (1 + length (rs_read s @ stream_content (rs_out s))) +
                               of_bool (bs_closed (rs_out s))) isn)
              else None)"
proof -
  have "bs_capacity (rs_out (new_sys c)) = c" by (simp add: new_sys_def new_byte_stream_def)
  with assms receiver_inv_run [OF receiver_inv_new, of es str isn c] obtain r s where
    run: "receiver_run es (new_tcp_receiver, new_sys c) = Inr (r, s)"
    and inv: "receiver_inv str isn (r, s)"
    and syn: "rcv_syn r \<longleftrightarrow> (\<exists>m. Segment m \<in> set es \<and> sm_SYN m)"
    by (auto simp: new_tcp_receiver_def)
  have si: "sys_inv str s" using inv by (simp add: receiver_inv_def)
  have whole: "rs_read s @ stream_content (rs_out s) = take (next_index (rs_out s)) str"
    using si by (simp add: sys_inv_def)
  have "length (rs_read s @ stream_content (rs_out s)) = next_index (rs_out s)"
    unfolding whole using si by (simp add: sys_inv_def)
  then have pushed: "bs_bytes_pushed (rs_out s) =
      of_nat (length (rs_read s @ stream_content (rs_out s)))"
    by (simp add: next_index_def)
  have "bs_closed (rs_out s) \<Longrightarrow> rcv_fin r"
    using inv si by (simp add: receiver_inv_def sys_inv_def)
  then have closed: "(rcv_fin r \<and> bs_closed (rs_out s)) = bs_closed (rs_out s)" by blast
  have "rm_ackno (receiver_send r (rs_out s)) =
      (if rcv_syn r then Some (wrap (bs_bytes_pushed (rs_out s) + 1 + of_bool (bs_closed (rs_out s))) isn)
       else None)"
    using inv closed
    by (simp add: receiver_send_def receiver_inv_def writer_bytes_pushed_def writer_is_closed_def)
  with run whole sys_inv_next [OF si] syn pushed show ?thesis
    by (auto simp: add.commute)
qed

theorem receiver_delivers_and_acks_witness:
  "\<exists>r s. receiver_run
            [Segment \<lparr>sm_seqno = Wrap32 9, sm_SYN = False, sm_payload = [3], sm_FIN = True\<rparr>,
             Segment \<lparr>sm_seqno = Wrap32 7, sm_SYN = True, sm_payload = [], sm_FIN = False\<rparr>,
             Segment \<lparr>sm_seqno = Wrap32 8, sm_SYN = False, sm_payload = [2], sm_FIN = False\<rparr>]
            (new_tcp_receiver, new_sys 8) = Inr (r, s) \<and>
         rs_read s @ stream_content (rs_out s) = take (LEAST i. i \<notin> rs_accepted s) [2, 3]"
proof -
  let ?es = "[Segment \<lparr>sm_seqno = Wrap32 9, sm_SYN = False, sm_payload = [3], sm_FIN = True\<rparr>,
      Segment \<lparr>sm_seqno = Wrap32 7, sm_SYN = True, sm_payload = [], sm_FIN = False\<rparr>,
      Segment \<lparr>sm_seqno = Wrap32 8, sm_SYN = False, sm_payload = [2], sm_FIN = False\<rparr>]"
  have "segment_of [2, 3] (Wrap32 7) 1
      \<lparr>sm_seqno = Wrap32 9, sm_SYN = False, sm_payload = [3], sm_FIN = True\<rparr>"
    "segment_of [2, 3] (Wrap32 7) 0
      \<lparr>sm_seqno = Wrap32 7, sm_SYN = True, sm_payload = [], sm_FIN = False\<rparr>"
    "segment_of [2, 3] (Wrap32 7) 0
      \<lparr>sm_seqno = Wrap32 8, sm_SYN = False, sm_payload = [2], sm_FIN = False\<rparr>"
    by (simp_all add: segment_of_def segment_index_def wrap_def wrap32_plus_def)
  then have "\<forall>e \<in> set ?es. receiver_event_of [2, 3] (Wrap32 7) e" by auto
  from receiver_delivers_and_acks [OF this, of 8] show ?thesis
    by (simp del: receiver_run.simps receiver_step.simps) blast
qed

end
