(* ===== verification/Timer.thy ===== *)
theory Timer
  imports Prelude
begin

text \<open>The retransmission timer of \<open>src/Timer.h\<close>; times are 64-bit and their sum wraps.\<close>

record timer =
  tm_time_start :: u64
  tm_timeout :: u64
  tm_running :: bool

definition new_timer :: timer where
  "new_timer = \<lparr>tm_time_start = 0, tm_timeout = 0, tm_running = False\<rparr>"

definition timer_start :: "u64 \<Rightarrow> u64 \<Rightarrow> timer \<Rightarrow> timer" where
  "timer_start time_start timeout t =
     t\<lparr>tm_time_start := time_start, tm_timeout := timeout, tm_running := True\<rparr>"

definition timer_stop :: "timer \<Rightarrow> timer" where
  "timer_stop t = t\<lparr>tm_running := False\<rparr>"

definition timer_is_expired :: "u64 \<Rightarrow> timer \<Rightarrow> bool" where
  "timer_is_expired current_time t \<longleftrightarrow>
     tm_running t \<and> current_time \<ge> tm_time_start t + tm_timeout t"

lemma timer_not_running [simp]: "\<not> timer_is_expired now (timer_stop t)"
  by (simp add: timer_is_expired_def timer_stop_def)

lemma timer_is_running_simps [simp]:
  "tm_running (timer_start a b t)" "\<not> tm_running (timer_stop t)" "\<not> tm_running new_timer"
  by (simp_all add: timer_start_def timer_stop_def new_timer_def)

lemma timer_expires:
  assumes "unat start + unat timeout < 2 ^ 64"
  shows "timer_is_expired now (timer_start start timeout t) \<longleftrightarrow>
         unat start + unat timeout \<le> unat now"
  using assms by (simp add: timer_is_expired_def timer_start_def word_le_nat_alt unat_add_small)

end
