(* ===== verification/Tcp_Sender.thy ===== *)
theory Tcp_Sender
  imports Byte_Stream Tcp_Messages Timer
begin

text \<open>
  The TCP sender of \<open>src/tcp_sender.hh\<close> and \<open>src/tcp_sender.cc\<close>: it cuts the outbound
  stream into segments that fit the peer's window, keeps the unacknowledged ones, and
  retransmits the oldest when the timer expires, with exponential back-off.

  The loop of \<open>push\<close> need not end, so it is a partial function: \<open>None\<close> is a push that
  does not return.
\<close>

subsection \<open>State\<close>

record out_seg =
  os_message :: tcp_sender_message
  os_timestamp :: u64

record tcp_sender =
  ts_isn :: wrap32
  ts_initial_RTO :: u64
  ts_current_RTO :: u64
  ts_timer :: timer
  ts_ackno :: "wrap32 option"
  ts_window :: u16
  ts_pushed :: "tcp_sender_message list"
  ts_in_flight :: "out_seg list"
  ts_time_alive :: u64
  ts_retransmissions :: u64
  ts_syn_sent :: bool
  ts_fin_sent :: bool
  ts_abs_seqno :: u64
  ts_retransmit :: bool
  ts_dont_back_off :: bool

text \<open>The random device of the constructor is the argument \<open>random\<close>.\<close>

definition new_tcp_sender :: "u64 \<Rightarrow> wrap32 option \<Rightarrow> u32 \<Rightarrow> tcp_sender" where
  "new_tcp_sender initial_RTO fixed_isn random =
     (let isn = (case fixed_isn of Some i \<Rightarrow> i | None \<Rightarrow> Wrap32 random)
      in \<lparr>ts_isn = isn, ts_initial_RTO = initial_RTO, ts_current_RTO = initial_RTO,
          ts_timer = new_timer, ts_ackno = Some isn, ts_window = 1, ts_pushed = [],
          ts_in_flight = [], ts_time_alive = 0, ts_retransmissions = 0, ts_syn_sent = False,
          ts_fin_sent = False, ts_abs_seqno = 0, ts_retransmit = False,
          ts_dont_back_off = False\<rparr>)"

lemma new_tcp_sender_fields [simp]:
  "ts_isn (new_tcp_sender rto fixed r) = (case fixed of Some i \<Rightarrow> i | None \<Rightarrow> Wrap32 r)"
  "ts_ackno (new_tcp_sender rto fixed r) = Some (ts_isn (new_tcp_sender rto fixed r))"
  "ts_initial_RTO (new_tcp_sender rto fixed r) = rto"
  "ts_current_RTO (new_tcp_sender rto fixed r) = rto"
  "ts_timer (new_tcp_sender rto fixed r) = new_timer"
  "ts_window (new_tcp_sender rto fixed r) = 1"
  "ts_pushed (new_tcp_sender rto fixed r) = []"
  "ts_in_flight (new_tcp_sender rto fixed r) = []"
  "ts_time_alive (new_tcp_sender rto fixed r) = 0"
  "ts_retransmissions (new_tcp_sender rto fixed r) = 0"
  "\<not> ts_syn_sent (new_tcp_sender rto fixed r)"
  "\<not> ts_fin_sent (new_tcp_sender rto fixed r)"
  "ts_abs_seqno (new_tcp_sender rto fixed r) = 0"
  "\<not> ts_retransmit (new_tcp_sender rto fixed r)"
  "\<not> ts_dont_back_off (new_tcp_sender rto fixed r)"
  by (simp_all add: new_tcp_sender_def Let_def)

subsection \<open>Operations\<close>

definition sequence_numbers_in_flight :: "tcp_sender \<Rightarrow> u64" where
  "sequence_numbers_in_flight s =
     (let amount = fold (\<lambda>seg n. n + of_nat (sequence_length (os_message seg))) (ts_in_flight s) 0
      in fold (\<lambda>m n. n + of_nat (sequence_length m)) (ts_pushed s) amount)"

definition consecutive_retransmissions :: "tcp_sender \<Rightarrow> u64" where
  "consecutive_retransmissions s = ts_retransmissions s"

definition sender_maybe_send :: "tcp_sender \<Rightarrow> (tcp_sender \<times> tcp_sender_message option) result" where
  "sender_maybe_send s =
     (if ts_retransmit s then
        (let s = s\<lparr>ts_retransmit := False\<rparr>
         in case ts_in_flight s of
              [] \<Rightarrow> Inl (Undefined ''front() of an empty deque'')
            | seg # segs \<Rightarrow>
                Inr (s\<lparr>ts_in_flight := seg\<lparr>os_timestamp := ts_time_alive s\<rparr> # segs\<rparr>,
                     Some (os_message seg)))
      else case ts_pushed s of
             [] \<Rightarrow> Inr (s, None)
           | m # ms \<Rightarrow>
               (let s = s\<lparr>ts_pushed := ms,
                          ts_in_flight := ts_in_flight s @
                            [\<lparr>os_message = m, os_timestamp = ts_time_alive s\<rparr>]\<rparr>;
                    s = (if \<not> tm_running (ts_timer s)
                         then s\<lparr>ts_timer := timer_start (ts_time_alive s) (ts_current_RTO s)
                                             (ts_timer s)\<rparr>
                         else s)
                in Inr (s, Some m)))"

text \<open>One round of the loop of \<open>push\<close>, up to the test that breaks it.\<close>

definition push_round ::
  "u64 \<Rightarrow> tcp_sender_message \<Rightarrow> tcp_sender \<Rightarrow> byte_stream \<Rightarrow>
   (u64 \<times> tcp_sender_message \<times> tcp_sender \<times> byte_stream) result" where
  "push_round budget segment s outbound =
     (let segment_size = min (of_nat MAX_PAYLOAD_SIZE) (min budget (reader_bytes_buffered outbound))
      in bind_result (read_stream outbound segment_size) (\<lambda>(outbound, b).
         let segment = segment\<lparr>sm_payload := b\<rparr>;
             budget = budget - of_nat (length b);
             segment = segment\<lparr>sm_seqno := wrap (ts_abs_seqno s - of_bool (sm_SYN segment)) (ts_isn s)\<rparr>;
             s = s\<lparr>ts_abs_seqno := ts_abs_seqno s + of_nat (length b)\<rparr>;
             add_fin = (\<not> ts_fin_sent s \<and> reader_is_finished outbound \<and>
                        (budget > 0 \<or> (budget = 0 \<and> sm_SYN segment)));
             budget = (if add_fin then budget - 1 else budget);
             s = (if add_fin
                  then s\<lparr>ts_fin_sent := True, ts_abs_seqno := ts_abs_seqno s + 1\<rparr> else s);
             segment = (if add_fin then segment\<lparr>sm_FIN := True\<rparr> else segment);
             s = (if segment_size > 0 \<or> sm_FIN segment \<or> sm_SYN segment
                  then s\<lparr>ts_pushed := ts_pushed s @ [segment]\<rparr> else s)
         in Inr (budget, segment, s, outbound)))"

partial_function (option) push_loop ::
  "u64 \<Rightarrow> tcp_sender_message \<Rightarrow> tcp_sender \<Rightarrow> byte_stream \<Rightarrow>
   (tcp_sender \<times> byte_stream) result option" where
  "push_loop budget segment s outbound =
     (if budget > 0 \<or> sm_SYN segment then
        (case push_round budget segment s outbound of
           Inl e \<Rightarrow> Some (Inl e)
         | Inr st \<Rightarrow>
             (case st of (budget, segment, s, outbound) \<Rightarrow>
                if reader_bytes_buffered outbound = 0 then Some (Inr (s, outbound))
                else push_loop budget segment s outbound))
      else Some (Inr (s, outbound)))"

definition sender_push ::
  "tcp_sender \<Rightarrow> byte_stream \<Rightarrow> (tcp_sender \<times> byte_stream) result option" where
  "sender_push s outbound =
     (case ts_ackno s of
        None \<Rightarrow> Some (Inl (Undefined ''empty optional''))
      | Some ackno \<Rightarrow>
          (let segment = empty_sender_message;
               budget = ucast (ts_window s) -
                       (ts_abs_seqno s - unwrap ackno (ts_isn s) (ts_abs_seqno s));
               first = \<not> ts_syn_sent s;
               segment = (if first then segment\<lparr>sm_SYN := True\<rparr> else segment);
               budget = (if first then budget - 1 else budget);
               s = (if first
                    then s\<lparr>ts_syn_sent := True, ts_abs_seqno := ts_abs_seqno s + 1\<rparr> else s)
           in push_loop budget segment s outbound))"

definition sender_send_empty_message :: "tcp_sender \<Rightarrow> tcp_sender_message" where
  "sender_send_empty_message s =
     empty_sender_message\<lparr>sm_seqno := wrap (ts_abs_seqno s) (ts_isn s)\<rparr>"

text \<open>The loop of \<open>receive\<close> that forgets the fully acknowledged segments.\<close>

fun pop_acked :: "wrap32 \<Rightarrow> u64 \<Rightarrow> u64 \<Rightarrow> out_seg list \<Rightarrow> out_seg list" where
  "pop_acked isn abs_seqno abs_ackno [] = []"
| "pop_acked isn abs_seqno abs_ackno (seg # segs) =
     (if unwrap (sm_seqno (os_message seg)) isn abs_seqno +
           of_nat (sequence_length (os_message seg)) > abs_ackno
      then seg # segs
      else pop_acked isn abs_seqno abs_ackno segs)"

text \<open>The rest of \<open>receive\<close> after the acknowledged segments are gone.\<close>

definition receive_new_ack :: "u64 \<Rightarrow> u64 \<Rightarrow> tcp_sender \<Rightarrow> tcp_sender" where
  "receive_new_ack abs_old_ackno abs_ackno s =
     (if abs_old_ackno < abs_ackno
      then let s = s\<lparr>ts_current_RTO := ts_initial_RTO s, ts_retransmissions := 0\<rparr>
           in if ts_in_flight s \<noteq> []
              then s\<lparr>ts_timer := timer_start (ts_time_alive s) (ts_current_RTO s) (ts_timer s)\<rparr>
              else s
      else s)"

definition sender_receive :: "tcp_receiver_message \<Rightarrow> tcp_sender \<Rightarrow> tcp_sender result" where
  "sender_receive msg s =
     (case rm_ackno msg of
        None \<Rightarrow> Inl (Undefined ''empty optional'')
      | Some ackno \<Rightarrow>
          let abs_ackno = unwrap ackno (ts_isn s) (ts_abs_seqno s)
          in if abs_ackno > ts_abs_seqno s then Inr s
             else
               let old_ackno = ts_ackno s;
                   s = s\<lparr>ts_ackno := Some ackno\<rparr>;
                   s = (if rm_window_size msg > 0
                        then s\<lparr>ts_window := rm_window_size msg, ts_dont_back_off := False\<rparr>
                        else s\<lparr>ts_window := 1, ts_dont_back_off := True\<rparr>);
                   s = s\<lparr>ts_in_flight :=
                            pop_acked (ts_isn s) (ts_abs_seqno s) abs_ackno (ts_in_flight s)\<rparr>;
                   s = (if ts_in_flight s = []
                        then s\<lparr>ts_timer := timer_stop (ts_timer s)\<rparr> else s)
               in (case old_ackno of
                     None \<Rightarrow> Inl (Undefined ''empty optional'')
                   | Some old \<Rightarrow>
                       Inr (receive_new_ack (unwrap old (ts_isn s) (ts_abs_seqno s)) abs_ackno s)))"

definition sender_tick :: "u64 \<Rightarrow> tcp_sender \<Rightarrow> tcp_sender" where
  "sender_tick ms_since_last_tick s =
     (let s = s\<lparr>ts_time_alive := ts_time_alive s + ms_since_last_tick\<rparr>
      in if timer_is_expired (ts_time_alive s) (ts_timer s) then
           (let s = (if ts_in_flight s \<noteq> [] then s\<lparr>ts_retransmit := True\<rparr> else s);
                s = (if ts_window s > 0
                     then (let s = (if \<not> ts_dont_back_off s
                                    then s\<lparr>ts_current_RTO := ts_current_RTO s * 2\<rparr> else s)
                           in s\<lparr>ts_retransmissions := ts_retransmissions s + 1\<rparr>)
                     else s)
            in s\<lparr>ts_timer := timer_start (ts_time_alive s) (ts_current_RTO s) (ts_timer s)\<rparr>)
         else s)"

subsection \<open>What one push cuts off the stream\<close>

text \<open>
  The reference for \<open>push\<close> once the SYN is out: starting at absolute sequence number
  \<open>a\<close> with \<open>room\<close> sequence numbers left, cut maximal payloads off the buffered bytes
  \<open>xs\<close>, and set FIN on the last segment when the stream is closing and room is left.
\<close>

function cut_segments ::
  "wrap32 \<Rightarrow> u64 \<Rightarrow> nat \<Rightarrow> bytes \<Rightarrow> bool \<Rightarrow> tcp_sender_message list" where
  "cut_segments isn a room xs closing =
     (let payload = take (min MAX_PAYLOAD_SIZE room) xs;
          rest = drop (length payload) xs;
          room' = room - length payload;
          fin = (closing \<and> rest = [] \<and> 0 < room')
      in if payload = [] \<and> \<not> fin then []
         else \<lparr>sm_seqno = wrap a isn, sm_SYN = False, sm_payload = payload, sm_FIN = fin\<rparr> #
              (if rest = [] \<or> room' = 0 then []
               else cut_segments isn (a + of_nat (length payload)) room' rest closing))"
  by pat_completeness auto
termination
  by (relation "measure (\<lambda>(isn, a, room, xs, closing). length xs)")
     (auto simp: MAX_PAYLOAD_SIZE_def)

declare cut_segments.simps [simp del]

definition segments_length :: "tcp_sender_message list \<Rightarrow> nat" where
  "segments_length ms = sum_list (map sequence_length ms)"

definition after_push :: "tcp_sender_message list \<Rightarrow> tcp_sender \<Rightarrow> tcp_sender" where
  "after_push ms s =
     s\<lparr>ts_pushed := ts_pushed s @ ms,
       ts_abs_seqno := ts_abs_seqno s + of_nat (segments_length ms),
       ts_fin_sent := (ts_fin_sent s \<or> (\<exists>m \<in> set ms. sm_FIN m))\<rparr>"

lemma after_push_fields [simp]:
  "ts_isn (after_push ms s) = ts_isn s" "ts_pushed (after_push ms s) = ts_pushed s @ ms"
  "ts_in_flight (after_push ms s) = ts_in_flight s" "ts_syn_sent (after_push ms s) = ts_syn_sent s"
  "ts_window (after_push ms s) = ts_window s" "ts_ackno (after_push ms s) = ts_ackno s"
  "ts_retransmit (after_push ms s) = ts_retransmit s"
  "ts_timer (after_push ms s) = ts_timer s"
  "ts_fin_sent (after_push ms s) = (ts_fin_sent s \<or> (\<exists>m \<in> set ms. sm_FIN m))"
  "ts_abs_seqno (after_push ms s) = ts_abs_seqno s + of_nat (segments_length ms)"
  by (simp_all add: after_push_def)

lemma after_push_Nil [simp]: "after_push [] s = s"
  by (simp add: after_push_def segments_length_def)

lemma segments_length_simps [simp]:
  "segments_length [] = 0"
  "segments_length (m # ms) = sequence_length m + segments_length ms"
  "segments_length (ms @ ms') = segments_length ms + segments_length ms'"
  by (simp_all add: segments_length_def)

lemma after_push_Cons:
  "after_push ms (after_push [m] s) = after_push (m # ms) s"
  by (simp add: after_push_def algebra_simps)

lemma stream_inv_buffered:
  "stream_inv bs \<Longrightarrow> unat (reader_bytes_buffered bs) = length (stream_content bs)"
  by (simp add: reader_bytes_buffered_def stream_inv_def)

lemma stream_inv_empty_iff:
  "stream_inv bs \<Longrightarrow> reader_bytes_buffered bs = 0 \<longleftrightarrow> stream_content bs = []"
  using stream_inv_buffered [of bs] by (metis length_0_conv unat_0 unat_eq_zero)

lemma stream_inv_finished:
  "stream_inv bs \<Longrightarrow> reader_is_finished bs \<longleftrightarrow> bs_closed bs \<and> stream_content bs = []"
  using stream_inv_empty_iff [of bs]
  by (simp add: reader_is_finished_def reader_bytes_buffered_def)

text \<open>One round, seen through the reference.\<close>

lemma segment_size_nat:
  assumes "stream_inv outbound"
  shows "unat (min (of_nat MAX_PAYLOAD_SIZE) (min budget (reader_bytes_buffered outbound))) =
           min (min MAX_PAYLOAD_SIZE (unat budget)) (length (stream_content outbound))"
proof -
  have "unat (of_nat MAX_PAYLOAD_SIZE :: u64) = MAX_PAYLOAD_SIZE"
    by (simp add: MAX_PAYLOAD_SIZE_def)
  then show ?thesis using assms by (simp only: unat_min_word stream_inv_buffered min.assoc)
qed

lemma push_round_plain:
  fixes budget :: u64 and s :: tcp_sender
  assumes inv: "stream_inv outbound" and plain: "\<not> sm_SYN segment" "\<not> sm_FIN segment"
  defines "payload \<equiv> take (min MAX_PAYLOAD_SIZE (unat budget)) (stream_content outbound)"
  defines "rest \<equiv> drop (length payload) (stream_content outbound)"
  defines "fin \<equiv> \<not> ts_fin_sent s \<and> bs_closed outbound \<and> rest = [] \<and> length payload < unat budget"
  defines "seg \<equiv> \<lparr>sm_seqno = wrap (ts_abs_seqno s) (ts_isn s), sm_SYN = False,
                   sm_payload = payload, sm_FIN = fin\<rparr>"
  obtains outbound' budget' where
    "push_round budget segment s outbound =
       Inr (budget', seg,
            (if payload = [] \<and> \<not> fin then s else after_push [seg] s), outbound')"
    and "stream_inv outbound'" and "stream_content outbound' = rest"
    and "bs_closed outbound' = bs_closed outbound"
    and "bs_capacity outbound' = bs_capacity outbound"
    and "bs_error outbound' = bs_error outbound"
    and "bs_bytes_pushed outbound' = bs_bytes_pushed outbound"
    and "\<not> fin \<Longrightarrow> unat budget' = unat budget - length payload"
proof -
  let ?k = "min (of_nat MAX_PAYLOAD_SIZE) (min budget (reader_bytes_buffered outbound))"
  obtain out' where rd: "read_stream outbound ?k = Inr (out', take (unat ?k) (stream_content outbound))"
    and out': "stream_inv out'" "stream_content out' = drop (unat ?k) (stream_content outbound)"
      "bs_closed out' = bs_closed outbound" "bs_error out' = bs_error outbound"
      "bs_capacity out' = bs_capacity outbound" "bs_bytes_pushed out' = bs_bytes_pushed outbound"
    using read_stream_correct [OF inv] by blast
  have k: "unat ?k = length payload"
    unfolding segment_size_nat [OF inv] payload_def by simp
  have pl: "take (unat ?k) (stream_content outbound) = payload"
    unfolding k unfolding payload_def by (simp add: min_def)
  have rest: "stream_content out' = rest" unfolding out'(2) k rest_def ..
  have le: "length payload \<le> unat budget" by (simp add: payload_def)
  have lp: "unat (of_nat (length payload) :: u64) = length payload"
    by (rule unat_of_nat_unat_le [OF le])
  have b: "unat (budget - of_nat (length payload)) = unat budget - length payload"
    using le lp by (simp add: unat_sub_le)
  have pos: "budget - of_nat (length payload) > 0 \<longleftrightarrow> length payload < unat budget"
    using b by (simp add: word_less_nat_alt)
  have size0: "?k > 0 \<longleftrightarrow> payload \<noteq> []" using k by (simp add: word_less_nat_alt)
  have fin: "(\<not> ts_fin_sent s \<and> reader_is_finished out' \<and>
      (budget - of_nat (length payload) > 0 \<or>
        (budget - of_nat (length payload) = 0 \<and> sm_SYN segment))) = fin"
    using plain(1) rest by (auto simp: fin_def pos stream_inv_finished [OF out'(1)] out'(3))
  let ?b = "if fin then budget - of_nat (length payload) - 1 else budget - of_nat (length payload)"
  obtain q p0 where segment: "segment = \<lparr>sm_seqno = q, sm_SYN = False, sm_payload = p0, sm_FIN = False\<rparr>"
    using plain by (cases segment) simp
  obtain k where kd: "?k = k" by blast
  have k0: "0 < k \<longleftrightarrow> payload \<noteq> []" using size0 unfolding kd by simp
  obtain left where left: "budget - of_nat (length payload) = left" by blast
  have fin': "(\<not> ts_fin_sent s \<and> reader_is_finished out' \<and> 0 < left) = fin"
    using fin plain unfolding left by simp
  have rd': "read_stream outbound k = Inr (out', payload)" using rd pl unfolding kd by simp
  have "push_round budget segment s outbound =
      Inr (?b, seg, (if payload = [] \<and> \<not> fin then s else after_push [seg] s), out')"
    unfolding push_round_def Let_def kd rd' bind_result.simps prod.case left segment
    using fin' k0 by (cases fin; cases "payload = []")
      (simp_all add: seg_def after_push_def sequence_length_def segments_length_def)
  then show ?thesis using that [of ?b out'] out' rest b by simp
qed

text \<open>The loop of \<open>push\<close> returns, and appends what the reference cuts off.\<close>

lemma push_loop_cut:
  assumes "stream_inv outbound" and "\<not> sm_SYN segment" "\<not> sm_FIN segment"
  shows "\<exists>outbound'. push_loop budget segment s outbound =
             Some (Inr (after_push (cut_segments (ts_isn s) (ts_abs_seqno s) (unat budget)
                          (stream_content outbound) (\<not> ts_fin_sent s \<and> bs_closed outbound)) s,
                        outbound')) \<and>
           stream_inv outbound' \<and>
           stream_content outbound' = drop (unat budget) (stream_content outbound) \<and>
           bs_closed outbound' = bs_closed outbound \<and> bs_capacity outbound' = bs_capacity outbound \<and>
           bs_bytes_pushed outbound' = bs_bytes_pushed outbound"
  using assms
proof (induction "length (stream_content outbound)" arbitrary: budget segment s outbound
    rule: less_induct)
  case less
  let ?xs = "stream_content outbound"
  show ?case
  proof (cases "0 < budget")
    case False
    then have b: "budget = 0" by (metis word_gt_0)
    with less.prems show ?thesis
      by (subst push_loop.simps, subst cut_segments.simps) simp
  next
    case True
    define payload where "payload = take (min MAX_PAYLOAD_SIZE (unat budget)) ?xs"
    define rest where "rest = drop (length payload) ?xs"
    define fin where "fin \<longleftrightarrow> \<not> ts_fin_sent s \<and> bs_closed outbound \<and> rest = [] \<and> length payload < unat budget"
    define seg where "seg = \<lparr>sm_seqno = wrap (ts_abs_seqno s) (ts_isn s), sm_SYN = False,
                   sm_payload = payload, sm_FIN = fin\<rparr>"
    let ?s = "if payload = [] \<and> \<not> fin then s else after_push [seg] s"
    obtain out' budget' where
      rnd: "push_round budget segment s outbound = Inr (budget', seg, ?s, out')"
      and out': "stream_inv out'" "stream_content out' = rest" "bs_closed out' = bs_closed outbound"
        "bs_capacity out' = bs_capacity outbound" "bs_bytes_pushed out' = bs_bytes_pushed outbound"
      and b': "\<not> fin \<Longrightarrow> unat budget' = unat budget - length payload"
      using push_round_plain [OF less.prems, of budget s thesis]
      by (fold payload_def, fold rest_def, fold fin_def, fold seg_def) blast
    have upos: "0 < unat budget" using True by (simp add: word_less_nat_alt)
    have pnil: "payload = [] \<longleftrightarrow> ?xs = []"
      using upos by (auto simp: payload_def MAX_PAYLOAD_SIZE_def)
    have fin': "((\<not> ts_fin_sent s \<and> bs_closed outbound) \<and> rest = [] \<and>
        0 < unat budget - length payload) = fin"
      by (auto simp: fin_def)
    have cut: "cut_segments (ts_isn s) (ts_abs_seqno s) (unat budget) ?xs
          (\<not> ts_fin_sent s \<and> bs_closed outbound) =
        (if payload = [] \<and> \<not> fin then []
         else seg # (if rest = [] \<or> unat budget - length payload = 0 then []
               else cut_segments (ts_isn s) (ts_abs_seqno s + of_nat (length payload))
                 (unat budget - length payload) rest (\<not> ts_fin_sent s \<and> bs_closed outbound)))"
      using cut_segments.simps [of "ts_isn s" "ts_abs_seqno s" "unat budget" ?xs
          "\<not> ts_fin_sent s \<and> bs_closed outbound"]
      unfolding Let_def payload_def [symmetric] rest_def [symmetric] fin' seg_def [symmetric] .
    have step: "push_loop budget segment s outbound =
        (if rest = [] then Some (Inr (?s, out')) else push_loop budget' seg ?s out')"
      using True by (subst push_loop.simps) (simp add: rnd stream_inv_empty_iff [OF out'(1)] out'(2))
    show ?thesis
    proof (cases "rest = []")
      case True
      then have "length ?xs \<le> length payload" by (simp add: rest_def)
      then have "length ?xs \<le> unat budget" by (simp add: payload_def)
      with True out' show ?thesis by (auto simp: step cut)
    next
      case False
      then have nf: "\<not> fin" and ne: "payload \<noteq> []" using pnil by (auto simp: fin_def rest_def)
      have le: "length payload \<le> unat budget" by (simp add: payload_def)
      have "length (stream_content out') < length ?xs"
        using ne pnil by (simp add: out'(2) rest_def)
      from less.hyps [OF this out'(1), of seg budget' "after_push [seg] s"] nf
      obtain out'' where IH: "push_loop budget' seg (after_push [seg] s) out' =
          Some (Inr (after_push (cut_segments (ts_isn s) (ts_abs_seqno s + of_nat (length payload))
             (unat budget - length payload) rest (\<not> ts_fin_sent s \<and> bs_closed outbound))
             (after_push [seg] s), out''))"
        and out'': "stream_inv out''"
          "stream_content out'' = drop (unat budget - length payload) rest"
          "bs_closed out'' = bs_closed out'" "bs_capacity out'' = bs_capacity out'"
          "bs_bytes_pushed out'' = bs_bytes_pushed out'"
        by (auto simp: seg_def sequence_length_def b' out' fin_def)
      have "stream_content out'' = drop (unat budget) ?xs"
        unfolding out''(2) rest_def drop_drop using le by simp
      moreover have "cut_segments (ts_isn s) (ts_abs_seqno s) (unat budget) ?xs
          (\<not> ts_fin_sent s \<and> bs_closed outbound) =
        seg # cut_segments (ts_isn s) (ts_abs_seqno s + of_nat (length payload))
                 (unat budget - length payload) rest (\<not> ts_fin_sent s \<and> bs_closed outbound)"
        unfolding cut using ne False by (auto simp: cut_segments.simps [of _ _ 0])
      ultimately show ?thesis
        using IH out'' out' ne False by (auto simp: step after_push_Cons)
    qed
  qed
qed

subsection \<open>Facts about the cut\<close>

lemma cut_segments_0 [simp]: "cut_segments isn a 0 xs closing = []"
  by (simp add: cut_segments.simps)

text \<open>The three shapes of a cut, as an induction rule.\<close>

definition cut_of :: "wrap32 \<Rightarrow> u64 \<Rightarrow> bytes \<Rightarrow> bool \<Rightarrow> tcp_sender_message" where
  "cut_of isn a payload fin =
     \<lparr>sm_seqno = wrap a isn, sm_SYN = False, sm_payload = payload, sm_FIN = fin\<rparr>"

lemma cut_of_fields [simp]:
  "sm_SYN (cut_of isn a p fin) = False" "sm_payload (cut_of isn a p fin) = p"
  "sm_FIN (cut_of isn a p fin) = fin" "sm_seqno (cut_of isn a p fin) = wrap a isn"
  "sequence_length (cut_of isn a p fin) = length p + of_bool fin"
  by (simp_all add: cut_of_def sequence_length_def)

lemma cut_segments_none:
  "room = 0 \<or> xs = [] \<and> \<not> closing \<Longrightarrow> cut_segments isn a room xs closing = []"
  by (subst cut_segments.simps) auto

lemma cut_segments_last:
  assumes "0 < room" and "xs \<noteq> [] \<or> closing"
    and "length xs \<le> MAX_PAYLOAD_SIZE \<or> room \<le> MAX_PAYLOAD_SIZE"
  shows "cut_segments isn a room xs closing =
           [cut_of isn a (take room (take MAX_PAYLOAD_SIZE xs)) (closing \<and> length xs < room)]"
  using assms
  by (subst cut_segments.simps)
     (auto simp: Let_def cut_of_def min_def take_all_iff MAX_PAYLOAD_SIZE_def)

lemma cut_segments_more:
  assumes "MAX_PAYLOAD_SIZE < room" and "MAX_PAYLOAD_SIZE < length xs"
  shows "cut_segments isn a room xs closing =
           cut_of isn a (take MAX_PAYLOAD_SIZE xs) False #
           cut_segments isn (a + of_nat MAX_PAYLOAD_SIZE) (room - MAX_PAYLOAD_SIZE)
             (drop MAX_PAYLOAD_SIZE xs) closing"
  using assms
  by (subst cut_segments.simps)
     (auto simp: Let_def cut_of_def min_def MAX_PAYLOAD_SIZE_def)

lemma cut_segments_shape [case_names none last more]:
  assumes none: "\<And>a room xs. room = 0 \<or> xs = [] \<and> \<not> closing \<Longrightarrow> P a room xs []"
    and last: "\<And>a room xs. 0 < room \<Longrightarrow> xs \<noteq> [] \<or> closing \<Longrightarrow>
        length xs \<le> MAX_PAYLOAD_SIZE \<or> room \<le> MAX_PAYLOAD_SIZE \<Longrightarrow>
        P a room xs [cut_of isn a (take room (take MAX_PAYLOAD_SIZE xs)) (closing \<and> length xs < room)]"
    and more: "\<And>a room xs ms. MAX_PAYLOAD_SIZE < room \<Longrightarrow> MAX_PAYLOAD_SIZE < length xs \<Longrightarrow>
        P (a + of_nat MAX_PAYLOAD_SIZE) (room - MAX_PAYLOAD_SIZE) (drop MAX_PAYLOAD_SIZE xs) ms \<Longrightarrow>
        P a room xs (cut_of isn a (take MAX_PAYLOAD_SIZE xs) False # ms)"
  shows "P a room xs (cut_segments isn a room xs closing)"
proof (induction "length xs" arbitrary: a room xs rule: less_induct)
  case less
  consider "room = 0 \<or> xs = [] \<and> \<not> closing"
    | "0 < room" "xs \<noteq> [] \<or> closing" "length xs \<le> MAX_PAYLOAD_SIZE \<or> room \<le> MAX_PAYLOAD_SIZE"
    | "MAX_PAYLOAD_SIZE < room" "MAX_PAYLOAD_SIZE < length xs"
    by linarith
  then show ?case
  proof cases
    case 1
    then show ?thesis by (simp add: cut_segments_none none)
  next
    case 2
    then show ?thesis by (simp only: cut_segments_last) (rule last)
  next
    case 3
    moreover have "length (drop MAX_PAYLOAD_SIZE xs) < length xs"
      using 3 by (simp add: MAX_PAYLOAD_SIZE_def)
    ultimately show ?thesis by (simp only: cut_segments_more) (intro more less)
  qed
qed

lemma cut_segments_plain:
  "\<forall>m \<in> set (cut_segments isn a room xs closing).
     \<not> sm_SYN m \<and> length (sm_payload m) \<le> MAX_PAYLOAD_SIZE \<and> 0 < sequence_length m"
  by (induction a room xs rule: cut_segments_shape [where isn = isn and closing = closing])
     (auto simp: MAX_PAYLOAD_SIZE_def)

lemma cut_segments_payload:
  "concat (map sm_payload (cut_segments isn a room xs closing)) = take room xs"
  by (induction a room xs rule: cut_segments_shape [where isn = isn and closing = closing])
     (auto simp: min_def take_add [symmetric])

lemma cut_segments_fin:
  "length (filter sm_FIN (cut_segments isn a room xs closing)) = of_bool (closing \<and> length xs < room)"
  by (induction a room xs rule: cut_segments_shape [where isn = isn and closing = closing]) auto

lemma segments_length_payload:
  "\<forall>m \<in> set ms. \<not> sm_SYN m \<Longrightarrow>
     segments_length ms = length (concat (map sm_payload ms)) + length (filter sm_FIN ms)"
  by (induction ms) (auto simp: sequence_length_def)

lemma cut_segments_length:
  "segments_length (cut_segments isn a room xs closing) =
     min room (length xs) + of_bool (closing \<and> length xs < room)"
proof -
  let ?ms = "cut_segments isn a room xs closing"
  have "segments_length ?ms = length (concat (map sm_payload ?ms)) + length (filter sm_FIN ?ms)"
    using cut_segments_plain [of isn a room xs closing] by (intro segments_length_payload) blast
  then show ?thesis by (simp only: cut_segments_payload cut_segments_fin) (simp add: min.commute)
qed

lemma cut_segments_any_fin:
  "(\<exists>m \<in> set (cut_segments isn a room xs closing). sm_FIN m) \<longleftrightarrow> closing \<and> length xs < room"
  using cut_segments_fin [of isn a room xs closing]
  by (metis (no_types, lifting) filter_empty_conv length_0_conv of_bool_eq_0_iff)

lemma cut_segments_full:
  "\<forall>m \<in> set (butlast (cut_segments isn a room xs closing)).
     length (sm_payload m) = MAX_PAYLOAD_SIZE"
  by (induction a room xs rule: cut_segments_shape [where isn = isn and closing = closing])
     (auto simp: split: if_splits)

subsection \<open>The room of a push\<close>

text \<open>
  The first unacknowledged sequence number, and what \<open>push\<close> computes as the room left:
  a subtraction of words, which wraps when more than a window is in flight.
\<close>

definition unacked :: "tcp_sender \<Rightarrow> wrap32 \<Rightarrow> u64" where
  "unacked s ackno = unwrap ackno (ts_isn s) (ts_abs_seqno s)"

definition window_room :: "tcp_sender \<Rightarrow> wrap32 \<Rightarrow> u64" where
  "window_room s ackno = ucast (ts_window s) - (ts_abs_seqno s - unacked s ackno)"

lemma window_room_nat:
  assumes "unacked s ackno \<le> ts_abs_seqno s"
    and "unat (ts_abs_seqno s) - unat (unacked s ackno) \<le> unat (ts_window s)"
  shows "unat (window_room s ackno) =
           unat (ts_window s) - (unat (ts_abs_seqno s) - unat (unacked s ackno))"
proof -
  have "unat (ts_abs_seqno s - unacked s ackno) = unat (ts_abs_seqno s) - unat (unacked s ackno)"
    using assms(1) by (simp add: unat_sub_le word_le_nat_alt)
  moreover have "unat (ucast (ts_window s) :: u64) = unat (ts_window s)"
    by (simp add: unsigned_ucast_eq take_bit_eq_mod less_trans [OF u16_less])
  ultimately show ?thesis using assms(2) by (simp add: window_room_def unat_sub_le)
qed

lemma sender_push_started:
  assumes "ts_syn_sent s" and "ts_ackno s = Some ackno"
  shows "sender_push s outbound = push_loop (window_room s ackno) empty_sender_message s outbound"
  using assms by (simp add: sender_push_def window_room_def unacked_def Let_def)

lemma sender_push_cut:
  assumes "stream_inv outbound" and "ts_syn_sent s" and "ts_ackno s = Some ackno"
  defines "ms \<equiv> cut_segments (ts_isn s) (ts_abs_seqno s) (unat (window_room s ackno))
                  (stream_content outbound) (\<not> ts_fin_sent s \<and> bs_closed outbound)"
  obtains outbound' where "sender_push s outbound = Some (Inr (after_push ms s, outbound'))"
    and "stream_inv outbound'"
    and "stream_content outbound' = drop (unat (window_room s ackno)) (stream_content outbound)"
    and "bs_closed outbound' = bs_closed outbound"
    and "bs_capacity outbound' = bs_capacity outbound"
    and "bs_bytes_pushed outbound' = bs_bytes_pushed outbound"
proof -
  have "\<not> sm_SYN empty_sender_message" "\<not> sm_FIN empty_sender_message"
    by (simp_all add: empty_sender_message_def)
  from push_loop_cut [OF assms(1) this, of "window_room s ackno" s] that show ?thesis
    unfolding sender_push_started [OF assms(2,3)] ms_def by blast
qed

text \<open>The first push, on a stream nothing has been written to, sends the SYN.\<close>

definition first_segment :: "tcp_sender \<Rightarrow> byte_stream \<Rightarrow> tcp_sender_message" where
  "first_segment s outbound =
     \<lparr>sm_seqno = wrap (ts_abs_seqno s) (ts_isn s), sm_SYN = True, sm_payload = [],
      sm_FIN = (\<not> ts_fin_sent s \<and> bs_closed outbound)\<rparr>"

lemma sender_push_first:
  assumes inv: "stream_inv outbound" and empty: "stream_content outbound = []"
    and syn: "\<not> ts_syn_sent s" and ack: "ts_ackno s = Some ackno"
  obtains outbound' where
    "sender_push s outbound =
       Some (Inr ((after_push [first_segment s outbound] s)\<lparr>ts_syn_sent := True\<rparr>, outbound'))"
    and "stream_inv outbound'" and "stream_content outbound' = []"
    and "bs_closed outbound' = bs_closed outbound"
    and "bs_capacity outbound' = bs_capacity outbound"
    and "bs_bytes_pushed outbound' = bs_bytes_pushed outbound"
    and "bs_error outbound' = bs_error outbound"
proof -
  obtain out' where rd: "read_stream outbound 0 = Inr (out', [])"
    and out': "stream_inv out'" "stream_content out' = []"
      "bs_closed out' = bs_closed outbound" "bs_error out' = bs_error outbound"
      "bs_capacity out' = bs_capacity outbound" "bs_bytes_pushed out' = bs_bytes_pushed outbound"
    using read_stream_correct [OF inv, of 0] empty by auto
  have b0: "reader_bytes_buffered outbound = 0" "reader_bytes_buffered out' = 0"
    using stream_inv_empty_iff inv out'(1,2) empty by auto
  have fin: "reader_is_finished out' \<longleftrightarrow> bs_closed outbound"
    by (simp add: stream_inv_finished [OF out'(1)] out')
  let ?b = "window_room s ackno - 1"
  have or: "0 < ?b \<or> ?b = 0" by (metis word_gt_0)
  let ?m = "empty_sender_message\<lparr>sm_SYN := True\<rparr>"
  let ?s = "s\<lparr>ts_syn_sent := True, ts_abs_seqno := ts_abs_seqno s + 1\<rparr>"
  have "push_round ?b ?m ?s outbound =
      Inr (if \<not> ts_fin_sent s \<and> bs_closed outbound then ?b - 1 else ?b, first_segment s outbound,
           (after_push [first_segment s outbound] s)\<lparr>ts_syn_sent := True\<rparr>, out')"
    unfolding push_round_def Let_def b0 using or
    by (simp add: rd fin empty_sender_message_def first_segment_def after_push_def
        segments_length_def sequence_length_def)
  then have "push_loop ?b ?m ?s outbound =
      Some (Inr ((after_push [first_segment s outbound] s)\<lparr>ts_syn_sent := True\<rparr>, out'))"
    by (subst push_loop.simps) (simp add: b0 empty_sender_message_def)
  then have "sender_push s outbound =
      Some (Inr ((after_push [first_segment s outbound] s)\<lparr>ts_syn_sent := True\<rparr>, out'))"
    using syn ack by (simp add: sender_push_def Let_def window_room_def unacked_def)
  then show ?thesis using out' that by blast
qed

text \<open>
  When bytes are buffered before the SYN is sent and the window leaves no room beside it,
  the loop finds the SYN flag still set in every round and never ends.
\<close>

lemma push_loop_stuck:
  assumes "push_loop budget segment s outbound = Some r"
  shows "\<not> (budget = 0 \<and> sm_SYN segment \<and> stream_inv outbound \<and> stream_content outbound \<noteq> [])"
proof (rule push_loop.raw_induct [where P = "\<lambda>budget segment s outbound r.
    \<not> (budget = 0 \<and> sm_SYN segment \<and> stream_inv outbound \<and> stream_content outbound \<noteq> [])",
    OF _ assms])
  fix loop budget segment s outbound r
  assume IH: "\<And>budget segment s outbound r. loop budget segment s outbound = Some r \<Longrightarrow>
      \<not> (budget = 0 \<and> sm_SYN segment \<and> stream_inv outbound \<and> stream_content outbound \<noteq> [])"
    and body: "(if budget > 0 \<or> sm_SYN segment then
        (case push_round budget segment s outbound of
           Inl e \<Rightarrow> Some (Inl e)
         | Inr st \<Rightarrow>
             (case st of (budget, segment, s, outbound) \<Rightarrow>
                if reader_bytes_buffered outbound = 0 then Some (Inr (s, outbound))
                else loop budget segment s outbound))
      else Some (Inr (s, outbound))) = Some r"
  show "\<not> (budget = 0 \<and> sm_SYN segment \<and> stream_inv outbound \<and> stream_content outbound \<noteq> [])"
  proof
    assume stuck: "budget = 0 \<and> sm_SYN segment \<and> stream_inv outbound \<and> stream_content outbound \<noteq> []"
    then have inv: "stream_inv outbound" and ne: "stream_content outbound \<noteq> []" by auto
    obtain out' where rd: "read_stream outbound 0 = Inr (out', [])"
      and out': "stream_inv out'" "stream_content out' = stream_content outbound"
      using read_stream_correct [OF inv, of 0] by auto
    have k: "min (of_nat MAX_PAYLOAD_SIZE) (min (0 :: u64) (reader_bytes_buffered outbound)) = 0"
      by (simp add: min_def)
    have fin: "\<not> reader_is_finished out'"
      using ne by (simp add: stream_inv_finished [OF out'(1)] out'(2))
    have nz: "reader_bytes_buffered out' \<noteq> 0"
      using ne by (simp add: stream_inv_empty_iff [OF out'(1)] out'(2))
    obtain seg s' where "push_round 0 segment s outbound = Inr (0, seg, s', out')" "sm_SYN seg"
      unfolding push_round_def Let_def k rd bind_result.simps prod.case using stuck fin by simp
    moreover from this have "loop 0 seg s' out' = Some r"
      using body stuck nz by simp
    ultimately show False using IH [of 0 seg s' out' r] out' ne by simp
  qed
qed

subsection \<open>Properties of push\<close>

text \<open>
  C7: A push on an open connection whose unacknowledged sequence numbers fit the
  window always returns.  It sends exactly the first bytes that fit the room left in the
  window, in order, in segments of at most \<open>MAX_PAYLOAD_SIZE\<close> bytes (all but the last
  full), sets FIN exactly when the stream is closed, everything is sent and room is left,
  and never exceeds the window.
\<close>

theorem sender_push_fills_window:
  assumes "stream_inv outbound" and "ts_syn_sent s" and "ts_ackno s = Some ackno"
    and "unacked s ackno \<le> ts_abs_seqno s"
    and "unat (ts_abs_seqno s) - unat (unacked s ackno) \<le> unat (ts_window s)"
  shows "\<exists>s' outbound' ms.
           sender_push s outbound = Some (Inr (s', outbound')) \<and>
           ts_pushed s' = ts_pushed s @ ms \<and>
           (let room = unat (ts_window s) - (unat (ts_abs_seqno s) - unat (unacked s ackno))
            in concat (map sm_payload ms) = take room (stream_content outbound) \<and>
               stream_content outbound' = drop room (stream_content outbound) \<and>
               ((\<exists>m \<in> set ms. sm_FIN m) =
                  (\<not> ts_fin_sent s \<and> bs_closed outbound \<and> length (stream_content outbound) < room)) \<and>
               segments_length ms \<le> room) \<and>
           list_all (\<lambda>m. length (sm_payload m) \<le> MAX_PAYLOAD_SIZE) ms \<and>
           list_all (\<lambda>m. length (sm_payload m) = MAX_PAYLOAD_SIZE) (butlast ms) \<and>
           ts_abs_seqno s' = ts_abs_seqno s + of_nat (segments_length ms)"
proof -
  obtain out' where "sender_push s outbound =
      Some (Inr (after_push (cut_segments (ts_isn s) (ts_abs_seqno s) (unat (window_room s ackno))
                  (stream_content outbound) (\<not> ts_fin_sent s \<and> bs_closed outbound)) s, out'))"
    and "stream_content out' = drop (unat (window_room s ackno)) (stream_content outbound)"
    by (rule sender_push_cut [OF assms(1-3)])
  then show ?thesis
    using cut_segments_plain cut_segments_full
    by (auto simp: window_room_nat [OF assms(4,5)] Let_def cut_segments_payload
        cut_segments_any_fin cut_segments_length list_all_iff)
qed

theorem sender_push_fills_window_witness:
  "\<exists>s' outbound' ms.
     sender_push ((new_tcp_sender 1000 (Some (Wrap32 7)) 0)
         \<lparr>ts_syn_sent := True, ts_abs_seqno := 1, ts_ackno := Some (Wrap32 8), ts_window := 2\<rparr>)
       (writer_push [1, 2, 3] (new_byte_stream 9)) = Some (Inr (s', outbound')) \<and>
     ts_pushed s' = ms \<and> concat (map sm_payload ms) = [1, 2] \<and>
     stream_content outbound' = [3]"
proof -
  let ?s = "(new_tcp_sender 1000 (Some (Wrap32 7)) 0)
      \<lparr>ts_syn_sent := True, ts_abs_seqno := 1, ts_ackno := Some (Wrap32 8), ts_window := 2\<rparr>"
  let ?out = "writer_push [1, 2, 3] (new_byte_stream 9)"
  have u: "unacked ?s (Wrap32 8) = 1"
    using unwrap_wrap_near [of 1 1 "Wrap32 7"]
    by (simp add: unacked_def nat_distance_def wrap_def wrap32_plus_def)
  have c: "stream_content ?out = [1, 2, 3]"
    by (simp add: stream_simps) (simp add: available_capacity_def new_byte_stream_def)
  have "ts_window ?s = 2" "ts_abs_seqno ?s = 1" "ts_pushed ?s = []"
    by simp_all
  with sender_push_fills_window [of ?out ?s "Wrap32 8"] u c show ?thesis by auto
qed

text \<open>
  C35: Data written before the first push make that push loop forever, since it tests
  the SYN flag of a segment that keeps the flag: with room for nothing but the SYN (the
  initial window of 1), \<open>push\<close> does not return.
\<close>

theorem sender_push_before_syn_diverges:
  assumes "stream_inv outbound" and "stream_content outbound \<noteq> []"
    and "\<not> ts_syn_sent s" and "ts_ackno s = Some ackno" and "window_room s ackno = 1"
  shows "sender_push s outbound = None"
proof -
  let ?m = "empty_sender_message\<lparr>sm_SYN := True\<rparr>"
  let ?s = "s\<lparr>ts_syn_sent := True, ts_abs_seqno := ts_abs_seqno s + 1\<rparr>"
  have "push_loop 0 ?m ?s outbound = None"
    using push_loop_stuck [of 0 ?m ?s outbound] assms(1,2) by (cases "push_loop 0 ?m ?s outbound") auto
  moreover have "sender_push s outbound = push_loop (window_room s ackno - 1) ?m ?s outbound"
    using assms(3,4) by (simp add: sender_push_def Let_def window_room_def unacked_def)
  ultimately show ?thesis using assms(5) by simp
qed

theorem sender_push_before_syn_diverges_witness:
  "sender_push (new_tcp_sender 1000 (Some (Wrap32 7)) 0)
     (writer_push [1] (new_byte_stream 9)) = None"
proof (rule sender_push_before_syn_diverges)
  have "unwrap (Wrap32 7) (Wrap32 7) 0 = 0"
    using unwrap_wrap_near [of 0 0 "Wrap32 7"]
    by (simp add: nat_distance_def wrap_def wrap32_plus_def)
  then show "window_room (new_tcp_sender 1000 (Some (Wrap32 7)) 0) (Wrap32 7) = 1"
    by (simp add: window_room_def unacked_def)
  show "stream_content (writer_push [1] (new_byte_stream 9)) \<noteq> []"
    by (simp add: stream_simps) (simp add: available_capacity_def new_byte_stream_def)
qed simp_all

text \<open>
  C36: When more sequence numbers are in flight than the window allows (the peer shrank
  its window, or an old acknowledgment arrived), the room wraps around and \<open>push\<close> sends
  every buffered byte instead of none.
\<close>

theorem sender_push_ignores_shrunk_window:
  assumes "stream_inv outbound" and "ts_syn_sent s" and "ts_ackno s = Some ackno"
    and "unacked s ackno \<le> ts_abs_seqno s"
    and "unat (ts_window s) < unat (ts_abs_seqno s) - unat (unacked s ackno)"
    and "unat (ts_abs_seqno s) - unat (unacked s ackno) + length (stream_content outbound) < 2 ^ 64"
  shows "\<exists>s' outbound' ms.
           sender_push s outbound = Some (Inr (s', outbound')) \<and>
           ts_pushed s' = ts_pushed s @ ms \<and>
           concat (map sm_payload ms) = stream_content outbound \<and>
           stream_content outbound' = []"
proof -
  let ?d = "ts_abs_seqno s - unacked s ackno"
  have d: "unat ?d = unat (ts_abs_seqno s) - unat (unacked s ackno)"
    using assms(4) by (simp add: unat_sub_le word_le_nat_alt)
  have w: "unat (ucast (ts_window s) :: u64) = unat (ts_window s)"
    by (simp add: unsigned_ucast_eq take_bit_eq_mod less_trans [OF u16_less])
  have "unat (window_room s ackno) = 2 ^ 64 + unat (ts_window s) - unat ?d"
    using assms(5) d w unat_sub_if' [of "ucast (ts_window s) :: u64" ?d]
    by (simp add: window_room_def)
  then have big: "length (stream_content outbound) \<le> unat (window_room s ackno)"
    using assms(5,6) d by linarith
  obtain out' where "sender_push s outbound =
      Some (Inr (after_push (cut_segments (ts_isn s) (ts_abs_seqno s) (unat (window_room s ackno))
                  (stream_content outbound) (\<not> ts_fin_sent s \<and> bs_closed outbound)) s, out'))"
    and "stream_content out' = drop (unat (window_room s ackno)) (stream_content outbound)"
    by (rule sender_push_cut [OF assms(1-3)])
  with big show ?thesis by (auto simp: cut_segments_payload)
qed

theorem sender_push_ignores_shrunk_window_witness:
  "\<exists>s' outbound' ms.
     sender_push ((new_tcp_sender 1000 (Some (Wrap32 7)) 0)
         \<lparr>ts_syn_sent := True, ts_abs_seqno := 5, ts_ackno := Some (Wrap32 8), ts_window := 1\<rparr>)
       (writer_push [1, 2, 3] (new_byte_stream 9)) = Some (Inr (s', outbound')) \<and>
     ts_pushed s' = ms \<and> concat (map sm_payload ms) = [1, 2, 3]"
proof -
  let ?s = "(new_tcp_sender 1000 (Some (Wrap32 7)) 0)
      \<lparr>ts_syn_sent := True, ts_abs_seqno := 5, ts_ackno := Some (Wrap32 8), ts_window := 1\<rparr>"
  let ?out = "writer_push [1, 2, 3] (new_byte_stream 9)"
  have u: "unacked ?s (Wrap32 8) = 1"
    using unwrap_wrap_near [of 5 1 "Wrap32 7"]
    by (simp add: unacked_def nat_distance_def wrap_def wrap32_plus_def)
  have c: "stream_content ?out = [1, 2, 3]"
    by (simp add: stream_simps) (simp add: available_capacity_def new_byte_stream_def)
  have "ts_window ?s = 1" "ts_abs_seqno ?s = 5" "ts_pushed ?s = []"
    by simp_all
  with sender_push_ignores_shrunk_window [of ?out ?s "Wrap32 8"] u c show ?thesis by auto
qed

end
