(* ===== verification/Sender_Run.thy ===== *)
theory Sender_Run
  imports Tcp_Sender Tcp_Receiver
begin

text \<open>
  Executions of the TCP sender: an application writes to and closes the outbound stream,
  the sender pushes, transmits, hears acknowledgments (any acknowledgments) and time
  passes, in any order.  The invariant says that the outstanding segments are consecutive
  pieces of the stream that end at the next sequence number.
\<close>

subsection \<open>Consecutive segments\<close>

definition outstanding :: "tcp_sender \<Rightarrow> tcp_sender_message list" where
  "outstanding s = map os_message (ts_in_flight s) @ ts_pushed s"

fun chain :: "bytes \<Rightarrow> wrap32 \<Rightarrow> nat \<Rightarrow> tcp_sender_message list \<Rightarrow> bool" where
  "chain str isn a [] \<longleftrightarrow> True"
| "chain str isn a (m # ms) \<longleftrightarrow>
     segment_of str isn (a - 1) m \<and> (sm_SYN m \<longleftrightarrow> a = 0) \<and> 0 < sequence_length m \<and>
     chain str isn (a + sequence_length m) ms"

lemma chain_append [simp]:
  "chain str isn a (ms @ ms') \<longleftrightarrow>
     chain str isn a ms \<and> chain str isn (a + segments_length ms) ms'"
  by (induction ms arbitrary: a) (auto simp: add.assoc)

lemma segment_of_extend:
  "segment_of str isn f m \<Longrightarrow> \<not> sm_FIN m \<Longrightarrow> segment_of (str @ ys) isn f m"
  by (auto simp: segment_of_def)

lemma chain_extend:
  "chain str isn a ms \<Longrightarrow> \<forall>m \<in> set ms. \<not> sm_FIN m \<Longrightarrow> chain (str @ ys) isn a ms"
  by (induction ms arbitrary: a) (auto intro: segment_of_extend)

lemma chain_segment:
  "chain str isn a ms \<Longrightarrow> m \<in> set ms \<Longrightarrow> \<exists>f. segment_of str isn f m"
  by (induction ms arbitrary: a) auto

lemma segment_of_cut:
  assumes "unat a = 1 + length sent" and "str = sent @ payload @ ys" and "fin \<Longrightarrow> ys = []"
  shows "segment_of str isn (length sent) (cut_of isn a payload fin)"
proof -
  have "of_nat (unat a) = a" by simp
  then have "of_nat (length sent + 1) = a" unfolding assms(1) by (simp only: add.commute)
  with assms show ?thesis by (auto simp: segment_of_def segment_index_def simp del: of_nat_add)
qed

text \<open>What a push cuts off continues the chain.\<close>

lemma chain_cut:
  assumes "unat a = 1 + length sent" and "1 + length sent + length xs < 2 ^ 64"
  shows "chain (sent @ take room xs) isn (1 + length sent) (cut_segments isn a room xs closing)"
  using assms
proof (induction a room xs arbitrary: sent rule: cut_segments_shape [where isn = isn and closing = closing])
  case (last a room xs)
  have "segment_of (sent @ take room xs) isn (length sent)
      (cut_of isn a (take room (take MAX_PAYLOAD_SIZE xs)) (closing \<and> length xs < room))"
    using last by (intro segment_of_cut [where ys = "drop (min room MAX_PAYLOAD_SIZE) (take room xs)"])
       (auto simp: min_def)
  moreover have "0 < length (take room (take MAX_PAYLOAD_SIZE xs)) + of_bool (closing \<and> length xs < room)"
    using last by (auto simp: MAX_PAYLOAD_SIZE_def)
  ultimately show ?case by simp
next
  case (more a room xs ms)
  let ?p = "take MAX_PAYLOAD_SIZE xs"
  have lp: "length ?p = MAX_PAYLOAD_SIZE" using more(2) by simp
  have split: "sent @ take room xs = sent @ ?p @ take (room - MAX_PAYLOAD_SIZE) (drop MAX_PAYLOAD_SIZE xs)"
    using more(1) by (simp flip: take_add)
  have "unat (a + of_nat MAX_PAYLOAD_SIZE) = 1 + length (sent @ ?p)"
    using more by (subst unat_add_small) (auto simp: unat_of_nat_small MAX_PAYLOAD_SIZE_def)
  then have "chain ((sent @ ?p) @ take (room - MAX_PAYLOAD_SIZE) (drop MAX_PAYLOAD_SIZE xs)) isn
      (1 + length (sent @ ?p)) ms"
    using more by (intro more.IH) auto
  moreover have "segment_of (sent @ take room xs) isn (length sent) (cut_of isn a ?p False)"
    using more(4) by (intro segment_of_cut [OF _ split]) auto
  ultimately show ?case using lp by (simp add: split) (simp add: MAX_PAYLOAD_SIZE_def)
qed simp

lemma chain_cut_none:
  "cut_segments isn a room [] False = []"
  by (simp add: cut_segments_none)

subsection \<open>What every operation keeps of the sender\<close>

text \<open>\<open>sent\<close> is what the sender has taken from the stream so far.\<close>

definition tx_ok :: "bytes \<Rightarrow> tcp_sender \<Rightarrow> bool" where
  "tx_ok sent s \<longleftrightarrow>
     ts_ackno s \<noteq> None \<and>
     unat (ts_abs_seqno s) = of_bool (ts_syn_sent s) + length sent + of_bool (ts_fin_sent s) \<and>
     (\<not> ts_syn_sent s \<longrightarrow> sent = [] \<and> \<not> ts_fin_sent s \<and> outstanding s = []) \<and>
     (\<not> ts_fin_sent s \<longrightarrow> (\<forall>m \<in> set (outstanding s). \<not> sm_FIN m)) \<and>
     segments_length (outstanding s) \<le> unat (ts_abs_seqno s) \<and>
     chain sent (ts_isn s) (unat (ts_abs_seqno s) - segments_length (outstanding s)) (outstanding s)"

lemma tx_ok_new: "tx_ok [] (new_tcp_sender rto fixed r)"
  by (simp add: tx_ok_def outstanding_def)

lemma tx_ok_same:
  assumes "tx_ok sent s" and "outstanding s' = outstanding s" and "ts_isn s' = ts_isn s"
    and "ts_abs_seqno s' = ts_abs_seqno s" and "ts_syn_sent s' = ts_syn_sent s"
    and "ts_fin_sent s' = ts_fin_sent s" and "ts_ackno s' \<noteq> None"
  shows "tx_ok sent s'"
  using assms(1,7) unfolding tx_ok_def assms(2-6) by blast

lemma tx_ok_segment:
  assumes "tx_ok sent s" and "m \<in> set (outstanding s)"
  shows "\<exists>f. segment_of sent (ts_isn s) f m"
  using assms chain_segment by (auto simp: tx_ok_def)

lemma tx_ok_chain:
  assumes "tx_ok sent s"
  shows "chain sent (ts_isn s) (unat (ts_abs_seqno s) - segments_length (outstanding s)) (outstanding s)"
    and "segments_length (outstanding s) \<le> unat (ts_abs_seqno s)"
  using assms unfolding tx_ok_def by blast+

lemma outstanding_after_push [simp]: "outstanding (after_push ms s) = outstanding s @ ms"
  by (simp add: outstanding_def)

text \<open>Appending segments that continue the chain keeps the invariant.\<close>

lemma tx_ok_append:
  assumes ok: "tx_ok sent s" and syn: "ts_syn_sent s" and fin: "\<not> ts_fin_sent s"
    and c: "chain (sent @ ys) (ts_isn s) (1 + length sent) ms"
    and len: "segments_length ms = length ys + of_bool (\<exists>m \<in> set ms. sm_FIN m)"
    and small: "length sent + length ys + 2 < 2 ^ 64"
  shows "tx_ok (sent @ ys) (after_push ms s)"
proof -
  have a: "unat (ts_abs_seqno s) = 1 + length sent" using ok syn fin by (simp add: tx_ok_def)
  have le: "segments_length (outstanding s) \<le> 1 + length sent" using ok a by (simp add: tx_ok_def)
  have lm: "segments_length ms \<le> length ys + 1" by (simp add: len)
  then have n: "unat (of_nat (segments_length ms) :: u64) = segments_length ms"
    using small by (intro unat_of_nat_small) simp
  have "unat (ts_abs_seqno s) + unat (of_nat (segments_length ms) :: u64) < 2 ^ LENGTH(64)"
    unfolding n a using lm small by simp
  from unat_add_small [OF this]
  have U: "unat (ts_abs_seqno (after_push ms s)) = 1 + length sent + segments_length ms"
    unfolding n a by simp
  have "chain (sent @ ys) (ts_isn s) (1 + length sent - segments_length (outstanding s)) (outstanding s)"
    using ok fin unfolding tx_ok_def a by (intro chain_extend) blast+
  then have C: "chain (sent @ ys) (ts_isn s)
      (1 + length sent + segments_length ms - segments_length (outstanding s @ ms))
      (outstanding s @ ms)"
    using c le by simp
  have L: "1 + length sent + segments_length ms =
      of_bool (ts_syn_sent s) + length (sent @ ys) + of_bool (ts_fin_sent s \<or> (\<exists>m \<in> set ms. sm_FIN m))"
    unfolding len using syn fin by simp
  have F: "\<not> (ts_fin_sent s \<or> (\<exists>m \<in> set ms. sm_FIN m)) \<longrightarrow>
      (\<forall>m \<in> set (outstanding s @ ms). \<not> sm_FIN m)"
    using ok fin unfolding tx_ok_def by (metis UnE set_append)
  have S: "segments_length (outstanding s @ ms) \<le> 1 + length sent + segments_length ms"
    using le by simp
  have A: "ts_ackno s \<noteq> None" using ok unfolding tx_ok_def by blast
  show ?thesis
    unfolding tx_ok_def outstanding_after_push U unfolding after_push_fields
    using A L F S C syn by blast
qed

lemma tx_ok_push_started:
  assumes ok: "tx_ok sent s" and syn: "ts_syn_sent s" and fin: "ts_fin_sent s \<Longrightarrow> xs = []"
    and small: "length sent + length xs + 2 < 2 ^ 64"
  shows "tx_ok (sent @ take room xs)
           (after_push (cut_segments (ts_isn s) (ts_abs_seqno s) room xs
              (\<not> ts_fin_sent s \<and> closed)) s)"
proof (cases "ts_fin_sent s")
  case True
  with ok fin show ?thesis by (simp add: chain_cut_none)
next
  case False
  then have a: "unat (ts_abs_seqno s) = 1 + length sent" using ok syn by (simp add: tx_ok_def)
  let ?ms = "cut_segments (ts_isn s) (ts_abs_seqno s) room xs closed"
  have "chain (sent @ take room xs) (ts_isn s) (1 + length sent) ?ms"
    using small a by (intro chain_cut) auto
  moreover have "segments_length ?ms = length (take room xs) + of_bool (\<exists>m \<in> set ?ms. sm_FIN m)"
    by (simp add: cut_segments_length cut_segments_any_fin min.commute)
  ultimately have "tx_ok (sent @ take room xs) (after_push ?ms s)"
    using small by (intro tx_ok_append [OF ok syn False]) auto
  then show ?thesis using False by simp
qed

lemma tx_ok_push_first:
  assumes ok: "tx_ok sent s" and syn: "\<not> ts_syn_sent s"
  shows "tx_ok sent ((after_push [first_segment s outbound] s)\<lparr>ts_syn_sent := True\<rparr>)"
proof -
  have z: "ts_abs_seqno s = 0" "sent = []" "outstanding s = []" "\<not> ts_fin_sent s" "ts_ackno s \<noteq> None"
    using ok syn by (auto simp: tx_ok_def unat_eq_zero)
  let ?s = "(after_push [first_segment s outbound] s)\<lparr>ts_syn_sent := True\<rparr>"
  have o: "outstanding ?s = [first_segment s outbound]" "ts_fin_sent ?s = bs_closed outbound"
    "ts_abs_seqno ?s = 1 + of_bool (bs_closed outbound)" "ts_ackno ?s \<noteq> None" "ts_syn_sent ?s"
    "ts_isn ?s = ts_isn s"
    using z by (simp_all add: outstanding_def first_segment_def sequence_length_def)
  show ?thesis unfolding tx_ok_def o(1-3,5,6) using o(4) z
    by (cases "bs_closed outbound")
       (simp_all add: first_segment_def sequence_length_def segment_of_def segment_index_def)
qed

lemma maybe_send_outstanding:
  assumes "sender_maybe_send s = Inr (s', m)"
  shows "outstanding s' = outstanding s \<and> ts_isn s' = ts_isn s \<and> ts_abs_seqno s' = ts_abs_seqno s \<and>
         ts_syn_sent s' = ts_syn_sent s \<and> ts_fin_sent s' = ts_fin_sent s \<and> ts_ackno s' = ts_ackno s \<and>
         (\<forall>x. m = Some x \<longrightarrow> x \<in> set (outstanding s))"
  using assms
  by (auto simp: sender_maybe_send_def outstanding_def Let_def split: if_splits list.splits)

lemma tick_outstanding:
  "outstanding (sender_tick n s) = outstanding s" "ts_isn (sender_tick n s) = ts_isn s"
  "ts_abs_seqno (sender_tick n s) = ts_abs_seqno s" "ts_syn_sent (sender_tick n s) = ts_syn_sent s"
  "ts_fin_sent (sender_tick n s) = ts_fin_sent s" "ts_ackno (sender_tick n s) = ts_ackno s"
  by (simp_all add: sender_tick_def outstanding_def Let_def)

lemma pop_acked_suffix:
  "\<exists>ps. segs = ps @ pop_acked isn abs_seqno abs_ackno segs"
proof (induction segs)
  case (Cons seg segs)
  then obtain ps where "segs = ps @ pop_acked isn abs_seqno abs_ackno segs" by blast
  then have "seg # segs = (seg # ps) @ pop_acked isn abs_seqno abs_ackno segs" by simp
  moreover have "seg # segs = [] @ seg # segs" by simp
  ultimately show ?case by (subst pop_acked.simps) (simp only: split: if_splits, blast)
qed simp

lemma receive_outstanding:
  assumes "sender_receive msg s = Inr s'"
  shows "ts_isn s' = ts_isn s \<and> ts_abs_seqno s' = ts_abs_seqno s \<and>
         ts_syn_sent s' = ts_syn_sent s \<and> ts_fin_sent s' = ts_fin_sent s \<and>
         ts_pushed s' = ts_pushed s \<and> (ts_ackno s \<noteq> None \<longrightarrow> ts_ackno s' \<noteq> None) \<and>
         (\<exists>ps. outstanding s = ps @ outstanding s')"
proof -
  have "\<exists>ps. map os_message (ts_in_flight s) = ps @ map os_message (pop_acked i a k (ts_in_flight s))"
    for i a k
    using pop_acked_suffix [of "ts_in_flight s" i a k] by (metis map_append)
  then show ?thesis using assms
    by (fastforce simp: sender_receive_def receive_new_ack_def outstanding_def Let_def
        split: option.splits if_splits)
qed

lemma tx_ok_receive:
  assumes ok: "tx_ok sent s" and rcv: "sender_receive msg s = Inr s'"
  shows "tx_ok sent s'"
proof -
  obtain ps where ps: "outstanding s = ps @ outstanding s'"
    and eq: "ts_isn s' = ts_isn s" "ts_abs_seqno s' = ts_abs_seqno s"
      "ts_syn_sent s' = ts_syn_sent s" "ts_fin_sent s' = ts_fin_sent s"
    and ack: "ts_ackno s' \<noteq> None"
    using receive_outstanding [OF rcv] ok by (auto simp: tx_ok_def)
  have "unat (ts_abs_seqno s) - segments_length (outstanding s) + segments_length ps =
      unat (ts_abs_seqno s) - segments_length (outstanding s')"
    using ok ps by (simp add: tx_ok_def)
  with ok ps eq ack show ?thesis by (auto simp: tx_ok_def)
qed

subsection \<open>The sender and its stream as a transition system\<close>

text \<open>
  Ghosts: \<open>ss_written\<close> is what the application has written, \<open>ss_emitted\<close> every segment
  handed to the network.  Data is written only after the connection was opened by a first
  push (the SYN) and before the stream is closed, as the sockets do.
\<close>

record sender_sys =
  ss_tx :: tcp_sender
  ss_out :: byte_stream
  ss_written :: bytes
  ss_emitted :: "tcp_sender_message list"

definition new_sender_sys :: "tcp_sender \<Rightarrow> u64 \<Rightarrow> sender_sys" where
  "new_sender_sys tx c =
     \<lparr>ss_tx = tx, ss_out = new_byte_stream c, ss_written = [], ss_emitted = []\<rparr>"

inductive sender_step :: "sender_sys \<Rightarrow> sender_sys \<Rightarrow> bool" where
  app_write: "ts_syn_sent (ss_tx x) \<Longrightarrow> \<not> bs_closed (ss_out x) \<Longrightarrow>
    sender_step x (x\<lparr>ss_out := writer_push d (ss_out x),
      ss_written := ss_written x @ take (unat (available_capacity (ss_out x))) d\<rparr>)"
| app_close: "sender_step x (x\<lparr>ss_out := writer_close (ss_out x)\<rparr>)"
| push: "sender_push (ss_tx x) (ss_out x) = Some (Inr (tx, out)) \<Longrightarrow>
    sender_step x (x\<lparr>ss_tx := tx, ss_out := out\<rparr>)"
| transmit: "sender_maybe_send (ss_tx x) = Inr (tx, Some m) \<Longrightarrow>
    sender_step x (x\<lparr>ss_tx := tx, ss_emitted := ss_emitted x @ [m]\<rparr>)"
| hear: "sender_receive msg (ss_tx x) = Inr tx \<Longrightarrow> sender_step x (x\<lparr>ss_tx := tx\<rparr>)"
| wait: "sender_step x (x\<lparr>ss_tx := sender_tick n (ss_tx x)\<rparr>)"

inductive_cases sender_stepE: "sender_step x y"

definition ss_sent :: "sender_sys \<Rightarrow> bytes" where
  "ss_sent x = take (length (ss_written x) - length (stream_content (ss_out x))) (ss_written x)"

definition sender_inv :: "sender_sys \<Rightarrow> bool" where
  "sender_inv x \<longleftrightarrow>
     stream_inv (ss_out x) \<and>
     ss_written x = ss_sent x @ stream_content (ss_out x) \<and>
     tx_ok (ss_sent x) (ss_tx x) \<and>
     (\<not> ts_syn_sent (ss_tx x) \<longrightarrow> stream_content (ss_out x) = []) \<and>
     (ts_fin_sent (ss_tx x) \<longrightarrow> bs_closed (ss_out x) \<and> stream_content (ss_out x) = []) \<and>
     (\<forall>m \<in> set (ss_emitted x). \<exists>f. segment_of (ss_sent x) (ts_isn (ss_tx x)) f m) \<and>
     (\<not> ts_fin_sent (ss_tx x) \<longrightarrow> (\<forall>m \<in> set (ss_emitted x). \<not> sm_FIN m))"

lemma ss_sent_eqI:
  "ss_written x = sent @ stream_content (ss_out x) \<Longrightarrow> ss_sent x = sent"
  by (simp add: ss_sent_def)

lemma sender_inv_new: "sender_inv (new_sender_sys (new_tcp_sender rto fixed r) c)"
  by (simp add: sender_inv_def new_sender_sys_def ss_sent_def stream_simps tx_ok_new
      del: new_tcp_sender_fields) simp

lemma sender_inv_write:
  assumes inv: "sender_inv x" and "ts_syn_sent (ss_tx x)" and "\<not> bs_closed (ss_out x)"
  shows "sender_inv (x\<lparr>ss_out := writer_push d (ss_out x),
      ss_written := ss_written x @ take (unat (available_capacity (ss_out x))) d\<rparr>)"
    (is "sender_inv ?y")
proof -
  have "ss_written ?y = ss_sent x @ stream_content (ss_out ?y)"
    using inv by (simp add: sender_inv_def stream_simps)
  moreover from this have "ss_sent ?y = ss_sent x" by (rule ss_sent_eqI)
  ultimately show ?thesis
    using assms by (simp add: sender_inv_def stream_simps)
qed

lemma sender_inv_finish:
  assumes inv: "sender_inv x"
  shows "sender_inv (x\<lparr>ss_out := writer_close (ss_out x)\<rparr>)" (is "sender_inv ?y")
proof -
  have "ss_sent ?y = ss_sent x" by (simp add: ss_sent_def stream_simps)
  then show ?thesis using assms by (simp add: sender_inv_def stream_simps)
qed

text \<open>A step that only changes the sender, and keeps what \<open>tx_ok\<close> looks at.\<close>

lemma sender_inv_tx:
  assumes inv: "sender_inv x" and ok: "tx_ok (ss_sent x) tx"
    and "ts_isn tx = ts_isn (ss_tx x)" and "ts_syn_sent tx = ts_syn_sent (ss_tx x)"
    and "ts_fin_sent tx = ts_fin_sent (ss_tx x)"
  shows "sender_inv (x\<lparr>ss_tx := tx\<rparr>)"
proof -
  have "ss_sent (x\<lparr>ss_tx := tx\<rparr>) = ss_sent x" by (simp add: ss_sent_def)
  with assms show ?thesis by (simp add: sender_inv_def)
qed

lemma sender_inv_transmit:
  assumes inv: "sender_inv x" and send: "sender_maybe_send (ss_tx x) = Inr (tx, Some m)"
  shows "sender_inv (x\<lparr>ss_tx := tx, ss_emitted := ss_emitted x @ [m]\<rparr>)" (is "sender_inv ?y")
proof -
  have ok: "tx_ok (ss_sent x) (ss_tx x)" using inv by (simp add: sender_inv_def)
  note out = maybe_send_outstanding [OF send]
  then have m: "m \<in> set (outstanding (ss_tx x))" by blast
  have "ts_ackno tx \<noteq> None" using out ok by (simp add: tx_ok_def)
  then have ok': "tx_ok (ss_sent x) tx" using out by (intro tx_ok_same [OF ok]) blast+
  have fin: "\<not> ts_fin_sent (ss_tx x) \<longrightarrow> \<not> sm_FIN m"
    using ok m by (auto simp: tx_ok_def)
  have "ss_sent ?y = ss_sent x" by (simp add: ss_sent_def)
  with inv ok' out fin tx_ok_segment [OF ok m] show ?thesis
    by (simp add: sender_inv_def)
qed

lemma sender_inv_push:
  assumes inv: "sender_inv x" and small: "length (ss_written x) + 2 < 2 ^ 64"
    and push: "sender_push (ss_tx x) (ss_out x) = Some (Inr (tx, out))"
  shows "sender_inv (x\<lparr>ss_tx := tx, ss_out := out\<rparr>)" (is "sender_inv ?y")
proof -
  let ?s = "ss_tx x" and ?xs = "stream_content (ss_out x)"
  have ok: "tx_ok (ss_sent x) ?s" and si: "stream_inv (ss_out x)"
    and w: "ss_written x = ss_sent x @ ?xs"
    and fin: "ts_fin_sent ?s \<Longrightarrow> bs_closed (ss_out x) \<and> ?xs = []"
    and nosyn: "\<not> ts_syn_sent ?s \<Longrightarrow> ?xs = []"
    using inv by (auto simp: sender_inv_def)
  from ok obtain ackno where ack: "ts_ackno ?s = Some ackno" by (auto simp: tx_ok_def)
  show ?thesis
  proof (cases "ts_syn_sent ?s")
    case True
    let ?room = "unat (window_room ?s ackno)"
    let ?ms = "cut_segments (ts_isn ?s) (ts_abs_seqno ?s) ?room ?xs
        (\<not> ts_fin_sent ?s \<and> bs_closed (ss_out x))"
    have tx: "tx = after_push ?ms ?s" and out: "stream_inv out"
      "stream_content out = drop ?room ?xs" "bs_closed out = bs_closed (ss_out x)"
      using push by (auto intro: sender_push_cut [OF si True ack])
    have sent: "ss_sent ?y = ss_sent x @ take ?room ?xs"
      using w out(2) by (intro ss_sent_eqI) simp
    have "tx_ok (ss_sent ?y) tx"
      unfolding sent unfolding tx
    proof (rule tx_ok_push_started [OF ok True])
      show "length (ss_sent x) + length ?xs + 2 < 2 ^ 64"
        using small unfolding w by (simp only: length_append)
    qed (use fin in blast)
    moreover have "ts_fin_sent tx \<longrightarrow> bs_closed out \<and> stream_content out = []"
      using fin out by (auto simp: tx cut_segments_any_fin)
    moreover have "ss_written ?y = ss_sent ?y @ stream_content out"
      unfolding sent out(2) using w by simp
    moreover have "\<forall>m \<in> set (ss_emitted x). \<exists>f. segment_of (ss_sent ?y) (ts_isn ?s) f m"
    proof (cases "ts_fin_sent ?s")
      case True
      then have "ss_sent ?y = ss_sent x" using fin sent by simp
      then show ?thesis using inv by (simp add: sender_inv_def)
    next
      case False
      then have "\<forall>m \<in> set (ss_emitted x). \<not> sm_FIN m" using inv by (simp add: sender_inv_def)
      then show ?thesis unfolding sent using inv segment_of_extend
        by (fastforce simp: sender_inv_def)
    qed
    moreover have "\<not> ts_fin_sent tx \<longrightarrow> (\<forall>m \<in> set (ss_emitted x). \<not> sm_FIN m)"
      using inv by (auto simp: sender_inv_def tx)
    moreover have "ts_syn_sent tx" "ts_isn tx = ts_isn ?s" using True by (simp_all add: tx)
    ultimately show ?thesis using out by (simp add: sender_inv_def)
  next
    case False
    let ?seg = "first_segment ?s (ss_out x)"
    have tx: "tx = (after_push [?seg] ?s)\<lparr>ts_syn_sent := True\<rparr>" and out: "stream_inv out"
      "stream_content out = []" "bs_closed out = bs_closed (ss_out x)"
      using push by (auto intro: sender_push_first [OF si nosyn [OF False] False ack])
    have sent: "ss_sent ?y = ss_sent x"
      using w out nosyn [OF False] by (intro ss_sent_eqI) simp
    have "tx_ok (ss_sent ?y) tx" unfolding sent unfolding tx by (rule tx_ok_push_first [OF ok False])
    moreover have "ts_fin_sent tx \<longrightarrow> bs_closed out"
      using fin out by (auto simp: tx first_segment_def)
    moreover have "\<not> ts_fin_sent tx \<longrightarrow> \<not> ts_fin_sent ?s" "ts_isn tx = ts_isn ?s"
      by (auto simp: tx)
    ultimately show ?thesis using inv out w nosyn [OF False]
      by (simp add: sender_inv_def sent)
  qed
qed

lemma sender_inv_step:
  assumes "sender_step x y" and "sender_inv x" and "length (ss_written x) + 2 < 2 ^ 64"
  shows "sender_inv y"
proof -
  have ok: "tx_ok (ss_sent x) (ss_tx x)" using assms(2) by (simp add: sender_inv_def)
  from assms(1) show ?thesis
  proof cases
    case (app_write d)
    then show ?thesis using sender_inv_write [OF assms(2)] by simp
  next
    case app_close
    then show ?thesis using sender_inv_finish [OF assms(2)] by simp
  next
    case (push tx out)
    then show ?thesis using sender_inv_push [OF assms(2,3)] by simp
  next
    case (transmit tx m)
    then show ?thesis using sender_inv_transmit [OF assms(2)] by simp
  next
    case (hear msg tx)
    have "tx_ok (ss_sent x) tx" by (rule tx_ok_receive [OF ok hear(2)])
    then show ?thesis
      using receive_outstanding [OF hear(2)] sender_inv_tx [OF assms(2)] hear(1) by simp
  next
    case (wait n)
    have "ts_ackno (ss_tx x) \<noteq> None" using ok unfolding tx_ok_def by blast
    then have "tx_ok (ss_sent x) (sender_tick n (ss_tx x))"
      by (intro tx_ok_same [OF ok]) (simp_all only: tick_outstanding simp_thms)
    then show ?thesis
      using tick_outstanding sender_inv_tx [OF assms(2)] wait by simp
  qed
qed

lemma sender_step_written:
  "sender_step x y \<Longrightarrow> length (ss_written x) \<le> length (ss_written y)"
  by (cases rule: sender_step.cases) auto

lemma sender_reach_inv:
  assumes "sender_step\<^sup>*\<^sup>* x y" and "sender_inv x" and "length (ss_written y) + 2 < 2 ^ 64"
  shows "sender_inv y"
  using assms
proof (induction rule: rtranclp_induct)
  case (step y z)
  have "length (ss_written y) + 2 < 2 ^ 64"
    using step.prems(2) sender_step_written [OF step.hyps(2)] by linarith
  with step show ?case by (blast intro: sender_inv_step)
qed simp

lemma in_flight_sum:
  "sequence_numbers_in_flight s = of_nat (segments_length (outstanding s))"
proof -
  have "fold (\<lambda>seg n. n + of_nat (sequence_length (os_message seg))) segs k =
      k + of_nat (segments_length (map os_message segs))" for segs :: "out_seg list" and k :: u64
    by (induction segs arbitrary: k) (simp_all add: algebra_simps)
  moreover have "fold (\<lambda>m n. n + of_nat (sequence_length m)) ms k =
      k + of_nat (segments_length ms)" for ms and k :: u64
    by (induction ms arbitrary: k) (simp_all add: algebra_simps)
  ultimately show ?thesis
    by (simp add: sequence_numbers_in_flight_def Let_def outstanding_def)
qed

subsection \<open>Acknowledgments\<close>

lemma chain_unwrap:
  assumes "chain str isn a (m # ms)" and "a \<le> unat abs_seqno" and "unat abs_seqno - a < 2 ^ 31"
  shows "unwrap (sm_seqno m) isn abs_seqno = of_nat a"
proof -
  have "sm_seqno m = wrap (of_nat a) isn"
    using assms(1) by (auto simp: segment_of_def segment_index_def)
  moreover have "unat (of_nat a :: u64) = a" using assms(2) by (rule unat_of_nat_unat_le)
  ultimately show ?thesis
    using assms(2,3) by (simp only:) (intro unwrap_wrap_near, simp add: nat_distance_def)
qed

text \<open>Exactly the segments that end at or before the acknowledgment are forgotten.\<close>

lemma pop_acked_chain:
  assumes "chain str isn a (map os_message segs)"
    and "a + segments_length (map os_message segs) \<le> unat abs_seqno"
    and "unat abs_seqno - a < 2 ^ 31"
  shows "\<exists>ps. segs = ps @ pop_acked isn abs_seqno k segs \<and>
           (ps = [] \<or> a + segments_length (map os_message ps) \<le> unat k) \<and>
           (\<forall>seg rest. pop_acked isn abs_seqno k segs = seg # rest \<longrightarrow>
              unat k < a + segments_length (map os_message (ps @ [seg])))"
  using assms
proof (induction segs arbitrary: a)
  case (Cons seg segs)
  let ?m = "os_message seg"
  have u: "unwrap (sm_seqno ?m) isn abs_seqno = of_nat a"
    using Cons.prems by (intro chain_unwrap [where ms = "map os_message segs"]) auto
  have le: "a + sequence_length ?m \<le> unat abs_seqno" using Cons.prems(2) by simp
  have "of_nat a + of_nat (sequence_length ?m) = (of_nat (a + sequence_length ?m) :: u64)" by simp
  moreover have "unat (of_nat (a + sequence_length ?m) :: u64) = a + sequence_length ?m"
    by (rule unat_of_nat_unat_le [OF le])
  ultimately have gt: "of_nat a + of_nat (sequence_length ?m) > k \<longleftrightarrow>
      unat k < a + sequence_length ?m"
    by (simp only: word_less_nat_alt)
  show ?case
  proof (cases "unat k < a + sequence_length ?m")
    case True
    with gt u show ?thesis by (intro exI [of _ "[]"]) simp
  next
    case False
    have "\<exists>ps. segs = ps @ pop_acked isn abs_seqno k segs \<and>
           (ps = [] \<or> a + sequence_length ?m + segments_length (map os_message ps) \<le> unat k) \<and>
           (\<forall>seg rest. pop_acked isn abs_seqno k segs = seg # rest \<longrightarrow>
              unat k < a + sequence_length ?m + segments_length (map os_message (ps @ [seg])))"
      using Cons.prems by (intro Cons.IH) auto
    then obtain ps where ps: "segs = ps @ pop_acked isn abs_seqno k segs"
      "ps = [] \<or> a + sequence_length ?m + segments_length (map os_message ps) \<le> unat k"
      "\<forall>seg rest. pop_acked isn abs_seqno k segs = seg # rest \<longrightarrow>
              unat k < a + sequence_length ?m + segments_length (map os_message (ps @ [seg]))"
      by blast
    have pop: "pop_acked isn abs_seqno k (seg # segs) = pop_acked isn abs_seqno k segs"
      using False gt u by simp
    show ?thesis unfolding pop
      using ps False by (intro exI [of _ "seg # ps"]) (auto simp: add.assoc)
  qed
qed simp

subsection \<open>Time\<close>

text \<open>How often the timer expires during a sequence of ticks.\<close>

fun expiries :: "u64 list \<Rightarrow> tcp_sender \<Rightarrow> nat" where
  "expiries [] s = 0"
| "expiries (n # ns) s =
     of_bool (timer_is_expired (ts_time_alive s + n) (ts_timer s)) + expiries ns (sender_tick n s)"

lemma tick_fields [simp]:
  "ts_window (sender_tick n s) = ts_window s"
  "ts_dont_back_off (sender_tick n s) = ts_dont_back_off s"
  "ts_in_flight (sender_tick n s) = ts_in_flight s"
  "ts_pushed (sender_tick n s) = ts_pushed s"
  "ts_time_alive (sender_tick n s) = ts_time_alive s + n"
  by (simp_all add: sender_tick_def Let_def)

lemma tick_back_off:
  fixes n :: u64
  assumes "0 < ts_window s"
  defines "e \<equiv> timer_is_expired (ts_time_alive s + n) (ts_timer s)"
  shows "ts_current_RTO (sender_tick n s) =
           (if e \<and> \<not> ts_dont_back_off s then ts_current_RTO s * 2 else ts_current_RTO s)"
    and "ts_retransmissions (sender_tick n s) = ts_retransmissions s + of_bool e"
    and "ts_retransmit (sender_tick n s) = (ts_retransmit s \<or> e \<and> ts_in_flight s \<noteq> [])"
  using assms(1) unfolding e_def by (simp_all add: sender_tick_def Let_def)

lemma first_step_example:
  "\<exists>x. sender_step\<^sup>*\<^sup>* (new_sender_sys (new_tcp_sender 1000 (Some (Wrap32 7)) 0) 9) x \<and>
       ss_written x = [] \<and> ss_emitted x \<noteq> []"
proof -
  let ?tx = "new_tcp_sender 1000 (Some (Wrap32 7)) 0"
  let ?x0 = "new_sender_sys ?tx 9"
  obtain seg where seg: "first_segment ?tx (new_byte_stream 9) = seg" by blast
  have "\<not> ts_syn_sent ?tx" "ts_ackno ?tx = Some (Wrap32 7)" by simp_all
  then obtain out1 where "sender_push ?tx (new_byte_stream 9) =
      Some (Inr ((after_push [seg] ?tx)\<lparr>ts_syn_sent := True\<rparr>, out1))"
    by (rule sender_push_first [OF new_stream_inv stream_content_new, of ?tx "Wrap32 7" 9, unfolded seg])
  then obtain tx1 where p: "sender_push ?tx (new_byte_stream 9) = Some (Inr (tx1, out1))"
    and tx1: "tx1 = (after_push [seg] ?tx)\<lparr>ts_syn_sent := True\<rparr>" by blast
  let ?x1 = "?x0\<lparr>ss_tx := tx1, ss_out := out1\<rparr>"
  have s1: "sender_step ?x0 ?x1"
    using p by (intro sender_step.push) (simp add: new_sender_sys_def)
  have "ts_pushed tx1 = [seg]" "\<not> ts_retransmit tx1" by (simp_all add: tx1)
  then obtain tx2 where "sender_maybe_send tx1 = Inr (tx2, Some seg)"
    by (simp add: sender_maybe_send_def Let_def)
  then have s2: "sender_step ?x1 (?x1\<lparr>ss_tx := tx2, ss_emitted := ss_emitted ?x1 @ [seg]\<rparr>)"
    by (intro sender_step.transmit) simp
  have "sender_step\<^sup>*\<^sup>* ?x0 (?x1\<lparr>ss_tx := tx2, ss_emitted := ss_emitted ?x1 @ [seg]\<rparr>)"
    by (rule rtranclp.rtrancl_into_rtrancl, rule r_into_rtranclp, rule s1, rule s2)
  moreover have "ss_written ?x0 = []" by (simp add: new_sender_sys_def)
  ultimately show ?thesis by (intro exI conjI) (assumption | simp)+
qed

lemma ticks_back_off:
  "0 < ts_window s \<Longrightarrow>
     ts_current_RTO (fold sender_tick ns s) =
       (if ts_dont_back_off s then ts_current_RTO s else ts_current_RTO s * 2 ^ expiries ns s) \<and>
     ts_retransmissions (fold sender_tick ns s) = ts_retransmissions s + of_nat (expiries ns s) \<and>
     ts_retransmit (fold sender_tick ns s) =
       (ts_retransmit s \<or> 0 < expiries ns s \<and> ts_in_flight s \<noteq> []) \<and>
     ts_in_flight (fold sender_tick ns s) = ts_in_flight s"
  by (induction ns arbitrary: s) (auto simp: tick_back_off power_add)

subsection \<open>Properties\<close>

text \<open>
  C6: In every state the sender can reach, under any interleaving of writes, close,
  pushes, transmissions, acknowledgments (arbitrary ones) and time, what was written is
  what was sent followed by what is still buffered; the outstanding segments are
  consecutive pieces of what was sent, numbered without gap up to the next sequence
  number; \<open>sequence_numbers_in_flight\<close> is their total length; and every segment ever
  handed to the network is a correctly numbered piece of the stream.
\<close>

theorem sender_outstanding_contiguous:
  assumes "sender_step\<^sup>*\<^sup>* (new_sender_sys (new_tcp_sender rto fixed r) c) x"
    and "length (ss_written x) + 2 < 2 ^ 64"
  shows "\<exists>sent a. ss_written x = sent @ stream_content (ss_out x) \<and>
           chain sent (ts_isn (ss_tx x)) a (outstanding (ss_tx x)) \<and>
           unat (ts_abs_seqno (ss_tx x)) = a + unat (sequence_numbers_in_flight (ss_tx x)) \<and>
           list_all (\<lambda>m. \<exists>f. segment_of sent (ts_isn (ss_tx x)) f m) (ss_emitted x)"
proof -
  have inv: "sender_inv x" by (rule sender_reach_inv [OF assms(1) sender_inv_new assms(2)])
  let ?o = "outstanding (ss_tx x)" and ?n = "ts_abs_seqno (ss_tx x)"
  have le: "segments_length ?o \<le> unat ?n" using inv by (simp add: sender_inv_def tx_ok_def)
  then have "unat (sequence_numbers_in_flight (ss_tx x)) = segments_length ?o"
    unfolding in_flight_sum by (rule unat_of_nat_unat_le)
  with le have "unat ?n = unat ?n - segments_length ?o + unat (sequence_numbers_in_flight (ss_tx x))"
    by simp
  moreover have "chain (ss_sent x) (ts_isn (ss_tx x)) (unat ?n - segments_length ?o) ?o"
    and "ss_written x = ss_sent x @ stream_content (ss_out x)"
    and "list_all (\<lambda>m. \<exists>f. segment_of (ss_sent x) (ts_isn (ss_tx x)) f m) (ss_emitted x)"
    using inv tx_ok_chain(1) by (simp_all add: sender_inv_def list_all_iff)
  ultimately show ?thesis by blast
qed

theorem sender_outstanding_contiguous_witness:
  "\<exists>(x :: sender_sys) sent a. ss_emitted x \<noteq> [] \<and> ss_written x = sent @ stream_content (ss_out x) \<and>
     chain sent (ts_isn (ss_tx x)) a (outstanding (ss_tx x)) \<and>
     unat (ts_abs_seqno (ss_tx x)) = a + unat (sequence_numbers_in_flight (ss_tx x))"
proof -
  obtain x where "sender_step\<^sup>*\<^sup>* (new_sender_sys (new_tcp_sender 1000 (Some (Wrap32 7)) 0) 9) x"
    and "ss_written x = []" "ss_emitted x \<noteq> []"
    using first_step_example by blast
  moreover from this have "length (ss_written x) + 2 < 2 ^ 64" by simp
  ultimately obtain sent a where "ss_written x = sent @ stream_content (ss_out x)"
    "chain sent (ts_isn (ss_tx x)) a (outstanding (ss_tx x))"
    "unat (ts_abs_seqno (ss_tx x)) = a + unat (sequence_numbers_in_flight (ss_tx x))"
    using sender_outstanding_contiguous [of 1000 "Some (Wrap32 7)" 0 9 x] by blast
  with \<open>ss_emitted x \<noteq> []\<close> show ?thesis by blast
qed

text \<open>
  C8: An acknowledgment beyond the next sequence number changes nothing.  Any other
  one makes the sender forget exactly the transmitted segments that end at or before it,
  in order, takes over the window (a window of 0 counts as 1 and stops the back-off), and
  leaves the untransmitted segments and the numbering alone.
\<close>

theorem sender_receive_forgets_acked:
  assumes "chain sent (ts_isn s) a (outstanding s)"
    and "unat (ts_abs_seqno s) = a + segments_length (outstanding s)"
    and "segments_length (outstanding s) < 2 ^ 31"
    and "ts_ackno s \<noteq> None" and "rm_ackno msg = Some ackno"
  shows "\<exists>s'. sender_receive msg s = Inr s' \<and>
           (if unacked s ackno > ts_abs_seqno s then s' = s
            else ts_ackno s' = Some ackno \<and>
                 ts_window s' = (if rm_window_size msg = 0 then 1 else rm_window_size msg) \<and>
                 ts_dont_back_off s' = (rm_window_size msg = 0) \<and>
                 ts_pushed s' = ts_pushed s \<and> ts_abs_seqno s' = ts_abs_seqno s \<and>
                 (\<exists>ps. ts_in_flight s = ps @ ts_in_flight s' \<and>
                    (ps = [] \<or> a + segments_length (map os_message ps) \<le> unat (unacked s ackno)) \<and>
                    (ts_in_flight s' = [] \<or>
                     unat (unacked s ackno) <
                       a + segments_length (map os_message (ps @ [hd (ts_in_flight s')])))))"
proof (cases "unacked s ackno > ts_abs_seqno s")
  case True
  with assms(5) show ?thesis by (simp add: sender_receive_def unacked_def)
next
  case False
  obtain old where old: "ts_ackno s = Some old" using assms(4) by blast
  let ?k = "unacked s ackno"
  let ?rest = "pop_acked (ts_isn s) (ts_abs_seqno s) ?k (ts_in_flight s)"
  have "chain sent (ts_isn s) a (map os_message (ts_in_flight s))"
    using assms(1) by (simp add: outstanding_def)
  moreover have "a + segments_length (map os_message (ts_in_flight s)) \<le> unat (ts_abs_seqno s)"
    using assms(2) by (simp add: outstanding_def)
  moreover have "unat (ts_abs_seqno s) - a < 2 ^ 31" using assms(2,3) by simp
  ultimately obtain ps where ps: "ts_in_flight s = ps @ ?rest"
      "ps = [] \<or> a + segments_length (map os_message ps) \<le> unat ?k"
      "\<forall>seg rest. ?rest = seg # rest \<longrightarrow> unat ?k < a + segments_length (map os_message (ps @ [seg]))"
    using pop_acked_chain [of sent "ts_isn s" a "ts_in_flight s" "ts_abs_seqno s" ?k] by blast
  obtain s' where s': "sender_receive msg s = Inr s'" "ts_ackno s' = Some ackno"
      "ts_window s' = (if rm_window_size msg = 0 then 1 else rm_window_size msg)"
      "ts_dont_back_off s' = (rm_window_size msg = 0)"
      "ts_pushed s' = ts_pushed s" "ts_abs_seqno s' = ts_abs_seqno s" "ts_in_flight s' = ?rest"
    using False old assms(5)
    by (simp add: sender_receive_def receive_new_ack_def unacked_def Let_def word_neq_0_conv [symmetric]
        del: word_neq_0_conv)
  have "?rest = [] \<or> unat ?k < a + segments_length (map os_message (ps @ [hd ?rest]))"
    using ps(3) by (metis list.exhaust_sel)
  with False s' ps(1,2) show ?thesis by auto
qed

theorem sender_receive_forgets_acked_witness:
  "\<exists>s'. sender_receive \<lparr>rm_ackno = Some (Wrap32 8), rm_window_size = 4\<rparr>
           ((new_tcp_sender 1000 (Some (Wrap32 7)) 0)
              \<lparr>ts_syn_sent := True, ts_abs_seqno := 1,
                ts_in_flight := [\<lparr>os_message = \<lparr>sm_seqno = Wrap32 7, sm_SYN = True,
                   sm_payload = [], sm_FIN = False\<rparr>, os_timestamp = 0\<rparr>]\<rparr>) = Inr s' \<and>
        ts_window s' = 4 \<and> ts_in_flight s' = []"
proof -
  let ?m = "\<lparr>sm_seqno = Wrap32 7, sm_SYN = True, sm_payload = [], sm_FIN = False\<rparr>"
  let ?s = "(new_tcp_sender 1000 (Some (Wrap32 7)) 0)
      \<lparr>ts_syn_sent := True, ts_abs_seqno := 1,
        ts_in_flight := [\<lparr>os_message = ?m, os_timestamp = 0\<rparr>]\<rparr>"
  have u: "unacked ?s (Wrap32 8) = 1"
    using unwrap_wrap_near [of 1 1 "Wrap32 7"]
    by (simp add: unacked_def nat_distance_def wrap_def wrap32_plus_def)
  have c: "chain [] (ts_isn ?s) 0 (outstanding ?s)" "segments_length (outstanding ?s) = 1"
    by (simp_all add: outstanding_def segment_of_def segment_index_def sequence_length_def
        wrap_def wrap32_plus_def)
  obtain seg where seg: "seg = \<lparr>os_message = ?m, os_timestamp = 0\<rparr>" by blast
  let ?msg = "\<lparr>rm_ackno = Some (Wrap32 8), rm_window_size = 4\<rparr>"
  have pre: "unat (ts_abs_seqno ?s) = 0 + segments_length (outstanding ?s)"
    "segments_length (outstanding ?s) < 2 ^ 31" "ts_ackno ?s \<noteq> None" "rm_ackno ?msg = Some (Wrap32 8)"
    unfolding c(2) by simp_all
  have "\<not> unacked ?s (Wrap32 8) > ts_abs_seqno ?s" using u by simp
  with sender_receive_forgets_acked [OF c(1) pre]
  obtain s' ps where s': "sender_receive ?msg ?s = Inr s'"
    and w: "ts_window s' = (if rm_window_size ?msg = 0 then 1 else rm_window_size ?msg)"
    and fl: "ts_in_flight ?s = ps @ ts_in_flight s'"
    and last: "ts_in_flight s' = [] \<or>
      unat (unacked ?s (Wrap32 8)) < 0 + segments_length (map os_message (ps @ [hd (ts_in_flight s')]))"
    by (simp only: if_False) blast
  have ps: "[seg] = ps @ ts_in_flight s'" using fl by (simp add: seg)
  have hd: "ts_in_flight s' = [] \<or> 1 < segments_length (map os_message (ps @ [hd (ts_in_flight s')]))"
    using last unfolding u by simp
  have "ts_window s' = 4" using w by simp
  have "ts_in_flight s' = []"
  proof (cases ps)
    case Nil
    then have "ts_in_flight s' = [seg]" using ps by simp
    moreover have "sequence_length (os_message seg) = 1" by (simp add: seg sequence_length_def)
    ultimately show ?thesis using hd Nil by simp
  qed (use ps in auto)
  with s' \<open>ts_window s' = 4\<close> show ?thesis by blast
qed

text \<open>
  C9: While time passes, the retransmission timeout doubles and the count of
  retransmissions grows by one at every expiry of the timer (the timeout stays as it is
  while the peer advertises a zero window), and once the timer has expired with a segment
  in flight, the next transmission is the oldest outstanding segment, unchanged.
\<close>

theorem sender_ticks_retransmit_oldest:
  assumes "0 < ts_window s" and "ts_in_flight s = seg # segs" and "0 < expiries ns s"
  shows "ts_current_RTO (fold sender_tick ns s) =
           (if ts_dont_back_off s then ts_current_RTO s else ts_current_RTO s * 2 ^ expiries ns s) \<and>
         consecutive_retransmissions (fold sender_tick ns s) =
           consecutive_retransmissions s + of_nat (expiries ns s) \<and>
         (\<exists>s'. sender_maybe_send (fold sender_tick ns s) = Inr (s', Some (os_message seg)) \<and>
               outstanding s' = outstanding (fold sender_tick ns s) \<and> \<not> ts_retransmit s')"
  using ticks_back_off [OF assms(1), of ns] assms(2,3)
  by (simp add: consecutive_retransmissions_def sender_maybe_send_def Let_def outstanding_def)

theorem sender_ticks_retransmit_oldest_witness:
  "\<exists>s'. sender_maybe_send (fold sender_tick [400, 700]
           ((new_tcp_sender 1000 (Some (Wrap32 7)) 0)
              \<lparr>ts_timer := timer_start 0 1000 new_timer,
                ts_in_flight := [\<lparr>os_message = empty_sender_message, os_timestamp = 0\<rparr>]\<rparr>)) =
         Inr (s', Some empty_sender_message)"
proof -
  let ?s = "(new_tcp_sender 1000 (Some (Wrap32 7)) 0)
      \<lparr>ts_timer := timer_start 0 1000 new_timer,
        ts_in_flight := [\<lparr>os_message = empty_sender_message, os_timestamp = 0\<rparr>]\<rparr>"
  have e: "0 < expiries [400, 700] ?s"
    by (simp add: sender_tick_def timer_is_expired_def timer_start_def Let_def)
  have w: "0 < ts_window ?s"
    and fl: "ts_in_flight ?s = [\<lparr>os_message = empty_sender_message, os_timestamp = 0\<rparr>]"
    by simp_all
  from sender_ticks_retransmit_oldest [OF w fl e] show ?thesis
    by (simp only: out_seg.select_convs) blast
qed

text \<open>
  C37: When the timer expires and, before the retransmission is taken, an acknowledgment
  arrives for everything in flight, the next \<open>maybe_send\<close> reads the front of an empty
  deque.
\<close>

theorem sender_retransmit_after_ack_undefined:
  assumes "ts_retransmit s" and "sender_receive msg s = Inr s'" and "ts_in_flight s' = []"
  shows "sender_maybe_send s' = Inl (Undefined ''front() of an empty deque'')"
proof -
  have "ts_retransmit s'"
    using assms(1,2)
    by (auto simp: sender_receive_def receive_new_ack_def Let_def split: option.splits if_splits)
  with assms(3) show ?thesis by (simp add: sender_maybe_send_def Let_def)
qed

theorem sender_retransmit_after_ack_undefined_witness:
  "\<exists>s'. sender_receive \<lparr>rm_ackno = Some (Wrap32 8), rm_window_size = 4\<rparr>
           (fold sender_tick [1000] ((new_tcp_sender 1000 (Some (Wrap32 7)) 0)
              \<lparr>ts_syn_sent := True, ts_abs_seqno := 1, ts_timer := timer_start 0 1000 new_timer,
                ts_in_flight := [\<lparr>os_message = \<lparr>sm_seqno = Wrap32 7, sm_SYN = True,
                   sm_payload = [], sm_FIN = False\<rparr>, os_timestamp = 0\<rparr>]\<rparr>)) = Inr s' \<and>
        sender_maybe_send s' = Inl (Undefined ''front() of an empty deque'')"
proof -
  let ?s = "fold sender_tick [1000] ((new_tcp_sender 1000 (Some (Wrap32 7)) 0)
      \<lparr>ts_syn_sent := True, ts_abs_seqno := 1, ts_timer := timer_start 0 1000 new_timer,
        ts_in_flight := [\<lparr>os_message = \<lparr>sm_seqno = Wrap32 7, sm_SYN = True,
           sm_payload = [], sm_FIN = False\<rparr>, os_timestamp = 0\<rparr>]\<rparr>)"
  let ?msg = "\<lparr>rm_ackno = Some (Wrap32 8), rm_window_size = 4\<rparr>"
  have u: "unwrap (Wrap32 8) (Wrap32 7) 1 = 1" "unwrap (Wrap32 7) (Wrap32 7) 1 = 0"
    using unwrap_wrap_near [of 1 1 "Wrap32 7"] unwrap_wrap_near [of 1 0 "Wrap32 7"]
    by (simp_all add: nat_distance_def wrap_def wrap32_plus_def)
  have r: "ts_retransmit ?s"
    by (simp add: sender_tick_def timer_is_expired_def timer_start_def Let_def)
  obtain s' where s': "sender_receive ?msg ?s = Inr s'" "ts_in_flight s' = []"
    by (simp add: sender_receive_def receive_new_ack_def tick_outstanding u sequence_length_def Let_def)
  from s'(1) sender_retransmit_after_ack_undefined [OF r s'] show ?thesis by blast
qed

end
