(* ===== verification/Wire.thy ===== *)
theory Wire
  imports Prelude
begin

text \<open>
  The parser and serializer of \<open>util/parser.hh\<close>.  A \<open>Buffer\<close> (\<open>util/buffer.hh\<close>, a shared
  string) is its bytes: nothing modifies a buffer that is shared here.  The counters
  \<open>size_\<close> and \<open>skip_\<close> of a \<open>BufferList\<close> count bytes in memory and are natural numbers;
  no subtraction below is truncated on a well-formed list.
\<close>

subsection \<open>BufferList\<close>

record buffer_list =
  bl_size :: nat
  bl_buffer :: "bytes list"
  bl_skip :: nat

definition bl_append :: "bytes \<Rightarrow> buffer_list \<Rightarrow> buffer_list" where
  "bl_append str bl = bl\<lparr>bl_size := bl_size bl + length str, bl_buffer := bl_buffer bl @ [str]\<rparr>"

definition new_buffer_list :: "bytes list \<Rightarrow> buffer_list" where
  "new_buffer_list buffers = fold bl_append buffers \<lparr>bl_size = 0, bl_buffer = [], bl_skip = 0\<rparr>"

definition bl_empty :: "buffer_list \<Rightarrow> bool" where
  "bl_empty bl \<longleftrightarrow> bl_size bl = 0"

definition bl_peek :: "buffer_list \<Rightarrow> bytes result" where
  "bl_peek bl =
     (case bl_buffer bl of
        [] \<Rightarrow> Inl (Throws ''peek on empty BufferList'')
      | front # _ \<Rightarrow>
          if bl_skip bl > length front then Inl (Throws ''out_of_range'')
          else Inr (drop (bl_skip bl) front))"

function bl_remove_prefix :: "nat \<Rightarrow> buffer_list \<Rightarrow> buffer_list result" where
  "bl_remove_prefix len bl =
     (case bl_buffer bl of
        [] \<Rightarrow> Inr bl
      | front # rest \<Rightarrow>
          if len = 0 then Inr bl
          else if bl_skip bl > length front then Inl (Throws ''out_of_range'')
          else
            (let to_pop_now = min len (length (drop (bl_skip bl) front));
                 skip = bl_skip bl + to_pop_now;
                 bl = bl\<lparr>bl_size := bl_size bl - to_pop_now\<rparr>
             in bl_remove_prefix (len - to_pop_now)
                  (if skip = length front
                   then bl\<lparr>bl_buffer := rest, bl_skip := 0\<rparr>
                   else bl\<lparr>bl_skip := skip\<rparr>)))"
  by pat_completeness auto
termination
  by (relation "measure (\<lambda>(len, bl). len + length (bl_buffer bl))") (auto simp: min_def)

declare bl_remove_prefix.simps [simp del]

definition bl_dump_all :: "buffer_list \<Rightarrow> bytes list result" where
  "bl_dump_all bl =
     (if bl_empty bl then Inr []
      else case bl_buffer bl of
             [] \<Rightarrow> Inl (Undefined ''front() of an empty deque'')
           | front # rest \<Rightarrow>
               if bl_skip bl > length front then Inl (Throws ''out_of_range'')
               else Inr (drop (bl_skip bl) front # rest))"

text \<open>The overload that joins everything into one buffer.\<close>

definition bl_dump_all_joined :: "buffer_list \<Rightarrow> bytes result" where
  "bl_dump_all_joined bl = bind_result (bl_dump_all bl) (\<lambda>bufs.
     Inr (case bufs of [b] \<Rightarrow> b | _ \<Rightarrow> concat bufs))"

subsection \<open>Parser\<close>

record parser =
  pa_input :: buffer_list
  pa_error :: bool

definition new_parser :: "bytes list \<Rightarrow> parser" where
  "new_parser input = \<lparr>pa_input = new_buffer_list input, pa_error = False\<rparr>"

definition parser_set_error :: "parser \<Rightarrow> parser" where
  "parser_set_error p = p\<lparr>pa_error := True\<rparr>"

definition parser_check_size :: "nat \<Rightarrow> parser \<Rightarrow> parser" where
  "parser_check_size sz p = (if sz > bl_size (pa_input p) then p\<lparr>pa_error := True\<rparr> else p)"

definition parser_remove_prefix :: "nat \<Rightarrow> parser \<Rightarrow> parser result" where
  "parser_remove_prefix n p =
     bind_result (bl_remove_prefix n (pa_input p)) (\<lambda>bl. Inr (p\<lparr>pa_input := bl\<rparr>))"

text \<open>One byte: \<open>peek().front()\<close>, then \<open>remove_prefix(1)\<close>.\<close>

definition parse_byte :: "parser \<Rightarrow> (parser \<times> byte) result" where
  "parse_byte p =
     bind_result (bl_peek (pa_input p)) (\<lambda>view.
       case view of
         [] \<Rightarrow> Inl (Undefined ''front() of an empty string_view'')
       | b # _ \<Rightarrow> bind_result (parser_remove_prefix 1 p) (\<lambda>p. Inr (p, b)))"

fun parse_bytes_into :: "nat \<Rightarrow> 'a::len word \<Rightarrow> parser \<Rightarrow> (parser \<times> 'a word) result" where
  "parse_bytes_into 0 out p = Inr (p, out)"
| "parse_bytes_into (Suc n) out p =
     bind_result (parse_byte p) (\<lambda>(p, b). parse_bytes_into n (or (push_bit 8 out) (ucast b)) p)"

text \<open>
  \<open>integer<T>\<close> for a \<open>T\<close> of \<open>LENGTH('a)\<close> bits; \<open>out\<close> is the old value of the variable,
  which stays when the parser is in error.
\<close>

definition parse_integer :: "'a::len word \<Rightarrow> parser \<Rightarrow> (parser \<times> 'a word) result" where
  "parse_integer out p =
     (let sz = LENGTH('a) div 8;
          p = parser_check_size sz p
      in if pa_error p then Inr (p, out)
         else if sz = 1 then bind_result (parse_byte p) (\<lambda>(p, b). Inr (p, ucast b))
         else parse_bytes_into sz 0 p)"

text \<open>\<open>for (auto& b : array) parser.integer(b)\<close>\<close>

fun parse_array :: "bytes \<Rightarrow> parser \<Rightarrow> (parser \<times> bytes) result" where
  "parse_array [] p = Inr (p, [])"
| "parse_array (b # bs) p =
     bind_result (parse_integer b p) (\<lambda>(p, b).
     bind_result (parse_array bs p) (\<lambda>(p, bs). Inr (p, b # bs)))"

text \<open>
  \<open>string\<close>: copies into a span of \<open>n\<close> bytes.  An empty buffer at the front makes no
  progress, so the loop is a partial function.
\<close>

partial_function (option) parse_string_loop ::
  "nat \<Rightarrow> bytes \<Rightarrow> parser \<Rightarrow> (parser \<times> bytes) result option" where
  "parse_string_loop n out p =
     (if length out = n then Some (Inr (p, out))
      else case bl_peek (pa_input p) of
             Inl e \<Rightarrow> Some (Inl e)
           | Inr view \<Rightarrow>
               (let view = take (n - length out) view
                in case parser_remove_prefix (length view) p of
                     Inl e \<Rightarrow> Some (Inl e)
                   | Inr p \<Rightarrow> parse_string_loop n (out @ view) p))"

definition parse_string :: "bytes \<Rightarrow> parser \<Rightarrow> (parser \<times> bytes) result option" where
  "parse_string out p =
     (let p = parser_check_size (length out) p
      in if pa_error p then Some (Inr (p, out)) else parse_string_loop (length out) [] p)"

definition parse_all_remaining :: "parser \<Rightarrow> bytes list result" where
  "parse_all_remaining p = bl_dump_all (pa_input p)"

definition parse_all_remaining_joined :: "parser \<Rightarrow> bytes result" where
  "parse_all_remaining_joined p = bl_dump_all_joined (pa_input p)"

subsection \<open>Serializer\<close>

record serializer =
  se_output :: "bytes list"
  se_buffer :: bytes

definition new_serializer :: serializer where
  "new_serializer = \<lparr>se_output = [], se_buffer = []\<rparr>"

definition be_bytes :: "'a::len word \<Rightarrow> bytes" where
  "be_bytes val = map (\<lambda>i. ucast (drop_bit ((LENGTH('a) div 8 - i - 1) * 8) val))
                    [0..<LENGTH('a) div 8]"

definition ser_integer :: "'a::len word \<Rightarrow> serializer \<Rightarrow> serializer" where
  "ser_integer val s = s\<lparr>se_buffer := se_buffer s @ be_bytes val\<rparr>"

definition ser_flush :: "serializer \<Rightarrow> serializer" where
  "ser_flush s = s\<lparr>se_output := se_output s @ [se_buffer s], se_buffer := []\<rparr>"

definition ser_buffer :: "bytes \<Rightarrow> serializer \<Rightarrow> serializer" where
  "ser_buffer buf s = (let s = ser_flush s in s\<lparr>se_output := se_output s @ [buf]\<rparr>)"

definition ser_buffers :: "bytes list \<Rightarrow> serializer \<Rightarrow> serializer" where
  "ser_buffers bufs s = fold ser_buffer bufs s"

definition ser_output :: "serializer \<Rightarrow> bytes list" where
  "ser_output s = se_output (ser_flush s)"

definition ser_array :: "bytes \<Rightarrow> serializer \<Rightarrow> serializer" where
  "ser_array bs s = fold ser_integer bs s"

subsection \<open>What a parser still holds\<close>

definition bl_view :: "buffer_list \<Rightarrow> bytes list" where
  "bl_view bl = (case bl_buffer bl of [] \<Rightarrow> [] | front # rest \<Rightarrow> drop (bl_skip bl) front # rest)"

definition bl_ok :: "buffer_list \<Rightarrow> bool" where
  "bl_ok bl \<longleftrightarrow> bl_size bl = length (concat (bl_view bl)) \<and>
     (case bl_buffer bl of [] \<Rightarrow> bl_skip bl = 0 | front # _ \<Rightarrow> bl_skip bl \<le> length front)"

text \<open>\<open>n\<close> bytes can be read one by one without meeting an empty buffer at the front.\<close>

fun readable :: "nat \<Rightarrow> bytes list \<Rightarrow> bool" where
  "readable n [] \<longleftrightarrow> n = 0"
| "readable n (b # bs) \<longleftrightarrow> n = 0 \<or> b \<noteq> [] \<and> (n \<le> length b \<or> readable (n - length b) bs)"

text \<open>The parser has no error, holds the bytes \<open>bs\<close>, and \<open>n\<close> of them can be read.\<close>

definition feeds :: "parser \<Rightarrow> bytes \<Rightarrow> nat \<Rightarrow> bool" where
  "feeds p bs n \<longleftrightarrow> \<not> pa_error p \<and> bl_ok (pa_input p) \<and>
     concat (bl_view (pa_input p)) = bs \<and> readable n (bl_view (pa_input p))"

lemma readable_mono: "readable n bs \<Longrightarrow> m \<le> n \<Longrightarrow> readable m bs"
  by (induction n bs arbitrary: m rule: readable.induct) auto

lemma readable_0 [simp]: "readable 0 bs"
  by (cases bs) auto

lemma readable_nonempty: "[] \<notin> set bs \<Longrightarrow> n \<le> length (concat bs) \<Longrightarrow> readable n bs"
  by (induction n bs rule: readable.induct) auto

lemma readable_front: "n \<le> length b \<Longrightarrow> readable n (b # bs)"
  by auto

lemma readable_length: "readable n bs \<Longrightarrow> n \<le> length (concat bs)"
  by (induction n bs rule: readable.induct) auto

lemma new_buffer_list_view:
  "new_buffer_list bufs = \<lparr>bl_size = length (concat bufs), bl_buffer = bufs, bl_skip = 0\<rparr>"
proof -
  have "fold bl_append bufs bl =
      bl\<lparr>bl_size := bl_size bl + length (concat bufs), bl_buffer := bl_buffer bl @ bufs\<rparr>" for bl :: buffer_list
    by (induction bufs arbitrary: bl) (simp_all add: bl_append_def)
  then show ?thesis by (simp add: new_buffer_list_def)
qed

lemma feeds_new: "readable n bufs \<Longrightarrow> feeds (new_parser bufs) (concat bufs) n"
  by (auto simp: feeds_def new_parser_def new_buffer_list_view bl_view_def bl_ok_def
      split: list.splits)

lemma feeds_mono: "feeds p bs n \<Longrightarrow> m \<le> n \<Longrightarrow> feeds p bs m"
  using readable_mono by (auto simp: feeds_def)

lemma feeds_size: "feeds p bs n \<Longrightarrow> bl_size (pa_input p) = length bs \<and> n \<le> length bs"
  using readable_length by (auto simp: feeds_def bl_ok_def)

subsection \<open>Reading forward\<close>

text \<open>The parser after reading \<open>n\<close> bytes.\<close>

definition advance1 :: "parser \<Rightarrow> parser" where
  "advance1 p = (case parser_remove_prefix 1 p of Inl _ \<Rightarrow> p | Inr p \<Rightarrow> p)"

definition advance :: "nat \<Rightarrow> parser \<Rightarrow> parser" where
  "advance n p = (advance1 ^^ n) p"

lemma advance_0 [simp]: "advance 0 p = p"
  by (simp add: advance_def)

lemma advance_Suc: "advance (Suc n) p = advance n (advance1 p)"
  by (simp add: advance_def funpow_swap1)

lemma advance_advance: "advance n (advance m p) = advance (m + n) p"
  by (simp add: advance_def funpow_add add.commute [of m])

lemma feeds_byte:
  assumes "feeds p (x # bs) (Suc n)"
  shows "parse_byte p = Inr (advance1 p, x)" and "feeds (advance1 p) bs n"
proof -
  obtain front rest where b: "bl_buffer (pa_input p) = front # rest"
    using assms by (cases "bl_buffer (pa_input p)") (auto simp: feeds_def bl_view_def)
  let ?k = "bl_skip (pa_input p)"
  obtain xs where d: "drop ?k front = x # xs"
    using assms b by (cases "drop ?k front") (auto simp: feeds_def bl_view_def)
  then have k: "?k < length front" by (metis drop_all list.distinct(1) not_le_imp_less)
  have xs: "xs = drop (Suc ?k) front" using d by (metis drop_Suc list.sel(3) tl_drop)
  have one: "min 1 (length front - ?k) = 1" using k by simp
  have rem: "parser_remove_prefix 1 p =
      Inr (p\<lparr>pa_input := (if Suc ?k = length front
         then (pa_input p)\<lparr>bl_size := bl_size (pa_input p) - 1, bl_buffer := rest, bl_skip := 0\<rparr>
         else (pa_input p)\<lparr>bl_size := bl_size (pa_input p) - 1, bl_skip := Suc ?k\<rparr>)\<rparr>)"
    unfolding parser_remove_prefix_def using k b one
    by (subst bl_remove_prefix.simps) (auto simp: bl_remove_prefix.simps [of 0] Let_def split: list.splits)
  show "parse_byte p = Inr (advance1 p, x)"
    using k d b by (simp add: parse_byte_def bl_peek_def advance1_def rem del: One_nat_def)
  have size: "bl_size (pa_input p) = Suc (length bs)"
    using assms by (simp add: feeds_def bl_ok_def)
  have nil: "Suc ?k = length front \<longleftrightarrow> xs = []" using k by (auto simp: xs)
  have bs: "bs = xs @ concat rest" using assms b d by (simp add: feeds_def bl_view_def)
  show "feeds (advance1 p) bs n"
  proof (cases "Suc ?k = length front")
    case True
    with assms b d size bs nil show ?thesis
      by (auto simp: advance1_def rem feeds_def bl_view_def bl_ok_def split: list.splits
          simp del: One_nat_def)
  next
    case False
    with assms b d k size bs nil xs show ?thesis
      by (auto simp: advance1_def rem feeds_def bl_view_def bl_ok_def simp del: One_nat_def)
  qed
qed

lemma feeds_advance:
  "feeds p (xs @ bs) (length xs + n) \<Longrightarrow> feeds (advance (length xs) p) bs n"
  by (induction xs arbitrary: p) (auto simp: advance_Suc dest: feeds_byte(2))

lemma be_horner:
  fixes w :: "'a::len word"
  assumes "8 \<le> LENGTH('a)"
  shows "or (push_bit 8 (drop_bit ((Suc k) * 8) w)) (ucast (ucast (drop_bit (k * 8) w) :: byte)) =
           drop_bit (k * 8) w"
proof (rule bit_word_eqI)
  fix i assume "i < LENGTH('a)"
  then show "bit (or (push_bit 8 (drop_bit ((Suc k) * 8) w)) (ucast (ucast (drop_bit (k * 8) w) :: byte))) i =
      bit (drop_bit (k * 8) w) i"
    by (cases "i < 8") (auto simp: bit_simps add.assoc ac_simps)
qed

lemma parse_bytes_into_be:
  fixes w :: "'a::len word"
  assumes "8 \<le> LENGTH('a)" and "k \<le> LENGTH('a) div 8"
    and "feeds p (map (\<lambda>i. ucast (drop_bit ((LENGTH('a) div 8 - i - 1) * 8) w))
                 [LENGTH('a) div 8 - k..<LENGTH('a) div 8] @ bs) (k + n)"
  shows "parse_bytes_into k (drop_bit (k * 8) w) p = Inr (advance k p, w)"
  using assms(2,3)
proof (induction k arbitrary: p)
  case (Suc k)
  let ?N = "LENGTH('a) div 8"
  have up: "[?N - Suc k..<?N] = (?N - Suc k) # [?N - k..<?N]"
    using Suc.prems(1) by (metis Suc_diff_Suc Suc_le_lessD diff_less upt_conv_Cons zero_less_Suc
        Suc_le_eq bot_nat_0.not_eq_extremum diff_Suc_less dual_order.strict_trans)
  have i: "?N - (?N - Suc k) - 1 = k" using Suc.prems(1) by simp
  let ?b = "ucast (drop_bit (k * 8) w) :: byte"
  have f: "feeds p (?b # map (\<lambda>i. ucast (drop_bit ((?N - i - 1) * 8) w)) [?N - k..<?N] @ bs)
      (Suc (k + n))"
    using Suc.prems(2) unfolding up by (simp only: list.map i append_Cons add_Suc)
  note byte = feeds_byte [OF f]
  have "parse_bytes_into k (drop_bit (k * 8) w) (advance1 p) = Inr (advance k (advance1 p), w)"
    using Suc.prems(1) by (intro Suc.IH byte(2)) simp
  then show ?case
    by (simp add: byte(1) be_horner [OF assms(1)] advance_Suc del: mult_Suc)
qed simp

lemma length_be_bytes [simp]: "length (be_bytes (w :: 'a::len word)) = LENGTH('a) div 8"
  by (simp add: be_bytes_def)

text \<open>
  An integer that the serializer wrote is read back, whatever the old value, and the
  parser moves behind it.
\<close>

lemma parse_integer_be:
  fixes w :: "'a::len word"
  assumes N: "8 dvd LENGTH('a)" and n: "LENGTH('a) div 8 \<le> n"
    and f: "feeds p (be_bytes w @ bs) n"
  shows "parse_integer old p = Inr (advance (LENGTH('a) div 8) p, w)"
    and "feeds (advance (LENGTH('a) div 8) p) bs (n - LENGTH('a) div 8)"
proof -
  let ?N = "LENGTH('a) div 8"
  have ge: "8 \<le> LENGTH('a)" using N by (rule dvd_imp_le) simp
  have f': "feeds p (be_bytes w @ bs) (?N + (n - ?N))" using f n by simp
  have f0: "feeds p (map (\<lambda>i. ucast (drop_bit ((?N - i - 1) * 8) w)) [?N - ?N..<?N] @ bs)
      (?N + (n - ?N))"
    using f' by (simp add: be_bytes_def)
  have into: "parse_bytes_into ?N (drop_bit (?N * 8) w) p = Inr (advance ?N p, w)"
    by (rule parse_bytes_into_be [OF ge order_refl f0])
  have zero: "drop_bit (?N * 8) w = 0"
    using N by (intro bit_word_eqI) (auto simp: bit_simps dest: bit_imp_le_length)
  have cs: "parser_check_size ?N p = p" and ne: "\<not> pa_error p"
    using feeds_size [OF f] n f by (auto simp: parser_check_size_def feeds_def)
  have one: "parse_bytes_into 1 0 p = bind_result (parse_byte p) (\<lambda>(p, b). Inr (p, ucast b :: 'a word))"
    by (simp add: split_beta)
  show "parse_integer old p = Inr (advance ?N p, w)"
    unfolding parse_integer_def Let_def cs using ne into zero
    by (cases "?N = 1") (simp_all only: one if_False if_True if_cancel)
  show "feeds (advance ?N p) bs (n - ?N)"
    using feeds_advance [of p "be_bytes w" bs "n - ?N"] f' by simp
qed

lemma be_bytes_u8 [simp]: "be_bytes (b :: byte) = [b]"
  by (simp add: be_bytes_def)

lemma parse_u8:
  assumes "1 \<le> n" and "feeds p (b # bs) n"
  shows "parse_integer (old :: byte) p = Inr (advance 1 p, b)"
    and "feeds (advance 1 p) bs (n - 1)"
  using parse_integer_be [where w = b and p = p and bs = bs and n = n] assms by simp_all

lemmas parse_u16 = parse_integer_be [where 'a = 16, simplified]
lemmas parse_u32 = parse_integer_be [where 'a = 32, simplified]

lemma feeds_array:
  assumes "feeds p (bs @ rest) n" and "length bs \<le> n" and "length old = length bs"
  shows "parse_array old p = Inr (advance (length bs) p, bs)"
    and "feeds (advance (length bs) p) rest (n - length bs)"
proof -
  have "feeds p (bs @ rest) n \<Longrightarrow> length bs \<le> n \<Longrightarrow> length old = length bs \<Longrightarrow>
      parse_array old p = Inr (advance (length bs) p, bs)" for old p n
  proof (induction bs arbitrary: old p n)
    case (Cons b bs)
    then obtain x xs where old: "old = x # xs" by (cases old) auto
    have f: "feeds p (b # bs @ rest) n" and n: "1 \<le> n"
      using Cons.prems by simp_all
    have "parse_integer x p = Inr (advance 1 p, b)" and "feeds (advance 1 p) (bs @ rest) (n - 1)"
      by (rule parse_u8 [OF n f])+
    moreover from this have "parse_array xs (advance 1 p) = Inr (advance (length bs) (advance 1 p), bs)"
      using Cons.prems old by (intro Cons.IH [of _ "n - 1"]) auto
    ultimately show ?case by (simp add: old advance_advance)
  qed simp
  then show "parse_array old p = Inr (advance (length bs) p, bs)" using assms by blast
  have "feeds p (bs @ rest) (length bs + (n - length bs))" using assms by simp
  then show "feeds (advance (length bs) p) rest (n - length bs)" by (rule feeds_advance)
qed

text \<open>What is left at the end, as one string.\<close>

lemma feeds_joined:
  assumes "feeds p bs n"
  shows "parse_all_remaining_joined p = Inr bs"
proof (cases "bs = []")
  case True
  then show ?thesis using feeds_size [OF assms]
    by (simp add: parse_all_remaining_joined_def bl_dump_all_joined_def bl_dump_all_def bl_empty_def)
next
  case False
  then obtain front rest where b: "bl_buffer (pa_input p) = front # rest"
    using assms by (cases "bl_buffer (pa_input p)") (auto simp: feeds_def bl_view_def)
  then have k: "bl_skip (pa_input p) \<le> length front"
    and bs: "bs = drop (bl_skip (pa_input p)) front @ concat rest"
    using assms by (auto simp: feeds_def bl_view_def bl_ok_def)
  have "bl_dump_all (pa_input p) = Inr (drop (bl_skip (pa_input p)) front # rest)"
    using False feeds_size [OF assms] k b by (auto simp: bl_dump_all_def bl_empty_def)
  then show ?thesis
    by (auto simp: parse_all_remaining_joined_def bl_dump_all_joined_def bs split: list.splits)
qed

lemma feeds_remaining_readable:
  assumes "feeds p bs n"
  obtains bufs where "parse_all_remaining p = Inr bufs" and "concat bufs = bs" and "readable n bufs"
proof (cases "bs = []")
  case True
  then show ?thesis using feeds_size [OF assms] that
    by (simp add: parse_all_remaining_def bl_dump_all_def bl_empty_def)
next
  case False
  then obtain front rest where b: "bl_buffer (pa_input p) = front # rest"
    using assms by (cases "bl_buffer (pa_input p)") (auto simp: feeds_def bl_view_def)
  then have k: "bl_skip (pa_input p) \<le> length front"
    and bs: "bs = drop (bl_skip (pa_input p)) front @ concat rest"
    and rd: "readable n (drop (bl_skip (pa_input p)) front # rest)"
    using assms by (auto simp: feeds_def bl_view_def bl_ok_def)
  have "bl_dump_all (pa_input p) = Inr (drop (bl_skip (pa_input p)) front # rest)"
    using False feeds_size [OF assms] k b by (auto simp: bl_dump_all_def bl_empty_def)
  then show ?thesis using that rd by (simp add: parse_all_remaining_def bs)
qed

lemma feeds_remaining:
  assumes "feeds p bs n"
  obtains bufs where "parse_all_remaining p = Inr bufs" and "concat bufs = bs"
  using feeds_remaining_readable [OF assms] by blast

subsection \<open>The helpers \<open>parse\<close> and \<open>serialize\<close>\<close>

definition parse_object :: "(parser \<Rightarrow> (parser \<times> 'a) result) \<Rightarrow> bytes list \<Rightarrow> ('a \<times> bool) result" where
  "parse_object obj_parse buffers =
     bind_result (obj_parse (new_parser buffers)) (\<lambda>(p, obj). Inr (obj, \<not> pa_error p))"

definition serialize_object :: "(serializer \<Rightarrow> serializer result) \<Rightarrow> bytes list result" where
  "serialize_object obj_serialize =
     bind_result (obj_serialize new_serializer) (\<lambda>s. Inr (ser_output s))"

text \<open>Any error only grows.\<close>

lemma parse_integer_error [simp]:
  "pa_error p \<Longrightarrow> parse_integer old p = Inr (p, old)"
  by (simp add: parse_integer_def parser_check_size_def Let_def)

lemma parse_integer_short:
  "bl_size (pa_input p) < LENGTH('a) div 8 \<Longrightarrow>
     parse_integer (old :: 'a::len word) p = Inr (p\<lparr>pa_error := True\<rparr>, old)"
  by (simp add: parse_integer_def parser_check_size_def Let_def)

subsection \<open>The serialized form\<close>

definition ser_bytes :: "serializer \<Rightarrow> bytes" where
  "ser_bytes s = concat (se_output s) @ se_buffer s"

lemma ser_bytes_simps [wire_simps]:
  "ser_bytes new_serializer = []"
  "ser_bytes (ser_integer w s) = ser_bytes s @ be_bytes w"
  "ser_bytes (ser_flush s) = ser_bytes s"
  "ser_bytes (ser_buffer b s) = ser_bytes s @ b"
  by (simp_all add: ser_bytes_def new_serializer_def ser_integer_def ser_flush_def ser_buffer_def Let_def)

lemma ser_bytes_buffers [wire_simps]: "ser_bytes (ser_buffers bs s) = ser_bytes s @ concat bs"
  by (induction bs arbitrary: s) (simp_all add: ser_buffers_def wire_simps)

lemma ser_bytes_array [wire_simps]: "ser_bytes (ser_array bs s) = ser_bytes s @ bs"
  by (induction bs arbitrary: s) (simp_all add: ser_array_def wire_simps)

lemma ser_output_bytes: "concat (ser_output s) = ser_bytes s"
  by (simp add: ser_output_def ser_flush_def ser_bytes_def)

text \<open>Integers only fill the buffer under construction.\<close>

lemma ser_integer_fields [wire_simps]:
  "se_output (ser_integer w s) = se_output s"
  "se_buffer (ser_integer w s) = se_buffer s @ be_bytes w"
  "se_output new_serializer = []" "se_buffer new_serializer = []"
  by (simp_all add: ser_integer_def new_serializer_def)

lemma ser_array_fields [wire_simps]:
  "se_output (ser_array bs s) = se_output s" "se_buffer (ser_array bs s) = se_buffer s @ bs"
  by (induction bs arbitrary: s) (simp_all add: ser_array_def wire_simps)

text \<open>What the serializer has collected first comes out as the first buffer.\<close>

lemma ser_buffers_first:
  "se_output s = h # hs \<Longrightarrow> \<exists>rest. ser_output (ser_buffers bs s) = h # rest"
proof (induction bs arbitrary: s hs)
  case Nil
  then show ?case by (simp add: ser_buffers_def ser_output_def ser_flush_def)
next
  case (Cons b bs)
  have "se_output (ser_buffer b s) = h # (hs @ [se_buffer s, b])"
    using Cons.prems by (simp add: ser_buffer_def ser_flush_def Let_def)
  from Cons.IH [OF this] show ?case by (simp add: ser_buffers_def)
qed

lemma ser_output_first:
  assumes "se_output s = []"
  shows "\<exists>rest. ser_output (ser_buffers bs s) = se_buffer s # rest"
proof (cases bs)
  case Nil
  then show ?thesis using assms by (simp add: ser_buffers_def ser_output_def ser_flush_def)
next
  case (Cons b cs)
  have "se_output (ser_buffer b s) = se_buffer s # [b]"
    using assms by (simp add: ser_buffer_def ser_flush_def Let_def)
  from ser_buffers_first [OF this] Cons show ?thesis by (simp add: ser_buffers_def)
qed

subsection \<open>Properties\<close>

text \<open>
  An integer of any width that the serializer wrote is read back by the parser,
  however the bytes are cut into non-empty buffers, and exactly the bytes behind it are
  left.
\<close>

theorem wire_integer_roundtrip:
  fixes w :: "'a::len word"
  assumes "8 dvd LENGTH('a)" and "[] \<notin> set bufs"
    and "concat bufs = concat (ser_output (ser_integer w new_serializer)) @ rest"
  shows "\<exists>p. parse_integer old (new_parser bufs) = Inr (p, w) \<and> \<not> pa_error p \<and>
             parse_all_remaining_joined p = Inr rest"
proof -
  have c: "concat bufs = be_bytes w @ rest"
    using assms(3) by (simp add: ser_output_bytes wire_simps)
  then have "readable (LENGTH('a) div 8) bufs"
    using assms(2) by (intro readable_nonempty) simp_all
  then have f: "feeds (new_parser bufs) (be_bytes w @ rest) (LENGTH('a) div 8)"
    using feeds_new c by metis
  let ?p = "advance (LENGTH('a) div 8) (new_parser bufs)"
  have "feeds ?p rest 0" using parse_integer_be(2) [OF assms(1) order_refl f] by simp
  moreover from this have "\<not> pa_error ?p" by (simp add: feeds_def)
  ultimately show ?thesis
    using parse_integer_be(1) [OF assms(1) order_refl f, of old] feeds_joined by blast
qed

theorem wire_integer_roundtrip_witness:
  "\<exists>p. parse_integer (7 :: u16) (new_parser [[0xab], [0xcd, 1], [2]]) = Inr (p, 0xabcd) \<and>
       \<not> pa_error p \<and> parse_all_remaining_joined p = Inr [1, 2]"
proof (rule wire_integer_roundtrip)
  show "concat [[0xab], [0xcd, 1], [2]] =
      concat (ser_output (ser_integer (0xabcd :: u16) new_serializer)) @ [1, 2]"
    by (simp add: ser_output_bytes wire_simps be_bytes_def upt_rec word_unat_eq_iff)
qed simp_all

text \<open>
  When an empty buffer comes before the bytes that are left, \<open>integer\<close> passes its
  size check and then takes the front of an empty view.  The serializer produces such
  empty buffers between two consecutive \<open>buffer\<close> calls.
\<close>

theorem wire_integer_empty_front_undefined:
  assumes "LENGTH('a::len) div 8 \<le> length (concat bufs)" and "8 \<le> LENGTH('a)"
  shows "parse_integer (old :: 'a word) (new_parser ([] # bufs)) =
           Inl (Undefined ''front() of an empty string_view'')"
proof -
  let ?p = "new_parser ([] # bufs)"
  have b: "parse_byte ?p = Inl (Undefined ''front() of an empty string_view'')"
    by (simp add: parse_byte_def bl_peek_def new_parser_def new_buffer_list_view)
  have "LENGTH('a) div 8 \<noteq> 0" using assms(2) by simp
  then obtain n where n: "LENGTH('a) div 8 = Suc n" using not0_implies_Suc by blast
  have "parser_check_size (LENGTH('a) div 8) ?p = ?p" "\<not> pa_error ?p"
    using assms(1) by (simp_all add: parser_check_size_def new_parser_def new_buffer_list_view)
  then show ?thesis by (cases n) (simp_all add: parse_integer_def b n Let_def)
qed

theorem wire_integer_empty_front_undefined_witness:
  "parse_integer (0 :: u16)
     (new_parser (drop 1 (ser_output (ser_buffers [[1, 2], [3, 4]] new_serializer)) @ [[5]])) =
     parse_integer 0 (new_parser [[1, 2], [], [3, 4], [], [5]]) \<and>
   parse_integer (0 :: u16) (new_parser ([] # [[3, 4], []])) =
     Inl (Undefined ''front() of an empty string_view'')"
proof
  show "parse_integer (0 :: u16)
     (new_parser (drop 1 (ser_output (ser_buffers [[1, 2], [3, 4]] new_serializer)) @ [[5]])) =
     parse_integer 0 (new_parser [[1, 2], [], [3, 4], [], [5]])"
    by (simp add: ser_output_def ser_buffers_def ser_buffer_def ser_flush_def new_serializer_def Let_def)
  show "parse_integer (0 :: u16) (new_parser ([] # [[3, 4], []])) =
     Inl (Undefined ''front() of an empty string_view'')"
    by (rule wire_integer_empty_front_undefined) simp_all
qed

end
