(* ===== verification/Checksum.thy ===== *)
theory Checksum
  imports Wire
begin

text \<open>
  The Internet checksum of \<open>util/checksum.hh\<close>, and why a checksum that was computed with
  the checksum field zero makes the sum over the whole data verify.
\<close>

record internet_checksum =
  ck_sum :: u32
  ck_parity :: bool

definition new_checksum :: "u32 \<Rightarrow> internet_checksum" where
  "new_checksum start = \<lparr>ck_sum = start, ck_parity = False\<rparr>"

definition checksum_add_byte :: "byte \<Rightarrow> internet_checksum \<Rightarrow> internet_checksum" where
  "checksum_add_byte i c =
     (let val = (ucast i :: u16);
          val = (if \<not> ck_parity c then push_bit 8 val else val)
      in \<lparr>ck_sum = ck_sum c + ucast val, ck_parity = (\<not> ck_parity c)\<rparr>)"

definition checksum_add :: "bytes \<Rightarrow> internet_checksum \<Rightarrow> internet_checksum" where
  "checksum_add data c = fold checksum_add_byte data c"

definition checksum_add_buffers :: "bytes list \<Rightarrow> internet_checksum \<Rightarrow> internet_checksum" where
  "checksum_add_buffers data c = fold checksum_add data c"

lemma fold_carry_less:
  fixes ret :: u32
  assumes "ret > 0xffff"
  shows "unat (drop_bit 16 ret + ucast (ucast ret :: u16)) =
           unat ret div 65536 + unat ret mod 65536"
    and "unat ret div 65536 + unat ret mod 65536 < unat ret"
proof -
  have h: "unat (drop_bit 16 ret) = unat ret div 65536"
    by (simp only: unat_drop_bit_eq) (simp add: drop_bit_eq_div)
  have l: "unat (ucast (ucast ret :: u16) :: u32) = unat ret mod 65536"
    by (simp add: unsigned_ucast_eq take_bit_eq_mod unat_mod)
  have "unat ret div 65536 < 65536" by (rule less_mult_imp_div_less) simp
  then show "unat (drop_bit 16 ret + ucast (ucast ret :: u16)) = unat ret div 65536 + unat ret mod 65536"
    using mod_less_divisor [of 65536 "unat ret"]
    by (subst unat_add_small) (simp_all only: h l, simp)
  have "65535 < unat ret" using assms by (simp add: word_less_nat_alt)
  then have "0 < unat ret div 65536" by (simp add: div_greater_zero_iff)
  then show "unat ret div 65536 + unat ret mod 65536 < unat ret"
    using div_mult_mod_eq [of "unat ret" 65536] by linarith
qed

function fold_carry :: "u32 \<Rightarrow> u32" where
  "fold_carry ret =
     (if ret > 0xffff then fold_carry (drop_bit 16 ret + ucast (ucast ret :: u16)) else ret)"
  by pat_completeness auto
termination
  by (relation "measure unat") (simp_all add: fold_carry_less del: u32_less)

declare fold_carry.simps [simp del]

definition checksum_value :: "internet_checksum \<Rightarrow> u16" where
  "checksum_value c = not (ucast (fold_carry (ck_sum c)))"

subsection \<open>The checksum as a sum\<close>

text \<open>The sum of the 16-bit words of the data, the first byte of a word being the high one.\<close>

fun word_sum :: "bytes \<Rightarrow> bool \<Rightarrow> nat" where
  "word_sum [] parity = 0"
| "word_sum (b # bs) parity = (if parity then unat b else 256 * unat b) + word_sum bs (\<not> parity)"

lemma word_sum_append:
  "word_sum (xs @ ys) parity = word_sum xs parity + word_sum ys (parity \<noteq> odd (length xs))"
proof (induction xs arbitrary: parity)
  case (Cons x xs)
  have "((\<not> parity) \<noteq> odd (length xs)) = (parity \<noteq> odd (length (x # xs)))" by auto
  with Cons [of "\<not> parity"] show ?case by simp
qed simp

lemma word_sum_bound: "word_sum xs parity \<le> 65280 * length xs"
proof (induction xs arbitrary: parity)
  case (Cons b bs)
  have "unat b \<le> 255" using u8_less [of b] by linarith
  with Cons [of "\<not> parity"] show ?case by (cases parity) simp_all
qed simp

lemma ck_val:
  "unat (ucast (if \<not> parity then push_bit 8 (ucast b :: u16) else ucast b) :: u32) =
     (if parity then unat (b :: byte) else 256 * unat b)"
proof -
  have b: "unat (ucast b :: u16) = unat b" for b :: byte
    by (simp add: unsigned_ucast_eq take_bit_eq_mod less_trans [OF u8_less])
  have "unat (push_bit 8 (ucast b :: u16)) = 256 * unat b"
    unfolding push_bit_eq_mult using u8_less [of b] by (simp add: unat_word_ariths b del: u8_less)
  moreover have "unat (ucast w :: u32) = unat w" for w :: u16
    by (simp add: unsigned_ucast_eq take_bit_eq_mod less_trans [OF u16_less])
  ultimately show ?thesis using b by simp
qed

lemma checksum_add_sum:
  "checksum_add data c =
     \<lparr>ck_sum = ck_sum c + of_nat (word_sum data (ck_parity c)),
      ck_parity = (ck_parity c \<noteq> odd (length data))\<rparr>"
proof (induction data arbitrary: c)
  case (Cons b bs)
  let ?v = "ucast (if \<not> ck_parity c then push_bit 8 (ucast b :: u16) else ucast b) :: u32"
  have "?v = of_nat (unat ?v)" by simp
  then have "?v = of_nat (if ck_parity c then unat b else 256 * unat b)" unfolding ck_val .
  moreover have "checksum_add (b # bs) c = checksum_add bs (checksum_add_byte b c)"
    by (simp add: checksum_add_def)
  ultimately show ?case
    using Cons [of "checksum_add_byte b c"]
    by (simp add: checksum_add_byte_def Let_def add.assoc)
qed (simp add: checksum_add_def)

lemma checksum_add_buffers_concat: "checksum_add_buffers bufs c = checksum_add (concat bufs) c"
  by (induction bufs arbitrary: c) (simp_all add: checksum_add_buffers_def checksum_add_def)

text \<open>Folding the carries keeps the value modulo \<open>65535\<close>, and only zero gives zero.\<close>

lemma fold_carry_mod:
  "unat (fold_carry ret) \<le> 65535 \<and> unat (fold_carry ret) mod 65535 = unat ret mod 65535 \<and>
   (unat (fold_carry ret) = 0 \<longleftrightarrow> unat ret = 0)"
proof (induction ret rule: fold_carry.induct)
  case (1 ret)
  show ?case
  proof (cases "ret > 0xffff")
    case False
    then have "unat ret \<le> 65535" by (simp add: not_less word_le_nat_alt)
    with False show ?thesis by (simp add: fold_carry.simps [of ret])
  next
    case True
    let ?r = "drop_bit 16 ret + ucast (ucast ret :: u16) :: u32"
    have r: "unat ?r = unat ret div 65536 + unat ret mod 65536" by (rule fold_carry_less(1) [OF True])
    have "unat ret = 65535 * (unat ret div 65536) + (unat ret div 65536 + unat ret mod 65536)"
      using div_mult_mod_eq [of "unat ret" 65536] by simp
    then have "unat ret mod 65535 = unat ?r mod 65535"
      unfolding r by (metis mod_mult_self4)
    moreover have "65535 < unat ret" using True by (simp add: word_less_nat_alt)
    then have "unat ?r \<noteq> 0" unfolding r using div_mult_mod_eq [of "unat ret" 65536] by linarith
    moreover have "unat ret \<noteq> 0" using \<open>65535 < unat ret\<close> by simp
    moreover have "fold_carry ret = fold_carry ?r" using True by (simp add: fold_carry.simps [of ret])
    ultimately show ?thesis using 1 [OF True] by simp
  qed
qed

lemma minus_one_u16: "unat (- 1 :: u16) = 65535"
  by (simp add: unsigned_minus_1_eq_mask mask_eq_exp_minus_1)

lemma unat_checksum_value: "unat (checksum_value c) = 65535 - unat (fold_carry (ck_sum c))"
proof -
  let ?f = "fold_carry (ck_sum c)"
  have le: "unat ?f \<le> 65535" using fold_carry_mod by blast
  then have u: "unat (ucast ?f :: u16) = unat ?f"
    by (simp add: unsigned_ucast_eq take_bit_eq_mod)
  have "checksum_value c = - 1 - ucast ?f"
    by (simp add: checksum_value_def not_eq_complement)
  moreover have "unat (- 1 - ucast ?f :: u16) = unat (- 1 :: u16) - unat (ucast ?f :: u16)"
    by (rule unat_sub_le) (simp only: u minus_one_u16 le)
  ultimately show ?thesis by (simp only: u minus_one_u16)
qed

lemma checksum_value_zero_iff:
  "checksum_value c = 0 \<longleftrightarrow> unat (ck_sum c) mod 65535 = 0 \<and> unat (ck_sum c) \<noteq> 0"
proof -
  let ?f = "unat (fold_carry (ck_sum c))" and ?n = "unat (ck_sum c)"
  have m: "?f \<le> 65535" "?f mod 65535 = ?n mod 65535" "?f = 0 \<longleftrightarrow> ?n = 0"
    using fold_carry_mod by blast+
  have "checksum_value c = 0 \<longleftrightarrow> unat (checksum_value c) = 0" by (simp only: unat_eq_zero)
  also have "\<dots> \<longleftrightarrow> ?f = 65535" unfolding unat_checksum_value using m(1) by linarith
  also have "\<dots> \<longleftrightarrow> ?n mod 65535 = 0 \<and> ?n \<noteq> 0"
  proof
    assume "?f = 65535"
    with m show "?n mod 65535 = 0 \<and> ?n \<noteq> 0" by (metis mod_self zero_neq_numeral)
  next
    assume "?n mod 65535 = 0 \<and> ?n \<noteq> 0"
    with m(2,3) have "?f mod 65535 = 0" "?f \<noteq> 0" by metis+
    with m(1) show "?f = 65535" by (metis le_neq_implies_less mod_less)
  qed
  finally show ?thesis .
qed

lemma checksum_stored:
  assumes "even (length xs)" and "unat start + 65280 * (length xs + length ys) + 65535 < 2 ^ 32"
  shows "checksum_value (checksum_add_buffers
           [xs, be_bytes (checksum_value (checksum_add_buffers [xs, [0, 0], ys] (new_checksum start))), ys]
           (new_checksum start)) = 0"
proof -
  let ?c = "checksum_add_buffers [xs, [0, 0], ys] (new_checksum start)"
  let ?v = "checksum_value ?c"
  have be: "be_bytes ?v = [ucast (drop_bit 8 ?v), ucast ?v]"
    by (simp add: be_bytes_def upt_rec)
  have hi: "unat (ucast (drop_bit 8 ?v) :: byte) = unat ?v div 256"
  proof -
    have "unat ?v div 256 < 256" by (rule less_mult_imp_div_less) simp
    moreover have "unat (drop_bit 8 ?v) = unat ?v div 256"
      by (simp only: unat_drop_bit_eq) (simp add: drop_bit_eq_div)
    ultimately show ?thesis by (simp only: unsigned_ucast_eq) (simp add: take_bit_eq_mod)
  qed
  have lo: "unat (ucast ?v :: byte) = unat ?v mod 256"
    by (simp only: unsigned_ucast_eq) (simp add: take_bit_eq_mod)
  let ?S = "word_sum xs False + word_sum ys False"
  have w: "word_sum (xs @ be_bytes ?v @ ys) False = ?S + unat ?v"
    using assms(1) div_mult_mod_eq [of "unat ?v" 256]
    by (simp only: be word_sum_append) (simp add: hi lo)
  have w0: "word_sum (xs @ [0, 0] @ ys) False = ?S"
    using assms(1) by (simp add: word_sum_append)
  have S: "?S \<le> 65280 * (length xs + length ys)"
    using word_sum_bound [of xs False] word_sum_bound [of ys False] by simp
  have vle: "unat ?v \<le> 65535" by (simp only: unat_checksum_value diff_le_self)
  have sum: "unat (start + of_nat k) = unat start + k" if "k \<le> ?S + 65535" for k
  proof -
    have "unat (of_nat k :: u32) = k" using that S assms(2) by (intro unat_of_nat_small) simp
    then show ?thesis using that S assms(2) by (subst unat_add_small) simp_all
  qed
  have c: "unat (ck_sum ?c) = unat start + ?S"
    using sum [of ?S] by (simp add: checksum_add_buffers_concat checksum_add_sum new_checksum_def w0 [simplified])
  have fm: "unat (fold_carry (ck_sum ?c)) mod 65535 = (unat start + ?S) mod 65535"
    and fle: "unat (fold_carry (ck_sum ?c)) \<le> 65535"
    using fold_carry_mod [of "ck_sum ?c"] unfolding c by blast+
  have v: "unat ?v = 65535 - unat (fold_carry (ck_sum ?c))" by (rule unat_checksum_value)
  have "(unat start + ?S + unat ?v) mod 65535 =
      (unat (fold_carry (ck_sum ?c)) + unat ?v) mod 65535"
    by (rule mod_add_cong [OF fm [symmetric] refl])
  also have "unat (fold_carry (ck_sum ?c)) + unat ?v = 65535" using v fle by simp
  finally have mod: "(unat start + ?S + unat ?v) mod 65535 = 0" by simp
  have pos: "unat start + ?S + unat ?v \<noteq> 0"
  proof
    assume z: "unat start + ?S + unat ?v = 0"
    then have "unat (fold_carry (ck_sum ?c)) = 0"
      using fold_carry_mod [of "ck_sum ?c"] unfolding c by simp
    with v z show False by simp
  qed
  let ?d = "checksum_add_buffers [xs, be_bytes ?v, ys] (new_checksum start)"
  have "unat (ck_sum ?d) = unat start + (?S + unat ?v)"
    using sum [of "?S + unat ?v"] vle w
    by (simp only: checksum_add_buffers_concat checksum_add_sum new_checksum_def
        internet_checksum.select_convs concat.simps append_Nil2)
  with mod pos show ?thesis unfolding checksum_value_zero_iff by (simp add: add.assoc)
qed

subsection \<open>Properties\<close>

text \<open>
  C26: Data whose two checksum bytes (at an even position) are zero: once they are
  replaced by the checksum that the code computes, most significant byte first, the
  checksum over the whole is 0, which is what the receiving side tests.  \<open>start\<close> is the
  contribution of a pseudo-header.
\<close>

theorem checksum_verifies:
  assumes "even (length xs)" and "unat start + 65280 * (length xs + length ys) + 65535 < 2 ^ 32"
  shows "checksum_value (checksum_add_buffers
           [xs, be_bytes (checksum_value (checksum_add_buffers [xs, [0, 0], ys] (new_checksum start))), ys]
           (new_checksum start)) = 0"
  using assms by (rule checksum_stored)

theorem checksum_verifies_witness:
  "checksum_value (checksum_add_buffers
     [[0x45, 0], be_bytes (checksum_value (checksum_add_buffers [[0x45, 0], [0, 0], [0x11]] (new_checksum 6))), [0x11]]
     (new_checksum 6)) = 0"
  by (rule checksum_verifies) simp_all

end
