(* ===== verification/Ethernet.thy ===== *)
theory Ethernet
  imports Wire
begin

text \<open>
  Ethernet frames (\<open>util/ethernet_header.hh\<close>, \<open>util/ethernet_header.cc\<close>,
  \<open>util/ethernet_frame.hh\<close>) and ARP messages (\<open>util/arp_message.hh\<close>,
  \<open>util/arp_message.cc\<close>).  An \<open>EthernetAddress\<close>, a \<open>std::array\<close> of six bytes, is a list of
  length 6.
\<close>

subsection \<open>Ethernet header and frame\<close>

type_synonym ethernet_address = bytes

definition eth_address_ok :: "ethernet_address \<Rightarrow> bool" where
  "eth_address_ok a \<longleftrightarrow> length a = 6"

definition ETHERNET_BROADCAST :: ethernet_address where
  "ETHERNET_BROADCAST = [0xff, 0xff, 0xff, 0xff, 0xff, 0xff]"

definition TYPE_IPv4 :: u16 where
  "TYPE_IPv4 = 0x800"

definition TYPE_ARP :: u16 where
  "TYPE_ARP = 0x806"

record ethernet_header =
  eh_dst :: ethernet_address
  eh_src :: ethernet_address
  eh_type :: u16

text \<open>The value-initialised header \<open>EthernetHeader {}\<close>.\<close>

definition empty_ethernet_header :: ethernet_header where
  "empty_ethernet_header = \<lparr>eh_dst = replicate 6 0, eh_src = replicate 6 0, eh_type = 0\<rparr>"

definition ethernet_header_parse ::
  "ethernet_header \<Rightarrow> parser \<Rightarrow> (parser \<times> ethernet_header) result" where
  "ethernet_header_parse h p =
     bind_result (parse_array (eh_dst h) p) (\<lambda>(p, dst).
     bind_result (parse_array (eh_src h) p) (\<lambda>(p, src).
     bind_result (parse_integer (eh_type h) p) (\<lambda>(p, type).
     Inr (p, \<lparr>eh_dst = dst, eh_src = src, eh_type = type\<rparr>))))"

definition ethernet_header_serialize :: "ethernet_header \<Rightarrow> serializer \<Rightarrow> serializer" where
  "ethernet_header_serialize h s =
     ser_integer (eh_type h) (ser_array (eh_src h) (ser_array (eh_dst h) s))"

record ethernet_frame =
  ef_header :: ethernet_header
  ef_payload :: "bytes list"

definition empty_ethernet_frame :: ethernet_frame where
  "empty_ethernet_frame = \<lparr>ef_header = empty_ethernet_header, ef_payload = []\<rparr>"

definition ethernet_frame_parse ::
  "ethernet_frame \<Rightarrow> parser \<Rightarrow> (parser \<times> ethernet_frame) result" where
  "ethernet_frame_parse f p =
     bind_result (ethernet_header_parse (ef_header f) p) (\<lambda>(p, header).
     bind_result (parse_all_remaining p) (\<lambda>payload.
     Inr (p, \<lparr>ef_header = header, ef_payload = payload\<rparr>)))"

definition ethernet_frame_serialize :: "ethernet_frame \<Rightarrow> serializer \<Rightarrow> serializer" where
  "ethernet_frame_serialize f s =
     ser_buffers (ef_payload f) (ethernet_header_serialize (ef_header f) s)"

definition serialize_frame :: "ethernet_frame \<Rightarrow> bytes list" where
  "serialize_frame f = ser_output (ethernet_frame_serialize f new_serializer)"

subsection \<open>ARP\<close>

definition TYPE_ETHERNET :: u16 where "TYPE_ETHERNET = 1"
definition OPCODE_REQUEST :: u16 where "OPCODE_REQUEST = 1"
definition OPCODE_REPLY :: u16 where "OPCODE_REPLY = 2"

record arp_message =
  arp_hardware_type :: u16
  arp_protocol_type :: u16
  arp_hardware_address_size :: u8
  arp_protocol_address_size :: u8
  arp_opcode :: u16
  arp_sender_ethernet_address :: ethernet_address
  arp_sender_ip_address :: u32
  arp_target_ethernet_address :: ethernet_address
  arp_target_ip_address :: u32

definition empty_arp_message :: arp_message where
  "empty_arp_message =
     \<lparr>arp_hardware_type = TYPE_ETHERNET, arp_protocol_type = TYPE_IPv4,
      arp_hardware_address_size = 6, arp_protocol_address_size = 4, arp_opcode = 0,
      arp_sender_ethernet_address = replicate 6 0, arp_sender_ip_address = 0,
      arp_target_ethernet_address = replicate 6 0, arp_target_ip_address = 0\<rparr>"

definition arp_supported :: "arp_message \<Rightarrow> bool" where
  "arp_supported m \<longleftrightarrow>
     arp_hardware_type m = TYPE_ETHERNET \<and> arp_protocol_type m = TYPE_IPv4 \<and>
     arp_hardware_address_size m = 6 \<and> arp_protocol_address_size m = 4 \<and>
     (arp_opcode m = OPCODE_REQUEST \<or> arp_opcode m = OPCODE_REPLY)"

definition arp_parse :: "arp_message \<Rightarrow> parser \<Rightarrow> (parser \<times> arp_message) result" where
  "arp_parse m p =
     bind_result (parse_integer (arp_hardware_type m) p) (\<lambda>(p, hardware_type).
     bind_result (parse_integer (arp_protocol_type m) p) (\<lambda>(p, protocol_type).
     bind_result (parse_integer (arp_hardware_address_size m) p) (\<lambda>(p, hardware_address_size).
     bind_result (parse_integer (arp_protocol_address_size m) p) (\<lambda>(p, protocol_address_size).
     bind_result (parse_integer (arp_opcode m) p) (\<lambda>(p, opcode).
     let m = m\<lparr>arp_hardware_type := hardware_type, arp_protocol_type := protocol_type,
               arp_hardware_address_size := hardware_address_size,
               arp_protocol_address_size := protocol_address_size, arp_opcode := opcode\<rparr>
     in if \<not> arp_supported m then Inr (parser_set_error p, m)
        else
          bind_result (parse_array (arp_sender_ethernet_address m) p) (\<lambda>(p, sender_eth).
          bind_result (parse_integer (arp_sender_ip_address m) p) (\<lambda>(p, sender_ip).
          bind_result (parse_array (arp_target_ethernet_address m) p) (\<lambda>(p, target_eth).
          bind_result (parse_integer (arp_target_ip_address m) p) (\<lambda>(p, target_ip).
          Inr (p, m\<lparr>arp_sender_ethernet_address := sender_eth, arp_sender_ip_address := sender_ip,
                    arp_target_ethernet_address := target_eth,
                    arp_target_ip_address := target_ip\<rparr>))))))))))"

definition arp_serialize :: "arp_message \<Rightarrow> serializer \<Rightarrow> serializer result" where
  "arp_serialize m s =
     (if \<not> arp_supported m
      then Inl (Throws ''ARPMessage: unsupported field combination (must be Ethernet/IP, and request or reply)'')
      else
        let s = ser_integer (arp_hardware_type m) s;
            s = ser_integer (arp_protocol_type m) s;
            s = ser_integer (arp_hardware_address_size m) s;
            s = ser_integer (arp_protocol_address_size m) s;
            s = ser_integer (arp_opcode m) s;
            s = ser_array (arp_sender_ethernet_address m) s;
            s = ser_integer (arp_sender_ip_address m) s;
            s = ser_array (arp_target_ethernet_address m) s;
            s = ser_integer (arp_target_ip_address m) s
        in Inr s)"

subsection \<open>Serialized forms\<close>

definition ethernet_header_bytes :: "ethernet_header \<Rightarrow> bytes" where
  "ethernet_header_bytes h = eh_dst h @ eh_src h @ be_bytes (eh_type h)"

definition ethernet_header_ok :: "ethernet_header \<Rightarrow> bool" where
  "ethernet_header_ok h \<longleftrightarrow> eth_address_ok (eh_dst h) \<and> eth_address_ok (eh_src h)"

lemma ethernet_header_serialize_fields [wire_simps]:
  "ser_bytes (ethernet_header_serialize h s) = ser_bytes s @ ethernet_header_bytes h"
  "se_output (ethernet_header_serialize h s) = se_output s"
  "se_buffer (ethernet_header_serialize h s) = se_buffer s @ ethernet_header_bytes h"
  by (simp_all add: ethernet_header_serialize_def ethernet_header_bytes_def wire_simps)

lemma serialize_frame_bytes:
  "concat (serialize_frame f) = ethernet_header_bytes (ef_header f) @ concat (ef_payload f)"
  by (simp add: serialize_frame_def ser_output_bytes ethernet_frame_serialize_def wire_simps)

lemma serialize_frame_readable:
  assumes "ethernet_header_ok (ef_header f)"
  shows "readable 14 (serialize_frame f)"
proof -
  obtain rest where "serialize_frame f = ethernet_header_bytes (ef_header f) # rest"
    using ser_output_first [of "ethernet_header_serialize (ef_header f) new_serializer" "ef_payload f"]
    by (auto simp: serialize_frame_def ethernet_frame_serialize_def wire_simps)
  moreover have "length (ethernet_header_bytes (ef_header f)) = 14"
    using assms by (simp add: ethernet_header_bytes_def ethernet_header_ok_def eth_address_ok_def)
  ultimately show ?thesis by (auto simp: readable_front)
qed

lemma ethernet_header_parse_bytes:
  assumes f: "feeds p (ethernet_header_bytes h @ bs) n" and n: "14 \<le> n"
    and h: "ethernet_header_ok h" and old: "ethernet_header_ok old"
  obtains p' where "ethernet_header_parse old p = Inr (p', h)" and "feeds p' bs (n - 14)"
proof -
  have l: "length (eh_dst h) = 6" "length (eh_src h) = 6" "length (eh_dst old) = 6" "length (eh_src old) = 6"
    using h old by (simp_all add: ethernet_header_ok_def eth_address_ok_def)
  have f0: "feeds p (eh_dst h @ eh_src h @ be_bytes (eh_type h) @ bs) n"
    using f by (simp add: ethernet_header_bytes_def)
  have le: "length (eh_dst h) \<le> n" "length (eh_dst old) = length (eh_dst h)" using l n by simp_all
  note f1 = feeds_array [OF f0 le]
  have le2: "length (eh_src h) \<le> n - length (eh_dst h)" "length (eh_src old) = length (eh_src h)"
    using l n by simp_all
  note f2 = feeds_array [OF f1(2) le2]
  have le3: "2 \<le> n - length (eh_dst h) - length (eh_src h)" using l n by simp
  note f3 = parse_u16 [OF le3 f2(2)]
  show ?thesis
  proof (rule that)
    show "ethernet_header_parse old p =
        Inr (advance 2 (advance (length (eh_src h)) (advance (length (eh_dst h)) p)), h)"
      by (simp add: ethernet_header_parse_def f1(1) f2(1) f3(1))
    show "feeds (advance 2 (advance (length (eh_src h)) (advance (length (eh_dst h)) p))) bs (n - 14)"
      using f3(2) l by simp
  qed
qed

definition arp_bytes :: "arp_message \<Rightarrow> bytes" where
  "arp_bytes m =
     be_bytes (arp_hardware_type m) @ be_bytes (arp_protocol_type m) @
     arp_hardware_address_size m # arp_protocol_address_size m # be_bytes (arp_opcode m) @
     arp_sender_ethernet_address m @ be_bytes (arp_sender_ip_address m) @
     arp_target_ethernet_address m @ be_bytes (arp_target_ip_address m)"

definition arp_addresses_ok :: "arp_message \<Rightarrow> bool" where
  "arp_addresses_ok m \<longleftrightarrow>
     eth_address_ok (arp_sender_ethernet_address m) \<and> eth_address_ok (arp_target_ethernet_address m)"

lemma arp_serialize_output:
  assumes "arp_supported m"
  shows "serialize_object (arp_serialize m) = Inr [arp_bytes m]"
  using assms
  by (simp add: serialize_object_def arp_serialize_def Let_def ser_output_def ser_flush_def
      wire_simps arp_bytes_def)

lemma arp_parse_bytes:
  assumes f: "feeds p (arp_bytes m @ bs) n" and n: "28 \<le> n"
    and ok: "arp_supported m" "arp_addresses_ok m" and old: "arp_addresses_ok old"
  obtains p' where "arp_parse old p = Inr (p', m)" and "feeds p' bs (n - 28)"
proof -
  have l: "length (arp_sender_ethernet_address m) = 6" "length (arp_target_ethernet_address m) = 6"
    "length (arp_sender_ethernet_address old) = 6" "length (arp_target_ethernet_address old) = 6"
    using ok old by (simp_all add: arp_addresses_ok_def eth_address_ok_def)
  have f0: "feeds p (be_bytes (arp_hardware_type m) @ be_bytes (arp_protocol_type m) @
     arp_hardware_address_size m # arp_protocol_address_size m # be_bytes (arp_opcode m) @
     arp_sender_ethernet_address m @ be_bytes (arp_sender_ip_address m) @
     arp_target_ethernet_address m @ be_bytes (arp_target_ip_address m) @ bs) (28 + (n - 28))"
    using f n by (simp add: arp_bytes_def)
  note f1 = parse_u16 [OF _ f0, simplified]
  note f2 = parse_u16 [OF _ f1(2), simplified]
  note f3 = parse_u8 [OF _ f2(2), simplified]
  note f4 = parse_u8 [OF _ f3(2), simplified]
  note f5 = parse_u16 [OF _ f4(2), simplified]
  have a: "length (arp_sender_ethernet_address m) \<le> n - 8"
    "length (arp_sender_ethernet_address old) = length (arp_sender_ethernet_address m)"
    using l n by simp_all
  have f5': "feeds (advance 2 (advance (Suc 0) (advance (Suc 0) (advance 2 (advance 2 p)))))
     (arp_sender_ethernet_address m @ be_bytes (arp_sender_ip_address m) @
      arp_target_ethernet_address m @ be_bytes (arp_target_ip_address m) @ bs) (n - 8)"
    using f5(2) n by simp
  note f6 = feeds_array [OF f5' a]
  have b: "4 \<le> n - 8 - length (arp_sender_ethernet_address m)" using l n by simp
  note f7 = parse_u32 [OF b f6(2)]
  have c: "length (arp_target_ethernet_address m) \<le> n - 8 - length (arp_sender_ethernet_address m) - 4"
    "length (arp_target_ethernet_address old) = length (arp_target_ethernet_address m)"
    using l n by simp_all
  note f8 = feeds_array [OF f7(2) c]
  have d: "4 \<le> n - 8 - length (arp_sender_ethernet_address m) - 4 - length (arp_target_ethernet_address m)"
    using l n by simp
  note f9 = parse_u32 [OF d f8(2)]
  show ?thesis
  proof (rule that)
    show "arp_parse old p = Inr (advance 4 (advance (length (arp_target_ethernet_address m))
        (advance 4 (advance (length (arp_sender_ethernet_address m))
          (advance 2 (advance (Suc 0) (advance (Suc 0) (advance 2 (advance 2 p)))))))), m)"
    proof -
      let ?o = "old\<lparr>arp_hardware_type := arp_hardware_type m, arp_protocol_type := arp_protocol_type m,
               arp_hardware_address_size := arp_hardware_address_size m,
               arp_protocol_address_size := arp_protocol_address_size m, arp_opcode := arp_opcode m\<rparr>"
      have "arp_supported ?o" using ok(1) by (simp add: arp_supported_def)
      moreover have "?o\<lparr>arp_sender_ethernet_address := arp_sender_ethernet_address m,
          arp_sender_ip_address := arp_sender_ip_address m,
          arp_target_ethernet_address := arp_target_ethernet_address m,
          arp_target_ip_address := arp_target_ip_address m\<rparr> = m"
        by (cases old, cases m) simp
      ultimately show ?thesis
        by (simp add: arp_parse_def f1(1) f2(1) f3(1) f4(1) f5(1) f6(1) f7(1) f8(1) f9(1) Let_def)
    qed
    show "feeds (advance 4 (advance (length (arp_target_ethernet_address m))
        (advance 4 (advance (length (arp_sender_ethernet_address m))
          (advance 2 (advance (Suc 0) (advance (Suc 0) (advance 2 (advance 2 p))))))))) bs (n - 28)"
      using f9(2) l by simp
  qed
qed

subsection \<open>Properties\<close>

text \<open>
  A frame that is serialized and parsed again, either in the buffers the serializer
  produced or cut into any non-empty pieces, comes back with the same header and the same
  payload bytes.
\<close>

theorem ethernet_frame_roundtrip:
  assumes "ethernet_header_ok (ef_header f)"
    and "bufs = serialize_frame f \<or> [] \<notin> set bufs \<and> concat bufs = concat (serialize_frame f)"
  shows "\<exists>f'. parse_object (ethernet_frame_parse empty_ethernet_frame) bufs = Inr (f', True) \<and>
              ef_header f' = ef_header f \<and> concat (ef_payload f') = concat (ef_payload f)"
proof -
  have c: "concat bufs = ethernet_header_bytes (ef_header f) @ concat (ef_payload f)"
    using assms(2) serialize_frame_bytes by auto
  have "length (ethernet_header_bytes (ef_header f)) = 14"
    using assms(1) by (simp add: ethernet_header_bytes_def ethernet_header_ok_def eth_address_ok_def)
  then have "14 \<le> length (concat bufs)" by (simp add: c)
  then have "readable 14 bufs"
    using assms(2) serialize_frame_readable [OF assms(1)] readable_nonempty by blast
  then have f: "feeds (new_parser bufs) (ethernet_header_bytes (ef_header f) @ concat (ef_payload f)) 14"
    using feeds_new c by metis
  have old: "ethernet_header_ok (ef_header empty_ethernet_frame)"
    by (simp add: empty_ethernet_frame_def empty_ethernet_header_def ethernet_header_ok_def eth_address_ok_def)
  obtain p' where p: "ethernet_header_parse (ef_header empty_ethernet_frame) (new_parser bufs) =
      Inr (p', ef_header f)" and f': "feeds p' (concat (ef_payload f)) 0"
    by (rule ethernet_header_parse_bytes [OF f order_refl assms(1) old]) auto
  obtain pl where "parse_all_remaining p' = Inr pl" "concat pl = concat (ef_payload f)"
    by (rule feeds_remaining [OF f'])
  moreover have "\<not> pa_error p'" using f' by (simp add: feeds_def)
  ultimately show ?thesis
    by (auto simp: parse_object_def ethernet_frame_parse_def p)
qed

theorem ethernet_frame_roundtrip_witness:
  "\<exists>f'. parse_object (ethernet_frame_parse empty_ethernet_frame)
          (serialize_frame \<lparr>ef_header = \<lparr>eh_dst = ETHERNET_BROADCAST, eh_src = [1, 2, 3, 4, 5, 6],
             eh_type = TYPE_ARP\<rparr>, ef_payload = [[7], [8, 9]]\<rparr>) = Inr (f', True) \<and>
        eh_src (ef_header f') = [1, 2, 3, 4, 5, 6] \<and> concat (ef_payload f') = [7, 8, 9]"
proof -
  let ?f = "\<lparr>ef_header = \<lparr>eh_dst = ETHERNET_BROADCAST, eh_src = [1, 2, 3, 4, 5, 6],
      eh_type = TYPE_ARP\<rparr>, ef_payload = [[7], [8, 9]]\<rparr>"
  have "ethernet_header_ok (ef_header ?f)"
    by (simp add: ethernet_header_ok_def eth_address_ok_def ETHERNET_BROADCAST_def)
  from ethernet_frame_roundtrip [OF this, of "serialize_frame ?f"] obtain f' where
    "parse_object (ethernet_frame_parse empty_ethernet_frame) (serialize_frame ?f) = Inr (f', True)"
    and "ef_header f' = ef_header ?f" "concat (ef_payload f') = concat (ef_payload ?f)"
    by blast
  then show ?thesis by (intro exI [of _ f']) simp
qed

text \<open>
  A supported ARP message survives serialization and parsing (as one buffer, or cut
  into any non-empty pieces); an unsupported one is refused by the serializer.
\<close>

theorem arp_roundtrip:
  assumes "arp_addresses_ok m"
  shows "case serialize_object (arp_serialize m) of
           Inl e \<Rightarrow> \<not> arp_supported m
         | Inr out \<Rightarrow> arp_supported m \<and>
             (\<forall>bufs. [] \<notin> set bufs \<and> concat bufs = concat out \<longrightarrow>
                parse_object (arp_parse empty_arp_message) bufs = Inr (m, True))"
proof (cases "arp_supported m")
  case False
  then show ?thesis by (simp add: serialize_object_def arp_serialize_def)
next
  case True
  have old: "arp_addresses_ok empty_arp_message"
    by (simp add: empty_arp_message_def arp_addresses_ok_def eth_address_ok_def)
  have "parse_object (arp_parse empty_arp_message) bufs = Inr (m, True)"
    if "[] \<notin> set bufs" and c: "concat bufs = arp_bytes m" for bufs
  proof -
    have "length (arp_bytes m) = 28"
      using assms by (simp add: arp_bytes_def arp_addresses_ok_def eth_address_ok_def)
    then have "feeds (new_parser bufs) (arp_bytes m @ []) 28"
      using feeds_new [of 28 bufs] readable_nonempty [OF that(1), of 28] c by simp
    from arp_parse_bytes [OF this order_refl True assms old]
    obtain p' where "arp_parse empty_arp_message (new_parser bufs) = Inr (p', m)" "feeds p' [] 0"
      by auto
    then show ?thesis by (simp add: parse_object_def feeds_def)
  qed
  then show ?thesis using True by (simp add: arp_serialize_output)
qed

theorem arp_roundtrip_witness:
  "parse_object (arp_parse empty_arp_message)
     [arp_bytes (empty_arp_message\<lparr>arp_opcode := OPCODE_REQUEST, arp_target_ip_address := 7\<rparr>)] =
     Inr (empty_arp_message\<lparr>arp_opcode := OPCODE_REQUEST, arp_target_ip_address := 7\<rparr>, True)"
proof -
  let ?m = "empty_arp_message\<lparr>arp_opcode := OPCODE_REQUEST, arp_target_ip_address := 7\<rparr>"
  have "arp_supported ?m" "arp_addresses_ok ?m"
    by (simp_all add: empty_arp_message_def arp_supported_def arp_addresses_ok_def eth_address_ok_def)
  moreover have "arp_bytes ?m \<noteq> []" by (simp add: arp_bytes_def)
  ultimately show ?thesis
    using arp_roundtrip [of ?m] by (simp add: arp_serialize_output)
qed

end
