(* ===== verification/Ipv4.thy ===== *)
theory Ipv4
  imports Checksum
begin

unbundle bit_operations_syntax

text \<open>
  IPv4 headers and datagrams (\<open>util/ipv4_header.hh\<close>, \<open>util/ipv4_header.cc\<close>,
  \<open>util/ipv4_datagram.hh\<close>): parsing with the checksum test, serialization, the checksum,
  and the pseudo-header sum that TCP adds to its own.
\<close>

subsection \<open>Header\<close>

record ipv4_header =
  ip_ver :: u8
  ip_hlen :: u8
  ip_tos :: u8
  ip_len :: u16
  ip_id :: u16
  ip_df :: bool
  ip_mf :: bool
  ip_offset :: u16
  ip_ttl :: u8
  ip_proto :: u8
  ip_cksum :: u16
  ip_src :: u32
  ip_dst :: u32

definition IPV4_LENGTH :: nat where "IPV4_LENGTH = 20"
definition DEFAULT_TTL :: u8 where "DEFAULT_TTL = 128"
definition PROTO_TCP :: u8 where "PROTO_TCP = 6"

definition default_ipv4_header :: ipv4_header where
  "default_ipv4_header =
     \<lparr>ip_ver = 4, ip_hlen = of_nat (IPV4_LENGTH div 4), ip_tos = 0, ip_len = 0, ip_id = 0,
      ip_df = True, ip_mf = False, ip_offset = 0, ip_ttl = DEFAULT_TTL, ip_proto = PROTO_TCP,
      ip_cksum = 0, ip_src = 0, ip_dst = 0\<rparr>"

definition ipv4_first_byte :: "ipv4_header \<Rightarrow> u8" where
  "ipv4_first_byte h = ucast ((push_bit 4 (ucast (ip_ver h)) :: u32) OR (ucast (ip_hlen h) AND 0xf))"

definition ipv4_fo_val :: "ipv4_header \<Rightarrow> u16" where
  "ipv4_fo_val h =
     (if ip_df h then 0x4000 else 0) OR (if ip_mf h then 0x2000 else 0) OR (ip_offset h AND 0x1fff)"

definition ipv4_serialize :: "ipv4_header \<Rightarrow> serializer \<Rightarrow> serializer result" where
  "ipv4_serialize h s =
     (if ip_ver h \<noteq> 4 then Inl (Throws ''wrong IP version'')
      else
        let s = ser_integer (ipv4_first_byte h) s;
            s = ser_integer (ip_tos h) s;
            s = ser_integer (ip_len h) s;
            s = ser_integer (ip_id h) s;
            s = ser_integer (ipv4_fo_val h) s;
            s = ser_integer (ip_ttl h) s;
            s = ser_integer (ip_proto h) s;
            s = ser_integer (ip_cksum h) s;
            s = ser_integer (ip_src h) s;
            s = ser_integer (ip_dst h) s
        in Inr s)"

definition ipv4_compute_checksum :: "ipv4_header \<Rightarrow> ipv4_header result" where
  "ipv4_compute_checksum h =
     (let h = h\<lparr>ip_cksum := 0\<rparr>
      in bind_result (ipv4_serialize h new_serializer) (\<lambda>s.
         Inr (h\<lparr>ip_cksum :=
           checksum_value (checksum_add_buffers (ser_output s) (new_checksum 0))\<rparr>)))"

definition ipv4_payload_length :: "ipv4_header \<Rightarrow> u16" where
  "ipv4_payload_length h = ip_len h - 4 * ucast (ip_hlen h)"

definition ipv4_pseudo_checksum :: "ipv4_header \<Rightarrow> u32" where
  "ipv4_pseudo_checksum h =
     drop_bit 16 (ip_src h) + ucast (ucast (ip_src h) :: u16) +
     (drop_bit 16 (ip_dst h) + ucast (ucast (ip_dst h) :: u16)) +
     ucast (ip_proto h) + ucast (ipv4_payload_length h)"

text \<open>The part of \<open>parse\<close> after the fields have been read.\<close>

definition ipv4_check :: "ipv4_header \<Rightarrow> parser \<Rightarrow> (parser \<times> ipv4_header) result" where
  "ipv4_check h p =
     (let p = (if ip_ver h \<noteq> 4 then parser_set_error p else p);
          p = (if ip_hlen h < 5 then parser_set_error p else p)
      in if pa_error p then Inr (p, h)
         else
           bind_result (parser_remove_prefix (unat (ip_hlen h) * 4 - IPV4_LENGTH) p) (\<lambda>p.
             let given_cksum = ip_cksum h
             in bind_result (ipv4_compute_checksum h) (\<lambda>h.
                Inr (if ip_cksum h \<noteq> given_cksum then parser_set_error p else p, h))))"

definition ipv4_parse :: "ipv4_header \<Rightarrow> parser \<Rightarrow> (parser \<times> ipv4_header) result" where
  "ipv4_parse h p =
     bind_result (parse_integer (0 :: u8) p) (\<lambda>(p, first_byte).
     bind_result (parse_integer (ip_tos h) p) (\<lambda>(p, tos).
     bind_result (parse_integer (ip_len h) p) (\<lambda>(p, len).
     bind_result (parse_integer (ip_id h) p) (\<lambda>(p, id).
     bind_result (parse_integer (0 :: u16) p) (\<lambda>(p, fo_val).
     bind_result (parse_integer (ip_ttl h) p) (\<lambda>(p, ttl).
     bind_result (parse_integer (ip_proto h) p) (\<lambda>(p, proto).
     bind_result (parse_integer (ip_cksum h) p) (\<lambda>(p, cksum).
     bind_result (parse_integer (ip_src h) p) (\<lambda>(p, src).
     bind_result (parse_integer (ip_dst h) p) (\<lambda>(p, dst).
     ipv4_check
       \<lparr>ip_ver = drop_bit 4 first_byte, ip_hlen = first_byte AND 0x0f, ip_tos = tos,
        ip_len = len, ip_id = id, ip_df = (fo_val AND 0x4000 \<noteq> 0),
        ip_mf = (fo_val AND 0x2000 \<noteq> 0), ip_offset = fo_val AND 0x1fff, ip_ttl = ttl,
        ip_proto = proto, ip_cksum = cksum, ip_src = src, ip_dst = dst\<rparr> p))))))))))"

subsection \<open>Datagram\<close>

record ipv4_datagram =
  dg_header :: ipv4_header
  dg_payload :: "bytes list"

definition empty_ipv4_datagram :: ipv4_datagram where
  "empty_ipv4_datagram = \<lparr>dg_header = default_ipv4_header, dg_payload = []\<rparr>"

definition ipv4_datagram_parse ::
  "ipv4_datagram \<Rightarrow> parser \<Rightarrow> (parser \<times> ipv4_datagram) result" where
  "ipv4_datagram_parse d p =
     bind_result (ipv4_parse (dg_header d) p) (\<lambda>(p, header).
     bind_result (parse_all_remaining p) (\<lambda>payload.
     Inr (p, \<lparr>dg_header = header, dg_payload = payload\<rparr>)))"

definition ipv4_datagram_serialize :: "ipv4_datagram \<Rightarrow> serializer \<Rightarrow> serializer result" where
  "ipv4_datagram_serialize d s =
     bind_result (ipv4_serialize (dg_header d) s) (\<lambda>s. Inr (fold ser_buffer (dg_payload d) s))"

subsection \<open>Serialized form\<close>

definition ipv4_bytes :: "ipv4_header \<Rightarrow> bytes" where
  "ipv4_bytes h =
     ipv4_first_byte h # ip_tos h # be_bytes (ip_len h) @ be_bytes (ip_id h) @
     be_bytes (ipv4_fo_val h) @ ip_ttl h # ip_proto h # be_bytes (ip_cksum h) @
     be_bytes (ip_src h) @ be_bytes (ip_dst h)"

text \<open>A header as it travels: version 4, no options, an offset of 13 bits, its checksum right.\<close>

definition ipv4_valid :: "ipv4_header \<Rightarrow> bool" where
  "ipv4_valid h \<longleftrightarrow> ip_ver h = 4 \<and> ip_hlen h = 5 \<and> ip_offset h < 0x2000 \<and>
     ipv4_compute_checksum h = Inr h"

lemma length_ipv4_bytes [simp]: "length (ipv4_bytes h) = 20"
  by (simp add: ipv4_bytes_def)

lemma ipv4_serialize_ok:
  "ip_ver h = 4 \<Longrightarrow> ipv4_serialize h s = Inr (s\<lparr>se_buffer := se_buffer s @ ipv4_bytes h\<rparr>)"
  by (simp add: ipv4_serialize_def Let_def ser_integer_def ipv4_bytes_def)

lemma ipv4_compute_checksum_ok:
  assumes "ip_ver h = 4"
  shows "ipv4_compute_checksum h = Inr (h\<lparr>ip_cksum :=
           checksum_value (checksum_add (ipv4_bytes (h\<lparr>ip_cksum := 0\<rparr>)) (new_checksum 0))\<rparr>)"
  using assms
  by (simp add: ipv4_compute_checksum_def ipv4_serialize_ok Let_def checksum_add_buffers_concat
      ser_output_bytes ser_bytes_def new_serializer_def)

lemma ipv4_bytes_cksum:
  "ipv4_bytes (h\<lparr>ip_cksum := k\<rparr>) = take 10 (ipv4_bytes h) @ be_bytes k @ drop 12 (ipv4_bytes h)"
  by (simp add: ipv4_bytes_def ipv4_first_byte_def ipv4_fo_val_def)

text \<open>The flags and the offset come out of the 16-bit field as they went in.\<close>

lemma and_or_masks:
  fixes x :: u16
  shows "(a OR b OR (x AND 0x1fff)) AND m = (a AND m) OR (b AND m) OR (x AND (0x1fff AND m))"
  by (simp add: bit.conj_disj_distrib2 and.assoc)

lemma small_offset: "(x :: u16) < 0x2000 \<Longrightarrow> x AND 0x1fff = x"
proof -
  assume "x < 0x2000"
  then have "take_bit 13 x = x" by (simp add: take_bit_eq_mod word_mod_less_divisor mod_less word_less_nat_alt unat_mod word_unat_eq_iff)
  then show ?thesis by (simp add: take_bit_eq_mask mask_eq_exp_minus_1)
qed

lemma ipv4_fo_val_fields:
  assumes "ip_offset h < 0x2000"
  shows "ipv4_fo_val h AND 0x4000 \<noteq> 0 \<longleftrightarrow> ip_df h"
    and "ipv4_fo_val h AND 0x2000 \<noteq> 0 \<longleftrightarrow> ip_mf h"
    and "ipv4_fo_val h AND 0x1fff = ip_offset h"
  using assms unfolding ipv4_fo_val_def and_or_masks
  by (cases "ip_df h"; cases "ip_mf h"; simp add: small_offset)+

definition ipv4_plain :: "ipv4_header \<Rightarrow> bool" where
  "ipv4_plain h \<longleftrightarrow> ip_ver h = 4 \<and> ip_hlen h = 5 \<and> ip_offset h < 0x2000"

lemma ipv4_first_byte_plain: "ipv4_plain h \<Longrightarrow> ipv4_first_byte h = 0x45"
  by (simp add: ipv4_plain_def ipv4_first_byte_def)

lemma ipv4_parse_bytes:
  assumes f: "feeds p (ipv4_bytes h @ bs) n" and n: "20 \<le> n" and h: "ipv4_plain h"
  obtains p' where "ipv4_parse old p = ipv4_check h p'" and "feeds p' bs (n - 20)"
proof -
  have f0: "feeds p (0x45 # ip_tos h # be_bytes (ip_len h) @ be_bytes (ip_id h) @
     be_bytes (ipv4_fo_val h) @ ip_ttl h # ip_proto h # be_bytes (ip_cksum h) @
     be_bytes (ip_src h) @ be_bytes (ip_dst h) @ bs) (20 + (n - 20))"
    using f n by (simp add: ipv4_bytes_def ipv4_first_byte_plain [OF h])
  note f1 = parse_u8 [OF _ f0, simplified]
  note f2 = parse_u8 [OF _ f1(2), simplified]
  note f3 = parse_u16 [OF _ f2(2), simplified]
  note f4 = parse_u16 [OF _ f3(2), simplified]
  note f5 = parse_u16 [OF _ f4(2), simplified]
  note f6 = parse_u8 [OF _ f5(2), simplified]
  note f7 = parse_u8 [OF _ f6(2), simplified]
  note f8 = parse_u16 [OF _ f7(2), simplified]
  note f9 = parse_u32 [OF _ f8(2), simplified]
  note f10 = parse_u32 [OF _ f9(2), simplified]
  note fo = ipv4_fo_val_fields [of h]
  have hdr: "\<lparr>ip_ver = 4, ip_hlen = 5, ip_tos = ip_tos h, ip_len = ip_len h, ip_id = ip_id h,
      ip_df = ip_df h, ip_mf = ip_mf h, ip_offset = ip_offset h, ip_ttl = ip_ttl h,
      ip_proto = ip_proto h, ip_cksum = ip_cksum h, ip_src = ip_src h, ip_dst = ip_dst h\<rparr> = h"
    using h by (cases h) (simp add: ipv4_plain_def)
  have v: "drop_bit 4 (0x45 :: u8) = 4" "(0x45 :: u8) AND 0x0f = 5" by simp_all
  show ?thesis
  proof (rule that)
    show "ipv4_parse old p = ipv4_check h
        (advance 4 (advance 4 (advance 2 (advance (Suc 0) (advance (Suc 0) (advance 2 (advance 2
          (advance 2 (advance (Suc 0) (advance (Suc 0) p))))))))))"
      unfolding ipv4_parse_def f1(1) f2(1) f3(1) f4(1) f5(1) f6(1) f7(1) f8(1) f9(1) f10(1)
        bind_result.simps prod.case v
      using h by (simp add: fo hdr ipv4_plain_def)
    show "feeds (advance 4 (advance 4 (advance 2 (advance (Suc 0) (advance (Suc 0) (advance 2 (advance 2
          (advance 2 (advance (Suc 0) (advance (Suc 0) p)))))))))) bs (n - 20)"
      using f10(2) n by simp
  qed
qed

lemma ipv4_check_plain:
  assumes "ipv4_plain h" and "feeds p bs n"
  obtains p' h' where "ipv4_check h p = Inr (p', h')" and "\<not> pa_error p' \<longleftrightarrow> ipv4_compute_checksum h = Inr h"
    and "pa_input p' = pa_input p" and "ipv4_compute_checksum h = Inr h \<longrightarrow> h' = h"
proof -
  obtain k where k: "ipv4_compute_checksum h = Inr (h\<lparr>ip_cksum := k\<rparr>)"
    using assms(1) ipv4_compute_checksum_ok by (auto simp: ipv4_plain_def)
  have eq: "h\<lparr>ip_cksum := k\<rparr> = h \<longleftrightarrow> ip_cksum h = k" by (cases h) auto
  have rp: "parser_remove_prefix 0 p = Inr p"
    by (subst parser_remove_prefix_def, subst bl_remove_prefix.simps) (simp split: list.splits)
  have ne: "\<not> pa_error p" using assms(2) by (simp add: feeds_def)
  show ?thesis
  proof (rule that)
    show "ipv4_check h p = Inr (if k \<noteq> ip_cksum h then parser_set_error p else p, h\<lparr>ip_cksum := k\<rparr>)"
      using assms(1) ne rp by (simp add: ipv4_check_def ipv4_plain_def k IPV4_LENGTH_def)
  qed (use ne k eq in \<open>auto simp: parser_set_error_def\<close>)
qed

definition serialize_datagram :: "ipv4_datagram \<Rightarrow> bytes list result" where
  "serialize_datagram d = serialize_object (ipv4_datagram_serialize d)"

lemma serialize_datagram_ok:
  assumes "ip_ver (dg_header d) = 4"
  obtains rest where "serialize_datagram d = Inr (ipv4_bytes (dg_header d) # rest)"
    and "concat rest = concat (dg_payload d)"
proof -
  let ?s = "new_serializer\<lparr>se_buffer := ipv4_bytes (dg_header d)\<rparr>"
  have s: "serialize_datagram d = Inr (ser_output (ser_buffers (dg_payload d) ?s))"
    using assms by (simp add: serialize_datagram_def serialize_object_def ipv4_datagram_serialize_def
        ipv4_serialize_ok ser_buffers_def new_serializer_def)
  have "se_output ?s = []" by (simp add: new_serializer_def)
  from ser_output_first [OF this, of "dg_payload d"] obtain rest where
    r: "ser_output (ser_buffers (dg_payload d) ?s) = ipv4_bytes (dg_header d) # rest" by auto
  have "concat (ser_output (ser_buffers (dg_payload d) ?s)) =
      ipv4_bytes (dg_header d) @ concat (dg_payload d)"
    by (simp add: ser_output_bytes wire_simps) (simp add: ser_bytes_def new_serializer_def)
  with r s that show ?thesis by simp
qed

lemma ipv4_datagram_parse_readable:
  assumes f: "feeds p (ipv4_bytes h @ bs) (20 + n)" and h: "ipv4_plain h"
  obtains p' d where "ipv4_datagram_parse old p = Inr (p', d)"
    and "\<not> pa_error p' \<longleftrightarrow> ipv4_compute_checksum h = Inr h"
    and "ipv4_compute_checksum h = Inr h \<longrightarrow> dg_header d = h" and "concat (dg_payload d) = bs"
    and "readable n (dg_payload d)"
proof -
  obtain p1 where p1: "ipv4_parse (dg_header old) p = ipv4_check h p1" and f1: "feeds p1 bs n"
    by (rule ipv4_parse_bytes [OF f _ h]) simp_all
  obtain p2 h2 where p2: "ipv4_check h p1 = Inr (p2, h2)"
    "\<not> pa_error p2 \<longleftrightarrow> ipv4_compute_checksum h = Inr h" "pa_input p2 = pa_input p1"
    "ipv4_compute_checksum h = Inr h \<longrightarrow> h2 = h"
    by (rule ipv4_check_plain [OF h f1])
  obtain bufs where "parse_all_remaining p1 = Inr bufs" "concat bufs = bs" "readable n bufs"
    by (rule feeds_remaining_readable [OF f1])
  then have rem: "parse_all_remaining p2 = Inr bufs" "concat bufs = bs" "readable n bufs"
    using p2(3) by (simp_all add: parse_all_remaining_def)
  show ?thesis
    by (rule that [of p2 "\<lparr>dg_header = h2, dg_payload = bufs\<rparr>"])
       (use p1 p2 rem in \<open>auto simp: ipv4_datagram_parse_def\<close>)
qed

lemma ipv4_datagram_parse_bytes:
  assumes f: "feeds p (ipv4_bytes h @ bs) 20" and h: "ipv4_plain h"
  obtains p' d where "ipv4_datagram_parse old p = Inr (p', d)"
    and "\<not> pa_error p' \<longleftrightarrow> ipv4_compute_checksum h = Inr h"
    and "ipv4_compute_checksum h = Inr h \<Longrightarrow> dg_header d = h" and "concat (dg_payload d) = bs"
proof -
  have "feeds p (ipv4_bytes h @ bs) (20 + 0)" using f by simp
  from ipv4_datagram_parse_readable [OF this h, of old] that show ?thesis by blast
qed

subsection \<open>Properties\<close>

text \<open>
  C25: A datagram without options that is serialized and parsed again, in the buffers of
  the serializer or cut into any non-empty pieces, is accepted exactly when its header
  checksum is the right one, and then has the same header and the same payload bytes.
\<close>

theorem ipv4_datagram_roundtrip:
  assumes "ipv4_plain (dg_header d)" and "serialize_datagram d = Inr out"
    and "bufs = out \<or> [] \<notin> set bufs \<and> concat bufs = concat out"
  shows "\<exists>d' ok. parse_object (ipv4_datagram_parse empty_ipv4_datagram) bufs = Inr (d', ok) \<and>
           (ok = (ipv4_compute_checksum (dg_header d) = Inr (dg_header d))) \<and>
           (ok \<longrightarrow> dg_header d' = dg_header d \<and> concat (dg_payload d') = concat (dg_payload d))"
proof -
  have ver: "ip_ver (dg_header d) = 4" using assms(1) by (simp add: ipv4_plain_def)
  obtain rest where "serialize_datagram d = Inr (ipv4_bytes (dg_header d) # rest)"
    and rest: "concat rest = concat (dg_payload d)"
    by (rule serialize_datagram_ok [OF ver])
  with assms(2) have out: "out = ipv4_bytes (dg_header d) # rest" by simp
  have c: "concat bufs = ipv4_bytes (dg_header d) @ concat (dg_payload d)"
    using assms(3) out rest by auto
  have "readable 20 out" unfolding out by (rule readable_front) simp
  moreover have "20 \<le> length (concat bufs)" by (simp add: c)
  ultimately have "readable 20 bufs" using assms(3) readable_nonempty by blast
  then have f: "feeds (new_parser bufs) (ipv4_bytes (dg_header d) @ concat (dg_payload d)) 20"
    using feeds_new c by metis
  show ?thesis
    by (rule ipv4_datagram_parse_bytes [OF f assms(1), of empty_ipv4_datagram])
       (simp add: parse_object_def)
qed

theorem ipv4_datagram_roundtrip_witness:
  "\<exists>h d' . ipv4_compute_checksum default_ipv4_header = Inr h \<and>
     parse_object (ipv4_datagram_parse empty_ipv4_datagram)
       (case serialize_datagram \<lparr>dg_header = h, dg_payload = [[1], [2, 3]]\<rparr> of Inr out \<Rightarrow> out) =
       Inr (d', True) \<and> dg_header d' = h \<and> concat (dg_payload d') = [1, 2, 3]"
proof -
  have v: "ip_ver default_ipv4_header = 4" "ip_hlen default_ipv4_header = 5"
    "ip_offset default_ipv4_header = 0"
    by (simp_all add: default_ipv4_header_def IPV4_LENGTH_def)
  obtain k where k: "ipv4_compute_checksum default_ipv4_header = Inr (default_ipv4_header\<lparr>ip_cksum := k\<rparr>)"
    and k': "ipv4_compute_checksum (default_ipv4_header\<lparr>ip_cksum := k\<rparr>) =
      Inr (default_ipv4_header\<lparr>ip_cksum := k\<rparr>)"
    using v by (simp add: ipv4_compute_checksum_ok)
  let ?d = "\<lparr>dg_header = default_ipv4_header\<lparr>ip_cksum := k\<rparr>, dg_payload = [[1], [2, 3]]\<rparr>"
  have plain: "ipv4_plain (dg_header ?d)" using v by (simp add: ipv4_plain_def)
  have "ip_ver (dg_header ?d) = 4" using v by simp
  then obtain rest where s: "serialize_datagram ?d = Inr (ipv4_bytes (dg_header ?d) # rest)"
    by (rule serialize_datagram_ok)
  from ipv4_datagram_roundtrip [OF plain s disjI1 [OF refl]] k' obtain d' where
    "parse_object (ipv4_datagram_parse empty_ipv4_datagram) (ipv4_bytes (dg_header ?d) # rest) = Inr (d', True)"
    "dg_header d' = dg_header ?d" "concat (dg_payload d') = concat (dg_payload ?d)"
    by auto
  then show ?thesis
    by (intro exI [of _ "default_ipv4_header\<lparr>ip_cksum := k\<rparr>"] exI [of _ d']) (simp add: k s)
qed

end
