(* ===== verification/Tcp_Segment.thy ===== *)
theory Tcp_Segment
  imports Checksum Tcp_Messages
begin

unbundle bit_operations_syntax

text \<open>
  TCP segments on the wire (\<open>util/tcp_segment.hh\<close>, \<open>util/tcp_segment.cc\<close>,
  \<open>util/udinfo.hh\<close>): a sender message, a receiver message and the ports, with the checksum
  over the segment and the pseudo-header of the layer below.
\<close>

subsection \<open>Segments\<close>

record user_datagram_info =
  ud_src_port :: u16
  ud_dst_port :: u16
  ud_cksum :: u16

record tcp_segment =
  tg_sender :: tcp_sender_message
  tg_receiver :: tcp_receiver_message
  tg_reset :: bool
  tg_udinfo :: user_datagram_info

definition empty_tcp_segment :: tcp_segment where
  "empty_tcp_segment =
     \<lparr>tg_sender = empty_sender_message, tg_receiver = \<lparr>rm_ackno = None, rm_window_size = 0\<rparr>,
      tg_reset = False, tg_udinfo = \<lparr>ud_src_port = 0, ud_dst_port = 0, ud_cksum = 0\<rparr>\<rparr>"

definition TCPHeaderMinLen :: u32 where "TCPHeaderMinLen = 5"

definition tcp_flags :: "tcp_segment \<Rightarrow> u8" where
  "tcp_flags g =
     (if rm_ackno (tg_receiver g) \<noteq> None then 0x10 else 0) OR (if tg_reset g then 4 else 0) OR
     (if sm_SYN (tg_sender g) then 2 else 0) OR (if sm_FIN (tg_sender g) then 1 else 0)"

definition tcp_segment_serialize :: "tcp_segment \<Rightarrow> serializer \<Rightarrow> serializer" where
  "tcp_segment_serialize g s =
     (let s = ser_integer (ud_src_port (tg_udinfo g)) s;
          s = ser_integer (ud_dst_port (tg_udinfo g)) s;
          s = ser_integer (raw_value (sm_seqno (tg_sender g))) s;
          s = ser_integer (raw_value (case rm_ackno (tg_receiver g) of
                             Some a \<Rightarrow> a | None \<Rightarrow> Wrap32 0)) s;
          s = ser_integer (ucast (push_bit 4 TCPHeaderMinLen) :: u8) s;
          s = ser_integer (tcp_flags g) s;
          s = ser_integer (rm_window_size (tg_receiver g)) s;
          s = ser_integer (ud_cksum (tg_udinfo g)) s;
          s = ser_integer (0 :: u16) s
      in ser_buffer (sm_payload (tg_sender g)) s)"

definition serialize_segment :: "tcp_segment \<Rightarrow> bytes list" where
  "serialize_segment g = ser_output (tcp_segment_serialize g new_serializer)"

definition tcp_compute_checksum :: "u32 \<Rightarrow> tcp_segment \<Rightarrow> tcp_segment" where
  "tcp_compute_checksum pseudo g =
     (let g = g\<lparr>tg_udinfo := (tg_udinfo g)\<lparr>ud_cksum := 0\<rparr>\<rparr>;
          check = checksum_add_buffers (serialize_segment g) (new_checksum pseudo)
      in g\<lparr>tg_udinfo := (tg_udinfo g)\<lparr>ud_cksum := checksum_value check\<rparr>\<rparr>)"

text \<open>
  The fields are read into the variables \<open>raw32\<close> and \<open>octet\<close>, which keep their value when
  the parser is in error.
\<close>

definition tcp_segment_parse ::
  "u32 \<Rightarrow> tcp_segment \<Rightarrow> parser \<Rightarrow> (parser \<times> tcp_segment) result" where
  "tcp_segment_parse pseudo g p =
     bind_result (parse_all_remaining_joined p) (\<lambda>all_remaining.
     if checksum_value (checksum_add all_remaining (new_checksum pseudo)) \<noteq> 0
     then Inr (parser_set_error p, g)
     else
     bind_result (parse_integer (ud_src_port (tg_udinfo g)) p) (\<lambda>(p, src_port).
     bind_result (parse_integer (ud_dst_port (tg_udinfo g)) p) (\<lambda>(p, dst_port).
     bind_result (parse_integer (0 :: u32) p) (\<lambda>(p, raw32).
     let seqno = Wrap32 raw32
     in bind_result (parse_integer raw32 p) (\<lambda>(p, raw32).
     let ackno = Some (Wrap32 raw32)
     in bind_result (parse_integer (0 :: u8) p) (\<lambda>(p, octet).
     let data_offset = drop_bit 4 octet
     in bind_result (parse_integer octet p) (\<lambda>(p, octet).
     let ackno = (if octet AND 0x10 = 0 then None else ackno);
         reset = (octet AND 4 \<noteq> 0); syn = (octet AND 2 \<noteq> 0); fin = (octet AND 1 \<noteq> 0)
     in bind_result (parse_integer (rm_window_size (tg_receiver g)) p) (\<lambda>(p, window_size).
     bind_result (parse_integer (ud_cksum (tg_udinfo g)) p) (\<lambda>(p, cksum).
     bind_result (parse_integer (0 :: u16) p) (\<lambda>(p, raw16).
     let p = (if ucast data_offset < TCPHeaderMinLen then parser_set_error p else p)
     in bind_result (parser_remove_prefix
                      (unat (ucast data_offset * 4 - TCPHeaderMinLen * 4 :: u32)) p) (\<lambda>p.
     bind_result (parse_all_remaining_joined p) (\<lambda>payload.
     Inr (p, \<lparr>tg_sender = \<lparr>sm_seqno = seqno, sm_SYN = syn, sm_payload = payload, sm_FIN = fin\<rparr>,
              tg_receiver = \<lparr>rm_ackno = ackno, rm_window_size = window_size\<rparr>,
              tg_reset = reset,
              tg_udinfo = \<lparr>ud_src_port = src_port, ud_dst_port = dst_port,
                           ud_cksum = cksum\<rparr>\<rparr>)))))))))))))"

subsection \<open>Serialized form\<close>

definition tcp_header_bytes :: "tcp_segment \<Rightarrow> bytes" where
  "tcp_header_bytes g =
     be_bytes (ud_src_port (tg_udinfo g)) @ be_bytes (ud_dst_port (tg_udinfo g)) @
     be_bytes (raw_value (sm_seqno (tg_sender g))) @
     be_bytes (raw_value (case rm_ackno (tg_receiver g) of Some a \<Rightarrow> a | None \<Rightarrow> Wrap32 0)) @
     0x50 # tcp_flags g # be_bytes (rm_window_size (tg_receiver g)) @
     be_bytes (ud_cksum (tg_udinfo g)) @ be_bytes (0 :: u16)"

lemma length_tcp_header_bytes [simp]: "length (tcp_header_bytes g) = 20"
  by (simp add: tcp_header_bytes_def)

lemma serialize_segment_buffers:
  "serialize_segment g = [tcp_header_bytes g, sm_payload (tg_sender g), []]"
  by (simp add: serialize_segment_def tcp_segment_serialize_def Let_def ser_output_def ser_flush_def
      ser_buffer_def ser_integer_def new_serializer_def tcp_header_bytes_def TCPHeaderMinLen_def)

lemma tcp_flags_fields:
  "tcp_flags g AND 0x10 = 0 \<longleftrightarrow> rm_ackno (tg_receiver g) = None"
  "tcp_flags g AND 4 \<noteq> 0 \<longleftrightarrow> tg_reset g"
  "tcp_flags g AND 2 \<noteq> 0 \<longleftrightarrow> sm_SYN (tg_sender g)"
  "tcp_flags g AND 1 \<noteq> 0 \<longleftrightarrow> sm_FIN (tg_sender g)"
  unfolding tcp_flags_def
  by (cases "rm_ackno (tg_receiver g) = None"; cases "tg_reset g"; cases "sm_SYN (tg_sender g)";
      cases "sm_FIN (tg_sender g)"; simp)+

definition tcp_bytes_before_cksum :: "tcp_segment \<Rightarrow> bytes" where
  "tcp_bytes_before_cksum g =
     be_bytes (ud_src_port (tg_udinfo g)) @ be_bytes (ud_dst_port (tg_udinfo g)) @
     be_bytes (raw_value (sm_seqno (tg_sender g))) @
     be_bytes (raw_value (case rm_ackno (tg_receiver g) of Some a \<Rightarrow> a | None \<Rightarrow> Wrap32 0)) @
     0x50 # tcp_flags g # be_bytes (rm_window_size (tg_receiver g))"

lemma tcp_header_split:
  "tcp_header_bytes g = tcp_bytes_before_cksum g @ be_bytes (ud_cksum (tg_udinfo g)) @ [0, 0]"
  "length (tcp_bytes_before_cksum g) = 16"
  "tcp_bytes_before_cksum (g\<lparr>tg_udinfo := (tg_udinfo g)\<lparr>ud_cksum := k\<rparr>\<rparr>) = tcp_bytes_before_cksum g"
  by (simp_all add: tcp_header_bytes_def tcp_bytes_before_cksum_def be_bytes_def [of "0 :: u16"]
      upt_rec tcp_flags_def)

lemma tcp_compute_checksum_value:
  "tcp_compute_checksum pseudo g = g\<lparr>tg_udinfo := (tg_udinfo g)\<lparr>ud_cksum :=
     checksum_value (checksum_add_buffers
       [tcp_bytes_before_cksum g, [0, 0], [0, 0] @ sm_payload (tg_sender g)] (new_checksum pseudo))\<rparr>\<rparr>"
proof -
  let ?g = "g\<lparr>tg_udinfo := (tg_udinfo g)\<lparr>ud_cksum := 0\<rparr>\<rparr>"
  have z: "be_bytes (0 :: u16) = [0, 0]" by (simp add: be_bytes_def upt_rec)
  have "concat (serialize_segment ?g) =
      concat [tcp_bytes_before_cksum g, [0, 0], [0, 0] @ sm_payload (tg_sender g)]"
    by (simp add: serialize_segment_buffers tcp_header_split z)
  then show ?thesis
    unfolding tcp_compute_checksum_def Let_def checksum_add_buffers_concat by simp
qed

lemma tcp_compute_checksum_fields [simp]:
  "tg_sender (tcp_compute_checksum pseudo g) = tg_sender g"
  "tg_receiver (tcp_compute_checksum pseudo g) = tg_receiver g"
  "tg_reset (tcp_compute_checksum pseudo g) = tg_reset g"
  by (simp_all add: tcp_compute_checksum_value)

lemma tcp_checksum_verifies:
  assumes "length (sm_payload (tg_sender g)) \<le> 65495" and "unat pseudo < 2 ^ 20"
  shows "checksum_value (checksum_add (concat (serialize_segment (tcp_compute_checksum pseudo g)))
           (new_checksum pseudo)) = 0"
proof -
  let ?xs = "tcp_bytes_before_cksum g" and ?ys = "[0, 0] @ sm_payload (tg_sender g)"
  let ?k = "checksum_value (checksum_add_buffers [?xs, [0, 0], ?ys] (new_checksum pseudo))"
  have "concat (serialize_segment (tcp_compute_checksum pseudo g)) = concat [?xs, be_bytes ?k, ?ys]"
    by (simp add: serialize_segment_buffers tcp_compute_checksum_value tcp_header_split)
  moreover have "checksum_value (checksum_add_buffers [?xs, be_bytes ?k, ?ys] (new_checksum pseudo)) = 0"
  proof (rule checksum_stored)
    show "even (length ?xs)" by (simp add: tcp_header_split)
    have "65280 * (length ?xs + length ?ys) \<le> 65280 * (16 + 2 + 65495)"
      using assms(1) by (intro mult_le_mono2) (simp add: tcp_header_split)
    then show "unat pseudo + 65280 * (length ?xs + length ?ys) + 65535 < 2 ^ 32"
      using assms(2) by simp
  qed
  ultimately show ?thesis by (simp only: checksum_add_buffers_concat)
qed

lemma tcp_segment_parse_bytes:
  assumes f: "feeds p (tcp_header_bytes g @ sm_payload (tg_sender g)) 20"
    and ck: "checksum_value (checksum_add (tcp_header_bytes g @ sm_payload (tg_sender g))
               (new_checksum pseudo)) = 0"
  obtains p' where "tcp_segment_parse pseudo old p = Inr (p', g)" and "\<not> pa_error p'"
proof -
  have all: "parse_all_remaining_joined p = Inr (tcp_header_bytes g @ sm_payload (tg_sender g))"
    by (rule feeds_joined [OF f])
  note f0 = f [unfolded tcp_header_bytes_def append_assoc append_Cons]
  note f1 = parse_u16 [OF _ f0, simplified]
  note f2 = parse_u16 [OF _ f1(2), simplified]
  note f3 = parse_u32 [OF _ f2(2), simplified]
  note f4 = parse_u32 [OF _ f3(2), simplified]
  note f5 = parse_u8 [OF _ f4(2), simplified]
  note f6 = parse_u8 [OF _ f5(2), simplified]
  note f7 = parse_u16 [OF _ f6(2), simplified]
  note f8 = parse_u16 [OF _ f7(2), simplified]
  note f9 = parse_u16 [OF _ f8(2), simplified]
  let ?p = "advance 2 (advance 2 (advance 2 (advance (Suc 0) (advance (Suc 0)
      (advance 4 (advance 4 (advance 2 (advance 2 p))))))))"
  have pl: "parse_all_remaining_joined ?p = Inr (sm_payload (tg_sender g))"
    by (rule feeds_joined [OF f9(2)])
  have rp: "parser_remove_prefix 0 ?p = Inr ?p"
    by (subst parser_remove_prefix_def, subst bl_remove_prefix.simps) (simp split: list.splits)
  have off: "drop_bit 4 (0x50 :: u8) = 5" by simp
  have ackno: "(if rm_ackno (tg_receiver g) = None then None
      else Some (Wrap32 (raw_value (case rm_ackno (tg_receiver g) of Some a \<Rightarrow> a | None \<Rightarrow> Wrap32 0)))) =
      rm_ackno (tg_receiver g)"
    by (cases "rm_ackno (tg_receiver g)") auto
  have g: "\<lparr>tg_sender = \<lparr>sm_seqno = sm_seqno (tg_sender g), sm_SYN = sm_SYN (tg_sender g),
        sm_payload = sm_payload (tg_sender g), sm_FIN = sm_FIN (tg_sender g)\<rparr>,
      tg_receiver = \<lparr>rm_ackno = rm_ackno (tg_receiver g), rm_window_size = rm_window_size (tg_receiver g)\<rparr>,
      tg_reset = tg_reset g,
      tg_udinfo = \<lparr>ud_src_port = ud_src_port (tg_udinfo g), ud_dst_port = ud_dst_port (tg_udinfo g),
        ud_cksum = ud_cksum (tg_udinfo g)\<rparr>\<rparr> = g"
    by simp
  show ?thesis
  proof (rule that)
    show "tcp_segment_parse pseudo old p = Inr (?p, g)"
      unfolding tcp_segment_parse_def all bind_result.simps ck Let_def
        f1(1) f2(1) f3(1) f4(1) f5(1) f6(1) f7(1) f8(1) f9(1) prod.case off tcp_flags_fields ackno
      by (simp add: TCPHeaderMinLen_def rp pl)
    show "\<not> pa_error ?p" using f9(2) by (simp add: feeds_def)
  qed
qed

lemma parse_sent_bytes:
  assumes "length (sm_payload (tg_sender g)) \<le> 65495" and "unat pseudo < 2 ^ 20"
    and "concat bufs = concat (serialize_segment (tcp_compute_checksum pseudo g))" and "readable 20 bufs"
  shows "parse_object (tcp_segment_parse pseudo empty_tcp_segment) bufs =
           Inr (tcp_compute_checksum pseudo g, True)"
proof -
  let ?g = "tcp_compute_checksum pseudo g"
  have c: "concat bufs = tcp_header_bytes ?g @ sm_payload (tg_sender ?g)"
    using assms(3) by (simp add: serialize_segment_buffers)
  then have f: "feeds (new_parser bufs) (tcp_header_bytes ?g @ sm_payload (tg_sender ?g)) 20"
    using feeds_new [OF assms(4)] by metis
  have "concat (serialize_segment ?g) = tcp_header_bytes ?g @ sm_payload (tg_sender ?g)"
    by (simp add: serialize_segment_buffers)
  then have ck: "checksum_value (checksum_add (tcp_header_bytes ?g @ sm_payload (tg_sender ?g))
      (new_checksum pseudo)) = 0"
    using tcp_checksum_verifies [OF assms(1,2)] by simp
  show ?thesis
    by (rule tcp_segment_parse_bytes [OF f ck, of empty_tcp_segment]) (simp add: parse_object_def)
qed

text \<open>A segment whose checksum is not right is rejected, however its bytes are cut.\<close>

lemma parse_bad_checksum:
  assumes "checksum_value (checksum_add (concat bufs) (new_checksum pseudo)) \<noteq> 0" and "readable n bufs"
  shows "parse_object (tcp_segment_parse pseudo g) bufs = Inr (g, False)"
proof -
  have "parse_all_remaining_joined (new_parser bufs) = Inr (concat bufs)"
    by (rule feeds_joined [OF feeds_new [OF assms(2)]])
  with assms(1) show ?thesis by (simp add: parse_object_def tcp_segment_parse_def parser_set_error_def)
qed

lemma serialized_readable:
  assumes "bufs = serialize_segment g \<or> [] \<notin> set bufs \<and> concat bufs = concat (serialize_segment g)"
  shows "concat bufs = concat (serialize_segment g)" and "readable 20 bufs"
proof -
  show c: "concat bufs = concat (serialize_segment g)" using assms by auto
  have "readable 20 (serialize_segment g)"
    unfolding serialize_segment_buffers by (rule readable_front) simp
  moreover have "20 \<le> length (concat bufs)" by (simp add: c serialize_segment_buffers)
  ultimately show "readable 20 bufs" using assms readable_nonempty by blast
qed

subsection \<open>Properties\<close>

text \<open>
  C24: A segment whose checksum was computed for a pseudo-header is parsed back unchanged
  under that pseudo-header, from the buffers of the serializer or from the bytes cut into
  any non-empty pieces: sequence number, flags, acknowledgment (or its absence), window,
  ports, payload.
\<close>

theorem tcp_segment_roundtrip:
  assumes "length (sm_payload (tg_sender g)) \<le> 65495" and "unat pseudo < 2 ^ 20"
    and "bufs = serialize_segment (tcp_compute_checksum pseudo g) \<or>
         [] \<notin> set bufs \<and> concat bufs = concat (serialize_segment (tcp_compute_checksum pseudo g))"
  shows "parse_object (tcp_segment_parse pseudo empty_tcp_segment) bufs =
           Inr (tcp_compute_checksum pseudo g, True)"
  using assms(1,2) serialized_readable [OF assms(3)] by (rule parse_sent_bytes)

theorem tcp_segment_roundtrip_witness:
  "parse_object (tcp_segment_parse 9 empty_tcp_segment)
     (serialize_segment (tcp_compute_checksum 9 (empty_tcp_segment\<lparr>tg_sender :=
        \<lparr>sm_seqno = Wrap32 5, sm_SYN = True, sm_payload = [1, 2, 3], sm_FIN = False\<rparr>\<rparr>))) =
     Inr (tcp_compute_checksum 9 (empty_tcp_segment\<lparr>tg_sender :=
        \<lparr>sm_seqno = Wrap32 5, sm_SYN = True, sm_payload = [1, 2, 3], sm_FIN = False\<rparr>\<rparr>), True)"
  by (rule tcp_segment_roundtrip) simp_all

end
