(* ===== verification/Exceptions.thy ===== *)
theory Exceptions
  imports Prelude
begin

text \<open>
  Failures of system and library calls (\<open>util/exception.hh\<close>).  The text of an error code
  (\<open>strerror\<close>, \<open>gai_strerror\<close>) is the parameter \<open>message\<close>; an exception is its \<open>what()\<close>.
\<close>

type_synonym error_category = "int \<Rightarrow> string"

definition tagged_error :: "error_category \<Rightarrow> string \<Rightarrow> int \<Rightarrow> cpp_error" where
  "tagged_error message attempt error_code = Throws (attempt @ '': '' @ message error_code)"

definition unix_error :: "error_category \<Rightarrow> string \<Rightarrow> int \<Rightarrow> cpp_error" where
  "unix_error strerror attempt errno = tagged_error strerror attempt errno"

text \<open>What a system call answers: its return value and the value of \<open>errno\<close> after it.\<close>

record sys_ret =
  sr_value :: int
  sr_errno :: int

definition check_system_call :: "error_category \<Rightarrow> string \<Rightarrow> sys_ret \<Rightarrow> int result" where
  "check_system_call strerror attempt r =
     (if sr_value r \<ge> 0 then Inr (sr_value r)
      else Inl (unix_error strerror attempt (sr_errno r)))"

definition notnull :: "string \<Rightarrow> 'a option \<Rightarrow> 'a result" where
  "notnull ctxt x =
     (case x of Some y \<Rightarrow> Inr y | None \<Rightarrow> Inl (Throws (ctxt @ '': returned null pointer'')))"

text \<open>\<open>std::to_string\<close> of an unsigned number and \<open>std::stoi\<close>.\<close>

fun decimal :: "nat \<Rightarrow> string" where
  "decimal n = (if n < 10 then [char_of (48 + n)] else decimal (n div 10) @ [char_of (48 + n mod 10)])"

declare decimal.simps [simp del]

definition is_digit :: "char \<Rightarrow> bool" where
  "is_digit c \<longleftrightarrow> 48 \<le> (of_char c :: nat) \<and> of_char c \<le> (57 :: nat)"

definition read_decimal :: "string \<Rightarrow> nat" where
  "read_decimal s = foldl (\<lambda>n c. 10 * n + (of_char c - 48)) 0 s"

definition stoi :: "string \<Rightarrow> int result" where
  "stoi s =
     (let s = dropWhile (\<lambda>c. of_char c = (32 :: nat) \<or> 9 \<le> (of_char c :: nat) \<and> of_char c \<le> (13 :: nat)) s;
          neg = (s \<noteq> [] \<and> hd s = CHR ''-'');
          s = (if s \<noteq> [] \<and> (hd s = CHR ''-'' \<or> hd s = CHR ''+'') then tl s else s);
          ds = takeWhile is_digit s;
          v = (if neg then - int (read_decimal ds) else int (read_decimal ds))
      in if ds = [] then Inl (Throws ''stoi'')
         else if v < - (2 ^ 31) \<or> v \<ge> 2 ^ 31 then Inl (Throws ''stoi'')
         else Inr v)"

lemma digit_of_nat:
  assumes "k < 10"
  shows "of_char (char_of (48 + k) :: char) = 48 + (k :: nat)"
  using assms by (simp add: of_char_of)

lemma read_decimal_decimal [simp]: "read_decimal (decimal n) = n"
proof (induction n rule: decimal.induct)
  case (1 n)
  show ?case
  proof (cases "n < 10")
    case True
    then show ?thesis by (subst decimal.simps) (simp add: read_decimal_def digit_of_nat)
  next
    case False
    then have "read_decimal (decimal (n div 10)) = n div 10" using 1 by simp
    then show ?thesis
      using False by (subst decimal.simps) (simp add: read_decimal_def digit_of_nat)
  qed
qed

lemma decimal_digits: "\<forall>c \<in> set (decimal n). is_digit c" and decimal_nonempty: "decimal n \<noteq> []"
proof -
  show "\<forall>c \<in> set (decimal n). is_digit c"
  proof (induction n rule: decimal.induct)
    case (1 n)
    have "is_digit (char_of (48 + k))" if "k < 10" for k :: nat
      using that by (simp add: is_digit_def digit_of_nat)
    then show ?case using 1 by (subst decimal.simps) auto
  qed
  show "decimal n \<noteq> []" by (subst decimal.simps) simp
qed

lemma stoi_decimal:
  assumes "n < 2 ^ 31"
  shows "stoi (decimal n) = Inr (int n)"
proof -
  obtain c cs where d: "decimal n = c # cs" using decimal_nonempty [of n] by (cases "decimal n") auto
  then have dig: "48 \<le> (of_char c :: nat)" "of_char c \<le> (57 :: nat)" "\<forall>x \<in> set (decimal n). is_digit x"
    using decimal_digits [of n] by (simp_all add: is_digit_def)
  then have "c \<noteq> CHR ''-''" "c \<noteq> CHR ''+''" by auto
  moreover have "takeWhile is_digit (decimal n) = decimal n"
    using dig(3) by (simp add: takeWhile_eq_all_conv)
  ultimately show ?thesis
    using dig(1,2) assms read_decimal_decimal [of n] unfolding stoi_def d by (simp add: Let_def)
qed

end
