(* ===== verification/Address.thy ===== *)
theory Address
  imports Exceptions Wire
begin

text \<open>
  Socket addresses (\<open>util/address.hh\<close>, \<open>util/address.cc\<close>): the bytes of a
  \<open>sockaddr_storage\<close> on a little-endian machine, with the size that is in use.

  The resolver of the C library is a parameter: \<open>gai\<close> is \<open>getaddrinfo\<close> (node, service, flags
  and family to a return code and the bytes of the first answer), \<open>gni\<close> is \<open>getnameinfo\<close>
  with numeric host and service, \<open>gai_message\<close> is \<open>gai_strerror\<close>.
\<close>

subsection \<open>Constants and layout\<close>

definition AF_INET :: nat where "AF_INET = 2"
definition AF_INET6 :: nat where "AF_INET6 = 10"
definition AF_PACKET :: nat where "AF_PACKET = 17"
definition AI_NUMERICHOST :: nat where "AI_NUMERICHOST = 4"
definition AI_ALL :: nat where "AI_ALL = 16"
definition AI_NUMERICSERV :: nat where "AI_NUMERICSERV = 1024"
definition STORAGE_SIZE :: nat where "STORAGE_SIZE = 128"

text \<open>\<open>be32toh\<close> of the bytes of an integer in network order.\<close>

definition be_word :: "bytes \<Rightarrow> 'a::len word" where
  "be_word bs = foldl (\<lambda>w b. or (push_bit 8 w) (ucast b)) 0 bs"

record address =
  ad_size :: nat
  ad_storage :: bytes

type_synonym getaddrinfo = "string \<Rightarrow> string \<Rightarrow> nat \<Rightarrow> nat \<Rightarrow> int \<times> bytes option"
type_synonym getnameinfo = "bytes \<Rightarrow> int \<times> string \<times> string"

text \<open>\<open>ss_family\<close>, in the first two bytes.\<close>

definition address_family :: "address \<Rightarrow> nat" where
  "address_family a = unat (ad_storage a ! 0) + 256 * unat (ad_storage a ! 1)"

text \<open>A \<open>sockaddr_in\<close>.\<close>

definition sockaddr_in :: "u32 \<Rightarrow> u16 \<Rightarrow> bytes" where
  "sockaddr_in ip_address port = [2, 0] @ be_bytes port @ be_bytes ip_address @ replicate 8 0"

subsection \<open>Construction\<close>

definition address_of_raw :: "bytes \<Rightarrow> nat \<Rightarrow> address result" where
  "address_of_raw addr sz =
     (if sz > STORAGE_SIZE then Inl (Throws ''invalid sockaddr size'')
      else if length addr < sz then Inl (Undefined ''memcpy beyond the source'')
      else Inr \<lparr>ad_size = sz, ad_storage = take sz addr @ replicate (STORAGE_SIZE - sz) 0\<rparr>)"

definition address_resolve ::
  "getaddrinfo \<Rightarrow> error_category \<Rightarrow> string \<Rightarrow> string \<Rightarrow> nat \<times> nat \<Rightarrow> address result" where
  "address_resolve gai gai_message node service hints =
     (case gai node service (fst hints) (snd hints) of
        (gai_ret, resolved_address) \<Rightarrow>
          if gai_ret \<noteq> 0
          then Inl (tagged_error gai_message (''getaddrinfo('' @ node @ '', '' @ service @ '')'') gai_ret)
          else case resolved_address of
                 None \<Rightarrow> Inl (Throws ''getaddrinfo returned successfully but with no results'')
               | Some addr \<Rightarrow> address_of_raw addr (length addr))"

definition make_hints :: "nat \<Rightarrow> nat \<Rightarrow> nat \<times> nat" where
  "make_hints ai_flags ai_family = (ai_flags, ai_family)"

definition address_of_host ::
  "getaddrinfo \<Rightarrow> error_category \<Rightarrow> string \<Rightarrow> string \<Rightarrow> address result" where
  "address_of_host gai gai_message hostname service =
     address_resolve gai gai_message hostname service (make_hints AI_ALL AF_INET)"

definition address_of_ip ::
  "getaddrinfo \<Rightarrow> error_category \<Rightarrow> string \<Rightarrow> u16 \<Rightarrow> address result" where
  "address_of_ip gai gai_message ip port =
     address_resolve gai gai_message ip (decimal (unat port))
       (make_hints (AI_NUMERICHOST + AI_NUMERICSERV) AF_INET)"

definition from_ipv4_numeric :: "u32 \<Rightarrow> address result" where
  "from_ipv4_numeric ip_address = address_of_raw (sockaddr_in ip_address 0) 16"

subsection \<open>Accessors\<close>

definition address_ip_port ::
  "getnameinfo \<Rightarrow> error_category \<Rightarrow> address \<Rightarrow> (string \<times> u16) result" where
  "address_ip_port gni gai_message a =
     (case gni (take (ad_size a) (ad_storage a)) of
        (gni_ret, ip, port) \<Rightarrow>
          if gni_ret \<noteq> 0 then Inl (tagged_error gai_message ''getnameinfo'' gni_ret)
          else bind_result (stoi port) (\<lambda>p. Inr (ip, word_of_int p)))"

definition address_ip :: "getnameinfo \<Rightarrow> error_category \<Rightarrow> address \<Rightarrow> string result" where
  "address_ip gni gai_message a =
     bind_result (address_ip_port gni gai_message a) (\<lambda>(ip, port). Inr ip)"

definition address_port :: "getnameinfo \<Rightarrow> error_category \<Rightarrow> address \<Rightarrow> u16 result" where
  "address_port gni gai_message a =
     bind_result (address_ip_port gni gai_message a) (\<lambda>(ip, port). Inr port)"

definition address_to_string :: "getnameinfo \<Rightarrow> error_category \<Rightarrow> address \<Rightarrow> string result" where
  "address_to_string gni gai_message a =
     bind_result (address_ip_port gni gai_message a) (\<lambda>(ip, port).
     Inr (ip @ '':'' @ decimal (unat port)))"

definition ipv4_numeric :: "address \<Rightarrow> u32 result" where
  "ipv4_numeric a =
     (if address_family a \<noteq> AF_INET \<or> ad_size a \<noteq> 16
      then Inl (Throws ''ipv4_numeric called on non-IPV4 address'')
      else Inr (be_word (take 4 (drop 4 (ad_storage a)))))"

definition address_eq :: "address \<Rightarrow> address \<Rightarrow> bool" where
  "address_eq a b \<longleftrightarrow>
     ad_size a = ad_size b \<and> take (ad_size a) (ad_storage a) = take (ad_size a) (ad_storage b)"

text \<open>The socket address structures \<open>as\<close> is instantiated with: their size and family.\<close>

datatype sockaddr_type = Sockaddr_in | Sockaddr_in6 | Sockaddr_ll

fun sockaddr_family :: "sockaddr_type \<Rightarrow> nat" where
  "sockaddr_family Sockaddr_in = AF_INET"
| "sockaddr_family Sockaddr_in6 = AF_INET6"
| "sockaddr_family Sockaddr_ll = AF_PACKET"

fun sockaddr_size :: "sockaddr_type \<Rightarrow> nat" where
  "sockaddr_size Sockaddr_in = 16"
| "sockaddr_size Sockaddr_in6 = 28"
| "sockaddr_size Sockaddr_ll = 20"

definition address_as :: "sockaddr_type \<Rightarrow> address \<Rightarrow> bytes result" where
  "address_as t a =
     (if sockaddr_size t < ad_size a \<or> address_family a \<noteq> sockaddr_family t
      then Inl (Throws ''Address::as() conversion failure'')
      else Inr (take (sockaddr_size t) (ad_storage a)))"

subsection \<open>IPv4 addresses\<close>

lemma be_word_be:
  fixes w :: "'a::len word"
  assumes "8 dvd LENGTH('a)"
  shows "be_word (be_bytes w) = w"
proof -
  let ?N = "LENGTH('a) div 8"
  have ge: "8 \<le> LENGTH('a)" using assms by (rule dvd_imp_le) simp
  have step: "foldl (\<lambda>w b. or (push_bit 8 w) (ucast b)) (drop_bit (k * 8) w)
      (map (\<lambda>i. ucast (drop_bit ((?N - i - 1) * 8) w) :: byte) [?N - k..<?N]) = w"
    if "k \<le> ?N" for k
    using that
  proof (induction k)
    case (Suc k)
    then have u: "[?N - Suc k..<?N] = (?N - Suc k) # [?N - k..<?N]"
      by (metis Suc_diff_Suc Suc_le_eq diff_less upt_conv_Cons zero_less_Suc le_zero_eq not_gr0 less_le_trans)
    have "?N - (?N - Suc k) - 1 = k" using Suc.prems by simp
    with Suc show ?case unfolding u by (simp add: be_horner [OF ge] del: mult_Suc)
  qed simp
  have "drop_bit (?N * 8) w = 0"
    using assms by (intro bit_word_eqI) (auto simp: bit_simps dest: bit_imp_le_length)
  with step [of ?N] show ?thesis by (simp add: be_word_def be_bytes_def)
qed

definition inet_address :: "u32 \<Rightarrow> u16 \<Rightarrow> address" where
  "inet_address ip port = \<lparr>ad_size = 16, ad_storage = sockaddr_in ip port @ replicate 112 0\<rparr>"

lemma length_sockaddr_in [simp]: "length (sockaddr_in ip port) = 16"
  by (simp add: sockaddr_in_def)

lemma address_of_sockaddr_in [simp]:
  "address_of_raw (sockaddr_in ip port) 16 = Inr (inet_address ip port)"
  by (simp add: address_of_raw_def inet_address_def STORAGE_SIZE_def)

lemma from_ipv4_numeric_inet: "from_ipv4_numeric n = Inr (inet_address n 0)"
  by (simp add: from_ipv4_numeric_def)

lemma ipv4_numeric_inet [simp]: "ipv4_numeric (inet_address ip port) = Inr ip"
proof -
  have "take 4 (drop 4 (ad_storage (inet_address ip port))) = be_bytes ip"
    by (simp add: inet_address_def sockaddr_in_def)
  moreover have "address_family (inet_address ip port) = AF_INET"
    by (simp add: address_family_def inet_address_def sockaddr_in_def AF_INET_def)
  ultimately show ?thesis
    by (simp add: ipv4_numeric_def be_word_be) (simp add: inet_address_def)
qed

lemma inet_address_inject:
  "inet_address ip port = inet_address ip' port' \<longleftrightarrow> ip = ip' \<and> port = port'"
proof
  assume "inet_address ip port = inet_address ip' port'"
  then have s: "sockaddr_in ip port = sockaddr_in ip' port'" by (simp add: inet_address_def)
  then have "be_bytes port = be_bytes port' \<and> be_bytes ip = be_bytes ip'"
    by (simp add: sockaddr_in_def append_eq_append_conv)
  moreover have "be_word (be_bytes w) = w" for w :: u16 by (rule be_word_be) simp
  moreover have "be_word (be_bytes w) = w" for w :: u32 by (rule be_word_be) simp
  ultimately show "ip = ip' \<and> port = port'" by metis
qed simp

text \<open>The documented behaviour of \<open>getaddrinfo\<close> on a decimal number, and of \<open>getnameinfo\<close>.\<close>

definition resolves_numbers :: "getaddrinfo \<Rightarrow> bool" where
  "resolves_numbers gai \<longleftrightarrow>
     (\<forall>ip port. gai (decimal (unat (ip :: u32))) (decimal (unat (port :: u16)))
        (AI_NUMERICHOST + AI_NUMERICSERV) AF_INET = (0, Some (sockaddr_in ip port)))"

definition names_ports :: "getnameinfo \<Rightarrow> bool" where
  "names_ports gni \<longleftrightarrow>
     (\<forall>ip port. \<exists>host. gni (sockaddr_in ip port) = (0, host, decimal (unat port)))"

lemma address_of_ip_decimal:
  assumes "resolves_numbers gai"
  shows "address_of_ip gai gai_message (decimal (unat ip)) port = Inr (inet_address ip port)"
  using assms by (simp add: address_of_ip_def address_resolve_def make_hints_def resolves_numbers_def)

lemma address_port_inet:
  assumes "names_ports gni"
  shows "address_port gni gai_message (inet_address ip port) = Inr port"
proof -
  have "take 16 (ad_storage (inet_address ip port)) = sockaddr_in ip port"
    by (simp add: inet_address_def)
  moreover obtain host where "gni (sockaddr_in ip port) = (0, host, decimal (unat port))"
    using assms by (metis names_ports_def)
  moreover have "stoi (decimal (unat port)) = Inr (int (unat port))"
    by (rule stoi_decimal) (rule less_trans [OF u16_less], simp)
  ultimately show ?thesis
    by (simp add: address_port_def address_ip_port_def) (simp add: inet_address_def)
qed

text \<open>A resolver that reads numbers, for the examples.\<close>

definition numeric_gai :: getaddrinfo where
  "numeric_gai node service flags family =
     (0, Some (sockaddr_in (of_nat (read_decimal node)) (of_nat (read_decimal service))))"

definition numeric_gni :: getnameinfo where
  "numeric_gni raw =
     (0, decimal (unat (be_word (take 4 (drop 4 raw)) :: u32)), decimal (unat (be_word (take 2 (drop 2 raw)) :: u16)))"

lemma numeric_gai_ok: "resolves_numbers numeric_gai"
  by (simp add: resolves_numbers_def numeric_gai_def)

lemma numeric_gni_ok: "names_ports numeric_gni"
proof -
  have "be_word (be_bytes w) = w" for w :: u16 by (rule be_word_be) simp
  then show ?thesis by (simp add: names_ports_def numeric_gni_def sockaddr_in_def)
qed

subsection \<open>Properties\<close>

text \<open>
  An address made from a decimal IP number and a port gives both back, and is equal
  to the address made from the number alone exactly when its port is 0; an address of
  another family or size is refused by \<open>ipv4_numeric\<close>.
\<close>

theorem address_roundtrip:
  assumes "resolves_numbers gai" and "names_ports gni"
  shows "\<exists>a b. address_of_ip gai gai_message (decimal (unat ip)) port = Inr a \<and>
           ipv4_numeric a = Inr ip \<and> address_port gni gai_message a = Inr port \<and>
           from_ipv4_numeric ip = Inr b \<and> ipv4_numeric b = Inr ip \<and>
           (address_eq a b \<longleftrightarrow> port = 0) \<and>
           ipv4_numeric (a\<lparr>ad_size := 28\<rparr>) =
             Inl (Throws ''ipv4_numeric called on non-IPV4 address'')"
proof -
  have "address_eq (inet_address ip port) (inet_address ip 0) \<longleftrightarrow> port = 0"
  proof -
    have "sockaddr_in ip port = sockaddr_in ip 0 \<longleftrightarrow> inet_address ip port = inet_address ip 0"
      by (simp add: inet_address_def)
    then show ?thesis
      unfolding inet_address_inject by (simp add: address_eq_def inet_address_def)
  qed
  then show ?thesis
    using address_of_ip_decimal [OF assms(1)] address_port_inet [OF assms(2)]
    by (intro exI [of _ "inet_address ip port"] exI [of _ "inet_address ip 0"])
       (simp add: from_ipv4_numeric_inet, simp add: ipv4_numeric_def)
qed

theorem address_roundtrip_witness:
  "\<exists>a. address_of_ip numeric_gai (\<lambda>e. []) (decimal (unat (16843009 :: u32))) 80 = Inr a \<and>
       ipv4_numeric a = Inr 16843009 \<and> address_port numeric_gni (\<lambda>e. []) a = Inr 80"
  using address_roundtrip [OF numeric_gai_ok numeric_gni_ok, of "\<lambda>e. []" 16843009 80] by blast

end
