(* ===== verification/Outbox.thy ===== *)
theory Outbox
  imports Prelude
begin

text \<open>
  Queues that are emptied by asking for one element at a time: \<open>NetworkInterface::maybe_send\<close>,
  \<open>AsyncNetworkInterface::maybe_receive\<close> and the callers that loop
  \<open>while (auto x = maybe_take())\<close> around them.
\<close>

subsection \<open>The loop of the callers\<close>

text \<open>
  \<open>None\<close> is a loop that does not end.  Each element taken is handled by \<open>use\<close>, which may
  fail and may change a state of its own.
\<close>

partial_function (option) drain_loop ::
  "('s \<Rightarrow> 's \<times> 'a option) \<Rightarrow> ('a \<Rightarrow> 'w \<Rightarrow> 'w result) \<Rightarrow> 's \<Rightarrow> 'w \<Rightarrow> ('s \<times> 'w result) option" where
  "drain_loop take_one use s w =
     (case take_one s of (s, None) \<Rightarrow> Some (s, Inr w)
      | (s, Some x) \<Rightarrow>
          (case use x w of Inl e \<Rightarrow> Some (s, Inl e) | Inr w \<Rightarrow> drain_loop take_one use s w))"

fun use_all :: "('a \<Rightarrow> 'w \<Rightarrow> 'w result) \<Rightarrow> 'a list \<Rightarrow> 'w \<Rightarrow> 'w result" where
  "use_all use [] w = Inr w"
| "use_all use (x # xs) w = bind_result (use x w) (use_all use xs)"

lemma use_all_append:
  "use_all use (xs @ ys) w = bind_result (use_all use xs w) (use_all use ys)"
proof (induction xs arbitrary: w)
  case (Cons x xs)
  have "use_all use (xs @ ys) = (\<lambda>w. bind_result (use_all use xs w) (use_all use ys))"
    using Cons.IH by blast
  then show ?case by (simp add: bind_result_assoc)
qed simp

lemma use_all_push: "use_all (\<lambda>x w. Inr (w @ [f x])) xs w = Inr (w @ map f xs)"
  by (induction xs arbitrary: w) simp_all

subsection \<open>The interface\<close>

text \<open>
  Taking yields the first element of the queue and leaves the rest of the queue and of the
  state, \<open>frame s\<close>, as they are.
\<close>

locale outbox =
  fixes take_one :: "'s \<Rightarrow> 's \<times> 'a option"
    and queue :: "'s \<Rightarrow> 'a list"
    and frame :: "'s \<Rightarrow> 'f"
  assumes take_empty: "queue s = [] \<Longrightarrow> take_one s = (s, None)"
    and take_first: "queue s = x # xs \<Longrightarrow> \<exists>s'. take_one s = (s', Some x) \<and> queue s' = xs \<and> frame s' = frame s"
begin

lemma drain_total:
  assumes "use_all use (queue s) w = Inr w'"
  shows "\<exists>s'. drain_loop take_one use s w = Some (s', Inr w') \<and> queue s' = [] \<and> frame s' = frame s"
  using assms
proof (induction "queue s" arbitrary: s w)
  case Nil
  then show ?case using take_empty [of s] by (subst drain_loop.simps) simp
next
  case (Cons x xs)
  from Cons.hyps(2) have q: "queue s = x # xs" by simp
  from take_first [OF this] obtain s' where
    s': "take_one s = (s', Some x)" "queue s' = xs" "frame s' = frame s" by blast
  from Cons.prems q obtain w1 where w1: "use x w = Inr w1" "use_all use (queue s') w1 = Inr w'"
    using s'(2) by auto
  from Cons.hyps(1) [OF s'(2) [symmetric] w1(2)] s'(3) show ?case
    by (subst drain_loop.simps) (simp add: s'(1) w1(1))
qed

lemma drain_ends: "\<exists>s' r. drain_loop take_one use s w = Some (s', r) \<and> frame s' = frame s"
proof (induction "queue s" arbitrary: s w)
  case Nil
  then show ?case using take_empty [of s] by (subst drain_loop.simps) simp
next
  case (Cons x xs)
  from Cons.hyps(2) have q: "queue s = x # xs" by simp
  from take_first [OF this] obtain s' where
    s': "take_one s = (s', Some x)" "queue s' = xs" "frame s' = frame s" by blast
  show ?case
  proof (cases "use x w")
    case (Inl e)
    then show ?thesis using s' by (subst drain_loop.simps) simp
  next
    case (Inr w1)
    from Cons.hyps(1) [OF s'(2) [symmetric], of w1] s'(3) show ?thesis
      by (subst drain_loop.simps) (simp add: s'(1) Inr)
  qed
qed

lemma drain_result_ends:
  assumes "drain_loop take_one use s w = Some (s', r)" and "\<And>x w. ends (use x w)"
  shows "ends r"
  using assms(1)
proof (induction "queue s" arbitrary: s w)
  case Nil
  then show ?case using take_empty [of s] by (subst (asm) drain_loop.simps) auto
next
  case (Cons x xs)
  from take_first [OF Cons.hyps(2) [symmetric]] obtain s1 where s1: "take_one s = (s1, Some x)" "queue s1 = xs" by blast
  show ?case
  proof (cases "use x w")
    case (Inl e)
    with Cons.prems assms(2) [of x w] s1(1) show ?thesis by (subst (asm) drain_loop.simps) (auto simp: ends_def)
  next
    case (Inr w1)
    have "drain_loop take_one use s1 w1 = Some (s', r)"
      using Cons.prems s1(1) Inr by (subst (asm) drain_loop.simps) simp
    from Cons.hyps(1) [OF s1(2) [symmetric] this] show ?thesis .
  qed
qed

end

end
