(* ===== verification/Network_Interface.thy ===== *)
theory Network_Interface
  imports Ethernet Ipv4 Address Outbox
begin

text \<open>
  The network interface of \<open>src/network_interface.hh\<close> and \<open>src/network_interface.cc\<close>: it
  maps IP addresses to Ethernet addresses by ARP, keeps datagrams waiting for an address,
  and forgets a mapping after 30 seconds.

  The constructor of \<open>Address\<close> from a name and a port, which calls the resolver, is the
  argument \<open>resolve\<close> (\<open>address_of_ip\<close> for some \<open>getaddrinfo\<close>).

  An iterator into the \<open>std::unordered_map\<close> is the key and the identity of the node it points
  to, with the number of times the table had been rehashed when it was made: assigning to a
  present key keeps its node, inserting makes a new one, and an insertion that finds the table
  full rehashes it, which invalidates all iterators that were made before.  Erasing through an
  iterator that was invalidated, or whose node is gone, is undefined.  How many nodes the table
  takes is left to the library: \<open>ni_map_limit ni i\<close> is what it takes after \<open>i\<close> rehashes.
\<close>

type_synonym resolver = "string \<Rightarrow> u16 \<Rightarrow> address result"

text \<open>The documented behaviour of the resolver on a decimal IPv4 number.\<close>

definition resolves_decimal :: "resolver \<Rightarrow> bool" where
  "resolves_decimal resolve \<longleftrightarrow>
     (\<forall>n port. resolve (decimal (unat (n :: u32))) port = Inr (inet_address n port))"

lemma address_of_ip_resolves: "resolves_numbers gai \<Longrightarrow> resolves_decimal (address_of_ip gai gai_message)"
  by (simp add: resolves_decimal_def address_of_ip_decimal)

subsection \<open>State\<close>

record map_node =
  mn_id :: nat
  mn_address :: ethernet_address

record map_time_entry =
  te_expiration_time :: u64
  te_key :: u32
  te_node :: nat
  te_table :: nat

record network_interface =
  ni_ethernet_address :: ethernet_address
  ni_ip_address :: address
  ni_time_alive :: u64
  ni_ip_eth_map :: "u32 \<rightharpoonup> map_node"
  ni_next_node :: nat
  ni_map_size :: nat
  ni_map_limit :: "nat \<Rightarrow> nat"
  ni_map_table :: nat
  ni_time_entries :: "map_time_entry list"
  ni_datagram_qs :: "u32 \<rightharpoonup> ipv4_datagram list"
  ni_arp_request_times :: "u32 \<rightharpoonup> u64"
  ni_ethernet_q :: "ethernet_frame list"

definition new_network_interface ::
  "(nat \<Rightarrow> nat) \<Rightarrow> ethernet_address \<Rightarrow> address \<Rightarrow> network_interface" where
  "new_network_interface map_limit ethernet_address ip_address =
     \<lparr>ni_ethernet_address = ethernet_address, ni_ip_address = ip_address, ni_time_alive = 0,
      ni_ip_eth_map = Map.empty, ni_next_node = 0, ni_map_size = 0,
      ni_map_limit = map_limit, ni_map_table = 0, ni_time_entries = [],
      ni_datagram_qs = Map.empty, ni_arp_request_times = Map.empty, ni_ethernet_q = []\<rparr>"

subsection \<open>Operations\<close>

definition frame_create ::
  "ethernet_address \<Rightarrow> ethernet_address \<Rightarrow> u16 \<Rightarrow> bytes list \<Rightarrow> ethernet_frame" where
  "frame_create src dst type payload =
     \<lparr>ef_header = \<lparr>eh_dst = dst, eh_src = src, eh_type = type\<rparr>, ef_payload = payload\<rparr>"

definition arp_create ::
  "resolver \<Rightarrow> u16 \<Rightarrow> ethernet_address \<Rightarrow> string \<Rightarrow> ethernet_address \<Rightarrow> string \<Rightarrow> arp_message result" where
  "arp_create resolve opcode sender_ethernet_address sender_ip_address
     target_ethernet_address target_ip_address =
     bind_result (resolve sender_ip_address 0) (\<lambda>sender.
     bind_result (ipv4_numeric sender) (\<lambda>sender_ip.
     bind_result (resolve target_ip_address 0) (\<lambda>target.
     bind_result (ipv4_numeric target) (\<lambda>target_ip.
     Inr (empty_arp_message
       \<lparr>arp_opcode := opcode, arp_sender_ethernet_address := sender_ethernet_address,
        arp_sender_ip_address := sender_ip,
        arp_target_ethernet_address := target_ethernet_address,
        arp_target_ip_address := target_ip\<rparr>)))))"

definition send_datagram ::
  "resolver \<Rightarrow> ipv4_datagram \<Rightarrow> address \<Rightarrow> network_interface \<Rightarrow> network_interface result" where
  "send_datagram resolve dgram next_hop ni =
     bind_result (ipv4_numeric next_hop) (\<lambda>next_hop_addr.
     case ni_ip_eth_map ni next_hop_addr of
       Some node \<Rightarrow>
         bind_result (serialize_datagram dgram) (\<lambda>payload.
         let eth_frame = frame_create (ni_ethernet_address ni) (mn_address node) TYPE_IPv4 payload
         in Inr (ni\<lparr>ni_ethernet_q := ni_ethernet_q ni @ [eth_frame]\<rparr>))
     | None \<Rightarrow>
         let waiting = (case ni_datagram_qs ni next_hop_addr of None \<Rightarrow> [] | Some q \<Rightarrow> q);
             ni = ni\<lparr>ni_datagram_qs := (ni_datagram_qs ni)(next_hop_addr \<mapsto> waiting @ [dgram])\<rparr>
         in if (case ni_arp_request_times ni next_hop_addr of
                  None \<Rightarrow> True
                | Some t \<Rightarrow> ni_time_alive ni - t > 5000)
            then
              bind_result (ipv4_numeric (ni_ip_address ni)) (\<lambda>own_addr.
              bind_result (arp_create resolve OPCODE_REQUEST (ni_ethernet_address ni)
                             (decimal (unat own_addr)) (replicate 6 0)
                             (decimal (unat next_hop_addr))) (\<lambda>arp_message.
              bind_result (serialize_object (arp_serialize arp_message)) (\<lambda>payload.
              let arp_eth_frame = frame_create (ni_ethernet_address ni) ETHERNET_BROADCAST
                                    TYPE_ARP payload
              in Inr (ni\<lparr>ni_ethernet_q := ni_ethernet_q ni @ [arp_eth_frame],
                         ni_arp_request_times :=
                           (ni_arp_request_times ni)(next_hop_addr \<mapsto> ni_time_alive ni)\<rparr>))))
            else Inr ni)"

text \<open>\<open>ip_eth_map_[key] = address\<close>; an insertion into a full table rehashes it.\<close>

definition map_has_room :: "network_interface \<Rightarrow> bool" where
  "map_has_room ni \<longleftrightarrow> ni_map_size ni < ni_map_limit ni (ni_map_table ni)"

definition map_assign :: "u32 \<Rightarrow> ethernet_address \<Rightarrow> network_interface \<Rightarrow> network_interface" where
  "map_assign key a ni =
     (case ni_ip_eth_map ni key of
        Some node \<Rightarrow>
          ni\<lparr>ni_ip_eth_map := (ni_ip_eth_map ni)(key \<mapsto> node\<lparr>mn_address := a\<rparr>)\<rparr>
      | None \<Rightarrow>
          ni\<lparr>ni_ip_eth_map := (ni_ip_eth_map ni)(key \<mapsto> \<lparr>mn_id = ni_next_node ni, mn_address = a\<rparr>),
             ni_next_node := ni_next_node ni + 1, ni_map_size := ni_map_size ni + 1,
             ni_map_table := (if map_has_room ni then ni_map_table ni else ni_map_table ni + 1)\<rparr>)"

text \<open>The \<open>std::set\<close> of time entries compares only expiration times.\<close>

fun time_entry_insert :: "map_time_entry \<Rightarrow> map_time_entry list \<Rightarrow> map_time_entry list" where
  "time_entry_insert e [] = [e]"
| "time_entry_insert e (x # xs) =
     (if te_expiration_time e < te_expiration_time x then e # x # xs
      else if te_expiration_time x < te_expiration_time e then x # time_entry_insert e xs
      else x # xs)"

text \<open>The mapping a parsed ARP message teaches, and the datagrams that waited for it.\<close>

definition learn_mapping :: "arp_message \<Rightarrow> network_interface \<Rightarrow> network_interface" where
  "learn_mapping arp_msg ni =
     (let key = arp_sender_ip_address arp_msg;
          ni = map_assign key (arp_sender_ethernet_address arp_msg) ni;
          mte = \<lparr>te_expiration_time = ni_time_alive ni + 30000, te_key = key,
                 te_node = (case ni_ip_eth_map ni key of Some node \<Rightarrow> mn_id node | None \<Rightarrow> 0),
                 te_table = ni_map_table ni\<rparr>
      in ni\<lparr>ni_time_entries := time_entry_insert mte (ni_time_entries ni)\<rparr>)"

fun send_waiting ::
  "ethernet_address \<Rightarrow> ipv4_datagram list \<Rightarrow> network_interface \<Rightarrow> network_interface result" where
  "send_waiting dst [] ni = Inr ni"
| "send_waiting dst (dgram # dgrams) ni =
     bind_result (serialize_datagram dgram) (\<lambda>payload.
     let eth_frame = frame_create (ni_ethernet_address ni) dst TYPE_IPv4 payload
     in send_waiting dst dgrams (ni\<lparr>ni_ethernet_q := ni_ethernet_q ni @ [eth_frame]\<rparr>))"

definition arp_received ::
  "resolver \<Rightarrow> arp_message \<Rightarrow> network_interface \<Rightarrow> network_interface result" where
  "arp_received resolve arp_msg ni =
     (let key = arp_sender_ip_address arp_msg;
          ni = learn_mapping arp_msg ni
      in bind_result (send_waiting (arp_sender_ethernet_address arp_msg)
                        (case ni_datagram_qs ni key of None \<Rightarrow> [] | Some q \<Rightarrow> q) ni) (\<lambda>ni.
         let ni = ni\<lparr>ni_datagram_qs := (ni_datagram_qs ni)(key \<mapsto> []),
                     ni_arp_request_times := (ni_arp_request_times ni)(key := None)\<rparr>
         in if arp_opcode arp_msg = OPCODE_REQUEST then
              bind_result (ipv4_numeric (ni_ip_address ni)) (\<lambda>own_addr.
              if arp_target_ip_address arp_msg \<noteq> own_addr then Inr ni
              else
                bind_result (arp_create resolve OPCODE_REPLY (ni_ethernet_address ni)
                               (decimal (unat own_addr)) (arp_sender_ethernet_address arp_msg)
                               (decimal (unat (arp_sender_ip_address arp_msg)))) (\<lambda>arp_reply.
                bind_result (serialize_object (arp_serialize arp_reply)) (\<lambda>payload.
                let eth_frame = frame_create (ni_ethernet_address ni)
                                  (arp_sender_ethernet_address arp_msg) TYPE_ARP payload
                in Inr (ni\<lparr>ni_ethernet_q := ni_ethernet_q ni @ [eth_frame]\<rparr>))))
            else Inr ni))"

definition recv_frame ::
  "resolver \<Rightarrow> ethernet_frame \<Rightarrow> network_interface \<Rightarrow>
   (network_interface \<times> ipv4_datagram option) result" where
  "recv_frame resolve frame ni =
     (if eh_dst (ef_header frame) \<noteq> ni_ethernet_address ni \<and>
         eh_dst (ef_header frame) \<noteq> ETHERNET_BROADCAST then Inr (ni, None)
      else if eh_type (ef_header frame) = TYPE_IPv4 then
        bind_result (parse_object (ipv4_datagram_parse empty_ipv4_datagram) (ef_payload frame))
          (\<lambda>(dgram, parse_success). Inr (ni, if parse_success then Some dgram else None))
      else if eh_type (ef_header frame) = TYPE_ARP then
        bind_result (parse_object (arp_parse empty_arp_message) (ef_payload frame))
          (\<lambda>(arp_msg, parse_success).
             if parse_success
             then bind_result (arp_received resolve arp_msg ni) (\<lambda>ni. Inr (ni, None))
             else Inr (ni, None))
      else Inr (ni, None))"

fun expire_entries :: "map_time_entry list \<Rightarrow> network_interface \<Rightarrow> network_interface result" where
  "expire_entries [] ni = Inr (ni\<lparr>ni_time_entries := []\<rparr>)"
| "expire_entries (e # es) ni =
     (if te_expiration_time e \<le> ni_time_alive ni then
        (case ni_ip_eth_map ni (te_key e) of
           Some node \<Rightarrow>
             if mn_id node = te_node e \<and> te_table e = ni_map_table ni
             then expire_entries es (ni\<lparr>ni_ip_eth_map := (ni_ip_eth_map ni)(te_key e := None),
                                       ni_map_size := ni_map_size ni - 1\<rparr>)
             else Inl (Undefined ''erase of an invalid iterator'')
         | None \<Rightarrow> Inl (Undefined ''erase of an invalid iterator''))
      else Inr (ni\<lparr>ni_time_entries := e # es\<rparr>))"

definition ni_tick :: "u64 \<Rightarrow> network_interface \<Rightarrow> network_interface result" where
  "ni_tick ms_since_last_tick ni =
     (let ni = ni\<lparr>ni_time_alive := ni_time_alive ni + ms_since_last_tick\<rparr>
      in expire_entries (ni_time_entries ni) ni)"

definition ni_maybe_send ::
  "network_interface \<Rightarrow> network_interface \<times> ethernet_frame option" where
  "ni_maybe_send ni =
     (case ni_ethernet_q ni of
        [] \<Rightarrow> (ni, None)
      | frame # frames \<Rightarrow> (ni\<lparr>ni_ethernet_q := frames\<rparr>, Some frame))"

interpretation frames: outbox ni_maybe_send ni_ethernet_q "\<lambda>ni. ni\<lparr>ni_ethernet_q := []\<rparr>"
  by unfold_locales (auto simp: ni_maybe_send_def)

subsection \<open>Learning and expiring mappings\<close>

text \<open>
  The entries are in the order of their expiration, and each points to the node of its
  mapping in the present table.
\<close>

definition entries_valid :: "network_interface \<Rightarrow> bool" where
  "entries_valid ni \<longleftrightarrow>
     sorted_wrt (<) (map te_expiration_time (ni_time_entries ni)) \<and>
     distinct (map te_key (ni_time_entries ni)) \<and>
     (\<forall>e \<in> set (ni_time_entries ni).
        map_option mn_id (ni_ip_eth_map ni (te_key e)) = Some (te_node e) \<and>
        te_table e = ni_map_table ni)"

text \<open>Moreover, every mapping has a time entry.\<close>

definition entries_ok :: "network_interface \<Rightarrow> bool" where
  "entries_ok ni \<longleftrightarrow>
     entries_valid ni \<and> te_key ` set (ni_time_entries ni) = dom (ni_ip_eth_map ni)"

lemma entries_ok_new: "entries_ok (new_network_interface limit a ip)"
  by (simp add: entries_ok_def entries_valid_def new_network_interface_def)

lemma expire_entries_time_entries:
  "expire_entries es (n\<lparr>ni_time_entries := xs\<rparr>) = expire_entries es n"
proof (induction es arbitrary: n)
  case (Cons e es)
  have swap: "n\<lparr>ni_time_entries := xs, ni_ip_eth_map := m, ni_map_size := c\<rparr> =
      n\<lparr>ni_ip_eth_map := m, ni_map_size := c, ni_time_entries := xs\<rparr>"
    for m c by simp
  show ?case by (simp add: swap Cons.IH split: option.splits)
qed simp

lemma expire_entries_valid:
  assumes "ni_time_entries ni = es" and "entries_valid ni"
  shows "\<exists>ni'. expire_entries es ni = Inr ni' \<and> entries_valid ni' \<and>
           ni_time_entries ni' = filter (\<lambda>e. ni_time_alive ni < te_expiration_time e) es \<and>
           ni_ip_eth_map ni' =
             ni_ip_eth_map ni |` (- te_key ` {e \<in> set es. te_expiration_time e \<le> ni_time_alive ni}) \<and>
           ni_time_alive ni' = ni_time_alive ni"
  using assms
proof (induction es arbitrary: ni)
  case Nil
  then show ?case by (simp add: entries_valid_def)
next
  case (Cons e es)
  note ok = Cons.prems(2) [unfolded entries_valid_def Cons.prems(1)]
  then obtain node where node: "ni_ip_eth_map ni (te_key e) = Some node" "mn_id node = te_node e"
    "te_table e = ni_map_table ni" by auto
  show ?case
  proof (cases "te_expiration_time e \<le> ni_time_alive ni")
    case False
    have later: "te_expiration_time e < te_expiration_time x" if "x \<in> set es" for x
      using ok that by auto
    then have g: "ni_time_alive ni < te_expiration_time x" if "x \<in> set (e # es)" for x
      using False that by (auto simp: not_le intro: less_trans)
    have flt: "filter (\<lambda>e. ni_time_alive ni < te_expiration_time e) (e # es) = e # es"
      and emp: "{x \<in> set (e # es). te_expiration_time x \<le> ni_time_alive ni} = {}"
      by (simp only: filter_id_conv, use g in blast) (use g in \<open>force simp: not_le [symmetric]\<close>)
    have same: "ni\<lparr>ni_time_entries := e # es\<rparr> = ni" using Cons.prems(1) by simp
    have E: "expire_entries (e # es) ni = Inr ni"
      using False by (simp only: expire_entries.simps if_False same)
    have R: "ni_ip_eth_map ni |` (- te_key ` {}) = ni_ip_eth_map ni" by (simp add: restrict_map_def)
    show ?thesis unfolding flt emp E R using Cons.prems by simp
  next
    case True
    let ?ni = "ni\<lparr>ni_ip_eth_map := (ni_ip_eth_map ni)(te_key e := None),
        ni_map_size := ni_map_size ni - 1, ni_time_entries := es\<rparr>"
    have nk: "te_key x \<noteq> te_key e" if "x \<in> set es" for x
      using ok that by (metis distinct.simps(2) image_eqI list.simps(9) set_map)
    have te: "ni_time_entries ?ni = es" by simp
    have "entries_valid ?ni" using ok nk by (auto simp: entries_valid_def)
    from Cons.IH [OF te this] obtain ni' where ni': "expire_entries es ?ni = Inr ni'" "entries_valid ni'"
      "ni_time_entries ni' = filter (\<lambda>e. ni_time_alive ?ni < te_expiration_time e) es"
      "ni_ip_eth_map ni' = ni_ip_eth_map ?ni |`
          (- te_key ` {e \<in> set es. te_expiration_time e \<le> ni_time_alive ?ni})"
      "ni_time_alive ni' = ni_time_alive ?ni"
      by (elim exE conjE) (rule that)
    have "expire_entries (e # es) ni = Inr ni'"
      using True node ni'(1)
      by (simp add: expire_entries_time_entries)
    moreover have "ni_ip_eth_map ni' =
        ni_ip_eth_map ni |` (- te_key ` {x \<in> set (e # es). te_expiration_time x \<le> ni_time_alive ni})"
      unfolding ni'(4) using True by (auto simp: restrict_map_def fun_eq_iff)
    ultimately show ?thesis
      using ni'(2,3,5) True by (intro exI [of _ ni']) simp
  qed
qed

text \<open>Learning the address of a new host keeps the invariant when the clock has moved.\<close>

lemma time_entry_insert_last:
  "\<forall>x \<in> set es. te_expiration_time x < te_expiration_time e \<Longrightarrow> time_entry_insert e es = es @ [e]"
  by (induction es) (auto simp: not_less_iff_gr_or_eq)

lemma time_entry_insert_same:
  "\<forall>x \<in> set es. te_expiration_time x < te_expiration_time e \<Longrightarrow>
     te_expiration_time y = te_expiration_time e \<Longrightarrow>
     time_entry_insert e (es @ [y]) = es @ [y]"
  by (induction es) (auto simp: not_less_iff_gr_or_eq)

lemma learn_mapping_fields:
  "ni_time_alive (learn_mapping m ni) = ni_time_alive ni"
  "ni_ethernet_q (learn_mapping m ni) = ni_ethernet_q ni"
  "ni_datagram_qs (learn_mapping m ni) = ni_datagram_qs ni"
  "ni_ethernet_address (learn_mapping m ni) = ni_ethernet_address ni"
  "ni_ip_address (learn_mapping m ni) = ni_ip_address ni"
  "ni_arp_request_times (learn_mapping m ni) = ni_arp_request_times ni"
  by (simp_all add: learn_mapping_def map_assign_def Let_def split: option.split)

lemma learn_mapping_map:
  "map_option mn_address (ni_ip_eth_map (learn_mapping m ni) k) =
     (if k = arp_sender_ip_address m then Some (arp_sender_ethernet_address m)
      else map_option mn_address (ni_ip_eth_map ni k))"
  by (simp add: learn_mapping_def map_assign_def Let_def split: option.split)

lemma learn_mapping_entries_ok:
  assumes "entries_ok ni" and "ni_ip_eth_map ni (arp_sender_ip_address m) = None"
    and "\<forall>e \<in> set (ni_time_entries ni). te_expiration_time e < ni_time_alive ni + 30000"
    and "map_has_room ni \<or> ni_time_entries ni = []"
  shows "entries_ok (learn_mapping m ni)"
proof -
  have nk: "arp_sender_ip_address m \<notin> te_key ` set (ni_time_entries ni)"
    using assms(1,2) by (auto simp: entries_ok_def)
  have "time_entry_insert e (ni_time_entries ni) = ni_time_entries ni @ [e]"
    if "te_expiration_time e = ni_time_alive ni + 30000" for e
    using assms(3) that by (intro time_entry_insert_last) simp
  then show ?thesis
    using assms nk
    by (auto simp: learn_mapping_def map_assign_def Let_def entries_ok_def entries_valid_def sorted_wrt_append image_iff)
qed

subsection \<open>ARP messages between interfaces\<close>

text \<open>What an entry relies on besides the entries: the map with its table, and the clock.\<close>

definition same_map :: "network_interface \<Rightarrow> network_interface \<Rightarrow> bool" where
  "same_map x y \<longleftrightarrow>
     ni_ip_eth_map y = ni_ip_eth_map x \<and> ni_time_entries y = ni_time_entries x \<and>
     ni_time_alive y = ni_time_alive x \<and> ni_map_size y = ni_map_size x \<and>
     ni_map_limit y = ni_map_limit x \<and> ni_map_table y = ni_map_table x"

lemma same_map_refl [simp]: "same_map x x"
  by (simp add: same_map_def)

lemma same_map_trans: "same_map x y \<Longrightarrow> same_map y z \<Longrightarrow> same_map x z"
  by (simp add: same_map_def)

lemma same_map_entries:
  assumes "same_map x y"
  shows "entries_valid y \<longleftrightarrow> entries_valid x" and "entries_ok y \<longleftrightarrow> entries_ok x"
    and "map_has_room y \<longleftrightarrow> map_has_room x"
  using assms by (simp_all add: same_map_def entries_valid_def entries_ok_def map_has_room_def)

lemma send_waiting_fields:
  "send_waiting a ds x = Inr y \<Longrightarrow> same_map x y"
proof (induction ds arbitrary: x)
  case (Cons d ds)
  from Cons.prems obtain payload where
    "send_waiting a ds (x\<lparr>ni_ethernet_q := ni_ethernet_q x @
       [frame_create (ni_ethernet_address x) a TYPE_IPv4 payload]\<rparr>) = Inr y"
    by (auto simp: Let_def)
  from Cons.IH [OF this] show ?case by (simp add: same_map_def)
qed simp

lemma arp_received_cases:
  assumes "arp_received resolve m ni = Inr ni'"
  obtains x y where "send_waiting (arp_sender_ethernet_address m)
      (case ni_datagram_qs (learn_mapping m ni) (arp_sender_ip_address m) of None \<Rightarrow> [] | Some q \<Rightarrow> q)
      (learn_mapping m ni) = Inr x"
    and "y = x\<lparr>ni_datagram_qs := (ni_datagram_qs x)(arp_sender_ip_address m \<mapsto> []),
      ni_arp_request_times := (ni_arp_request_times x)(arp_sender_ip_address m := None)\<rparr>"
    and "ni' = y \<or> (\<exists>payload. ni' = y\<lparr>ni_ethernet_q := ni_ethernet_q y @ [frame_create (ni_ethernet_address y)
      (arp_sender_ethernet_address m) TYPE_ARP payload]\<rparr>)"
proof -
  let ?ds = "case ni_datagram_qs (learn_mapping m ni) (arp_sender_ip_address m) of None \<Rightarrow> [] | Some q \<Rightarrow> q"
  from assms obtain x where x: "send_waiting (arp_sender_ethernet_address m) ?ds (learn_mapping m ni) = Inr x"
    unfolding arp_received_def Let_def bind_result_Inr_iff by blast
  let ?y = "x\<lparr>ni_datagram_qs := (ni_datagram_qs x)(arp_sender_ip_address m \<mapsto> []),
      ni_arp_request_times := (ni_arp_request_times x)(arp_sender_ip_address m := None)\<rparr>"
  from assms x have "ni' = ?y \<or> (\<exists>payload. ni' = ?y\<lparr>ni_ethernet_q := ni_ethernet_q ?y @ [frame_create
      (ni_ethernet_address ?y) (arp_sender_ethernet_address m) TYPE_ARP payload]\<rparr>)"
    unfolding arp_received_def Let_def
    by (simp only: bind_result.simps) (auto split: if_splits)
  then show thesis by (rule that [OF x refl])
qed

lemma arp_received_fields:
  assumes "arp_received resolve m ni = Inr ni'"
  shows "same_map (learn_mapping m ni) ni'"
  using assms
proof (rule arp_received_cases)
  fix x y
  assume x: "send_waiting (arp_sender_ethernet_address m)
      (case ni_datagram_qs (learn_mapping m ni) (arp_sender_ip_address m) of None \<Rightarrow> [] | Some q \<Rightarrow> q)
      (learn_mapping m ni) = Inr x"
    and y: "y = x\<lparr>ni_datagram_qs := (ni_datagram_qs x)(arp_sender_ip_address m \<mapsto> []),
      ni_arp_request_times := (ni_arp_request_times x)(arp_sender_ip_address m := None)\<rparr>"
    and ni': "ni' = y \<or> (\<exists>payload. ni' = y\<lparr>ni_ethernet_q := ni_ethernet_q y @ [frame_create (ni_ethernet_address y)
      (arp_sender_ethernet_address m) TYPE_ARP payload]\<rparr>)"
  from ni' y have "same_map x ni'" by (elim disjE exE) (simp_all add: same_map_def)
  with send_waiting_fields [OF x] show ?thesis by (rule same_map_trans)
qed

lemma expire_entries_append:
  "\<forall>e \<in> set es. te_expiration_time e \<le> ni_time_alive ni \<Longrightarrow> expire_entries es ni = Inr ni' \<Longrightarrow>
     expire_entries (es @ fs) ni = expire_entries fs ni'"
  by (induction es arbitrary: ni) (auto simp: expire_entries_time_entries split: option.splits if_splits)

lemma serialize_waiting:
  assumes "\<forall>d \<in> set ds. ip_ver (dg_header d) = 4"
  shows "send_waiting a ds ni = Inr (ni\<lparr>ni_ethernet_q := ni_ethernet_q ni @
    map (\<lambda>d. frame_create (ni_ethernet_address ni) a TYPE_IPv4
           (ser_output (ser_buffers (dg_payload d) (new_serializer\<lparr>se_buffer := ipv4_bytes (dg_header d)\<rparr>)))) ds\<rparr>)"
  using assms
proof (induction ds arbitrary: ni)
  case (Cons d ds)
  have s: "serialize_datagram d =
     Inr (ser_output (ser_buffers (dg_payload d) (new_serializer\<lparr>se_buffer := ipv4_bytes (dg_header d)\<rparr>)))"
    using Cons.prems by (simp add: serialize_datagram_def serialize_object_def
        ipv4_datagram_serialize_def ipv4_serialize_ok ser_buffers_def new_serializer_def)
  show ?case using Cons.prems by (simp add: s Cons.IH Let_def)
qed simp

text \<open>The ARP message an interface accepts from a frame.\<close>

definition accepts_arp :: "network_interface \<Rightarrow> ethernet_frame \<Rightarrow> arp_message \<Rightarrow> bool" where
  "accepts_arp ni frame m \<longleftrightarrow>
     eh_dst (ef_header frame) \<in> {ni_ethernet_address ni, ETHERNET_BROADCAST} \<and>
     eh_type (ef_header frame) = TYPE_ARP \<and>
     parse_object (arp_parse empty_arp_message) (ef_payload frame) = Inr (m, True)"

lemma recv_frame_arp:
  assumes "accepts_arp ni frame m"
  shows "recv_frame resolve frame ni = bind_result (arp_received resolve m ni) (\<lambda>ni. Inr (ni, None))"
proof -
  have "TYPE_ARP \<noteq> TYPE_IPv4" by (simp add: TYPE_ARP_def TYPE_IPv4_def)
  then show ?thesis using assms by (auto simp: recv_frame_def accepts_arp_def)
qed

lemma accepts_arp_frame:
  assumes "arp_supported m" and "arp_addresses_ok m"
    and "dst = ni_ethernet_address ni \<or> dst = ETHERNET_BROADCAST"
  shows "accepts_arp ni (frame_create src dst TYPE_ARP [arp_bytes m]) m"
proof -
  have old: "arp_addresses_ok empty_arp_message"
    by (simp add: empty_arp_message_def arp_addresses_ok_def eth_address_ok_def)
  have l: "length (arp_bytes m) = 28"
    using assms(2) by (simp add: arp_bytes_def arp_addresses_ok_def eth_address_ok_def)
  then have "feeds (new_parser [arp_bytes m]) (arp_bytes m @ []) 28"
    using feeds_new [of 28 "[arp_bytes m]"] readable_front [of 28 "arp_bytes m"] by simp
  from arp_parse_bytes [OF this order_refl assms(1,2) old]
  obtain p' where "arp_parse empty_arp_message (new_parser [arp_bytes m]) = Inr (p', m)" "feeds p' [] 0"
    by auto
  then show ?thesis
    using assms(3) by (auto simp: accepts_arp_def frame_create_def parse_object_def feeds_def)
qed

text \<open>All entries expire when the clock has moved by 30 seconds.\<close>

lemma expire_all:
  assumes "entries_valid ni" and "\<forall>e \<in> set (ni_time_entries ni). te_expiration_time e \<le> ni_time_alive ni"
  obtains ni' where "expire_entries (ni_time_entries ni) ni = Inr ni'" and "ni_time_entries ni' = []"
    and "ni_ip_eth_map ni' = ni_ip_eth_map ni |` (- te_key ` set (ni_time_entries ni))"
    and "ni_time_alive ni' = ni_time_alive ni"
proof -
  from expire_entries_valid [OF refl assms(1)] obtain ni' where
    ni': "expire_entries (ni_time_entries ni) ni = Inr ni'" "ni_time_alive ni' = ni_time_alive ni"
    and te: "ni_time_entries ni' = filter (\<lambda>e. ni_time_alive ni < te_expiration_time e) (ni_time_entries ni)"
    and m: "ni_ip_eth_map ni' = ni_ip_eth_map ni |`
      (- te_key ` {e \<in> set (ni_time_entries ni). te_expiration_time e \<le> ni_time_alive ni})"
    by blast
  have "filter (\<lambda>e. ni_time_alive ni < te_expiration_time e) (ni_time_entries ni) = []"
    using assms(2) by (auto simp: filter_empty_conv not_less)
  moreover have "{e \<in> set (ni_time_entries ni). te_expiration_time e \<le> ni_time_alive ni} =
      set (ni_time_entries ni)" using assms(2) by blast
  ultimately show ?thesis using that [of ni'] ni' te m by simp
qed

lemma expire_stale_entry:
  assumes "entries_valid (ni\<lparr>ni_time_entries := es\<rparr>)" and "te_key e \<in> te_key ` set es"
    and "\<forall>x \<in> set es. te_expiration_time x \<le> ni_time_alive ni" and "te_expiration_time e \<le> ni_time_alive ni"
  shows "expire_entries (es @ [e]) ni = Inl (Undefined ''erase of an invalid iterator'')"
proof -
  obtain ni' where ni': "expire_entries es ni = Inr ni'"
    "ni_ip_eth_map ni' = ni_ip_eth_map ni |` (- te_key ` set es)" "ni_time_alive ni' = ni_time_alive ni"
    using expire_all [OF assms(1)] assms(3) by (auto simp: expire_entries_time_entries)
  have "ni_ip_eth_map ni' (te_key e) = None" using ni'(2) assms(2) by (simp add: restrict_map_def)
  then show ?thesis
    using expire_entries_append [OF assms(3) ni'(1), of "[e]"] ni'(3) assms(4) by simp
qed

lemma clock_advances:
  assumes "30000 \<le> unat ms" and "unat (t :: u64) + unat ms < 2 ^ 64"
  shows "t + 30000 \<le> t + ms"
proof -
  have "unat (t + 30000) = unat t + 30000" "unat (t + ms) = unat t + unat ms"
    using assms by (simp_all add: word_nat_simps)
  then show ?thesis using assms(1) by (simp add: word_le_nat_alt)
qed

lemma learn_known_entries:
  assumes ok: "entries_ok ni" and known: "ni_ip_eth_map ni (arp_sender_ip_address m) = Some node"
    and later: "\<forall>e \<in> set (ni_time_entries ni). te_expiration_time e < ni_time_alive ni + 30000"
  obtains e where "ni_time_entries (learn_mapping m ni) = ni_time_entries ni @ [e]"
    and "te_key e \<in> te_key ` set (ni_time_entries ni)"
    and "te_expiration_time e = ni_time_alive ni + 30000"
    and "entries_valid ((learn_mapping m ni)\<lparr>ni_time_entries := ni_time_entries ni\<rparr>)"
proof -
  let ?e = "\<lparr>te_expiration_time = ni_time_alive ni + 30000, te_key = arp_sender_ip_address m,
      te_node = mn_id node, te_table = ni_map_table ni\<rparr>"
  have "time_entry_insert ?e (ni_time_entries ni) = ni_time_entries ni @ [?e]"
    using later by (intro time_entry_insert_last) simp
  then have "ni_time_entries (learn_mapping m ni) = ni_time_entries ni @ [?e]"
    by (simp add: learn_mapping_def map_assign_def known Let_def)
  moreover have "arp_sender_ip_address m \<in> te_key ` set (ni_time_entries ni)"
    using ok known by (simp add: entries_ok_def domI)
  moreover have "entries_valid ((learn_mapping m ni)\<lparr>ni_time_entries := ni_time_entries ni\<rparr>)"
    using ok known by (auto simp: entries_ok_def entries_valid_def learn_mapping_def map_assign_def Let_def)
  ultimately show ?thesis using that [of ?e] by simp
qed

lemma recv_frame_learns:
  assumes "accepts_arp ni frame m" and "recv_frame resolve frame ni = Inr (ni', r)"
  shows "ni_ip_eth_map ni' = ni_ip_eth_map (learn_mapping m ni)"
    and "ni_time_entries ni' = ni_time_entries (learn_mapping m ni)"
    and "ni_time_alive ni' = ni_time_alive ni"
    and "same_map (learn_mapping m ni) ni'"
proof -
  have "arp_received resolve m ni = Inr ni'"
    using assms(2) unfolding recv_frame_arp [OF assms(1)] by auto
  from arp_received_fields [OF this] show same: "same_map (learn_mapping m ni) ni'" .
  then show "ni_ip_eth_map ni' = ni_ip_eth_map (learn_mapping m ni)"
    "ni_time_entries ni' = ni_time_entries (learn_mapping m ni)" "ni_time_alive ni' = ni_time_alive ni"
    by (simp_all add: same_map_def learn_mapping_fields(1))
qed

text \<open>A broadcast ARP reply, for the examples.\<close>

definition reply_of :: "u32 \<Rightarrow> byte \<Rightarrow> arp_message" where
  "reply_of ip b = empty_arp_message\<lparr>arp_opcode := OPCODE_REPLY, arp_sender_ip_address := ip,
     arp_sender_ethernet_address := replicate 6 b\<rparr>"

definition reply_frame :: "u32 \<Rightarrow> byte \<Rightarrow> ethernet_frame" where
  "reply_frame ip b = frame_create (replicate 6 b) ETHERNET_BROADCAST TYPE_ARP [arp_bytes (reply_of ip b)]"

lemma accepts_reply: "accepts_arp ni (reply_frame ip b) (reply_of ip b)"
  unfolding reply_frame_def
  by (rule accepts_arp_frame)
     (simp_all add: reply_of_def empty_arp_message_def arp_supported_def arp_addresses_ok_def
        eth_address_ok_def OPCODE_REPLY_def)

lemma recv_reply:
  assumes "ni_datagram_qs ni ip = None \<or> ni_datagram_qs ni ip = Some []"
  shows "recv_frame resolve (reply_frame ip b) ni =
     Inr ((learn_mapping (reply_of ip b) ni)
            \<lparr>ni_datagram_qs := (ni_datagram_qs ni)(ip \<mapsto> []),
             ni_arp_request_times := (ni_arp_request_times ni)(ip := None)\<rparr>, None)"
proof -
  have "arp_sender_ip_address (reply_of ip b) = ip" "arp_opcode (reply_of ip b) \<noteq> OPCODE_REQUEST"
    by (simp_all add: reply_of_def OPCODE_REPLY_def OPCODE_REQUEST_def)
  then show ?thesis
    using assms by (auto simp: recv_frame_arp [OF accepts_reply] arp_received_def learn_mapping_fields)
qed

lemma learn_new_entries:
  assumes ok: "entries_ok ni" and new: "ni_ip_eth_map ni (arp_sender_ip_address m) = None"
    and later: "\<forall>e \<in> set (ni_time_entries ni). te_expiration_time e < ni_time_alive ni + 30000"
  obtains e where "ni_time_entries (learn_mapping m ni) = ni_time_entries ni @ [e]"
    and "te_expiration_time e = ni_time_alive ni + 30000" and "te_key e = arp_sender_ip_address m"
proof -
  let ?e = "\<lparr>te_expiration_time = ni_time_alive ni + 30000, te_key = arp_sender_ip_address m,
      te_node = ni_next_node ni,
      te_table = (if map_has_room ni then ni_map_table ni else ni_map_table ni + 1)\<rparr>"
  have "time_entry_insert ?e (ni_time_entries ni) = ni_time_entries ni @ [?e]"
    using later by (intro time_entry_insert_last) simp
  then have "ni_time_entries (learn_mapping m ni) = ni_time_entries ni @ [?e]"
    by (simp add: learn_mapping_def map_assign_def new Let_def)
  then show ?thesis using that by simp
qed

text \<open>A second host learned at the same time gets no entry of its own.\<close>

lemma learn_same_time:
  assumes ok: "entries_ok ni" and new: "ni_ip_eth_map ni (arp_sender_ip_address m) = None"
    and es: "ni_time_entries ni = es @ [e]" "te_expiration_time e = ni_time_alive ni + 30000"
    and room: "map_has_room ni"
  shows "ni_time_entries (learn_mapping m ni) = ni_time_entries ni"
    and "entries_valid (learn_mapping m ni)"
    and "arp_sender_ip_address m \<notin> te_key ` set (ni_time_entries ni)"
proof -
  show nk: "arp_sender_ip_address m \<notin> te_key ` set (ni_time_entries ni)"
    using ok new by (auto simp: entries_ok_def)
  have "\<forall>x \<in> set es. te_expiration_time x < te_expiration_time e"
    using ok es(1) by (auto simp: entries_ok_def entries_valid_def sorted_wrt_append)
  then have ins: "time_entry_insert x (es @ [e]) = es @ [e]"
    if "te_expiration_time x = ni_time_alive ni + 30000" for x
    using es(2) that by (intro time_entry_insert_same) auto
  then show te: "ni_time_entries (learn_mapping m ni) = ni_time_entries ni"
    by (simp add: learn_mapping_def map_assign_def new es(1) Let_def)
  have "ni_ip_eth_map (learn_mapping m ni) k = ni_ip_eth_map ni k"
    if "k \<in> te_key ` set (ni_time_entries ni)" for k
  proof -
    from nk that have "k \<noteq> arp_sender_ip_address m" by metis
    then show ?thesis by (simp add: learn_mapping_def map_assign_def new Let_def)
  qed
  moreover have "ni_map_table (learn_mapping m ni) = ni_map_table ni"
    using room by (simp add: learn_mapping_def map_assign_def new Let_def)
  ultimately show "entries_valid (learn_mapping m ni)"
    using ok unfolding entries_ok_def entries_valid_def te by (metis image_eqI)
qed

subsection \<open>Requests and replies\<close>

definition arp_request :: "network_interface \<Rightarrow> u32 \<Rightarrow> u32 \<Rightarrow> arp_message" where
  "arp_request ni own ip = empty_arp_message
     \<lparr>arp_opcode := OPCODE_REQUEST, arp_sender_ethernet_address := ni_ethernet_address ni,
      arp_sender_ip_address := own,
      arp_target_ethernet_address := replicate 6 0, arp_target_ip_address := ip\<rparr>"

definition arp_reply_to :: "network_interface \<Rightarrow> u32 \<Rightarrow> arp_message \<Rightarrow> arp_message" where
  "arp_reply_to ni own m = empty_arp_message
     \<lparr>arp_opcode := OPCODE_REPLY, arp_sender_ethernet_address := ni_ethernet_address ni,
      arp_sender_ip_address := own,
      arp_target_ethernet_address := arp_sender_ethernet_address m,
      arp_target_ip_address := arp_sender_ip_address m\<rparr>"

lemma arp_create_ok:
  assumes "resolves_decimal resolve"
  shows "arp_create resolve op sa (decimal (unat sip)) ta (decimal (unat tip)) =
     Inr (empty_arp_message
       \<lparr>arp_opcode := op, arp_sender_ethernet_address := sa, arp_sender_ip_address := sip,
        arp_target_ethernet_address := ta, arp_target_ip_address := tip\<rparr>)"
  using assms by (simp add: arp_create_def resolves_decimal_def)

lemma arp_create_request:
  assumes "resolves_decimal resolve"
  shows "arp_create resolve OPCODE_REQUEST (ni_ethernet_address ni)
     (decimal (unat own)) (replicate 6 0) (decimal (unat ip)) =
     Inr (arp_request ni own ip)"
  unfolding arp_request_def by (rule arp_create_ok [OF assms])

lemma arp_create_reply:
  assumes "resolves_decimal resolve"
  shows "arp_create resolve OPCODE_REPLY (ni_ethernet_address ni)
     (decimal (unat own)) (arp_sender_ethernet_address m)
     (decimal (unat (arp_sender_ip_address m))) = Inr (arp_reply_to ni own m)"
  unfolding arp_reply_to_def by (rule arp_create_ok [OF assms])

lemma arp_made_supported:
  "arp_supported (arp_request ni own ip)" "arp_supported (arp_reply_to ni own m)"
  by (simp_all add: arp_request_def arp_reply_to_def empty_arp_message_def arp_supported_def)

definition request_pending :: "u32 \<Rightarrow> network_interface \<Rightarrow> bool" where
  "request_pending ip ni \<longleftrightarrow>
     (\<exists>t. ni_arp_request_times ni ip = Some t \<and> \<not> ni_time_alive ni - t > 5000)"

definition waiting_for :: "u32 \<Rightarrow> network_interface \<Rightarrow> ipv4_datagram list" where
  "waiting_for ip ni = (case ni_datagram_qs ni ip of None \<Rightarrow> [] | Some q \<Rightarrow> q)"

lemma arp_made_updates:
  "arp_request (ni\<lparr>ni_datagram_qs := q\<rparr>) own ip = arp_request ni own ip"
  "arp_reply_to (ni\<lparr>ni_datagram_qs := q, ni_arp_request_times := t\<rparr>) own m = arp_reply_to ni own m"
  "arp_reply_to (ni\<lparr>ni_ethernet_q := f\<rparr>) own m = arp_reply_to ni own m"
  "arp_reply_to (learn_mapping m' ni) own m = arp_reply_to ni own m"
  by (simp_all add: arp_request_def arp_reply_to_def learn_mapping_fields)

lemma ni_updates:
  "ni_ip_address (ni\<lparr>ni_datagram_qs := q\<rparr>) = ni_ip_address ni"
  "ni_time_alive (ni\<lparr>ni_datagram_qs := q\<rparr>) = ni_time_alive ni"
  "ni_arp_request_times (ni\<lparr>ni_datagram_qs := q\<rparr>) = ni_arp_request_times ni"
  "ni_ip_address (ni\<lparr>ni_datagram_qs := q, ni_arp_request_times := t\<rparr>) = ni_ip_address ni"
  "ni_ethernet_address (ni\<lparr>ni_datagram_qs := q, ni_arp_request_times := t\<rparr>) = ni_ethernet_address ni"
  "ni_ip_address (ni\<lparr>ni_ethernet_q := f\<rparr>) = ni_ip_address ni"
  "ni_ethernet_address (ni\<lparr>ni_ethernet_q := f\<rparr>) = ni_ethernet_address ni"
  by simp_all

lemma send_datagram_unknown:
  assumes "resolves_decimal resolve" and "ipv4_numeric hop = Inr ip"
    and "ipv4_numeric (ni_ip_address ni) = Inr own" and "ni_ip_eth_map ni ip = None"
  shows "send_datagram resolve d hop ni = Inr (
     if request_pending ip ni
     then ni\<lparr>ni_datagram_qs := (ni_datagram_qs ni)(ip \<mapsto> waiting_for ip ni @ [d])\<rparr>
     else ni\<lparr>ni_datagram_qs := (ni_datagram_qs ni)(ip \<mapsto> waiting_for ip ni @ [d]),
             ni_ethernet_q := ni_ethernet_q ni @
                [frame_create (ni_ethernet_address ni) ETHERNET_BROADCAST TYPE_ARP
                   [arp_bytes (arp_request ni own ip)]],
             ni_arp_request_times := (ni_arp_request_times ni)(ip \<mapsto> ni_time_alive ni)\<rparr>)"
proof -
  have pending: "(case ni_arp_request_times ni ip of
      None \<Rightarrow> True | Some t \<Rightarrow> ni_time_alive ni - t > 5000) \<longleftrightarrow> \<not> request_pending ip ni"
    by (simp add: request_pending_def split: option.split)
  show ?thesis
    unfolding send_datagram_def Let_def assms(2) bind_result.simps assms(4) option.case
      arp_create_request [OF assms(1)] arp_serialize_output [OF arp_made_supported(1)] bind_result.simps
      waiting_for_def [symmetric] ni_updates pending arp_made_updates assms(3)
    by simp
qed

definition datagram_frame :: "network_interface \<Rightarrow> ethernet_address \<Rightarrow> ipv4_datagram \<Rightarrow> ethernet_frame" where
  "datagram_frame ni dst d = frame_create (ni_ethernet_address ni) dst TYPE_IPv4
     (ser_output (ser_buffers (dg_payload d) (new_serializer\<lparr>se_buffer := ipv4_bytes (dg_header d)\<rparr>)))"

lemma arp_received_ok:
  assumes "resolves_decimal resolve" and "ipv4_numeric (ni_ip_address ni) = Inr own"
    and "\<forall>d \<in> set (waiting_for (arp_sender_ip_address m) ni). ip_ver (dg_header d) = 4"
  shows "arp_received resolve m ni = Inr ((learn_mapping m ni)
     \<lparr>ni_ethernet_q := ni_ethernet_q ni @
        map (datagram_frame ni (arp_sender_ethernet_address m)) (waiting_for (arp_sender_ip_address m) ni) @
        (if arp_opcode m = OPCODE_REQUEST \<and> arp_target_ip_address m = own
         then [frame_create (ni_ethernet_address ni) (arp_sender_ethernet_address m) TYPE_ARP
                 [arp_bytes (arp_reply_to ni own m)]] else []),
      ni_datagram_qs := (ni_datagram_qs ni)(arp_sender_ip_address m \<mapsto> []),
      ni_arp_request_times := (ni_arp_request_times ni)(arp_sender_ip_address m := None)\<rparr>)"
proof -
  note fields = learn_mapping_fields [of m ni]
  have "waiting_for (arp_sender_ip_address m) (learn_mapping m ni) = waiting_for (arp_sender_ip_address m) ni"
    by (simp add: waiting_for_def fields)
  then have sw: "send_waiting (arp_sender_ethernet_address m)
      (case ni_datagram_qs (learn_mapping m ni) (arp_sender_ip_address m) of None \<Rightarrow> [] | Some q \<Rightarrow> q)
      (learn_mapping m ni) = Inr ((learn_mapping m ni)
        \<lparr>ni_ethernet_q := ni_ethernet_q ni @
           map (datagram_frame ni (arp_sender_ethernet_address m)) (waiting_for (arp_sender_ip_address m) ni)\<rparr>)"
    using serialize_waiting [OF assms(3)] by (simp add: waiting_for_def [symmetric] fields datagram_frame_def)
  show ?thesis
    unfolding arp_received_def Let_def
    unfolding sw
    unfolding bind_result.simps arp_create_reply [OF assms(1)]
      arp_serialize_output [OF arp_made_supported(2)] ni_updates arp_made_updates fields assms(2)
    by (simp add: fields)
qed

lemma recv_datagram_frame:
  assumes "ipv4_plain (dg_header d)" and "ipv4_compute_checksum (dg_header d) = Inr (dg_header d)"
    and "dst = ni_ethernet_address ni \<or> dst = ETHERNET_BROADCAST"
  shows "\<exists>d'. recv_frame resolve (datagram_frame src dst d) ni = Inr (ni, Some d') \<and>
           dg_header d' = dg_header d \<and> concat (dg_payload d') = concat (dg_payload d)"
proof -
  let ?s = "new_serializer\<lparr>se_buffer := ipv4_bytes (dg_header d)\<rparr>"
  let ?bufs = "ser_output (ser_buffers (dg_payload d) ?s)"
  have "se_output ?s = []" by (simp add: new_serializer_def)
  from ser_output_first [OF this, of "dg_payload d"] obtain rest where
    r: "?bufs = ipv4_bytes (dg_header d) # rest" by auto
  have c: "concat ?bufs = ipv4_bytes (dg_header d) @ concat (dg_payload d)"
    by (simp add: ser_output_bytes wire_simps) (simp add: ser_bytes_def new_serializer_def)
  have "readable 20 ?bufs" unfolding r by (rule readable_front) simp
  then have f: "feeds (new_parser ?bufs) (ipv4_bytes (dg_header d) @ concat (dg_payload d)) 20"
    using feeds_new c by metis
  obtain p' d' where "ipv4_datagram_parse empty_ipv4_datagram (new_parser ?bufs) = Inr (p', d')"
    "\<not> pa_error p'" "dg_header d' = dg_header d" "concat (dg_payload d') = concat (dg_payload d)"
    by (rule ipv4_datagram_parse_bytes [OF f assms(1), of empty_ipv4_datagram]) (use assms(2) in blast)
  then show ?thesis
    using assms(3) by (auto simp: recv_frame_def datagram_frame_def frame_create_def parse_object_def)
qed

text \<open>A resolver that reads decimal numbers, for the examples.\<close>

definition numeric_resolver :: resolver where
  "numeric_resolver = address_of_ip numeric_gai (\<lambda>e. [])"

lemma numeric_resolver_ok: "resolves_decimal numeric_resolver"
  unfolding numeric_resolver_def by (rule address_of_ip_resolves [OF numeric_gai_ok])

lemma valid_header_exists:
  obtains h where "ipv4_plain h" and "ipv4_compute_checksum h = Inr h"
proof -
  have v: "ip_ver default_ipv4_header = 4" "ip_hlen default_ipv4_header = 5"
    "ip_offset default_ipv4_header = 0"
    by (simp_all add: default_ipv4_header_def IPV4_LENGTH_def)
  obtain k where "ipv4_compute_checksum (default_ipv4_header\<lparr>ip_cksum := k\<rparr>) =
      Inr (default_ipv4_header\<lparr>ip_cksum := k\<rparr>)"
    using v by (simp add: ipv4_compute_checksum_ok)
  moreover have "ipv4_plain (default_ipv4_header\<lparr>ip_cksum := k\<rparr>)" using v by (simp add: ipv4_plain_def)
  ultimately show ?thesis using that by blast
qed

subsection \<open>Properties\<close>

text \<open>
  Histories of an interface, from its construction on, in which mappings are learned one by
  one: each from a host that is not known at that time, no two in the same millisecond, and no
  insertion rehashes the table while mappings are held.  \<open>now\<close> is the time since the start and
  \<open>known\<close> tells for each host the address that was learned and when.
\<close>

definition unexpired ::
  "nat \<Rightarrow> (u32 \<rightharpoonup> ethernet_address \<times> nat) \<Rightarrow> (u32 \<rightharpoonup> ethernet_address \<times> nat)" where
  "unexpired now known k =
     (case known k of Some (a, t) \<Rightarrow> if now < t + 30000 then Some (a, t) else None | None \<Rightarrow> None)"

inductive ni_history ::
  "resolver \<Rightarrow> network_interface \<Rightarrow> nat \<Rightarrow> (u32 \<rightharpoonup> ethernet_address \<times> nat) \<Rightarrow> bool" for resolve where
  start: "ni_history resolve (new_network_interface limit a ip) 0 Map.empty"
| learn: "ni_history resolve ni now known \<Longrightarrow> accepts_arp ni frame m \<Longrightarrow>
    recv_frame resolve frame ni = Inr (ni', r) \<Longrightarrow> known (arp_sender_ip_address m) = None \<Longrightarrow>
    \<forall>k a t. known k = Some (a, t) \<longrightarrow> t < now \<Longrightarrow> map_has_room ni \<or> known = Map.empty \<Longrightarrow>
    now + 30000 < 2 ^ 64 \<Longrightarrow>
    ni_history resolve ni' now (known(arp_sender_ip_address m \<mapsto> (arp_sender_ethernet_address m, now)))"
| ignore: "ni_history resolve ni now known \<Longrightarrow> \<nexists>m. accepts_arp ni frame m \<Longrightarrow>
    recv_frame resolve frame ni = Inr (ni', r) \<Longrightarrow> ni_history resolve ni' now known"
| send: "ni_history resolve ni now known \<Longrightarrow> send_datagram resolve d hop ni = Inr ni' \<Longrightarrow>
    ni_history resolve ni' now known"
| take: "ni_history resolve ni now known \<Longrightarrow> ni_maybe_send ni = (ni', r) \<Longrightarrow>
    ni_history resolve ni' now known"
| tick: "ni_history resolve ni now known \<Longrightarrow> ni_tick ms ni = Inr ni' \<Longrightarrow> now + unat ms < 2 ^ 64 \<Longrightarrow>
    ni_history resolve ni' (now + unat ms) (unexpired (now + unat ms) known)"

text \<open>What such a history establishes.\<close>

definition learned :: "network_interface \<Rightarrow> nat \<Rightarrow> (u32 \<rightharpoonup> ethernet_address \<times> nat) \<Rightarrow> bool" where
  "learned ni now known \<longleftrightarrow>
     entries_ok ni \<and> unat (ni_time_alive ni) = now \<and>
     (\<forall>k. map_option mn_address (ni_ip_eth_map ni k) = map_option fst (known k)) \<and>
     (\<forall>e \<in> set (ni_time_entries ni). \<exists>a t. known (te_key e) = Some (a, t) \<and>
        unat (te_expiration_time e) = t + 30000)"

lemma expire_entries_keeps:
  "expire_entries es x = Inr y \<Longrightarrow> ni_datagram_qs y = ni_datagram_qs x \<and> ni_map_limit y = ni_map_limit x \<and>
     ni_map_table y = ni_map_table x \<and> ni_map_size y \<le> ni_map_size x"
proof (induction es arbitrary: x)
  case (Cons e es)
  show ?case
  proof (cases "te_expiration_time e \<le> ni_time_alive x")
    case True
    then have "expire_entries es (x\<lparr>ni_ip_eth_map := (ni_ip_eth_map x)(te_key e := None),
        ni_map_size := ni_map_size x - 1\<rparr>) = Inr y"
      using Cons.prems by (auto split: if_splits option.splits)
    from Cons.IH [OF this] show ?thesis by simp linarith
  qed (use Cons.prems in auto)
qed auto

lemma learned_same: "same_map ni ni' \<Longrightarrow> learned ni now known \<Longrightarrow> learned ni' now known"
  by (simp add: learned_def same_map_entries(2)) (simp add: same_map_def)

lemma recv_frame_ignores:
  assumes "recv_frame resolve frame ni = Inr (ni', r)" and "\<nexists>m. accepts_arp ni frame m"
  shows "ni' = ni"
  using assms by (auto simp: recv_frame_def accepts_arp_def split: if_splits)

lemma send_datagram_same:
  assumes "send_datagram resolve d hop ni = Inr ni'"
  shows "same_map ni ni'"
  using assms by (auto simp: send_datagram_def Let_def same_map_def split: option.splits if_splits)

lemma learned_learn:
  assumes ok: "learned ni now known" and new: "known (arp_sender_ip_address m) = None"
    and later: "\<forall>k a t. known k = Some (a, t) \<longrightarrow> t < now" and room: "map_has_room ni \<or> known = Map.empty"
    and small: "now + 30000 < 2 ^ 64"
  shows "learned (learn_mapping m ni) now (known(arp_sender_ip_address m \<mapsto> (arp_sender_ethernet_address m, now)))"
proof -
  have eok: "entries_ok ni" and alive: "unat (ni_time_alive ni) = now"
    and map: "\<And>k. map_option mn_address (ni_ip_eth_map ni k) = map_option fst (known k)"
    and te: "\<And>e. e \<in> set (ni_time_entries ni) \<Longrightarrow> \<exists>a t. known (te_key e) = Some (a, t) \<and>
        unat (te_expiration_time e) = t + 30000"
    using ok by (auto simp: learned_def)
  have due: "unat (ni_time_alive ni + 30000) = now + 30000"
    using alive small by (simp add: word_nat_simps)
  have none: "ni_ip_eth_map ni (arp_sender_ip_address m) = None"
    using map [of "arp_sender_ip_address m"] new by simp
  have late: "\<forall>e \<in> set (ni_time_entries ni). te_expiration_time e < ni_time_alive ni + 30000"
    using te later due by (fastforce simp: word_less_nat_alt)
  have room': "map_has_room ni \<or> ni_time_entries ni = []"
    using room te by (cases "ni_time_entries ni") auto
  obtain e where e: "ni_time_entries (learn_mapping m ni) = ni_time_entries ni @ [e]"
    "te_expiration_time e = ni_time_alive ni + 30000" "te_key e = arp_sender_ip_address m"
    by (rule learn_new_entries [OF eok none late])
  have "te_key x \<noteq> arp_sender_ip_address m" if "x \<in> set (ni_time_entries ni)" for x
    using te [OF that] new by auto
  with te e due learn_mapping_entries_ok [OF eok none late room'] alive map show ?thesis
    by (auto simp: learned_def learn_mapping_fields(1) learn_mapping_map)
qed

lemma learned_tick:
  assumes ok: "learned ni now known" and small: "now + unat ms < 2 ^ 64"
  shows "\<exists>ni'. ni_tick ms ni = Inr ni' \<and> learned ni' (now + unat ms) (unexpired (now + unat ms) known)"
proof -
  let ?ni = "ni\<lparr>ni_time_alive := ni_time_alive ni + ms\<rparr>"
  let ?due = "{e \<in> set (ni_time_entries ni). te_expiration_time e \<le> ni_time_alive ni + ms}"
  have eok: "entries_ok ni" and alive: "unat (ni_time_alive ni + ms) = now + unat ms"
    and map: "\<And>k. map_option mn_address (ni_ip_eth_map ni k) = map_option fst (known k)"
    and te: "\<And>e. e \<in> set (ni_time_entries ni) \<Longrightarrow> \<exists>a t. known (te_key e) = Some (a, t) \<and>
        unat (te_expiration_time e) = t + 30000"
    using ok small by (auto simp: learned_def word_nat_simps)
  have "entries_valid ?ni" using eok by (simp add: entries_ok_def entries_valid_def)
  from expire_entries_valid [OF refl this] obtain ni' where
    ni': "expire_entries (ni_time_entries ni) ?ni = Inr ni'" "entries_valid ni'"
      "ni_time_alive ni' = ni_time_alive ni + ms"
    and es: "ni_time_entries ni' = filter (\<lambda>e. ni_time_alive ni + ms < te_expiration_time e) (ni_time_entries ni)"
    and m: "ni_ip_eth_map ni' = ni_ip_eth_map ni |` (- te_key ` ?due)"
    by auto
  have keys: "te_key ` set (ni_time_entries ni) = dom (ni_ip_eth_map ni)"
    and dist: "inj_on te_key (set (ni_time_entries ni))"
    using eok by (auto simp: entries_ok_def entries_valid_def distinct_map)
  have "te_key ` set (ni_time_entries ni') = te_key ` set (ni_time_entries ni) - te_key ` ?due"
    unfolding es using dist by (force simp: inj_on_def not_le image_iff)
  then have "entries_ok ni'" using ni'(2) keys m by (auto simp: entries_ok_def)
  moreover have "map_option mn_address (ni_ip_eth_map ni' k) = map_option fst (unexpired (now + unat ms) known k)" for k
  proof (cases "known k")
    case None
    then show ?thesis using map [of k] by (simp add: m restrict_map_def unexpired_def)
  next
    case (Some x)
    obtain a t where x: "x = (a, t)" by (cases x)
    have "k \<in> te_key ` set (ni_time_entries ni)" unfolding keys using map [of k] Some by auto
    then obtain e where e: "e \<in> set (ni_time_entries ni)" "te_key e = k" by (elim imageE) simp
    with te [OF e(1)] Some x have "unat (te_expiration_time e) = t + 30000" by auto
    then have "e \<in> ?due \<longleftrightarrow> t + 30000 \<le> now + unat ms" using e(1) alive by (simp add: word_le_nat_alt)
    moreover have "k \<in> te_key ` ?due \<longleftrightarrow> e \<in> ?due"
      unfolding e(2) [symmetric] by (rule inj_on_image_mem_iff [OF dist e(1)]) blast
    ultimately show ?thesis
      using map [of k] Some x by (simp add: m restrict_map_def unexpired_def)
  qed
  moreover have "\<exists>a t. unexpired (now + unat ms) known (te_key e) = Some (a, t) \<and>
      unat (te_expiration_time e) = t + 30000" if "e \<in> set (ni_time_entries ni')" for e
  proof -
    have e: "e \<in> set (ni_time_entries ni)" "ni_time_alive ni + ms < te_expiration_time e"
      using that unfolding es by simp_all
    from te [OF e(1)] obtain a t where "known (te_key e) = Some (a, t)"
      "unat (te_expiration_time e) = t + 30000" by blast
    with e(2) alive show ?thesis by (simp add: unexpired_def word_less_nat_alt)
  qed
  moreover have "ni_tick ms ni = Inr ni'" using ni'(1) by (simp add: ni_tick_def Let_def)
  ultimately show ?thesis
    unfolding learned_def using ni'(3) alive by (intro exI [of _ ni'] conjI allI ballI) simp_all
qed

lemma ni_history_learned: "ni_history resolve ni now known \<Longrightarrow> learned ni now known"
proof (induction rule: ni_history.induct)
  case (start limit a ip)
  then show ?case by (simp add: learned_def entries_ok_new) (simp add: new_network_interface_def)
next
  case (learn ni now known frame m ni' r)
  from learned_learn [OF learn.IH learn.hyps(4-7)] show ?case
    by (rule learned_same [OF recv_frame_learns(4) [OF learn.hyps(2,3)]])
next
  case (ignore ni now known frame ni' r)
  then show ?case using recv_frame_ignores by blast
next
  case (send ni now known d hop ni')
  then show ?case using learned_same [OF send_datagram_same] by blast
next
  case (take ni now known ni' r)
  then have "same_map ni ni'" by (auto simp: ni_maybe_send_def same_map_def split: list.splits)
  then show ?case using take.IH by (rule learned_same)
next
  case (tick ni now known ms ni')
  then show ?case using learned_tick by fastforce
qed

text \<open>
  C23: When mappings are learned one by one, from hosts not known at the time, no two in the
  same millisecond and without a rehash of the table while mappings are held, the map holds
  exactly those that were learned less than 30 seconds ago: at the end of such a history \<open>tick\<close>
  succeeds, forgets the mappings whose 30000 milliseconds are over, and keeps all others.
\<close>

theorem ni_tick_expires:
  assumes "ni_history resolve ni now known" and "now + unat ms < 2 ^ 64"
  shows "(\<forall>k. map_option mn_address (ni_ip_eth_map ni k) = map_option fst (known k)) \<and>
     (\<exists>ni'. ni_tick ms ni = Inr ni' \<and>
        (\<forall>k. map_option mn_address (ni_ip_eth_map ni' k) =
           (case known k of None \<Rightarrow> None
            | Some (a, t) \<Rightarrow> if now + unat ms < t + 30000 then Some a else None)))"
proof -
  note ok = ni_history_learned [OF assms(1)]
  obtain ni' where "ni_tick ms ni = Inr ni'" "learned ni' (now + unat ms) (unexpired (now + unat ms) known)"
    using learned_tick [OF ok assms(2)] by blast
  with ok show ?thesis by (auto simp: learned_def unexpired_def split: option.split prod.split)
qed

text \<open>
  Witness: a mapping that is learned at the start and another after 20 seconds; ten seconds
  later the first is forgotten.
\<close>

theorem ni_tick_expires_witness:
  "\<exists>ni known ni'. ni_history numeric_resolver ni 20000 known \<and>
     map_option mn_address (ni_ip_eth_map ni 10) = Some (replicate 6 7) \<and> ni_tick 10000 ni = Inr ni' \<and>
     ni_ip_eth_map ni' 10 = None \<and> map_option mn_address (ni_ip_eth_map ni' 11) = Some (replicate 6 8)"
proof -
  let ?n = "new_network_interface (\<lambda>_. 16) [1, 2, 3, 4, 5, 6] (inet_address 1 0)"
  have k: "arp_sender_ip_address (reply_of ip b) = ip"
    "arp_sender_ethernet_address (reply_of ip b) = replicate 6 b" for ip b
    by (simp_all add: reply_of_def del: replicate.simps)
  have "ni_datagram_qs ?n 10 = None" by (simp add: new_network_interface_def)
  then obtain n1 where r1: "recv_frame numeric_resolver (reply_frame 10 7) ?n = Inr (n1, None)"
    and n1: "ni_datagram_qs n1 = (ni_datagram_qs ?n)(10 \<mapsto> [])"
    and m1: "same_map (learn_mapping (reply_of 10 7) ?n) n1"
    using recv_reply [of ?n 10 numeric_resolver 7] by (simp add: same_map_def)
  have h1: "ni_history numeric_resolver n1 0 [10 \<mapsto> (replicate 6 7, 0)]"
    using ni_history.learn [OF ni_history.start accepts_reply r1] unfolding k by simp
  obtain n2 where t1: "ni_tick 20000 n1 = Inr n2"
    using learned_tick [OF ni_history_learned [OF h1], of 20000] by auto
  have "unexpired 20000 [10 \<mapsto> (replicate 6 (7 :: byte), 0)] = [10 \<mapsto> (replicate 6 7, 0)]"
    by (auto simp: unexpired_def fun_eq_iff)
  with ni_history.tick [OF h1 t1]
  have h2: "ni_history numeric_resolver n2 20000 [10 \<mapsto> (replicate 6 7, 0)]" by simp
  have n2: "ni_datagram_qs n2 = ni_datagram_qs n1" "ni_map_size n2 \<le> ni_map_size n1"
    "ni_map_limit n2 = ni_map_limit n1" "ni_map_table n2 = ni_map_table n1"
    using expire_entries_keeps [OF t1 [unfolded ni_tick_def Let_def]] by simp_all
  have "ni_map_size n1 = 1" "ni_map_limit n1 (ni_map_table n1) = 16"
    using m1 by (simp_all add: same_map_def learn_mapping_def map_assign_def new_network_interface_def map_has_room_def Let_def)
  then have room: "map_has_room n2" using n2 by (simp add: map_has_room_def)
  have "ni_datagram_qs n2 11 = None" using n1 n2(1) by (simp add: new_network_interface_def)
  then obtain n3 where r2: "recv_frame numeric_resolver (reply_frame 11 8) n2 = Inr (n3, None)"
    using recv_reply [of n2 11 numeric_resolver 8] by simp
  let ?known = "[10 \<mapsto> (replicate 6 (7 :: byte), 0 :: nat), 11 \<mapsto> (replicate 6 8, 20000)]"
  have h3: "ni_history numeric_resolver n3 20000 ?known"
    using ni_history.learn [OF h2 accepts_reply r2] room unfolding k by (simp del: replicate.simps)
  have "20000 + unat (10000 :: u64) < 2 ^ 64" by simp
  note e = ni_tick_expires [OF h3 this]
  then obtain n4 where "ni_tick 10000 n3 = Inr n4"
    and m: "\<forall>k. map_option mn_address (ni_ip_eth_map n4 k) = (case ?known k of None \<Rightarrow> None
            | Some (a, t) \<Rightarrow> if 20000 + unat (10000 :: u64) < t + 30000 then Some a else None)" by blast
  moreover have "ni_ip_eth_map n4 10 = None" using m [rule_format, of 10] by simp
  moreover have "map_option mn_address (ni_ip_eth_map n4 11) = Some (replicate 6 8)"
    using m [rule_format, of 11] by (simp del: replicate.simps)
  moreover have "map_option mn_address (ni_ip_eth_map n3 10) = Some (replicate 6 7)"
    using e by (simp del: replicate.simps)
  ultimately show ?thesis using h3 by blast
qed

text \<open>
  C39: When the mapping of a known host is learned again, the first of its two time
  entries erases the refreshed mapping once its time is over, and the second then erases
  an iterator that is no longer valid.
\<close>

theorem ni_relearned_mapping_undefined:
  assumes ok: "entries_ok ni" and known: "ni_ip_eth_map ni (arp_sender_ip_address m) = Some node"
    and later: "\<forall>e \<in> set (ni_time_entries ni). te_expiration_time e < ni_time_alive ni + 30000"
    and acc: "accepts_arp ni frame m" and recv: "recv_frame resolve frame ni = Inr (ni', r)"
    and ms: "30000 \<le> unat ms" "unat (ni_time_alive ni) + unat ms < 2 ^ 64"
  shows "ni_tick ms ni' = Inl (Undefined ''erase of an invalid iterator'')"
proof -
  note learned = recv_frame_learns [OF acc recv]
  obtain e where e: "ni_time_entries (learn_mapping m ni) = ni_time_entries ni @ [e]"
    "te_key e \<in> te_key ` set (ni_time_entries ni)" "te_expiration_time e = ni_time_alive ni + 30000"
    and v: "entries_valid ((learn_mapping m ni)\<lparr>ni_time_entries := ni_time_entries ni\<rparr>)"
    by (rule learn_known_entries [OF ok known later])
  let ?ni = "ni'\<lparr>ni_time_alive := ni_time_alive ni' + ms\<rparr>"
  have "ni_time_alive ni + 30000 \<le> ni_time_alive ?ni"
    using clock_advances [OF ms] learned(3) by simp
  then have gone: "\<forall>x \<in> set (ni_time_entries ni). te_expiration_time x \<le> ni_time_alive ?ni"
    "te_expiration_time e \<le> ni_time_alive ?ni"
    using later e(3) by (auto intro: order.trans less_imp_le)
  have v': "entries_valid (?ni\<lparr>ni_time_entries := ni_time_entries ni\<rparr>)"
    using v learned(4) by (simp add: entries_valid_def same_map_def)
  show ?thesis
    using expire_stale_entry [OF v' e(2) gone] by (simp add: ni_tick_def Let_def learned(2) e(1))
qed

theorem ni_relearned_mapping_undefined_witness:
  "\<exists>ni ni'. recv_frame numeric_resolver (reply_frame 10 7) (new_network_interface (\<lambda>_. 16) [1, 2, 3, 4, 5, 6] (inet_address 1 0)) =
       Inr (ni, None) \<and>
     recv_frame numeric_resolver (reply_frame 10 8) (ni\<lparr>ni_time_alive := 20000\<rparr>) = Inr (ni', None) \<and>
     ni_tick 30000 ni' = Inl (Undefined ''erase of an invalid iterator'')"
proof -
  let ?n = "new_network_interface (\<lambda>_. 16) [1, 2, 3, 4, 5, 6] (inet_address 1 0)"
  let ?l = "learn_mapping (reply_of 10 7) ?n"
  let ?ni = "?l\<lparr>ni_datagram_qs := [10 \<mapsto> []], ni_arp_request_times := Map.empty\<rparr>"
  let ?ni2 = "?ni\<lparr>ni_time_alive := 20000\<rparr>"
  have new: "ni_datagram_qs ?n = Map.empty" "ni_arp_request_times ?n = Map.empty"
    "ni_ip_eth_map ?n = Map.empty" "ni_time_entries ?n = []" "ni_time_alive ?n = 0" "map_has_room ?n"
    by (simp_all add: new_network_interface_def map_has_room_def)
  have r: "recv_frame numeric_resolver (reply_frame 10 7) ?n = Inr (?ni, None)"
    by (simp add: recv_reply new)
  have "entries_ok ?l"
    using new by (intro learn_mapping_entries_ok) (simp_all add: entries_ok_new)
  then have ok: "entries_ok ?ni2" by (simp add: entries_ok_def entries_valid_def)
  have e: "ni_time_entries ?ni2 = [\<lparr>te_expiration_time = 30000, te_key = 10, te_node = 0, te_table = 0\<rparr>]"
    "ni_ip_eth_map ?ni2 10 = Some \<lparr>mn_id = 0, mn_address = replicate 6 7\<rparr>"
    by (simp_all add: learn_mapping_def map_assign_def new_network_interface_def map_has_room_def
        reply_of_def Let_def)
  have r2: "recv_frame numeric_resolver (reply_frame 10 8) ?ni2 =
      Inr ((learn_mapping (reply_of 10 8) ?ni2)\<lparr>ni_datagram_qs := [10 \<mapsto> []],
             ni_arp_request_times := Map.empty\<rparr>, None)" (is "_ = Inr (?ni3, None)")
    by (subst recv_reply) (simp_all add: learn_mapping_fields new)
  have k: "arp_sender_ip_address (reply_of 10 8) = 10" by (simp add: reply_of_def)
  have "ni_tick 30000 ?ni3 = Inl (Undefined ''erase of an invalid iterator'')"
  proof (rule ni_relearned_mapping_undefined [OF ok _ _ accepts_reply r2])
    show "ni_ip_eth_map ?ni2 (arp_sender_ip_address (reply_of 10 8)) =
        Some \<lparr>mn_id = 0, mn_address = replicate 6 7\<rparr>" unfolding k by (rule e(2))
    show "\<forall>e \<in> set (ni_time_entries ?ni2). te_expiration_time e < ni_time_alive ?ni2 + 30000"
      unfolding e(1) by simp
  qed simp_all
  with r r2 show ?thesis by blast
qed

text \<open>
  C40: Of two new hosts that are learned in the same millisecond the second gets no time
  entry, because the set of entries compares only their times: its mapping never expires,
  also when the table of the map has room, so that no iterator is invalidated.
\<close>

theorem ni_same_time_mapping_never_expires:
  assumes ok: "entries_ok ni" and later: "\<forall>e \<in> set (ni_time_entries ni). te_expiration_time e < ni_time_alive ni + 30000"
    and new: "ni_ip_eth_map ni (arp_sender_ip_address m1) = None"
      "ni_ip_eth_map ni (arp_sender_ip_address m2) = None"
      "arp_sender_ip_address m1 \<noteq> arp_sender_ip_address m2"
    and r1: "accepts_arp ni f1 m1" "recv_frame resolve f1 ni = Inr (ni1, o1)"
    and r2: "accepts_arp ni1 f2 m2" "recv_frame resolve f2 ni1 = Inr (ni2, o2)"
    and room: "map_has_room ni \<or> ni_time_entries ni = []" "map_has_room ni1"
    and ms: "30000 \<le> unat ms" "unat (ni_time_alive ni) + unat ms < 2 ^ 64"
  shows "\<exists>ni3. ni_tick ms ni2 = Inr ni3 \<and> ni_time_entries ni3 = [] \<and>
           map_option mn_address (ni_ip_eth_map ni3 (arp_sender_ip_address m2)) =
             Some (arp_sender_ethernet_address m2) \<and>
           (\<forall>ms'. ni_tick ms' ni3 = Inr (ni3\<lparr>ni_time_alive := ni_time_alive ni3 + ms'\<rparr>))"
proof -
  note l1 = recv_frame_learns [OF r1]
  note l2 = recv_frame_learns [OF r2]
  obtain e where e: "ni_time_entries (learn_mapping m1 ni) = ni_time_entries ni @ [e]"
    "te_expiration_time e = ni_time_alive ni + 30000"
    by (rule learn_new_entries [OF ok new(1) later])
  have ok1: "entries_ok ni1"
    using learn_mapping_entries_ok [OF ok new(1) later room(1)] same_map_entries(2) [OF l1(4)] by simp
  have "map_option mn_address (ni_ip_eth_map ni1 (arp_sender_ip_address m2)) = None"
    using learn_mapping_map [of m1 ni "arp_sender_ip_address m2"] new l1(1) by simp
  then have new1: "ni_ip_eth_map ni1 (arp_sender_ip_address m2) = None" by simp
  have es1: "ni_time_entries ni1 = ni_time_entries ni @ [e]"
    "te_expiration_time e = ni_time_alive ni1 + 30000"
    using e l1 by simp_all
  note l = learn_same_time [OF ok1 new1 es1 room(2)]
  let ?ni = "ni2\<lparr>ni_time_alive := ni_time_alive ni2 + ms\<rparr>"
  have te: "ni_time_entries ?ni = ni_time_entries ni @ [e]" using l(1) l2(2) es1(1) by simp
  have alive: "ni_time_alive ?ni = ni_time_alive ni + ms" using l1(3) l2(3) by simp
  have v: "entries_valid ?ni"
    using l(2) same_map_entries(1) [OF l2(4)] by (simp add: entries_valid_def)
  have "\<forall>x \<in> set (ni_time_entries ?ni). te_expiration_time x \<le> ni_time_alive ?ni"
    unfolding te alive using later e(2) clock_advances [OF ms]
    by (auto intro: order.trans less_imp_le)
  then obtain ni3 where t: "expire_entries (ni_time_entries ?ni) ?ni = Inr ni3" "ni_time_entries ni3 = []"
    and m: "ni_ip_eth_map ni3 = ni_ip_eth_map ?ni |` (- te_key ` set (ni_time_entries ?ni))"
    by (rule expire_all [OF v])
  have "ni_ip_eth_map ni3 (arp_sender_ip_address m2) =
      ni_ip_eth_map (learn_mapping m2 ni1) (arp_sender_ip_address m2)"
    using l(3) l2(1) unfolding m te es1(1) by (simp add: restrict_map_def)
  then have "map_option mn_address (ni_ip_eth_map ni3 (arp_sender_ip_address m2)) =
      Some (arp_sender_ethernet_address m2)"
    by (simp add: learn_mapping_map)
  with t show ?thesis by (intro exI [of _ ni3]) (simp add: ni_tick_def Let_def)
qed

theorem ni_same_time_mapping_never_expires_witness:
  "\<exists>ni1 ni2 ni3. recv_frame numeric_resolver (reply_frame 10 7) (new_network_interface (\<lambda>_. 16) [1, 2, 3, 4, 5, 6] (inet_address 1 0)) =
       Inr (ni1, None) \<and>
     recv_frame numeric_resolver (reply_frame 11 8) ni1 = Inr (ni2, None) \<and> ni_tick 40000 ni2 = Inr ni3 \<and>
     map_option mn_address (ni_ip_eth_map ni3 11) = Some (replicate 6 8)"
proof -
  let ?n = "new_network_interface (\<lambda>_. 16) [1, 2, 3, 4, 5, 6] (inet_address 1 0)"
  have new: "ni_datagram_qs ?n = Map.empty" "ni_ip_eth_map ?n = Map.empty" "ni_time_entries ?n = []"
    "ni_time_alive ?n = 0" by (simp_all add: new_network_interface_def)
  have k: "arp_sender_ip_address (reply_of ip b) = ip"
    "arp_sender_ethernet_address (reply_of ip b) = replicate 6 b" for ip b
    by (simp_all add: reply_of_def del: replicate.simps)
  obtain ni1 where r1: "recv_frame numeric_resolver (reply_frame 10 7) ?n = Inr (ni1, None)"
    and q1: "ni_datagram_qs ni1 = [10 \<mapsto> []]" and m1: "same_map (learn_mapping (reply_of 10 7) ?n) ni1"
    using recv_reply [of ?n 10 numeric_resolver 7] new(1) by (simp add: same_map_def)
  have room: "map_has_room ni1"
    using m1 by (simp add: same_map_entries(3)) (simp add: learn_mapping_def map_assign_def new_network_interface_def
        map_has_room_def Let_def)
  obtain ni2 where r2: "recv_frame numeric_resolver (reply_frame 11 8) ni1 = Inr (ni2, None)"
    using recv_reply [of ni1 11 numeric_resolver 8] q1 by simp
  have "\<exists>ni3. ni_tick 40000 ni2 = Inr ni3 \<and> ni_time_entries ni3 = [] \<and>
           map_option mn_address (ni_ip_eth_map ni3 (arp_sender_ip_address (reply_of 11 8))) =
             Some (arp_sender_ethernet_address (reply_of 11 8)) \<and>
           (\<forall>ms'. ni_tick ms' ni3 = Inr (ni3\<lparr>ni_time_alive := ni_time_alive ni3 + ms'\<rparr>))"
    by (rule ni_same_time_mapping_never_expires [OF entries_ok_new _ _ _ _ accepts_reply r1 accepts_reply r2])
       (simp_all add: new k room)
  then show ?thesis using r1 r2 unfolding k by blast
qed

text \<open>The first half of an exchange: a request reaches the interface it asks for, which answers.\<close>

lemma arp_request_answered:
  fixes A B :: network_interface
  assumes res: "resolves_decimal resolve"
    and eth: "eth_address_ok (ni_ethernet_address A)"
    and ip: "ipv4_numeric (ni_ip_address B) = Inr ip" and none: "waiting_for own B = []"
  obtains B1 where
    "recv_frame resolve (frame_create (ni_ethernet_address A) ETHERNET_BROADCAST TYPE_ARP
       [arp_bytes (arp_request A own ip)]) B = Inr (B1, None)"
    and "ni_ethernet_q B1 = ni_ethernet_q B @ [frame_create (ni_ethernet_address B) (ni_ethernet_address A) TYPE_ARP
       [arp_bytes (arp_reply_to B ip (arp_request A own ip))]]"
    and "ni_ethernet_address B1 = ni_ethernet_address B"
proof -
  let ?req = "arp_request A own ip"
  let ?request = "frame_create (ni_ethernet_address A) ETHERNET_BROADCAST TYPE_ARP [arp_bytes ?req]"
  have req: "arp_sender_ip_address ?req = own" "arp_opcode ?req = OPCODE_REQUEST"
    "arp_sender_ethernet_address ?req = ni_ethernet_address A" "arp_target_ip_address ?req = ip"
    "arp_addresses_ok ?req"
    using eth by (simp_all add: arp_request_def arp_addresses_ok_def eth_address_ok_def)
  have acc: "accepts_arp B ?request ?req"
    by (rule accepts_arp_frame [OF arp_made_supported(1) req(5)]) simp
  have q: "\<forall>x \<in> set (waiting_for (arp_sender_ip_address ?req) B). ip_ver (dg_header x) = 4"
    by (simp add: req(1) none)
  obtain B1 where "recv_frame resolve ?request B = Inr (B1, None)"
    "ni_ethernet_q B1 = ni_ethernet_q B @ [frame_create (ni_ethernet_address B) (ni_ethernet_address A) TYPE_ARP
       [arp_bytes (arp_reply_to B ip ?req)]]" "ni_ethernet_address B1 = ni_ethernet_address B"
    using recv_frame_arp [OF acc, of resolve] arp_received_ok [OF res ip q]
    by (simp add: req(1-4) none learn_mapping_fields)
  then show thesis by (rule that)
qed

text \<open>
  C22: A datagram for a host whose address is unknown is queued and announced by an ARP
  request, which that host answers; the answer releases every datagram that waited for it,
  in order, and the host accepts each of them.
\<close>

theorem ni_arp_exchange_delivers:
  fixes A B :: network_interface
  assumes res: "resolves_decimal resolve"
    and eth: "eth_address_ok (ni_ethernet_address A)" "eth_address_ok (ni_ethernet_address B)"
    and unknown: "ni_ip_eth_map A ip = None" "\<not> request_pending ip A"
    and ips: "ipv4_numeric hop = Inr ip" "ipv4_numeric (ni_ip_address B) = Inr ip"
      "ipv4_numeric (ni_ip_address A) = Inr own"
    and queues: "waiting_for ip A = ws" "waiting_for own B = []"
    and plain: "\<forall>x \<in> set (ws @ [d]). ipv4_plain (dg_header x) \<and>
                  ipv4_compute_checksum (dg_header x) = Inr (dg_header x)"
  shows "\<exists>A1 B1 A2 request reply.
     send_datagram resolve d hop A = Inr A1 \<and> ni_ethernet_q A1 = ni_ethernet_q A @ [request] \<and>
     recv_frame resolve request B = Inr (B1, None) \<and> ni_ethernet_q B1 = ni_ethernet_q B @ [reply] \<and>
     recv_frame resolve reply A1 = Inr (A2, None) \<and>
     map_option mn_address (ni_ip_eth_map A2 ip) = Some (ni_ethernet_address B) \<and>
     ni_datagram_qs A2 ip = Some [] \<and>
     (\<exists>frames. ni_ethernet_q A2 = ni_ethernet_q A1 @ frames \<and>
        list_all2 (\<lambda>x f. \<exists>x'. recv_frame resolve f B1 = Inr (B1, Some x') \<and>
            dg_header x' = dg_header x \<and> concat (dg_payload x') = concat (dg_payload x))
          (ws @ [d]) frames)"
proof -
  let ?req = "arp_request A own ip"
  let ?request = "frame_create (ni_ethernet_address A) ETHERNET_BROADCAST TYPE_ARP [arp_bytes ?req]"
  let ?A1 = "A\<lparr>ni_datagram_qs := (ni_datagram_qs A)(ip \<mapsto> ws @ [d]),
      ni_ethernet_q := ni_ethernet_q A @ [?request],
      ni_arp_request_times := (ni_arp_request_times A)(ip \<mapsto> ni_time_alive A)\<rparr>"
  have sent: "send_datagram resolve d hop A = Inr ?A1"
    using send_datagram_unknown [OF res ips(1,3) unknown(1), of d] unknown(2) by (simp add: queues(1))
  let ?rep = "arp_reply_to B ip ?req"
  let ?reply = "frame_create (ni_ethernet_address B) (ni_ethernet_address A) TYPE_ARP [arp_bytes ?rep]"
  obtain B1 where B1: "recv_frame resolve ?request B = Inr (B1, None)"
    "ni_ethernet_q B1 = ni_ethernet_q B @ [?reply]" "ni_ethernet_address B1 = ni_ethernet_address B"
    by (rule arp_request_answered [OF res eth(1) ips(2) queues(2)])
  have rep: "arp_sender_ip_address ?rep = ip" "arp_opcode ?rep \<noteq> OPCODE_REQUEST"
    "arp_sender_ethernet_address ?rep = ni_ethernet_address B" "arp_addresses_ok ?rep"
    using eth
    by (simp_all add: arp_reply_to_def arp_request_def arp_addresses_ok_def eth_address_ok_def OPCODE_REPLY_def OPCODE_REQUEST_def)
  have acc2: "accepts_arp ?A1 ?reply ?rep"
    by (rule accepts_arp_frame [OF arp_made_supported(2) rep(4)]) simp
  have own1: "ipv4_numeric (ni_ip_address ?A1) = Inr own" using ips(3) by simp
  have w2: "waiting_for ip ?A1 = ws @ [d]" by (simp add: waiting_for_def)
  have q2: "\<forall>x \<in> set (waiting_for (arp_sender_ip_address ?rep) ?A1). ip_ver (dg_header x) = 4"
    using plain unfolding rep(1) w2 by (auto simp: ipv4_plain_def)
  obtain A2 where A2: "recv_frame resolve ?reply ?A1 = Inr (A2, None)"
    "ni_ethernet_q A2 = ni_ethernet_q ?A1 @ map (datagram_frame ?A1 (ni_ethernet_address B)) (ws @ [d])"
    "ni_datagram_qs A2 ip = Some []" "ni_ip_eth_map A2 = ni_ip_eth_map (learn_mapping ?rep ?A1)"
    using recv_frame_arp [OF acc2, of resolve] arp_received_ok [OF res own1 q2] unfolding rep(1) w2 rep(3)
    by (simp add: rep(2))
  have "map_option mn_address (ni_ip_eth_map A2 ip) = Some (ni_ethernet_address B)"
    unfolding A2(4) learn_mapping_map rep(1) rep(3) by simp
  moreover have "list_all2 (\<lambda>x f. \<exists>x'. recv_frame resolve f B1 = Inr (B1, Some x') \<and>
      dg_header x' = dg_header x \<and> concat (dg_payload x') = concat (dg_payload x))
      (ws @ [d]) (map (datagram_frame ?A1 (ni_ethernet_address B)) (ws @ [d]))"
    using plain recv_datagram_frame [where ni = B1 and dst = "ni_ethernet_address B"] B1(3)
    by (simp add: list_all2_conv_all_nth nth_append)
  ultimately show ?thesis
    using sent B1(1,2) A2(1,2,3)
    by (intro exI [of _ ?A1] exI [of _ B1] exI [of _ A2] exI [of _ ?request] exI [of _ ?reply]) auto
qed

theorem ni_arp_exchange_delivers_witness:
  "\<exists>h A1 B1 A2 f1 f2 f3 x.
     send_datagram numeric_resolver \<lparr>dg_header = h, dg_payload = [[1, 2]]\<rparr> (inet_address 2 0)
       (new_network_interface (\<lambda>_. 16) [2, 0, 0, 0, 0, 1] (inet_address 1 0)) = Inr A1 \<and>
     ni_ethernet_q A1 = [f1] \<and>
     recv_frame numeric_resolver f1 (new_network_interface (\<lambda>_. 16) [2, 0, 0, 0, 0, 2] (inet_address 2 0)) =
       Inr (B1, None) \<and> ni_ethernet_q B1 = [f2] \<and>
     recv_frame numeric_resolver f2 A1 = Inr (A2, None) \<and> ni_ethernet_q A2 = [f1, f3] \<and>
     recv_frame numeric_resolver f3 B1 = Inr (B1, Some x) \<and> concat (dg_payload x) = [1, 2]"
proof -
  obtain h where h: "ipv4_plain h" "ipv4_compute_checksum h = Inr h" by (rule valid_header_exists)
  let ?d = "\<lparr>dg_header = h, dg_payload = [[1, 2]]\<rparr>"
  let ?hop = "inet_address 2 0"
  let ?A = "new_network_interface (\<lambda>_. 16) [2, 0, 0, 0, 0, 1] (inet_address 1 0)"
  let ?B = "new_network_interface (\<lambda>_. 16) [2, 0, 0, 0, 0, 2] ?hop"
  have new: "ni_ethernet_q ?A = []" "ni_ethernet_q ?B = []" by (simp_all add: new_network_interface_def)
  have "\<exists>A1 B1 A2 request reply.
     send_datagram numeric_resolver ?d ?hop ?A = Inr A1 \<and> ni_ethernet_q A1 = ni_ethernet_q ?A @ [request] \<and>
     recv_frame numeric_resolver request ?B = Inr (B1, None) \<and> ni_ethernet_q B1 = ni_ethernet_q ?B @ [reply] \<and>
     recv_frame numeric_resolver reply A1 = Inr (A2, None) \<and>
     map_option mn_address (ni_ip_eth_map A2 2) = Some (ni_ethernet_address ?B) \<and>
     ni_datagram_qs A2 2 = Some [] \<and>
     (\<exists>frames. ni_ethernet_q A2 = ni_ethernet_q A1 @ frames \<and>
        list_all2 (\<lambda>x f. \<exists>x'. recv_frame numeric_resolver f B1 = Inr (B1, Some x') \<and>
            dg_header x' = dg_header x \<and> concat (dg_payload x') = concat (dg_payload x))
          ([] @ [?d]) frames)"
    by (rule ni_arp_exchange_delivers [OF numeric_resolver_ok, where own = 1])
       (use h in \<open>simp_all add: new_network_interface_def eth_address_ok_def request_pending_def waiting_for_def\<close>)
  then obtain A1 B1 A2 f1 f2 frames where
    "send_datagram numeric_resolver ?d ?hop ?A = Inr A1" "ni_ethernet_q A1 = [f1]"
    "recv_frame numeric_resolver f1 ?B = Inr (B1, None)" "ni_ethernet_q B1 = [f2]"
    "recv_frame numeric_resolver f2 A1 = Inr (A2, None)" "ni_ethernet_q A2 = [f1] @ frames"
    "list_all2 (\<lambda>x f. \<exists>x'. recv_frame numeric_resolver f B1 = Inr (B1, Some x') \<and>
            dg_header x' = dg_header x \<and> concat (dg_payload x') = concat (dg_payload x)) [?d] frames"
    unfolding new by auto
  then show ?thesis by (auto simp: list_all2_Cons1) blast
qed

end
