(* ===== verification/Router.thy ===== *)
theory Router
  imports Network_Interface
begin

text \<open>
  The asynchronous network interface and the router of \<open>src/router.hh\<close> and
  \<open>src/router.cc\<close>.  The debug output of \<open>add_route\<close> is left out.
\<close>

subsection \<open>The asynchronous interface\<close>

record async_network_interface =
  an_interface :: network_interface
  an_datagrams_in :: "ipv4_datagram list"

definition new_async_network_interface :: "network_interface \<Rightarrow> async_network_interface" where
  "new_async_network_interface ni = \<lparr>an_interface = ni, an_datagrams_in = []\<rparr>"

definition async_recv_frame ::
  "resolver \<Rightarrow> ethernet_frame \<Rightarrow> async_network_interface \<Rightarrow> async_network_interface result" where
  "async_recv_frame resolve frame an =
     bind_result (recv_frame resolve frame (an_interface an)) (\<lambda>(ni, optional_dgram).
     let an = an\<lparr>an_interface := ni\<rparr>
     in Inr (case optional_dgram of
               Some dgram \<Rightarrow> an\<lparr>an_datagrams_in := an_datagrams_in an @ [dgram]\<rparr>
             | None \<Rightarrow> an))"

definition maybe_receive ::
  "async_network_interface \<Rightarrow> async_network_interface \<times> ipv4_datagram option" where
  "maybe_receive an =
     (case an_datagrams_in an of
        [] \<Rightarrow> (an, None)
      | datagram # datagrams \<Rightarrow> (an\<lparr>an_datagrams_in := datagrams\<rparr>, Some datagram))"

subsection \<open>The router\<close>

record router =
  rt_interfaces :: "async_network_interface list"
  rt_routing_table :: "(u32 \<times> u8) \<rightharpoonup> (address option \<times> nat)"

definition new_router :: router where
  "new_router = \<lparr>rt_interfaces = [], rt_routing_table = Map.empty\<rparr>"

definition add_interface :: "async_network_interface \<Rightarrow> router \<Rightarrow> router \<times> nat" where
  "add_interface an rt =
     (let rt = rt\<lparr>rt_interfaces := rt_interfaces rt @ [an]\<rparr>
      in (rt, length (rt_interfaces rt) - 1))"

definition router_interface :: "nat \<Rightarrow> router \<Rightarrow> async_network_interface result" where
  "router_interface n rt =
     (if n < length (rt_interfaces rt) then Inr (rt_interfaces rt ! n)
      else Inl (Throws ''vector::_M_range_check''))"

definition add_route :: "u32 \<Rightarrow> u8 \<Rightarrow> address option \<Rightarrow> nat \<Rightarrow> router \<Rightarrow> router" where
  "add_route route_prefix prefix_length next_hop interface_num rt =
     rt\<lparr>rt_routing_table :=
          (rt_routing_table rt)((route_prefix, prefix_length) \<mapsto> (next_hop, interface_num))\<rparr>"

text \<open>The loop of \<open>route\<close> over one interface: what it receives is not used.\<close>

definition route_interface :: "async_network_interface \<Rightarrow> async_network_interface option" where
  "route_interface an = map_option fst (drain_loop maybe_receive (\<lambda>dgram w. Inr w) an ())"

fun route_interfaces :: "async_network_interface list \<Rightarrow> async_network_interface list option" where
  "route_interfaces [] = Some []"
| "route_interfaces (an # ans) =
     Option.bind (route_interface an) (\<lambda>an. map_option (\<lambda>ans. an # ans) (route_interfaces ans))"

definition route :: "router \<Rightarrow> router option" where
  "route rt = map_option (\<lambda>ans. rt\<lparr>rt_interfaces := ans\<rparr>) (route_interfaces (rt_interfaces rt))"

subsection \<open>The queue of received datagrams\<close>

interpretation datagrams: outbox maybe_receive an_datagrams_in an_interface
  by unfold_locales (auto simp: maybe_receive_def)

lemma route_interface_drains: "route_interface an = Some (an\<lparr>an_datagrams_in := []\<rparr>)"
proof -
  have "use_all (\<lambda>dgram w. Inr w) ds () = Inr ()" for ds :: "ipv4_datagram list"
    by (induction ds) simp_all
  from datagrams.drain_total [OF this [of "an_datagrams_in an"]] obtain s' where
    "drain_loop maybe_receive (\<lambda>dgram w. Inr w) an () = Some (s', Inr ())"
    "an_datagrams_in s' = []" "an_interface s' = an_interface an" by blast
  then show ?thesis by (simp add: route_interface_def)
qed

lemma route_interfaces_drain:
  "route_interfaces ans = Some (map (\<lambda>an. an\<lparr>an_datagrams_in := []\<rparr>) ans)"
  by (induction ans) (simp_all add: route_interface_drains)

text \<open>Every datagram that an accepted frame carries is queued behind the earlier ones.\<close>

fun async_recv_frames ::
  "resolver \<Rightarrow> ethernet_frame list \<Rightarrow> async_network_interface \<Rightarrow> async_network_interface result" where
  "async_recv_frames resolve [] an = Inr an"
| "async_recv_frames resolve (f # fs) an =
     bind_result (async_recv_frame resolve f an) (async_recv_frames resolve fs)"

subsection \<open>Properties\<close>

text \<open>
  Whatever routes were added, \<open>route\<close> ends, discards every datagram that was
  received and sends none: no interface has a new frame to send, nor a datagram waiting.
\<close>

theorem route_discards_every_datagram:
  "route rt = Some (rt\<lparr>rt_interfaces :=
     map (\<lambda>an. an\<lparr>an_datagrams_in := []\<rparr>) (rt_interfaces rt)\<rparr>)"
  by (simp add: route_def route_interfaces_drain)

end
