(* ===== verification/Tcp_Peer.thy ===== *)
theory Tcp_Peer
  imports Tcp_Segment Tcp_Sender Tcp_Receiver
begin

text \<open>
  The TCP endpoint of \<open>util/tcp_peer.hh\<close>: a sender, a receiver and a reassembler between an
  outbound and an inbound byte stream.  The random initial sequence number of the sender is
  an argument of the constructor.
\<close>

subsection \<open>State and operations\<close>

record tcp_peer =
  pe_cfg :: tcp_config
  pe_sender :: tcp_sender
  pe_receiver :: tcp_receiver
  pe_reassembler :: reassembler
  pe_outbound :: byte_stream
  pe_inbound :: byte_stream
  pe_need_send :: bool

definition new_tcp_peer :: "tcp_config \<Rightarrow> u32 \<Rightarrow> tcp_peer" where
  "new_tcp_peer cfg random =
     \<lparr>pe_cfg = cfg, pe_sender = new_tcp_sender (ucast (cfg_rt_timeout cfg)) (cfg_fixed_isn cfg) random,
      pe_receiver = new_tcp_receiver, pe_reassembler = new_reassembler,
      pe_outbound = new_byte_stream (cfg_send_capacity cfg),
      pe_inbound = new_byte_stream (cfg_recv_capacity cfg), pe_need_send = False\<rparr>"

definition peer_push :: "tcp_peer \<Rightarrow> tcp_peer result option" where
  "peer_push p =
     map_option (\<lambda>r. bind_result r (\<lambda>(sender, outbound).
         Inr (p\<lparr>pe_sender := sender, pe_outbound := outbound\<rparr>)))
       (sender_push (pe_sender p) (pe_outbound p))"

definition peer_tick :: "u64 \<Rightarrow> tcp_peer \<Rightarrow> tcp_peer" where
  "peer_tick ms_since_last_tick p = p\<lparr>pe_sender := sender_tick ms_since_last_tick (pe_sender p)\<rparr>"

definition peer_has_ackno :: "tcp_peer \<Rightarrow> bool" where
  "peer_has_ackno p \<longleftrightarrow> rm_ackno (receiver_send (pe_receiver p) (pe_inbound p)) \<noteq> None"

definition peer_active :: "tcp_peer \<Rightarrow> bool" where
  "peer_active p \<longleftrightarrow>
     \<not> reader_has_error (pe_inbound p) \<and>
     (\<not> reader_is_finished (pe_outbound p) \<or> \<not> writer_is_closed (pe_inbound p) \<or>
      sequence_numbers_in_flight (pe_sender p) \<noteq> 0)"

definition peer_receive :: "tcp_segment \<Rightarrow> tcp_peer \<Rightarrow> tcp_peer result" where
  "peer_receive seg p =
     (if tg_reset seg \<or> reader_has_error (pe_inbound p)
      then Inr (p\<lparr>pe_inbound := writer_set_error (pe_inbound p)\<rparr>)
      else
        bind_result (sender_receive (tg_receiver seg) (pe_sender p)) (\<lambda>sender.
        let p = p\<lparr>pe_sender := sender\<rparr>;
            p = p\<lparr>pe_need_send := pe_need_send p \<or> sequence_length (tg_sender seg) > 0\<rparr>;
            our_ackno = rm_ackno (receiver_send (pe_receiver p) (pe_inbound p));
            p = p\<lparr>pe_need_send := pe_need_send p \<or>
                    our_ackno = Some (wrap32_plus (sm_seqno (tg_sender seg)) 1)\<rparr>
        in bind_result (receiver_receive (tg_sender seg) (pe_receiver p) (pe_reassembler p) (pe_inbound p))
             (\<lambda>(receiver, reassembler, inbound).
                Inr (p\<lparr>pe_receiver := receiver, pe_reassembler := reassembler, pe_inbound := inbound\<rparr>))))"

text \<open>The part of \<open>maybe_send\<close> after the push.\<close>

definition peer_make_segment ::
  "tcp_receiver_message \<Rightarrow> tcp_peer \<Rightarrow> (tcp_peer \<times> tcp_segment option) result" where
  "peer_make_segment receiver_msg p =
     bind_result (sender_maybe_send (pe_sender p)) (\<lambda>(sender, sender_msg).
     let p = p\<lparr>pe_sender := sender\<rparr>;
         sender_msg = (if pe_need_send p \<and> sender_msg = None
                       then Some (sender_send_empty_message (pe_sender p)) else sender_msg);
         p = p\<lparr>pe_need_send := False\<rparr>
     in Inr (p, map_option (\<lambda>m.
          \<lparr>tg_sender = m, tg_receiver = receiver_msg,
           tg_reset = (reader_has_error (pe_outbound p) \<or> reader_has_error (pe_inbound p)),
           tg_udinfo = tg_udinfo empty_tcp_segment\<rparr>) sender_msg))"

definition peer_maybe_send :: "tcp_peer \<Rightarrow> (tcp_peer \<times> tcp_segment option) result option" where
  "peer_maybe_send p =
     (let receiver_msg = receiver_send (pe_receiver p) (pe_inbound p)
      in map_option (\<lambda>r. bind_result r (peer_make_segment receiver_msg))
           (if rm_ackno receiver_msg \<noteq> None then peer_push p else Some (Inr p)))"

subsection \<open>What receiving and sending keep\<close>

lemma sender_receive_keeps:
  assumes "sender_receive msg s = Inr s'"
  shows "ts_syn_sent s' = ts_syn_sent s" and "ts_retransmit s' = ts_retransmit s"
    and "ts_ackno s \<noteq> None \<Longrightarrow> ts_ackno s' \<noteq> None"
  using assms
  by (auto simp: sender_receive_def receive_new_ack_def Let_def split: option.splits if_splits)

lemma sender_receive_ok:
  assumes "ts_ackno s \<noteq> None" and "rm_ackno msg \<noteq> None"
  obtains s' where "sender_receive msg s = Inr s'"
proof -
  from assms obtain old ackno where "ts_ackno s = Some old" "rm_ackno msg = Some ackno" by blast
  then have "\<exists>s'. sender_receive msg s = Inr s'" by (simp add: sender_receive_def Let_def)
  then show ?thesis using that by blast
qed

lemma peer_receive_sender:
  assumes "peer_receive seg p = Inr p'" and "\<not> tg_reset seg" and "\<not> reader_has_error (pe_inbound p)"
  obtains sender where "sender_receive (tg_receiver seg) (pe_sender p) = Inr sender"
    and "pe_sender p' = sender" and "pe_outbound p' = pe_outbound p"
    and "pe_need_send p' \<longleftrightarrow> pe_need_send p \<or> sequence_length (tg_sender seg) > 0 \<or>
           rm_ackno (receiver_send (pe_receiver p) (pe_inbound p)) =
             Some (wrap32_plus (sm_seqno (tg_sender seg)) 1)"
  using assms by (fastforce simp: peer_receive_def Let_def)

lemma maybe_send_ok:
  assumes "\<not> ts_retransmit s"
  obtains s' m where "sender_maybe_send s = Inr (s', m)"
  using assms by (cases "ts_pushed s") (auto simp: sender_maybe_send_def Let_def)

lemma peer_make_segment_ok:
  assumes "\<not> ts_retransmit (pe_sender p)"
  shows "\<exists>p' g. peer_make_segment msg p = Inr (p', g) \<and> (pe_need_send p \<longrightarrow> g \<noteq> None) \<and>
           (\<forall>seg. g = Some seg \<longrightarrow> tg_receiver seg = msg \<and>
              tg_reset seg = (reader_has_error (pe_outbound p) \<or> reader_has_error (pe_inbound p)))"
proof -
  obtain s' m where "sender_maybe_send (pe_sender p) = Inr (s', m)"
    by (rule maybe_send_ok [OF assms])
  then show ?thesis by (auto simp: peer_make_segment_def Let_def)
qed

text \<open>A push on an open connection keeps everything but the sender and its stream.\<close>

lemma peer_push_ok:
  assumes "stream_inv (pe_outbound p)" and "ts_syn_sent (pe_sender p)" and "ts_ackno (pe_sender p) \<noteq> None"
  obtains p' where "peer_push p = Some (Inr p')" and "pe_need_send p' = pe_need_send p"
    and "pe_inbound p' = pe_inbound p" and "ts_retransmit (pe_sender p') = ts_retransmit (pe_sender p)"
proof -
  from assms(3) obtain ackno where a: "ts_ackno (pe_sender p) = Some ackno" by blast
  obtain ms out where "sender_push (pe_sender p) (pe_outbound p) = Some (Inr (after_push ms (pe_sender p), out))"
    by (rule sender_push_cut [OF assms(1,2) a]) blast
  then show ?thesis using that by (simp add: peer_push_def after_push_def)
qed

lemma error_stays [simp]:
  "reader_has_error (writer_set_error bs)" "writer_set_error (writer_set_error bs) = writer_set_error bs"
  by (simp_all add: reader_has_error_def writer_set_error_def)

text \<open>A peer that has sent its SYN and hears the SYN of the other side, for the examples.\<close>

definition opening_peer :: tcp_peer where
  "opening_peer =
     (new_tcp_peer default_tcp_config 7)\<lparr>pe_sender := (new_tcp_sender 1000 (Some (Wrap32 7)) 0)
        \<lparr>ts_syn_sent := True, ts_abs_seqno := 1\<rparr>\<rparr>"

definition syn_ack :: tcp_segment where
  "syn_ack = empty_tcp_segment
     \<lparr>tg_sender := empty_sender_message\<lparr>sm_SYN := True, sm_seqno := Wrap32 9\<rparr>,
      tg_receiver := \<lparr>rm_ackno = Some (Wrap32 8), rm_window_size = 100\<rparr>\<rparr>"

subsection \<open>Properties\<close>

text \<open>
  What a segment with an acknowledgment does to a peer whose receiver has run on segments of
  one stream: it is received.
\<close>

lemma peer_receive_ok:
  assumes "receiver_run es (new_tcp_receiver, new_sys c) = Inr (pe_receiver p, s)"
    and "rs_ra s = pe_reassembler p" and "rs_out s = pe_inbound p"
    and "\<forall>e \<in> set es. receiver_event_of str isn e" and "segment_of str isn f (tg_sender seg)"
    and "length str < 2 ^ 31 - 1" and "length str + unat c < 2 ^ 64"
    and "ts_ackno (pe_sender p) \<noteq> None" and "rm_ackno (tg_receiver seg) \<noteq> None"
  shows "\<exists>p1. peer_receive seg p = Inr p1"
proof -
  have cap: "bs_capacity (rs_out (new_sys c)) = c" by (simp add: new_sys_def new_byte_stream_def)
  have "receiver_inv str isn (pe_receiver p, s)"
    using receiver_inv_run [OF receiver_inv_new assms(4,6), of c] assms(1,7) cap by auto
  from receiver_inv_segment [OF this assms(5,6)] obtain r ra inbound where
    r: "receiver_receive (tg_sender seg) (pe_receiver p) (pe_reassembler p) (pe_inbound p) = Inr (r, ra, inbound)"
    using assms(2,3) by auto
  obtain sender where "sender_receive (tg_receiver seg) (pe_sender p) = Inr sender"
    by (rule sender_receive_ok [OF assms(8,9)])
  with r show ?thesis by (simp add: peer_receive_def Let_def)
qed

text \<open>
  C11: Let a connection be open: the SYN was sent and an acknowledgment is known, no error was
  signalled and no retransmission is due.  A segment that is not a reset, once it is received
  without an error, is answered if it occupies sequence numbers or is a keep-alive: the next
  \<open>maybe_send\<close> returns a segment, and whatever segment it returns carries the acknowledgment
  and the window of the receiver.  It is received without an error when it has an
  acknowledgment and belongs, like all before it, to one stream.
\<close>

theorem peer_answers:
  assumes live: "\<not> tg_reset seg" "\<not> reader_has_error (pe_inbound p)"
    and open_conn: "stream_inv (pe_outbound p)" "ts_syn_sent (pe_sender p)" "ts_ackno (pe_sender p) \<noteq> None"
    and idle: "\<not> ts_retransmit (pe_sender p)"
  shows "(\<forall>p1. peer_receive seg p = Inr p1 \<longrightarrow>
            (\<exists>p2 g. peer_maybe_send p1 = Some (Inr (p2, g)) \<and>
               (sequence_length (tg_sender seg) > 0 \<or>
                rm_ackno (receiver_send (pe_receiver p) (pe_inbound p)) =
                  Some (wrap32_plus (sm_seqno (tg_sender seg)) 1) \<longrightarrow> g \<noteq> None) \<and>
               (\<forall>seg'. g = Some seg' \<longrightarrow> tg_receiver seg' = receiver_send (pe_receiver p1) (pe_inbound p1)))) \<and>
         (\<forall>str isn f es s c. length str < 2 ^ 31 - 1 \<and> length str + unat c < 2 ^ 64 \<and>
            receiver_run es (new_tcp_receiver, new_sys c) = Inr (pe_receiver p, s) \<and>
            rs_ra s = pe_reassembler p \<and> rs_out s = pe_inbound p \<and>
            (\<forall>e \<in> set es. receiver_event_of str isn e) \<and> segment_of str isn f (tg_sender seg) \<and>
            rm_ackno (tg_receiver seg) \<noteq> None \<longrightarrow> (\<exists>p1. peer_receive seg p = Inr p1))"
proof (intro conjI allI impI)
  fix p1
  assume recv: "peer_receive seg p = Inr p1"
  obtain s where s: "sender_receive (tg_receiver seg) (pe_sender p) = Inr s" "pe_sender p1 = s"
      "pe_outbound p1 = pe_outbound p"
    and need: "pe_need_send p1 \<longleftrightarrow> pe_need_send p \<or> sequence_length (tg_sender seg) > 0 \<or>
           rm_ackno (receiver_send (pe_receiver p) (pe_inbound p)) =
             Some (wrap32_plus (sm_seqno (tg_sender seg)) 1)"
    by (rule peer_receive_sender [OF recv live])
  note keeps = sender_receive_keeps [OF s(1)]
  let ?msg = "receiver_send (pe_receiver p1) (pe_inbound p1)"
  obtain q where q: "(if rm_ackno ?msg \<noteq> None then peer_push p1 else Some (Inr p1)) = Some (Inr q)"
    "pe_need_send q = pe_need_send p1" "\<not> ts_retransmit (pe_sender q)"
  proof (cases "rm_ackno ?msg = None")
    case True
    then show ?thesis using that keeps(2) idle s(2) by simp
  next
    case False
    have "stream_inv (pe_outbound p1)" "ts_syn_sent (pe_sender p1)" "ts_ackno (pe_sender p1) \<noteq> None"
      using open_conn keeps s by simp_all
    then obtain q where "peer_push p1 = Some (Inr q)" "pe_need_send q = pe_need_send p1"
      "ts_retransmit (pe_sender q) = ts_retransmit (pe_sender p1)"
      by (rule peer_push_ok)
    then show ?thesis using that False keeps(2) idle s(2) by simp
  qed
  from peer_make_segment_ok [OF q(3), of ?msg] obtain p2 g where
    "peer_make_segment ?msg q = Inr (p2, g)" "pe_need_send q \<longrightarrow> g \<noteq> None"
    "\<forall>seg'. g = Some seg' \<longrightarrow> tg_receiver seg' = ?msg" by blast
  with q need show "\<exists>p2 g. peer_maybe_send p1 = Some (Inr (p2, g)) \<and>
      (sequence_length (tg_sender seg) > 0 \<or> rm_ackno (receiver_send (pe_receiver p) (pe_inbound p)) =
         Some (wrap32_plus (sm_seqno (tg_sender seg)) 1) \<longrightarrow> g \<noteq> None) \<and>
      (\<forall>seg'. g = Some seg' \<longrightarrow> tg_receiver seg' = ?msg)"
    by (intro exI [of _ p2] exI [of _ g]) (auto simp: peer_maybe_send_def Let_def)
next
  fix str isn f es s and c :: u64
  assume "length str < 2 ^ 31 - 1 \<and> length str + unat c < 2 ^ 64 \<and>
      receiver_run es (new_tcp_receiver, new_sys c) = Inr (pe_receiver p, s) \<and>
      rs_ra s = pe_reassembler p \<and> rs_out s = pe_inbound p \<and>
      (\<forall>e \<in> set es. receiver_event_of str isn e) \<and> segment_of str isn f (tg_sender seg) \<and>
      rm_ackno (tg_receiver seg) \<noteq> None"
  then show "\<exists>p1. peer_receive seg p = Inr p1"
    using open_conn(3) by (elim conjE) (rule peer_receive_ok)
qed

text \<open>
  Witness: a peer that has sent its SYN hears the SYN and the acknowledgment of the other side.
\<close>

theorem peer_answers_witness:
  "\<exists>p1 p2 g. peer_receive syn_ack opening_peer = Inr p1 \<and>
     peer_maybe_send p1 = Some (Inr (p2, Some g)) \<and>
     tg_receiver g = receiver_send (pe_receiver p1) (pe_inbound p1)"
proof -
  have a: "\<not> tg_reset syn_ack" "\<not> reader_has_error (pe_inbound opening_peer)"
    "stream_inv (pe_outbound opening_peer)" "ts_syn_sent (pe_sender opening_peer)"
    "ts_ackno (pe_sender opening_peer) \<noteq> None" "\<not> ts_retransmit (pe_sender opening_peer)"
    by (simp_all add: syn_ack_def empty_tcp_segment_def opening_peer_def new_tcp_peer_def
        reader_has_error_def new_byte_stream_def new_stream_inv [unfolded new_byte_stream_def])
  note t = peer_answers [OF a]
  have "receiver_run [] (new_tcp_receiver, new_sys DEFAULT_CAPACITY) =
      Inr (pe_receiver opening_peer, new_sys DEFAULT_CAPACITY)"
    "rs_ra (new_sys DEFAULT_CAPACITY) = pe_reassembler opening_peer"
    "rs_out (new_sys DEFAULT_CAPACITY) = pe_inbound opening_peer"
    by (simp_all add: opening_peer_def new_tcp_peer_def new_sys_def default_tcp_config_def)
  moreover have "segment_of [] (Wrap32 9) 0 (tg_sender syn_ack)" "rm_ackno (tg_receiver syn_ack) \<noteq> None"
    by (simp_all add: syn_ack_def segment_of_def segment_index_def wrap_def wrap32_plus_def empty_sender_message_def)
  moreover have "length ([] :: bytes) < 2 ^ 31 - 1" "length ([] :: bytes) + unat DEFAULT_CAPACITY < 2 ^ 64"
    by simp_all
  ultimately obtain p1 where p1: "peer_receive syn_ack opening_peer = Inr p1"
    using t [THEN conjunct2, rule_format, of "[]" DEFAULT_CAPACITY "[]" "new_sys DEFAULT_CAPACITY" "Wrap32 9" 0] by auto
  have "sequence_length (tg_sender syn_ack) > 0"
    by (simp add: syn_ack_def sequence_length_def)
  with t p1 show ?thesis by blast
qed

text \<open>
  C38: A segment without acknowledgment, such as the SYN that opens a connection
  passively, makes \<open>receive\<close> hand the empty acknowledgment to the sender, which reads it.
\<close>

theorem peer_passive_open_undefined:
  assumes "\<not> tg_reset seg" and "\<not> reader_has_error (pe_inbound p)"
    and "rm_ackno (tg_receiver seg) = None"
  shows "peer_receive seg p = Inl (Undefined ''empty optional'')"
  using assms by (simp add: peer_receive_def sender_receive_def)

theorem peer_passive_open_undefined_witness:
  "peer_receive (empty_tcp_segment\<lparr>tg_sender := empty_sender_message\<lparr>sm_SYN := True\<rparr>\<rparr>)
     (new_tcp_peer default_tcp_config 7) = Inl (Undefined ''empty optional'')"
  by (rule peer_passive_open_undefined)
     (simp_all add: empty_tcp_segment_def new_tcp_peer_def reader_has_error_def new_byte_stream_def)

text \<open>
  A reset puts the inbound stream into the error state and ends the connection: the
  peer is no longer active, no later segment changes it, and every segment it still sends
  carries the reset flag.
\<close>

theorem peer_reset_is_final:
  assumes "tg_reset seg"
  shows "\<exists>p1. peer_receive seg p = Inr p1 \<and> \<not> peer_active p1 \<and>
           pe_sender p1 = pe_sender p \<and> pe_outbound p1 = pe_outbound p \<and>
           (\<forall>seg'. peer_receive seg' p1 = Inr p1) \<and>
           (\<forall>p2 g. peer_maybe_send p1 = Some (Inr (p2, Some g)) \<longrightarrow> tg_reset g \<and> \<not> peer_active p2)"
proof -
  let ?p1 = "p\<lparr>pe_inbound := writer_set_error (pe_inbound p)\<rparr>"
  have e: "reader_has_error (pe_inbound ?p1)" by simp
  have "peer_receive seg' ?p1 = Inr ?p1" for seg' by (simp add: peer_receive_def)
  moreover have "tg_reset g \<and> \<not> peer_active p2"
    if "peer_maybe_send ?p1 = Some (Inr (p2, Some g))" for p2 g
  proof -
    from that obtain q where q: "peer_make_segment (receiver_send (pe_receiver ?p1) (pe_inbound ?p1)) q =
        Inr (p2, Some g)" and inb: "pe_inbound q = pe_inbound ?p1"
      by (fastforce simp: peer_maybe_send_def peer_push_def Let_def split: if_splits)
    from q have "tg_reset g \<longleftrightarrow> reader_has_error (pe_outbound q) \<or> reader_has_error (pe_inbound q)"
      "pe_inbound p2 = pe_inbound q"
      by (auto simp: peer_make_segment_def Let_def split: if_splits)
    with inb e show ?thesis by (simp add: peer_active_def)
  qed
  ultimately show ?thesis
    using assms e by (intro exI [of _ ?p1]) (simp add: peer_receive_def peer_active_def)
qed

theorem peer_reset_is_final_witness:
  "\<exists>p1. peer_receive (syn_ack\<lparr>tg_reset := True\<rparr>) opening_peer = Inr p1 \<and> \<not> peer_active p1 \<and>
        peer_receive syn_ack p1 = Inr p1"
  using peer_reset_is_final [of "syn_ack\<lparr>tg_reset := True\<rparr>" opening_peer] by auto

end
