(* ===== verification/File_Descriptor.thy ===== *)
theory File_Descriptor
  imports Exceptions
begin

unbundle bit_operations_syntax

text \<open>
  File descriptors (\<open>util/file_descriptor.hh\<close>, \<open>util/file_descriptor.cc\<close>): the wrapper of a
  descriptor number with its flags and counters, and reading and writing through it.

  The operating system is a parameter \<open>K\<close>: what each system call answers in a state of the
  world (of any type \<open>'k\<close>), the next state and, for a read, the bytes it stores.  A
  \<open>FileDescriptor\<close> is its wrapper; which descriptors share one is not visible here.
\<close>

subsection \<open>The operating system\<close>

record 'k kernel =
  k_strerror :: error_category
  k_getfl :: "int \<Rightarrow> 'k \<Rightarrow> 'k \<times> sys_ret"
  k_setfl :: "int \<Rightarrow> u32 \<Rightarrow> 'k \<Rightarrow> 'k \<times> sys_ret"
  k_close :: "int \<Rightarrow> 'k \<Rightarrow> 'k \<times> sys_ret"
  k_read :: "int \<Rightarrow> nat \<Rightarrow> 'k \<Rightarrow> 'k \<times> sys_ret \<times> bytes"
  k_readv :: "int \<Rightarrow> nat list \<Rightarrow> 'k \<Rightarrow> 'k \<times> sys_ret \<times> bytes"
  k_writev :: "int \<Rightarrow> bytes list \<Rightarrow> 'k \<Rightarrow> 'k \<times> sys_ret"
  k_open :: "string \<Rightarrow> u32 \<Rightarrow> 'k \<Rightarrow> 'k \<times> sys_ret"
  k_tunsetiff :: "int \<Rightarrow> u16 \<Rightarrow> string \<Rightarrow> 'k \<Rightarrow> 'k \<times> sys_ret"

definition EAGAIN :: int where "EAGAIN = 11"
definition EINPROGRESS :: int where "EINPROGRESS = 115"
definition O_NONBLOCK :: u32 where "O_NONBLOCK = 2048"
definition kReadBufferSize :: nat where "kReadBufferSize = 16384"

text \<open>
  What POSIX documents of reads and writes: they transfer at most what was asked for, and
  a failed call transfers nothing.
\<close>

definition transfer_ok :: "nat \<Rightarrow> sys_ret \<Rightarrow> bytes \<Rightarrow> bool" where
  "transfer_ok n r data \<longleftrightarrow>
     sr_value r \<le> int n \<and> (if sr_value r < 0 then data = [] else length data = nat (sr_value r))"

definition reads_ok :: "'k kernel \<Rightarrow> bool" where
  "reads_ok K \<longleftrightarrow>
     (\<forall>fd n k. case k_read K fd n k of (k', r, data) \<Rightarrow> transfer_ok n r data) \<and>
     (\<forall>fd ns k. case k_readv K fd ns k of (k', r, data) \<Rightarrow> transfer_ok (sum_list ns) r data)"

subsection \<open>The wrapper\<close>

record fd_wrapper =
  fw_fd :: int
  fw_eof :: bool
  fw_closed :: bool
  fw_non_blocking :: bool
  fw_read_count :: u32
  fw_write_count :: u32

definition would_block :: "fd_wrapper \<Rightarrow> sys_ret \<Rightarrow> bool" where
  "would_block fw r \<longleftrightarrow> fw_non_blocking fw \<and> (sr_errno r = EAGAIN \<or> sr_errno r = EINPROGRESS)"

definition fd_check_system_call :: "'k kernel \<Rightarrow> string \<Rightarrow> sys_ret \<Rightarrow> fd_wrapper \<Rightarrow> int result" where
  "fd_check_system_call K attempt r fw =
     (if sr_value r \<ge> 0 then Inr (sr_value r)
      else if would_block fw r then Inr 0
      else Inl (unix_error (k_strerror K) attempt (sr_errno r)))"

definition decimal_int :: "int \<Rightarrow> string" where
  "decimal_int i = (if i < 0 then ''-'' @ decimal (nat (- i)) else decimal (nat i))"

definition new_fd_wrapper :: "'k kernel \<Rightarrow> int \<Rightarrow> 'k \<Rightarrow> (fd_wrapper \<times> 'k) result" where
  "new_fd_wrapper K fd k =
     (if fd < 0 then Inl (Throws (''invalid fd number:'' @ decimal_int fd))
      else
        let fw = \<lparr>fw_fd = fd, fw_eof = False, fw_closed = False, fw_non_blocking = False,
                  fw_read_count = 0, fw_write_count = 0\<rparr>;
            (k, r) = k_getfl K fd k
        in bind_result (fd_check_system_call K ''fcntl'' r fw) (\<lambda>flags.
           Inr (fw\<lparr>fw_non_blocking := (word_of_int flags AND O_NONBLOCK \<noteq> 0)\<rparr>, k)))"

definition fd_close :: "'k kernel \<Rightarrow> fd_wrapper \<Rightarrow> 'k \<Rightarrow> (fd_wrapper \<times> 'k) result" where
  "fd_close K fw k =
     (let (k, r) = k_close K (fw_fd fw) k
      in bind_result (fd_check_system_call K ''close'' r fw) (\<lambda>_.
         Inr (fw\<lparr>fw_eof := True, fw_closed := True\<rparr>, k)))"

text \<open>The destructor; a failure is printed and swallowed.\<close>

definition fd_destroy :: "'k kernel \<Rightarrow> fd_wrapper \<Rightarrow> 'k \<Rightarrow> 'k" where
  "fd_destroy K fw k = (if fw_closed fw then k else fst (k_close K (fw_fd fw) k))"

definition register_read :: "fd_wrapper \<Rightarrow> fd_wrapper" where
  "register_read fw = fw\<lparr>fw_read_count := fw_read_count fw + 1\<rparr>"

definition register_write :: "fd_wrapper \<Rightarrow> fd_wrapper" where
  "register_write fw = fw\<lparr>fw_write_count := fw_write_count fw + 1\<rparr>"

definition set_eof :: "fd_wrapper \<Rightarrow> fd_wrapper" where
  "set_eof fw = fw\<lparr>fw_eof := True\<rparr>"

subsection \<open>Reading\<close>

definition fd_read ::
  "'k kernel \<Rightarrow> bytes \<Rightarrow> fd_wrapper \<Rightarrow> 'k \<Rightarrow> (bytes \<times> fd_wrapper \<times> 'k) result" where
  "fd_read K buffer fw k =
     (let buffer = (if buffer = [] then replicate kReadBufferSize 0 else buffer)
      in case k_read K (fw_fd fw) (length buffer) k of (k, r, data) \<Rightarrow>
         let buffer = take (length buffer) (data @ drop (length data) buffer)
         in if sr_value r < 0 then
              if would_block fw r then Inr (buffer, fw, k)
              else Inl (unix_error (k_strerror K) ''read'' (sr_errno r))
            else
              let fw = register_read fw;
                  fw = (if sr_value r = 0 then set_eof fw else fw)
              in if sr_value r > int (length buffer)
                 then Inl (Throws ''read() read more than requested'')
                 else Inr (take (nat (sr_value r)) buffer, fw, k))"

text \<open>\<open>readv\<close> stores into one buffer after the other.\<close>

fun scatter :: "bytes \<Rightarrow> bytes list \<Rightarrow> bytes list" where
  "scatter data [] = []"
| "scatter data (b # bs) =
     (take (length b) data @ drop (length data) b) # scatter (drop (length b) data) bs"

text \<open>The loop that cuts the buffers to what was read.\<close>

fun trim_buffers :: "nat \<Rightarrow> bytes list \<Rightarrow> bytes list" where
  "trim_buffers remaining_size [] = []"
| "trim_buffers remaining_size (buf # bufs) =
     (if remaining_size \<ge> length buf then buf # trim_buffers (remaining_size - length buf) bufs
      else take remaining_size buf # trim_buffers 0 bufs)"

definition fd_readv ::
  "'k kernel \<Rightarrow> bytes list \<Rightarrow> fd_wrapper \<Rightarrow> 'k \<Rightarrow> (bytes list \<times> fd_wrapper \<times> 'k) result" where
  "fd_readv K buffers fw k =
     (if buffers = [] then Inr (buffers, fw, k)
      else
        let buffers = butlast buffers @ [replicate kReadBufferSize 0];
            total_size = sum_list (map length buffers)
        in case k_readv K (fw_fd fw) (map length buffers) k of (k, r, data) \<Rightarrow>
           let buffers = scatter data buffers
           in if sr_value r < 0 then
                if would_block fw r then Inr (buffers, fw, k)
                else Inl (unix_error (k_strerror K) ''read'' (sr_errno r))
              else
                let fw = register_read fw
                in if sr_value r > int total_size
                   then Inl (Throws ''read() read more than requested'')
                   else Inr (trim_buffers (nat (sr_value r)) buffers, fw, k))"

subsection \<open>Writing\<close>

definition fd_writev ::
  "'k kernel \<Rightarrow> bytes list \<Rightarrow> fd_wrapper \<Rightarrow> 'k \<Rightarrow> (nat \<times> fd_wrapper \<times> 'k) result" where
  "fd_writev K buffers fw k =
     (let total_size = sum_list (map length buffers);
          (k, r) = k_writev K (fw_fd fw) buffers k
      in bind_result (fd_check_system_call K ''writev'' r fw) (\<lambda>bytes_written.
         let fw = register_write fw
         in if bytes_written = 0 \<and> total_size \<noteq> 0
            then Inl (Throws ''write returned 0 given non-empty input buffer'')
            else if bytes_written > int total_size
            then Inl (Throws ''write wrote more than length of input buffer'')
            else Inr (nat bytes_written, fw, k)))"

definition fd_write ::
  "'k kernel \<Rightarrow> bytes \<Rightarrow> fd_wrapper \<Rightarrow> 'k \<Rightarrow> (nat \<times> fd_wrapper \<times> 'k) result" where
  "fd_write K buffer fw k = fd_writev K [buffer] fw k"

subsection \<open>Blocking\<close>

definition fd_set_blocking ::
  "'k kernel \<Rightarrow> bool \<Rightarrow> fd_wrapper \<Rightarrow> 'k \<Rightarrow> (fd_wrapper \<times> 'k) result" where
  "fd_set_blocking K blocking fw k =
     (let (k, r) = k_getfl K (fw_fd fw) k
      in bind_result (fd_check_system_call K ''fcntl'' r fw) (\<lambda>v.
         let flags = (word_of_int v :: u32);
             flags = (if blocking then flags XOR (flags AND O_NONBLOCK) else flags OR O_NONBLOCK);
             (k, r) = k_setfl K (fw_fd fw) flags k
         in bind_result (fd_check_system_call K ''fcntl'' r fw) (\<lambda>_.
            Inr (fw\<lparr>fw_non_blocking := \<not> blocking\<rparr>, k))))"

subsection \<open>How a vector is filled\<close>

fun pieces :: "nat list \<Rightarrow> bytes \<Rightarrow> bytes list" where
  "pieces [] data = []"
| "pieces (n # ns) data = take n data # pieces ns (drop n data)"

lemma concat_pieces: "length data \<le> sum_list ns \<Longrightarrow> concat (pieces ns data) = data"
proof (induction ns arbitrary: data)
  case (Cons n ns)
  have "concat (pieces ns (drop n data)) = drop n data" using Cons.prems by (intro Cons.IH) simp
  then show ?case by simp
qed simp

lemma pieces_Nil: "pieces ns [] = replicate (length ns) []"
  by (induction ns) simp_all

lemma scatter_Nil [simp]: "scatter [] bs = bs"
  by (induction bs) simp_all

lemma length_scatter [simp]: "map length (scatter data bs) = map length bs"
  by (induction data bs rule: scatter.induct) auto

lemma trim_zero: "trim_buffers 0 bs = map (\<lambda>b. []) bs"
  by (induction bs) auto

lemma trim_scatter: "trim_buffers (length data) (scatter data bs) = pieces (map length bs) data"
proof (induction data bs rule: scatter.induct)
  case (2 data b bs)
  show ?case
  proof (cases "length b \<le> length data")
    case True
    then have "length (take (length b) data @ drop (length data) b) = length b" by simp
    moreover have "length data - length b = length (drop (length b) data)" by simp
    ultimately show ?thesis using True 2 by simp
  next
    case False
    then show ?thesis by (simp add: trim_zero pieces_Nil map_replicate_const)
  qed
qed simp

text \<open>An example of an operating system: a queue of bytes behind a non-blocking descriptor.\<close>

definition take_pending :: "nat \<Rightarrow> bytes \<Rightarrow> bytes \<times> sys_ret \<times> bytes" where
  "take_pending n pending =
     (if pending = [] then (pending, \<lparr>sr_value = -1, sr_errno = EAGAIN\<rparr>, [])
      else (drop n pending, \<lparr>sr_value = int (min n (length pending)), sr_errno = 0\<rparr>, take n pending))"

definition queue_kernel :: "bytes kernel" where
  "queue_kernel =
     \<lparr>k_strerror = (\<lambda>e. ''error''),
      k_getfl = (\<lambda>fd k. (k, \<lparr>sr_value = 2048, sr_errno = 0\<rparr>)),
      k_setfl = (\<lambda>fd flags k. (k, \<lparr>sr_value = 0, sr_errno = 0\<rparr>)),
      k_close = (\<lambda>fd k. (k, \<lparr>sr_value = 0, sr_errno = 0\<rparr>)),
      k_read = (\<lambda>fd n k. take_pending n k),
      k_readv = (\<lambda>fd ns k. take_pending (sum_list ns) k),
      k_writev = (\<lambda>fd bufs k. (k @ concat bufs, \<lparr>sr_value = int (sum_list (map length bufs)), sr_errno = 0\<rparr>)),
      k_open = (\<lambda>name flags k. (k, \<lparr>sr_value = 5, sr_errno = 0\<rparr>)),
      k_tunsetiff = (\<lambda>fd flags name k. (k, \<lparr>sr_value = 0, sr_errno = 0\<rparr>))\<rparr>"

definition queue_fd :: fd_wrapper where
  "queue_fd = \<lparr>fw_fd = 5, fw_eof = False, fw_closed = False, fw_non_blocking = True,
     fw_read_count = 0, fw_write_count = 0\<rparr>"

lemma queue_kernel_ok: "reads_ok queue_kernel"
  by (simp add: reads_ok_def transfer_ok_def queue_kernel_def take_pending_def min.commute)

lemma fd_readv_pieces:
  assumes "reads_ok K" and "buffers \<noteq> []"
    and "k_readv K (fw_fd fw) (map length (butlast buffers) @ [kReadBufferSize]) k = (k', r, data)"
    and "sr_value r \<ge> 0"
  shows "\<exists>bufs. fd_readv K buffers fw k = Inr (bufs, register_read fw, k') \<and>
           concat bufs = data \<and> length bufs = length buffers \<and>
           bufs = pieces (map length (butlast buffers) @ [kReadBufferSize]) data"
proof -
  let ?ns = "map length (butlast buffers) @ [kReadBufferSize]"
  let ?bs = "butlast buffers @ [replicate kReadBufferSize 0]"
  have ok: "transfer_ok (sum_list ?ns) r data"
    using assms(1,3) unfolding reads_ok_def by (metis (no_types, lifting) case_prod_conv)
  then have l: "length data = nat (sr_value r)" and le: "sr_value r \<le> int (sum_list ?ns)"
    using assms(4) by (simp_all add: transfer_ok_def)
  then have le': "length data \<le> sum_list ?ns" by (simp add: nat_le_iff)
  have ns: "map length ?bs = ?ns" by simp
  have p: "trim_buffers (nat (sr_value r)) (scatter data ?bs) = pieces ?ns data"
    unfolding l [symmetric] trim_scatter ns ..
  have lp: "length (pieces ns d) = length ns" for ns d by (induction ns arbitrary: d) simp_all
  have "fd_readv K buffers fw k = Inr (pieces ?ns data, register_read fw, k')"
    using assms(2,3,4) le unfolding fd_readv_def Let_def ns by (simp add: p)
  moreover have "length (pieces ?ns data) = length buffers"
    using assms(2) unfolding lp by simp
  ultimately show ?thesis using concat_pieces [OF le'] by blast
qed

lemma fd_read_result:
  assumes "reads_ok K"
    and "k_read K (fw_fd fw) (if buffer = [] then kReadBufferSize else length buffer) k = (k', r, data)"
  shows "fd_read K buffer fw k =
     (if sr_value r \<ge> 0
      then Inr (data, (register_read fw)\<lparr>fw_eof := fw_eof fw \<or> data = []\<rparr>, k')
      else if would_block fw r
      then Inr (if buffer = [] then replicate kReadBufferSize 0 else buffer, fw, k')
      else Inl (unix_error (k_strerror K) ''read'' (sr_errno r)))"
proof -
  let ?n = "if buffer = [] then kReadBufferSize else length buffer"
  have ok: "transfer_ok ?n r data"
    using assms(1,2) unfolding reads_ok_def by (metis (no_types, lifting) case_prod_conv)
  let ?b = "if buffer = [] then replicate kReadBufferSize 0 else buffer"
  have n: "?n = length ?b" by simp
  have kr: "k_read K (fw_fd fw) (length ?b) k = (k', r, data)" using assms(2) unfolding n .
  show ?thesis
  proof (cases "sr_value r < 0")
    case True
    then have "data = []" using ok by (simp add: transfer_ok_def)
    with True show ?thesis
      unfolding fd_read_def Let_def kr prod.case by (cases "buffer = []") simp_all
  next
    case False
    then have l: "length data = nat (sr_value r)" "sr_value r \<le> int (length ?b)"
      using ok n by (simp_all add: transfer_ok_def)
    then have le: "length data \<le> length ?b" using False by (simp add: nat_le_iff)
    have z: "sr_value r = 0 \<longleftrightarrow> data = []" using l(1) False by (cases data) auto
    have t: "take (nat (sr_value r)) (take (length ?b) (data @ drop (length data) ?b)) = data"
      using le by (simp flip: l(1) split del: if_split)
    have bl: "length (take (length ?b) (data @ drop (length data) ?b)) = length ?b" using le by simp
    show ?thesis
      using False l(2) z unfolding fd_read_def Let_def kr prod.case t bl
      by (cases "data = []"; cases "fw_eof fw") (auto simp: set_eof_def register_read_def)
  qed
qed

subsection \<open>Properties\<close>

text \<open>
  C33: Reading into a string returns exactly the bytes the system call stored, counts the
  read and sets the end-of-file flag on an empty one.  When a non-blocking descriptor has
  nothing to read, the buffer comes back at its full size with what it held before (zeros
  for a new one), and nothing tells the caller that no byte was read.
\<close>

theorem fd_read_outcome:
  assumes "reads_ok K"
    and "k_read K (fw_fd fw) (if buffer = [] then kReadBufferSize else length buffer) k = (k', r, data)"
  shows "fd_read K buffer fw k =
     (if sr_value r \<ge> 0
      then Inr (data, (register_read fw)\<lparr>fw_eof := fw_eof fw \<or> data = []\<rparr>, k')
      else if would_block fw r
      then Inr (if buffer = [] then replicate kReadBufferSize 0 else buffer, fw, k')
      else Inl (unix_error (k_strerror K) ''read'' (sr_errno r)))"
  using assms by (rule fd_read_result)

theorem fd_read_outcome_witness:
  "fd_read queue_kernel (replicate 2 7) queue_fd [1, 2, 3] =
     Inr ([1, 2], (register_read queue_fd)\<lparr>fw_eof := False\<rparr>, [3]) \<and>
   fd_read queue_kernel [] queue_fd [] = Inr (replicate kReadBufferSize 0, queue_fd, [])"
proof
  have "k_read queue_kernel (fw_fd queue_fd) (if replicate 2 (7 :: byte) = [] then kReadBufferSize else length (replicate 2 (7 :: byte)))
      [1, 2, 3] = ([3], \<lparr>sr_value = 2, sr_errno = 0\<rparr>, [1, 2])"
    by (simp add: queue_kernel_def take_pending_def numeral_2_eq_2)
  from fd_read_outcome [OF queue_kernel_ok this]
  show "fd_read queue_kernel (replicate 2 7) queue_fd [1, 2, 3] =
     Inr ([1, 2], (register_read queue_fd)\<lparr>fw_eof := False\<rparr>, [3])"
    by (simp add: queue_fd_def)
  have "k_read queue_kernel (fw_fd queue_fd) (if ([] :: bytes) = [] then kReadBufferSize else length ([] :: bytes)) [] =
      ([], \<lparr>sr_value = -1, sr_errno = EAGAIN\<rparr>, [])"
    by (simp add: queue_kernel_def take_pending_def)
  from fd_read_outcome [OF queue_kernel_ok this]
  show "fd_read queue_kernel [] queue_fd [] = Inr (replicate kReadBufferSize 0, queue_fd, [])"
    by (simp add: would_block_def queue_fd_def)
qed

text \<open>
  A successful read into a vector of buffers leaves in them exactly the bytes that
  were read, in order: every buffer but the last keeps its size as long as there are
  bytes to fill it, and the last is given room for \<open>kReadBufferSize\<close>.
\<close>

theorem fd_readv_fills:
  assumes "reads_ok K" and "buffers \<noteq> []"
    and "k_readv K (fw_fd fw) (map length (butlast buffers) @ [kReadBufferSize]) k = (k', r, data)"
    and "sr_value r \<ge> 0"
  shows "\<exists>bufs. fd_readv K buffers fw k = Inr (bufs, register_read fw, k') \<and>
           concat bufs = data \<and> length bufs = length buffers \<and>
           bufs = pieces (map length (butlast buffers) @ [kReadBufferSize]) data"
  using assms by (rule fd_readv_pieces)

theorem fd_readv_fills_witness:
  "fd_readv queue_kernel [[0, 0], []] queue_fd [1, 2, 3, 4, 5] =
     Inr ([[1, 2], [3, 4, 5]], register_read queue_fd, [])"
proof -
  have "k_readv queue_kernel (fw_fd queue_fd) (map length (butlast [[0 :: byte, 0], []]) @ [kReadBufferSize]) [1, 2, 3, 4, 5] =
     ([], \<lparr>sr_value = 5, sr_errno = 0\<rparr>, [1, 2, 3, 4, 5])"
    by (simp add: queue_kernel_def take_pending_def kReadBufferSize_def)
  from fd_readv_fills [OF queue_kernel_ok _ this] show ?thesis by (auto simp: kReadBufferSize_def)
qed

end
