(* ===== verification/Tcp_Over_Ip.thy ===== *)
theory Tcp_Over_Ip
  imports Tcp_Segment Ipv4 Address
begin

text \<open>
  TCP segments in IPv4 datagrams: the adapter base of \<open>util/fd_adapter.hh\<close> with its
  configuration (\<open>util/tcp_config.hh\<close>), the conversions of \<open>util/tcp_over_ip.cc\<close>, and the
  random loss of \<open>util/lossy_fd_adapter.hh\<close>.

  The functions of the C library that addresses need are the parameter \<open>L\<close>; \<open>nl_inet_ntoa\<close>
  is the text of an IP number, \<open>inet_ntoa\<close> after \<open>htobe32\<close>.  \<open>nl_map_limit\<close> is what the tables
  of the \<open>std::unordered_map\<close> of a network interface take before they are rehashed.
\<close>

subsection \<open>The libraries\<close>

record net_lib =
  nl_gai :: getaddrinfo
  nl_gni :: getnameinfo
  nl_gai_message :: error_category
  nl_inet_ntoa :: "u32 \<Rightarrow> string"
  nl_map_limit :: "nat \<Rightarrow> nat"

abbreviation lib_address :: "net_lib \<Rightarrow> string \<Rightarrow> u16 \<Rightarrow> address result" where
  "lib_address L \<equiv> address_of_ip (nl_gai L) (nl_gai_message L)"

abbreviation lib_port :: "net_lib \<Rightarrow> address \<Rightarrow> u16 result" where
  "lib_port L \<equiv> address_port (nl_gni L) (nl_gai_message L)"

text \<open>What is documented of it: \<open>getaddrinfo\<close> reads the text that \<open>inet_ntoa\<close> makes.\<close>

definition net_lib_ok :: "net_lib \<Rightarrow> bool" where
  "net_lib_ok L \<longleftrightarrow>
     resolves_numbers (nl_gai L) \<and> names_ports (nl_gni L) \<and>
     (\<forall>ip port. nl_gai L (nl_inet_ntoa L ip) (decimal (unat (port :: u16)))
        (AI_NUMERICHOST + AI_NUMERICSERV) AF_INET = (0, Some (sockaddr_in ip port)))"

lemma lib_address_ntoa:
  "net_lib_ok L \<Longrightarrow> lib_address L (nl_inet_ntoa L ip) port = Inr (inet_address ip port)"
  by (simp add: net_lib_ok_def address_of_ip_def address_resolve_def make_hints_def)

lemma lib_port_inet: "net_lib_ok L \<Longrightarrow> lib_port L (inet_address ip port) = Inr port"
  by (simp add: net_lib_ok_def address_port_inet)

subsection \<open>Configuration and base of the adapters\<close>

record fd_adapter_config =
  fc_source :: address
  fc_destination :: address
  fc_loss_rate_dn :: u16
  fc_loss_rate_up :: u16

definition default_fd_adapter_config :: "net_lib \<Rightarrow> fd_adapter_config result" where
  "default_fd_adapter_config L =
     bind_result (lib_address L ''0'' 0) (\<lambda>source.
     bind_result (lib_address L ''0'' 0) (\<lambda>destination.
     Inr \<lparr>fc_source = source, fc_destination = destination,
          fc_loss_rate_dn = 0, fc_loss_rate_up = 0\<rparr>))"

record fd_adapter =
  fa_cfg :: fd_adapter_config
  fa_listen :: bool

definition new_fd_adapter :: "net_lib \<Rightarrow> fd_adapter result" where
  "new_fd_adapter L =
     bind_result (default_fd_adapter_config L) (\<lambda>cfg. Inr \<lparr>fa_cfg = cfg, fa_listen = False\<rparr>)"

definition set_listening :: "bool \<Rightarrow> fd_adapter \<Rightarrow> fd_adapter" where
  "set_listening l fa = fa\<lparr>fa_listen := l\<rparr>"

definition set_config :: "fd_adapter_config \<Rightarrow> fd_adapter \<Rightarrow> fd_adapter" where
  "set_config cfg fa = fa\<lparr>fa_cfg := cfg\<rparr>"

definition fd_adapter_tick :: "u64 \<Rightarrow> fd_adapter \<Rightarrow> fd_adapter" where
  "fd_adapter_tick ms fa = fa"

subsection \<open>From IPv4 datagrams to TCP segments\<close>

text \<open>\<open>not listening() and number != address.ipv4_numeric()\<close>\<close>

definition foreign :: "fd_adapter \<Rightarrow> u32 \<Rightarrow> address \<Rightarrow> bool result" where
  "foreign fa number a =
     (if fa_listen fa then Inr False
      else bind_result (ipv4_numeric a) (\<lambda>n. Inr (number \<noteq> n)))"

text \<open>The first SYN to a listening adapter fixes both ends; \<open>None\<close> is a segment to ignore.\<close>

definition accept_peer ::
  "net_lib \<Rightarrow> ipv4_header \<Rightarrow> tcp_segment \<Rightarrow> fd_adapter \<Rightarrow> fd_adapter option result" where
  "accept_peer L h seg fa =
     (if \<not> fa_listen fa then Inr (Some fa)
      else if sm_SYN (tg_sender seg) \<and> \<not> tg_reset seg then
        bind_result (lib_port L (fc_source (fa_cfg fa))) (\<lambda>port.
        bind_result (lib_address L (nl_inet_ntoa L (ip_dst h)) port) (\<lambda>source.
        bind_result (lib_address L (nl_inet_ntoa L (ip_src h)) (ud_src_port (tg_udinfo seg))) (\<lambda>destination.
        Inr (Some (set_listening False
               (fa\<lparr>fa_cfg := (fa_cfg fa)\<lparr>fc_source := source, fc_destination := destination\<rparr>\<rparr>))))))
      else Inr None)"

definition unwrap_tcp_in_ip ::
  "net_lib \<Rightarrow> ipv4_datagram \<Rightarrow> fd_adapter \<Rightarrow> (fd_adapter \<times> tcp_segment option) result" where
  "unwrap_tcp_in_ip L ip_dgram fa =
     (let h = dg_header ip_dgram
      in bind_result (foreign fa (ip_dst h) (fc_source (fa_cfg fa))) (\<lambda>not_for_us.
         if not_for_us then Inr (fa, None) else
         bind_result (foreign fa (ip_src h) (fc_destination (fa_cfg fa))) (\<lambda>not_from_peer.
         if not_from_peer then Inr (fa, None)
         else if ip_proto h \<noteq> PROTO_TCP then Inr (fa, None) else
         bind_result (parse_object (tcp_segment_parse (ipv4_pseudo_checksum h) empty_tcp_segment)
                        (dg_payload ip_dgram)) (\<lambda>(tcp_seg, valid).
         if \<not> valid then Inr (fa, None) else
         bind_result (lib_port L (fc_source (fa_cfg fa))) (\<lambda>port.
         if ud_dst_port (tg_udinfo tcp_seg) \<noteq> port then Inr (fa, None) else
         bind_result (accept_peer L h tcp_seg fa) (\<lambda>accepted.
         case accepted of None \<Rightarrow> Inr (fa, None)
         | Some fa \<Rightarrow>
             bind_result (lib_port L (fc_destination (fa_cfg fa))) (\<lambda>port.
             if ud_src_port (tg_udinfo tcp_seg) \<noteq> port then Inr (fa, None)
             else Inr (fa, Some tcp_seg))))))))"

subsection \<open>From TCP segments to IPv4 datagrams\<close>

text \<open>The segment is passed by reference: its ports and checksum change.\<close>

definition wrap_tcp_in_ip ::
  "net_lib \<Rightarrow> tcp_segment \<Rightarrow> fd_adapter \<Rightarrow> (tcp_segment \<times> ipv4_datagram) result" where
  "wrap_tcp_in_ip L seg fa =
     bind_result (lib_port L (fc_source (fa_cfg fa))) (\<lambda>src_port.
     bind_result (lib_port L (fc_destination (fa_cfg fa))) (\<lambda>dst_port.
     let seg = seg\<lparr>tg_udinfo := (tg_udinfo seg)\<lparr>ud_src_port := src_port, ud_dst_port := dst_port\<rparr>\<rparr>
     in bind_result (ipv4_numeric (fc_source (fa_cfg fa))) (\<lambda>src.
        bind_result (ipv4_numeric (fc_destination (fa_cfg fa))) (\<lambda>dst.
        let h = default_ipv4_header\<lparr>ip_src := src, ip_dst := dst\<rparr>;
            h = h\<lparr>ip_len := ucast (ip_hlen h) * 4 + 20 + of_nat (length (sm_payload (tg_sender seg)))\<rparr>;
            seg = tcp_compute_checksum (ipv4_pseudo_checksum h) seg
        in bind_result (ipv4_compute_checksum h) (\<lambda>h.
           Inr (seg, \<lparr>dg_header = h, dg_payload = serialize_segment seg\<rparr>))))))"

subsection \<open>Random loss\<close>

text \<open>
  The random engine is the parameter \<open>rnd\<close>, its state the field \<open>lo_rand\<close>; the underlying
  adapter is of any type \<open>'a\<close>.
\<close>

record ('r, 'a) lossy_adapter =
  lo_rand :: 'r
  lo_adapter :: 'a

definition should_drop ::
  "('r \<Rightarrow> nat \<times> 'r) \<Rightarrow> bool \<Rightarrow> fd_adapter_config \<Rightarrow> ('r, 'a) lossy_adapter \<Rightarrow> bool \<times> ('r, 'a) lossy_adapter" where
  "should_drop rnd uplink cfg lo =
     (let loss = (if uplink then fc_loss_rate_up cfg else fc_loss_rate_dn cfg)
      in if loss = 0 then (False, lo)
         else let (x, r) = rnd (lo_rand lo) in ((of_nat x :: u16) < loss, lo\<lparr>lo_rand := r\<rparr>))"

definition lossy_read ::
  "('r \<Rightarrow> nat \<times> 'r) \<Rightarrow> ('a \<Rightarrow> fd_adapter_config) \<Rightarrow> ('a \<Rightarrow> ('a \<times> tcp_segment option) result) \<Rightarrow>
   ('r, 'a) lossy_adapter \<Rightarrow> (('r, 'a) lossy_adapter \<times> tcp_segment option) result" where
  "lossy_read rnd config read lo =
     bind_result (read (lo_adapter lo)) (\<lambda>(a, ret).
     let lo = lo\<lparr>lo_adapter := a\<rparr>;
         (drop, lo) = should_drop rnd False (config a) lo
     in Inr (lo, if drop then None else ret))"

definition lossy_write ::
  "('r \<Rightarrow> nat \<times> 'r) \<Rightarrow> ('a \<Rightarrow> fd_adapter_config) \<Rightarrow> (tcp_segment \<Rightarrow> 'a \<Rightarrow> (tcp_segment \<times> 'a) result) \<Rightarrow>
   tcp_segment \<Rightarrow> ('r, 'a) lossy_adapter \<Rightarrow> (tcp_segment \<times> ('r, 'a) lossy_adapter) result" where
  "lossy_write rnd config write seg lo =
     (let (drop, lo) = should_drop rnd True (config (lo_adapter lo)) lo
      in if drop then Inr (seg, lo)
         else bind_result (write seg (lo_adapter lo)) (\<lambda>(seg, a). Inr (seg, lo\<lparr>lo_adapter := a\<rparr>)))"

definition lossy_tick :: "('a \<Rightarrow> 'a result) \<Rightarrow> ('r, 'a) lossy_adapter \<Rightarrow> ('r, 'a) lossy_adapter result" where
  "lossy_tick tick lo = bind_result (tick (lo_adapter lo)) (\<lambda>a. Inr (lo\<lparr>lo_adapter := a\<rparr>))"

subsection \<open>What is put into a datagram\<close>

lemma unat_plus_le: "unat (x + y) \<le> unat x + unat (y :: 'a::len word)"
  by (simp add: unat_word_ariths)

lemma pseudo_checksum_small: "unat (ipv4_pseudo_checksum h) < 2 ^ 20"
proof -
  have hi: "unat (drop_bit 16 w) \<le> 65535" for w :: u32
  proof -
    have "unat (drop_bit 16 w) = unat w div 2 ^ 16" by (simp add: drop_bit_eq_div unat_div_distrib)
    moreover have "unat w div 2 ^ 16 < 65536"
      by (rule less_mult_imp_div_less) (use u32_less [of w] in simp)
    ultimately show ?thesis by simp
  qed
  have lo: "unat (ucast v :: u32) \<le> 65535" for v :: u16
  proof -
    have "take_bit 32 (unat v) = unat v" by (rule take_bit_nat_eq_self) (rule less_trans [OF u16_less], simp)
    moreover have "unat v \<le> 65535" using u16_less [of v] by linarith
    ultimately show ?thesis by (simp add: unsigned_ucast_eq)
  qed
  have by8: "unat (ucast v :: u32) \<le> 65535" for v :: u8
  proof -
    have "take_bit 32 (unat v) = unat v" by (rule take_bit_nat_eq_self) (rule less_trans [OF u8_less], simp)
    moreover have "unat v \<le> 65535" using u8_less [of v] by linarith
    ultimately show ?thesis by (simp add: unsigned_ucast_eq)
  qed
  let ?s1 = "drop_bit 16 (ip_src h)" and ?s2 = "ucast (ucast (ip_src h) :: u16) :: u32"
    and ?d1 = "drop_bit 16 (ip_dst h)" and ?d2 = "ucast (ucast (ip_dst h) :: u16) :: u32"
    and ?p = "ucast (ip_proto h) :: u32" and ?l = "ucast (ipv4_payload_length h) :: u32"
  have "unat (ipv4_pseudo_checksum h) \<le> unat (?s1 + ?s2 + (?d1 + ?d2) + ?p) + unat ?l"
    unfolding ipv4_pseudo_checksum_def by (rule unat_plus_le)
  also have "unat (?s1 + ?s2 + (?d1 + ?d2) + ?p) \<le> unat (?s1 + ?s2 + (?d1 + ?d2)) + unat ?p"
    by (rule unat_plus_le)
  also have "unat (?s1 + ?s2 + (?d1 + ?d2)) \<le> unat (?s1 + ?s2) + unat (?d1 + ?d2)"
    by (rule unat_plus_le)
  finally have "unat (ipv4_pseudo_checksum h) \<le>
      unat (?s1 + ?s2) + unat (?d1 + ?d2) + unat ?p + unat ?l" by simp
  moreover have "unat (?s1 + ?s2) \<le> 65535 + 65535" "unat (?d1 + ?d2) \<le> 65535 + 65535"
    using unat_plus_le [of ?s1 ?s2] unat_plus_le [of ?d1 ?d2] hi lo by (meson add_le_mono order_trans)+
  ultimately show ?thesis using lo [of "ipv4_payload_length h"] by8 [of "ip_proto h"] by simp
qed

definition wrapped_header :: "u32 \<Rightarrow> u32 \<Rightarrow> tcp_segment \<Rightarrow> ipv4_header" where
  "wrapped_header src dst seg =
     (let h = default_ipv4_header\<lparr>ip_src := src, ip_dst := dst\<rparr>
      in h\<lparr>ip_len := ucast (ip_hlen h) * 4 + 20 + of_nat (length (sm_payload (tg_sender seg)))\<rparr>)"

definition with_ports :: "u16 \<Rightarrow> u16 \<Rightarrow> tcp_segment \<Rightarrow> tcp_segment" where
  "with_ports src_port dst_port seg =
     seg\<lparr>tg_udinfo := (tg_udinfo seg)\<lparr>ud_src_port := src_port, ud_dst_port := dst_port\<rparr>\<rparr>"

lemma wrapped_header_fields:
  "ip_src (wrapped_header a b seg) = a" "ip_dst (wrapped_header a b seg) = b"
  "ip_proto (wrapped_header a b seg) = PROTO_TCP" "ipv4_plain (wrapped_header a b seg)"
  by (simp_all add: wrapped_header_def default_ipv4_header_def Let_def ipv4_plain_def IPV4_LENGTH_def)

lemma pseudo_checksum_cksum [simp]:
  "ipv4_pseudo_checksum (h\<lparr>ip_cksum := k\<rparr>) = ipv4_pseudo_checksum h"
  by (simp add: ipv4_pseudo_checksum_def ipv4_payload_length_def)

lemma wrap_tcp_in_ip_ok:
  fixes seg :: tcp_segment
  assumes L: "net_lib_ok L"
    and cfg: "fc_source (fa_cfg fa) = inet_address a pa" "fc_destination (fa_cfg fa) = inet_address b pb"
  defines "sent \<equiv> tcp_compute_checksum (ipv4_pseudo_checksum (wrapped_header a b seg)) (with_ports pa pb seg)"
  obtains k where
    "wrap_tcp_in_ip L seg fa = Inr (sent, \<lparr>dg_header = (wrapped_header a b seg)\<lparr>ip_cksum := k\<rparr>,
       dg_payload = serialize_segment sent\<rparr>)"
    and "ipv4_compute_checksum ((wrapped_header a b seg)\<lparr>ip_cksum := k\<rparr>) =
       Inr ((wrapped_header a b seg)\<lparr>ip_cksum := k\<rparr>)"
proof -
  let ?h = "wrapped_header a b seg"
  have ver: "ip_ver ?h = 4" using wrapped_header_fields(4) by (simp add: ipv4_plain_def)
  then obtain k where k: "ipv4_compute_checksum ?h = Inr (?h\<lparr>ip_cksum := k\<rparr>)"
    and k': "ipv4_compute_checksum (?h\<lparr>ip_cksum := k\<rparr>) = Inr (?h\<lparr>ip_cksum := k\<rparr>)"
    by (simp add: ipv4_compute_checksum_ok)
  have "wrap_tcp_in_ip L seg fa =
     Inr (sent, \<lparr>dg_header = ?h\<lparr>ip_cksum := k\<rparr>, dg_payload = serialize_segment sent\<rparr>)"
    using k cfg lib_port_inet [OF L] unfolding sent_def
    by (simp add: wrap_tcp_in_ip_def wrapped_header_def with_ports_def Let_def)
  then show ?thesis using k' by (rule that)
qed

text \<open>The other end of the adapter: connected to it, or listening on its port.\<close>

definition other_end :: "fd_adapter \<Rightarrow> u32 \<Rightarrow> u16 \<Rightarrow> u32 \<Rightarrow> u16 \<Rightarrow> bool" where
  "other_end fb a pa b pb \<longleftrightarrow>
     (if fa_listen fb then \<exists>ip. fc_source (fa_cfg fb) = inet_address ip pb
      else fc_source (fa_cfg fb) = inet_address b pb \<and> fc_destination (fa_cfg fb) = inet_address a pa)"

definition connected_end :: "fd_adapter \<Rightarrow> u32 \<Rightarrow> u16 \<Rightarrow> u32 \<Rightarrow> u16 \<Rightarrow> fd_adapter" where
  "connected_end fb a pa b pb =
     fb\<lparr>fa_cfg := (fa_cfg fb)\<lparr>fc_source := inet_address b pb, fc_destination := inet_address a pa\<rparr>,
        fa_listen := False\<rparr>"

lemma accept_peer_other:
  assumes L: "net_lib_ok L" and "other_end fb a pa b pb"
    and "fa_listen fb \<longrightarrow> sm_SYN (tg_sender seg) \<and> \<not> tg_reset seg"
    and "ip_src h = a" "ip_dst h = b" "ud_src_port (tg_udinfo seg) = pa"
  shows "accept_peer L h seg fb = Inr (Some (connected_end fb a pa b pb))"
    and "lib_port L (fc_source (fa_cfg fb)) = Inr pb"
    and "foreign fb b (fc_source (fa_cfg fb)) = Inr False"
    and "foreign fb a (fc_destination (fa_cfg fb)) = Inr False"
  using assms lib_port_inet [OF L] lib_address_ntoa [OF L]
  by (cases "fa_listen fb"; cases fb; cases "fa_cfg fb";
      auto simp: other_end_def accept_peer_def foreign_def connected_end_def set_listening_def)+

text \<open>A C library that names addresses by decimal numbers, for the examples.\<close>

definition numeric_lib :: net_lib where
  "numeric_lib = \<lparr>nl_gai = numeric_gai, nl_gni = numeric_gni, nl_gai_message = (\<lambda>e. []),
     nl_inet_ntoa = (\<lambda>ip. decimal (unat ip)), nl_map_limit = (\<lambda>_. 16)\<rparr>"

lemma numeric_lib_ok: "net_lib_ok numeric_lib"
  using numeric_gai_ok numeric_gni_ok by (simp add: net_lib_ok_def numeric_lib_def resolves_numbers_def)

definition end_at :: "bool \<Rightarrow> address \<Rightarrow> address \<Rightarrow> fd_adapter" where
  "end_at listen source destination =
     \<lparr>fa_cfg = \<lparr>fc_source = source, fc_destination = destination, fc_loss_rate_dn = 0, fc_loss_rate_up = 0\<rparr>,
      fa_listen = listen\<rparr>"

lemma wrap_then_unwrap:
  assumes L: "net_lib_ok L"
    and cfg: "fc_source (fa_cfg fa) = inet_address a pa" "fc_destination (fa_cfg fa) = inet_address b pb"
    and other: "other_end fb a pa b pb"
    and syn: "fa_listen fb \<longrightarrow> sm_SYN (tg_sender seg) \<and> \<not> tg_reset seg"
    and len: "length (sm_payload (tg_sender seg)) \<le> 65495"
  shows "\<exists>sent d. wrap_tcp_in_ip L seg fa = Inr (sent, d) \<and>
     tg_sender sent = tg_sender seg \<and> tg_receiver sent = tg_receiver seg \<and> tg_reset sent = tg_reset seg \<and>
     d = \<lparr>dg_header = dg_header d, dg_payload = serialize_segment sent\<rparr> \<and> ipv4_plain (dg_header d) \<and>
     ipv4_compute_checksum (dg_header d) = Inr (dg_header d) \<and>
     (\<forall>bufs. concat bufs = concat (dg_payload d) \<and> readable 20 bufs \<longrightarrow>
        unwrap_tcp_in_ip L (d\<lparr>dg_payload := bufs\<rparr>) fb = Inr (connected_end fb a pa b pb, Some sent))"
proof -
  let ?h = "wrapped_header a b seg"
  let ?sent = "tcp_compute_checksum (ipv4_pseudo_checksum ?h) (with_ports pa pb seg)"
  obtain k where w: "wrap_tcp_in_ip L seg fa =
      Inr (?sent, \<lparr>dg_header = ?h\<lparr>ip_cksum := k\<rparr>, dg_payload = serialize_segment ?sent\<rparr>)"
    and k: "ipv4_compute_checksum (?h\<lparr>ip_cksum := k\<rparr>) = Inr (?h\<lparr>ip_cksum := k\<rparr>)"
    by (rule wrap_tcp_in_ip_ok [OF L cfg])
  have plain: "ipv4_plain (?h\<lparr>ip_cksum := k\<rparr>)"
    using wrapped_header_fields(4) by (simp add: ipv4_plain_def)
  have ports: "ud_src_port (tg_udinfo ?sent) = pa" "ud_dst_port (tg_udinfo ?sent) = pb"
    by (simp_all add: tcp_compute_checksum_value with_ports_def)
  have same: "tg_sender ?sent = tg_sender seg" "tg_receiver ?sent = tg_receiver seg"
    "tg_reset ?sent = tg_reset seg" by (simp_all add: with_ports_def)
  have "unwrap_tcp_in_ip L \<lparr>dg_header = ?h\<lparr>ip_cksum := k\<rparr>, dg_payload = bufs\<rparr> fb =
      Inr (connected_end fb a pa b pb, Some ?sent)"
    if bufs: "concat bufs = concat (serialize_segment ?sent)" "readable 20 bufs" for bufs
  proof -
    have parsed: "parse_object (tcp_segment_parse (ipv4_pseudo_checksum ?h) empty_tcp_segment) bufs =
        Inr (?sent, True)"
      by (rule parse_sent_bytes [OF _ pseudo_checksum_small bufs]) (use len in \<open>simp add: with_ports_def\<close>)
    have acc: "fa_listen fb \<longrightarrow> sm_SYN (tg_sender ?sent) \<and> \<not> tg_reset ?sent"
      using syn unfolding same .
    note ends = accept_peer_other [OF L other acc, of "?h\<lparr>ip_cksum := k\<rparr>"]
    have "lib_port L (fc_destination (fa_cfg (connected_end fb a pa b pb))) = Inr pa"
      using lib_port_inet [OF L] by (simp add: connected_end_def)
    then show ?thesis
      using ends ports
      by (simp add: unwrap_tcp_in_ip_def Let_def wrapped_header_fields parsed)
  qed
  then show ?thesis using w k same
    by (intro exI [of _ ?sent] exI [of _ "\<lparr>dg_header = ?h\<lparr>ip_cksum := k\<rparr>, dg_payload = serialize_segment ?sent\<rparr>"])
       (simp only: ipv4_datagram.simps simp_thms, simp add: plain)
qed

subsection \<open>Properties\<close>

text \<open>
  A segment that one adapter puts into a datagram is taken out unchanged (but for the
  ports and the checksum that were filled in) by the adapter at the other end, whether that
  one is connected or is listening and the segment is a SYN; a listening adapter is then
  connected to the sender.  The payload of the datagram may be cut into other buffers.
\<close>

theorem tcp_over_ip_roundtrip:
  assumes L: "net_lib_ok L"
    and cfg: "fc_source (fa_cfg fa) = inet_address a pa" "fc_destination (fa_cfg fa) = inet_address b pb"
    and other: "other_end fb a pa b pb"
    and syn: "fa_listen fb \<longrightarrow> sm_SYN (tg_sender seg) \<and> \<not> tg_reset seg"
    and len: "length (sm_payload (tg_sender seg)) \<le> 65495"
  shows "\<exists>sent d. wrap_tcp_in_ip L seg fa = Inr (sent, d) \<and>
     tg_sender sent = tg_sender seg \<and> tg_receiver sent = tg_receiver seg \<and> tg_reset sent = tg_reset seg \<and>
     ipv4_compute_checksum (dg_header d) = Inr (dg_header d) \<and>
     (\<forall>bufs. bufs = dg_payload d \<or> [] \<notin> set bufs \<and> concat bufs = concat (dg_payload d) \<longrightarrow>
        unwrap_tcp_in_ip L (d\<lparr>dg_payload := bufs\<rparr>) fb = Inr (connected_end fb a pa b pb, Some sent))"
proof -
  from wrap_then_unwrap [OF assms] obtain sent d where
    w: "wrap_tcp_in_ip L seg fa = Inr (sent, d)" "tg_sender sent = tg_sender seg"
      "tg_receiver sent = tg_receiver seg" "tg_reset sent = tg_reset seg"
      "ipv4_compute_checksum (dg_header d) = Inr (dg_header d)"
    and d: "d = \<lparr>dg_header = dg_header d, dg_payload = serialize_segment sent\<rparr>"
    and u: "\<forall>bufs. concat bufs = concat (dg_payload d) \<and> readable 20 bufs \<longrightarrow>
        unwrap_tcp_in_ip L (d\<lparr>dg_payload := bufs\<rparr>) fb = Inr (connected_end fb a pa b pb, Some sent)"
    by (elim exE conjE) (rule that)
  have p: "dg_payload d = serialize_segment sent" by (subst d) simp
  have "unwrap_tcp_in_ip L (d\<lparr>dg_payload := bufs\<rparr>) fb = Inr (connected_end fb a pa b pb, Some sent)"
    if "bufs = dg_payload d \<or> [] \<notin> set bufs \<and> concat bufs = concat (dg_payload d)" for bufs
    using u serialized_readable [of bufs sent] that unfolding p by blast
  with w show ?thesis by blast
qed

theorem tcp_over_ip_roundtrip_witness:
  "\<exists>sent d fb. wrap_tcp_in_ip numeric_lib
       (empty_tcp_segment\<lparr>tg_sender := \<lparr>sm_seqno = Wrap32 5, sm_SYN = True, sm_payload = [], sm_FIN = False\<rparr>\<rparr>)
       (end_at False (inet_address 1 80) (inet_address 2 90)) = Inr (sent, d) \<and>
     unwrap_tcp_in_ip numeric_lib d (end_at True (inet_address 0 90) (inet_address 0 0)) = Inr (fb, Some sent) \<and>
     \<not> fa_listen fb \<and> fc_destination (fa_cfg fb) = inet_address 1 80"
proof -
  let ?seg = "empty_tcp_segment\<lparr>tg_sender := \<lparr>sm_seqno = Wrap32 5, sm_SYN = True, sm_payload = [], sm_FIN = False\<rparr>\<rparr>"
  let ?fa = "end_at False (inet_address 1 80) (inet_address 2 90)"
  let ?fb = "end_at True (inet_address 0 90) (inet_address 0 0)"
  have c: "fc_source (fa_cfg ?fa) = inet_address 1 80" "fc_destination (fa_cfg ?fa) = inet_address 2 90"
    "other_end ?fb 1 80 2 90" "fa_listen ?fb \<longrightarrow> sm_SYN (tg_sender ?seg) \<and> \<not> tg_reset ?seg"
    "length (sm_payload (tg_sender ?seg)) \<le> 65495"
    by (auto simp: end_at_def other_end_def empty_tcp_segment_def)
  from tcp_over_ip_roundtrip [OF numeric_lib_ok c] obtain sent d where
    w: "wrap_tcp_in_ip numeric_lib ?seg ?fa = Inr (sent, d)"
    and u: "\<forall>bufs. bufs = dg_payload d \<or> [] \<notin> set bufs \<and> concat bufs = concat (dg_payload d) \<longrightarrow>
        unwrap_tcp_in_ip numeric_lib (d\<lparr>dg_payload := bufs\<rparr>) ?fb = Inr (connected_end ?fb 1 80 2 90, Some sent)"
    by blast
  from u have "unwrap_tcp_in_ip numeric_lib (d\<lparr>dg_payload := dg_payload d\<rparr>) ?fb =
      Inr (connected_end ?fb 1 80 2 90, Some sent)" by blast
  then show ?thesis using w by (auto simp: connected_end_def)
qed

text \<open>
  Loss only drops.  A read moves the underlying adapter exactly as its own read does
  and returns what that returned or nothing; a write is the adapter's write or leaves the
  adapter alone; and with a loss rate of 0 nothing is dropped and no random number drawn.
\<close>

theorem lossy_only_drops:
  assumes "read (lo_adapter lo) = Inr (a, ret)" and "write seg (lo_adapter lo) = Inr (seg', a')"
  shows "(\<exists>lo1 ret1. lossy_read rnd config read lo = Inr (lo1, ret1) \<and> lo_adapter lo1 = a \<and>
            (ret1 = ret \<or> ret1 = None) \<and>
            (fc_loss_rate_dn (config a) = 0 \<longrightarrow> ret1 = ret \<and> lo_rand lo1 = lo_rand lo)) \<and>
         (\<exists>lo1 seg1. lossy_write rnd config write seg lo = Inr (seg1, lo1) \<and>
            (seg1 = seg' \<and> lo_adapter lo1 = a' \<or> seg1 = seg \<and> lo_adapter lo1 = lo_adapter lo) \<and>
            (fc_loss_rate_up (config (lo_adapter lo)) = 0 \<longrightarrow>
               seg1 = seg' \<and> lo_adapter lo1 = a' \<and> lo_rand lo1 = lo_rand lo))"
  using assms
  by (auto simp: lossy_read_def lossy_write_def should_drop_def Let_def split: prod.splits)

theorem lossy_only_drops_witness:
  "\<exists>lo1. lossy_write (\<lambda>r. (r, r + 1)) (\<lambda>a. \<lparr>fc_source = inet_address 1 1, fc_destination = inet_address 2 2,
           fc_loss_rate_dn = 0, fc_loss_rate_up = 0\<rparr>) (\<lambda>seg sent. Inr (seg, sent @ [seg]))
           empty_tcp_segment \<lparr>lo_rand = 0, lo_adapter = []\<rparr> = Inr (empty_tcp_segment, lo1) \<and>
         lo_adapter lo1 = [empty_tcp_segment]"
  using lossy_only_drops [of "\<lambda>a. Inr (a, None)" "\<lparr>lo_rand = 0 :: nat, lo_adapter = []\<rparr>" "[]" None
      "\<lambda>seg sent. Inr (seg, sent @ [seg])" empty_tcp_segment empty_tcp_segment "[empty_tcp_segment]"
      "\<lambda>r. (r, r + 1)" "\<lambda>a. \<lparr>fc_source = inet_address 1 1, fc_destination = inet_address 2 2,
           fc_loss_rate_dn = 0, fc_loss_rate_up = 0\<rparr>"]
  by auto

end
