(* ===== verification/Adapters.thy ===== *)
theory Adapters
  imports Tcp_Over_Ip Network_Interface File_Descriptor
begin

unbundle bit_operations_syntax

text \<open>
  The adapters between TCP segments and a raw device: TUN and TAP descriptors
  (\<open>util/tun.cc\<close>), and the two adapters of \<open>util/tuntap_adapter.cc\<close>, IPv4 over TUN and IPv4
  over Ethernet over TAP.  \<open>None\<close> is an operation that does not return.
\<close>

subsection \<open>TUN and TAP devices\<close>

definition CLONEDEV :: string where "CLONEDEV = ''/dev/net/tun''"
definition IFNAMSIZ :: nat where "IFNAMSIZ = 16"
definition IFF_TUN :: u16 where "IFF_TUN = 1"
definition IFF_TAP :: u16 where "IFF_TAP = 2"
definition IFF_NO_PI :: u16 where "IFF_NO_PI = 0x1000"
definition O_RDWR :: u32 where "O_RDWR = 2"
definition O_CLOEXEC :: u32 where "O_CLOEXEC = 0x80000"

text \<open>The name is what the kernel reads from the null-terminated \<open>ifr_name\<close>.\<close>

definition open_tuntap ::
  "'k kernel \<Rightarrow> string \<Rightarrow> bool \<Rightarrow> 'k \<Rightarrow> (fd_wrapper \<times> 'k) result" where
  "open_tuntap K devname is_tun k =
     (let (k, r) = k_open K CLONEDEV (O_RDWR OR O_CLOEXEC) k
      in bind_result (check_system_call (k_strerror K) ''open'' r) (\<lambda>fd.
         bind_result (new_fd_wrapper K fd k) (\<lambda>(fw, k).
         let ifr_flags = (if is_tun then IFF_TUN else IFF_TAP) OR IFF_NO_PI;
             ifr_name = take (IFNAMSIZ - 1) (takeWhile (\<lambda>c. of_char c \<noteq> (0 :: nat)) devname);
             (k, r) = k_tunsetiff K (fw_fd fw) ifr_flags ifr_name k
         in bind_result (fd_check_system_call K ''ioctl'' r fw) (\<lambda>_. Inr (fw, k)))))"

subsection \<open>IPv4 over TUN\<close>

record tun_adapter =
  tu_base :: fd_adapter
  tu_tun :: fd_wrapper

definition tun_read ::
  "'k kernel \<Rightarrow> net_lib \<Rightarrow> tun_adapter \<Rightarrow> 'k \<Rightarrow> (tun_adapter \<times> 'k \<times> tcp_segment option) result" where
  "tun_read K L tu k =
     bind_result (fd_readv K [replicate IPV4_LENGTH 0, []] (tu_tun tu) k) (\<lambda>(strs, fw, k).
     let tu = tu\<lparr>tu_tun := fw\<rparr>
     in bind_result (parse_object (ipv4_datagram_parse empty_ipv4_datagram) strs) (\<lambda>(ip_dgram, valid).
        if valid then
          bind_result (unwrap_tcp_in_ip L ip_dgram (tu_base tu)) (\<lambda>(fa, seg).
          Inr (tu\<lparr>tu_base := fa\<rparr>, k, seg))
        else Inr (tu, k, None)))"

definition tun_write ::
  "'k kernel \<Rightarrow> net_lib \<Rightarrow> tcp_segment \<Rightarrow> tun_adapter \<Rightarrow> 'k \<Rightarrow> (tcp_segment \<times> tun_adapter \<times> 'k) result" where
  "tun_write K L seg tu k =
     bind_result (wrap_tcp_in_ip L seg (tu_base tu)) (\<lambda>(seg, dgram).
     bind_result (serialize_datagram dgram) (\<lambda>bufs.
     bind_result (fd_writev K bufs (tu_tun tu) k) (\<lambda>(n, fw, k).
     Inr (seg, tu\<lparr>tu_tun := fw\<rparr>, k))))"

subsection \<open>IPv4 over Ethernet\<close>

record ethernet_adapter =
  et_base :: fd_adapter
  et_tap :: fd_wrapper
  et_interface :: network_interface
  et_next_hop :: address

definition ETHERNET_LENGTH :: nat where "ETHERNET_LENGTH = 14"

text \<open>The loop of \<open>send_pending\<close> writes each frame to the device.\<close>

definition write_frame ::
  "'k kernel \<Rightarrow> ethernet_frame \<Rightarrow> fd_wrapper \<times> 'k \<Rightarrow> (fd_wrapper \<times> 'k) result" where
  "write_frame K frame w =
     bind_result (fd_writev K (serialize_frame frame) (fst w) (snd w)) (\<lambda>(n, fw, k). Inr (fw, k))"

definition send_pending ::
  "'k kernel \<Rightarrow> ethernet_adapter \<Rightarrow> 'k \<Rightarrow> (ethernet_adapter \<times> 'k) result option" where
  "send_pending K et k =
     map_option (\<lambda>(ni, r). bind_result r (\<lambda>(fw, k). Inr (et\<lparr>et_tap := fw, et_interface := ni\<rparr>, k)))
       (drain_loop ni_maybe_send (write_frame K) (et_interface et) (et_tap et, k))"

definition new_ethernet_adapter ::
  "'k kernel \<Rightarrow> net_lib \<Rightarrow> fd_wrapper \<Rightarrow> ethernet_address \<Rightarrow> address \<Rightarrow> address \<Rightarrow> 'k \<Rightarrow>
   (ethernet_adapter \<times> 'k) result" where
  "new_ethernet_adapter K L tap eth_address ip_address next_hop k =
     bind_result (new_fd_adapter L) (\<lambda>fa.
     let dummy_frame = empty_ethernet_frame
     in bind_result (write_frame K dummy_frame (tap, k)) (\<lambda>(tap, k).
        Inr (\<lparr>et_base = fa, et_tap = tap,
              et_interface = new_network_interface (nl_map_limit L) eth_address ip_address,
              et_next_hop = next_hop\<rparr>, k)))"

text \<open>What follows the call of \<open>send_pending\<close> in each operation.\<close>

definition after_sending ::
  "'k kernel \<Rightarrow> ethernet_adapter \<Rightarrow> 'k \<Rightarrow> (ethernet_adapter \<Rightarrow> 'k \<Rightarrow> 'a result) \<Rightarrow> 'a result option" where
  "after_sending K et k f = map_option (\<lambda>r. bind_result r (\<lambda>(et, k). f et k)) (send_pending K et k)"

text \<open>A failure before the call of \<open>send_pending\<close> ends the operation.\<close>

definition ethernet_read ::
  "'k kernel \<Rightarrow> net_lib \<Rightarrow> ethernet_adapter \<Rightarrow> 'k \<Rightarrow>
   (ethernet_adapter \<times> 'k \<times> tcp_segment option) result option" where
  "ethernet_read K L et k =
     (case fd_readv K [replicate ETHERNET_LENGTH 0, replicate IPV4_LENGTH 0, []] (et_tap et) k of
        Inl e \<Rightarrow> Some (Inl e)
      | Inr (strs, fw, k) \<Rightarrow>
          (let et = et\<lparr>et_tap := fw\<rparr>
           in case parse_object (ethernet_frame_parse empty_ethernet_frame) strs of
                Inl e \<Rightarrow> Some (Inl e)
              | Inr (frame, valid) \<Rightarrow>
                  if \<not> valid then Some (Inr (et, k, None))
                  else case recv_frame (lib_address L) frame (et_interface et) of
                         Inl e \<Rightarrow> Some (Inl e)
                       | Inr (ni, ip_dgram) \<Rightarrow>
                           after_sending K (et\<lparr>et_interface := ni\<rparr>) k (\<lambda>et k.
                             case ip_dgram of
                               None \<Rightarrow> Inr (et, k, None)
                             | Some dgram \<Rightarrow>
                                 bind_result (unwrap_tcp_in_ip L dgram (et_base et)) (\<lambda>(fa, seg).
                                 Inr (et\<lparr>et_base := fa\<rparr>, k, seg)))))"

definition ethernet_tick ::
  "'k kernel \<Rightarrow> u64 \<Rightarrow> ethernet_adapter \<Rightarrow> 'k \<Rightarrow> (ethernet_adapter \<times> 'k) result option" where
  "ethernet_tick K ms_since_last_tick et k =
     (case ni_tick ms_since_last_tick (et_interface et) of
        Inl e \<Rightarrow> Some (Inl e)
      | Inr ni \<Rightarrow> send_pending K (et\<lparr>et_interface := ni\<rparr>) k)"

definition ethernet_write ::
  "'k kernel \<Rightarrow> net_lib \<Rightarrow> tcp_segment \<Rightarrow> ethernet_adapter \<Rightarrow> 'k \<Rightarrow>
   (tcp_segment \<times> ethernet_adapter \<times> 'k) result option" where
  "ethernet_write K L seg et k =
     (case bind_result (wrap_tcp_in_ip L seg (et_base et)) (\<lambda>(seg, dgram).
             bind_result (send_datagram (lib_address L) dgram (et_next_hop et) (et_interface et)) (\<lambda>ni.
             Inr (seg, ni))) of
        Inl e \<Rightarrow> Some (Inl e)
      | Inr (seg, ni) \<Rightarrow>
          after_sending K (et\<lparr>et_interface := ni\<rparr>) k (\<lambda>et k. Inr (seg, et, k)))"

subsection \<open>The loop that sends pending frames\<close>

lemma send_pending_ends: "send_pending K et k \<noteq> None"
  using frames.drain_ends [of "write_frame K" "et_interface et" "(et_tap et, k)"]
  by (auto simp: send_pending_def)

lemma after_sending_ends: "after_sending K et k f \<noteq> None"
  using send_pending_ends [of K et k] by (simp add: after_sending_def)

subsection \<open>Reading a datagram from a device\<close>

lemma readv_datagram:
  assumes "reads_ok K" and "k_readv K (fw_fd fw) [IPV4_LENGTH, kReadBufferSize] k = (k', r, hdr @ rest)"
    and "sr_value r \<ge> 0" and "length hdr = IPV4_LENGTH"
  shows "fd_readv K [replicate IPV4_LENGTH 0, []] fw k = Inr ([hdr, rest], register_read fw, k')"
proof -
  have "transfer_ok (sum_list [IPV4_LENGTH, kReadBufferSize]) r (hdr @ rest)"
    using assms(1,2) unfolding reads_ok_def by (metis (no_types, lifting) case_prod_conv)
  then have "length rest \<le> kReadBufferSize" using assms(3,4) by (simp add: transfer_ok_def) linarith
  then have p: "pieces [IPV4_LENGTH, kReadBufferSize] (hdr @ rest) = [hdr, rest]"
    using assms(4) by simp
  have b: "[replicate IPV4_LENGTH (0 :: byte), []] \<noteq> []"
    "map length (butlast [replicate IPV4_LENGTH (0 :: byte), []]) @ [kReadBufferSize] =
       [IPV4_LENGTH, kReadBufferSize]" by simp_all
  from fd_readv_pieces [OF assms(1) b(1), of fw k k' r "hdr @ rest"] assms(2,3) p
  show ?thesis unfolding b(2) by auto
qed

lemma tun_read_datagram:
  assumes K: "reads_ok K"
    and r: "k_readv K (fw_fd (tu_tun tu)) [IPV4_LENGTH, kReadBufferSize] k = (k', r, ipv4_bytes h @ rest)"
      "sr_value r \<ge> 0"
    and h: "ipv4_plain h" "ipv4_compute_checksum h = Inr h" and long: "20 \<le> length rest"
    and u: "\<forall>bufs. concat bufs = rest \<and> readable 20 bufs \<longrightarrow>
        unwrap_tcp_in_ip L \<lparr>dg_header = h, dg_payload = bufs\<rparr> (tu_base tu) = Inr (fa, seg)"
  shows "tun_read K L tu k = Inr (\<lparr>tu_base = fa, tu_tun = register_read (tu_tun tu)\<rparr>, k', seg)"
proof -
  have "length (ipv4_bytes h) = IPV4_LENGTH" by (simp add: IPV4_LENGTH_def)
  note rd = readv_datagram [OF K r this]
  have "ipv4_bytes h \<noteq> []" by (metis length_ipv4_bytes list.size(3) zero_neq_numeral)
  then have "readable (20 + 20) [ipv4_bytes h, rest]" using long by auto
  from feeds_new [OF this] have f: "feeds (new_parser [ipv4_bytes h, rest]) (ipv4_bytes h @ rest) (20 + 20)"
    by simp
  obtain p' d where "ipv4_datagram_parse empty_ipv4_datagram (new_parser [ipv4_bytes h, rest]) = Inr (p', d)"
    "\<not> pa_error p'" "dg_header d = h" "concat (dg_payload d) = rest" "readable 20 (dg_payload d)"
    by (rule ipv4_datagram_parse_readable [OF f h(1), of empty_ipv4_datagram]) (use h(2) in blast)
  moreover from this u have "unwrap_tcp_in_ip L d (tu_base tu) = Inr (fa, seg)"
    by (cases d) auto
  ultimately show ?thesis by (simp add: tun_read_def rd parse_object_def Let_def)
qed

text \<open>Adapters on the queue of bytes, for the examples.\<close>

lemma writev_queue:
  "fd_writev queue_kernel bufs fw k = Inr (sum_list (map length bufs), register_write fw, k @ concat bufs)"
  by (auto simp: fd_writev_def queue_kernel_def fd_check_system_call_def Let_def)

definition queue_tun :: "bool \<Rightarrow> address \<Rightarrow> address \<Rightarrow> tun_adapter" where
  "queue_tun listen source destination =
     \<lparr>tu_base = end_at listen source destination, tu_tun = queue_fd\<rparr>"

definition queue_ethernet :: "ethernet_frame list \<Rightarrow> ethernet_adapter" where
  "queue_ethernet frames =
     \<lparr>et_base = end_at False (inet_address 1 80) (inet_address 2 90), et_tap = queue_fd,
      et_interface = (new_network_interface (\<lambda>_. 16) [2, 0, 0, 0, 0, 1] (inet_address 1 0))\<lparr>ni_ethernet_q := frames\<rparr>,
      et_next_hop = inet_address 2 0\<rparr>"

subsection \<open>Properties\<close>

text \<open>
  Every operation of the Ethernet adapter returns (possibly with an error): the loop
  that sends the pending frames ends, whatever the device answers.
\<close>

theorem ethernet_adapter_returns:
  "(\<exists>r. ethernet_read K L et k = Some r) \<and> (\<exists>r. ethernet_tick K ms et k = Some r) \<and>
   (\<exists>r. ethernet_write K L seg et k = Some r)"
  unfolding not_None_eq [symmetric]
  by (auto simp: ethernet_read_def ethernet_tick_def ethernet_write_def Let_def
      send_pending_ends after_sending_ends simp del: not_None_eq split: sum.split prod.split)

text \<open>
  When the device accepts every write, \<open>send_pending\<close> writes exactly the pending
  frames, in order, and leaves none.
\<close>

theorem send_pending_writes_all:
  assumes "use_all (write_frame K) (ni_ethernet_q (et_interface et)) (et_tap et, k) = Inr (fw, k')"
  shows "send_pending K et k =
           Some (Inr (et\<lparr>et_tap := fw, et_interface := (et_interface et)\<lparr>ni_ethernet_q := []\<rparr>\<rparr>, k'))"
proof -
  obtain ni where ni: "drain_loop ni_maybe_send (write_frame K) (et_interface et) (et_tap et, k) =
      Some (ni, Inr (fw, k'))" "ni_ethernet_q ni = []"
    "ni\<lparr>ni_ethernet_q := []\<rparr> = (et_interface et)\<lparr>ni_ethernet_q := []\<rparr>"
    using frames.drain_total [OF assms] by blast
  have "ni\<lparr>ni_ethernet_q := []\<rparr> = ni" using ni(2) by (cases ni) simp
  with ni show ?thesis by (simp add: send_pending_def)
qed

theorem send_pending_writes_all_witness:
  "send_pending queue_kernel (queue_ethernet [empty_ethernet_frame, empty_ethernet_frame]) [] =
     Some (Inr ((queue_ethernet [])\<lparr>et_tap := register_write (register_write queue_fd)\<rparr>,
                concat (serialize_frame empty_ethernet_frame) @ concat (serialize_frame empty_ethernet_frame)))"
proof -
  let ?et = "queue_ethernet [empty_ethernet_frame, empty_ethernet_frame]"
  have "use_all (write_frame queue_kernel) (ni_ethernet_q (et_interface ?et)) (et_tap ?et, []) =
      Inr (register_write (register_write queue_fd),
        concat (serialize_frame empty_ethernet_frame) @ concat (serialize_frame empty_ethernet_frame))"
    by (simp add: queue_ethernet_def write_frame_def writev_queue)
  from send_pending_writes_all [OF this] show ?thesis by (simp add: queue_ethernet_def)
qed

text \<open>
  C10: A segment that one TUN adapter writes reaches the other end: the bytes it writes to
  its device, when the other device delivers them in one read, are read there as the same
  segment.
\<close>

theorem tun_transports_segment:
  assumes L: "net_lib_ok L"
    and cfg: "fc_source (fa_cfg (tu_base ta)) = inet_address a pa"
      "fc_destination (fa_cfg (tu_base ta)) = inet_address b pb"
    and other: "other_end (tu_base tb) a pa b pb"
    and syn: "fa_listen (tu_base tb) \<longrightarrow> sm_SYN (tg_sender seg) \<and> \<not> tg_reset seg"
    and len: "length (sm_payload (tg_sender seg)) \<le> 65495"
  shows "\<exists>sent bufs. tg_sender sent = tg_sender seg \<and> tg_receiver sent = tg_receiver seg \<and>
     length (concat bufs) = 40 + length (sm_payload (tg_sender seg)) \<and>
     tun_write K L seg ta k =
       bind_result (fd_writev K bufs (tu_tun ta) k) (\<lambda>(n, fw, k). Inr (sent, ta\<lparr>tu_tun := fw\<rparr>, k)) \<and>
     (\<forall>k1 k2 r. reads_ok K' \<and> sr_value r \<ge> 0 \<and>
        k_readv K' (fw_fd (tu_tun tb)) [IPV4_LENGTH, kReadBufferSize] k1 = (k2, r, concat bufs) \<longrightarrow>
        tun_read K' L tb k1 =
          Inr (\<lparr>tu_base = connected_end (tu_base tb) a pa b pb, tu_tun = register_read (tu_tun tb)\<rparr>,
               k2, Some sent))"
proof -
  from wrap_then_unwrap [OF L cfg other syn len] obtain sent d where
    w: "wrap_tcp_in_ip L seg (tu_base ta) = Inr (sent, d)" "tg_sender sent = tg_sender seg"
      "tg_receiver sent = tg_receiver seg"
    and d: "d = \<lparr>dg_header = dg_header d, dg_payload = serialize_segment sent\<rparr>"
    and h: "ipv4_plain (dg_header d)" "ipv4_compute_checksum (dg_header d) = Inr (dg_header d)"
    and u: "\<forall>bufs. concat bufs = concat (dg_payload d) \<and> readable 20 bufs \<longrightarrow>
        unwrap_tcp_in_ip L (d\<lparr>dg_payload := bufs\<rparr>) (tu_base tb) =
          Inr (connected_end (tu_base tb) a pa b pb, Some sent)"
    by (elim exE conjE) (rule that)
  have "ip_ver (dg_header d) = 4" using h(1) by (simp add: ipv4_plain_def)
  then obtain rest where s: "serialize_datagram d = Inr (ipv4_bytes (dg_header d) # rest)"
    and rest: "concat rest = concat (dg_payload d)"
    by (rule serialize_datagram_ok)
  let ?bufs = "ipv4_bytes (dg_header d) # rest"
  have p: "dg_payload d = serialize_segment sent" by (subst d) simp
  have long: "20 \<le> length (concat (dg_payload d))" unfolding p by (simp add: serialize_segment_buffers)
  have "length (concat ?bufs) = 40 + length (sm_payload (tg_sender seg))"
    by (simp add: rest p serialize_segment_buffers w(2))
  have up: "d\<lparr>dg_payload := x\<rparr> = \<lparr>dg_header = dg_header d, dg_payload = x\<rparr>" for x
    by (cases d) simp
  have "tun_read K' L tb k1 =
      Inr (\<lparr>tu_base = connected_end (tu_base tb) a pa b pb, tu_tun = register_read (tu_tun tb)\<rparr>, k2, Some sent)"
    if "reads_ok K'" "sr_value r \<ge> 0"
      "k_readv K' (fw_fd (tu_tun tb)) [IPV4_LENGTH, kReadBufferSize] k1 = (k2, r, concat ?bufs)" for k1 k2 r
    using that u rest
    by (intro tun_read_datagram [OF that(1) _ _ h long]) (simp_all add: up)
  moreover have "tun_write K L seg ta k =
      bind_result (fd_writev K ?bufs (tu_tun ta) k) (\<lambda>(n, fw, k). Inr (sent, ta\<lparr>tu_tun := fw\<rparr>, k))"
    by (simp add: tun_write_def w(1) s)
  ultimately show ?thesis using w(2,3) \<open>length (concat ?bufs) = _\<close>
    by (intro exI [of _ sent] exI [of _ ?bufs]) blast
qed

theorem tun_transports_segment_witness:
  "\<exists>sent ta k1 tb k2.
     tun_write queue_kernel numeric_lib
       (empty_tcp_segment\<lparr>tg_sender := \<lparr>sm_seqno = Wrap32 5, sm_SYN = True, sm_payload = [], sm_FIN = False\<rparr>\<rparr>)
       (queue_tun False (inet_address 1 80) (inet_address 2 90)) [] = Inr (sent, ta, k1) \<and>
     tun_read queue_kernel numeric_lib (queue_tun True (inet_address 0 90) (inet_address 0 0)) k1 =
       Inr (tb, k2, Some sent) \<and>
     sm_seqno (tg_sender sent) = Wrap32 5 \<and> \<not> fa_listen (tu_base tb)"
proof -
  let ?seg = "empty_tcp_segment\<lparr>tg_sender := \<lparr>sm_seqno = Wrap32 5, sm_SYN = True, sm_payload = [], sm_FIN = False\<rparr>\<rparr>"
  let ?ta = "queue_tun False (inet_address 1 80) (inet_address 2 90)"
  let ?tb = "queue_tun True (inet_address 0 90) (inet_address 0 0)"
  have c: "fc_source (fa_cfg (tu_base ?ta)) = inet_address 1 80"
    "fc_destination (fa_cfg (tu_base ?ta)) = inet_address 2 90"
    "other_end (tu_base ?tb) 1 80 2 90"
    "fa_listen (tu_base ?tb) \<longrightarrow> sm_SYN (tg_sender ?seg) \<and> \<not> tg_reset ?seg"
    "length (sm_payload (tg_sender ?seg)) \<le> 65495"
    by (auto simp: queue_tun_def end_at_def other_end_def empty_tcp_segment_def)
  from tun_transports_segment [OF numeric_lib_ok c, of queue_kernel "[]" queue_kernel]
  obtain sent bufs where same: "tg_sender sent = tg_sender ?seg"
    and len: "length (concat bufs) = 40 + length (sm_payload (tg_sender ?seg))"
    and w: "tun_write queue_kernel numeric_lib ?seg ?ta [] =
       bind_result (fd_writev queue_kernel bufs (tu_tun ?ta) []) (\<lambda>(n, fw, k). Inr (sent, ?ta\<lparr>tu_tun := fw\<rparr>, k))"
    and r: "\<forall>k1 k2 r. reads_ok queue_kernel \<and> sr_value r \<ge> 0 \<and>
        k_readv queue_kernel (fw_fd (tu_tun ?tb)) [IPV4_LENGTH, kReadBufferSize] k1 = (k2, r, concat bufs) \<longrightarrow>
        tun_read queue_kernel numeric_lib ?tb k1 =
          Inr (\<lparr>tu_base = connected_end (tu_base ?tb) 1 80 2 90, tu_tun = register_read (tu_tun ?tb)\<rparr>,
               k2, Some sent)"
    by (elim exE conjE) (rule that)
  have w': "tun_write queue_kernel numeric_lib ?seg ?ta [] =
      Inr (sent, ?ta\<lparr>tu_tun := register_write (tu_tun ?ta)\<rparr>, concat bufs)"
    by (simp add: w writev_queue)
  have len40: "length (concat bufs) = 40" using len by simp
  then have "concat bufs \<noteq> []" by (metis list.size(3) zero_neq_numeral)
  then have "k_readv queue_kernel (fw_fd (tu_tun ?tb)) [IPV4_LENGTH, kReadBufferSize] (concat bufs) =
      ([], \<lparr>sr_value = 40, sr_errno = 0\<rparr>, concat bufs)"
    using len40 by (simp only: queue_kernel_def kernel.simps take_pending_def)
      (simp add: IPV4_LENGTH_def kReadBufferSize_def)
  then have "tun_read queue_kernel numeric_lib ?tb (concat bufs) =
      Inr (\<lparr>tu_base = connected_end (tu_base ?tb) 1 80 2 90, tu_tun = register_read (tu_tun ?tb)\<rparr>,
           [], Some sent)"
    using r queue_kernel_ok by (metis sys_ret.select_convs(1) zero_le_numeral)
  moreover have "sm_seqno (tg_sender sent) = Wrap32 5" using same by simp
  moreover have "\<not> fa_listen (tu_base \<lparr>tu_base = connected_end (tu_base ?tb) 1 80 2 90,
      tu_tun = register_read (tu_tun ?tb)\<rparr>)" by (simp add: connected_end_def)
  ultimately show ?thesis using w' by blast
qed

end
