(* ===== verification/End_To_End.thy ===== *)
theory End_To_End
  imports Sender_Run
begin

text \<open>
  A sender and a receiver joined by a network that may lose, reorder, delay and repeat
  segments: a segment may be delivered whenever it has been handed to the network before.
  The acknowledgments the sender hears are arbitrary, so what the receiver sends back is
  among them.
\<close>

subsection \<open>The composed system\<close>

record link =
  lk_tx :: sender_sys
  lk_rx :: tcp_receiver
  lk_sys :: reasm_sys
  lk_got :: "receiver_event list"

definition new_link :: "tcp_sender \<Rightarrow> u64 \<Rightarrow> u64 \<Rightarrow> link" where
  "new_link tx send_capacity recv_capacity =
     \<lparr>lk_tx = new_sender_sys tx send_capacity, lk_rx = new_tcp_receiver,
      lk_sys = new_sys recv_capacity, lk_got = []\<rparr>"

inductive link_step :: "link \<Rightarrow> link \<Rightarrow> bool" where
  sending: "sender_step (lk_tx x) s' \<Longrightarrow> link_step x (x\<lparr>lk_tx := s'\<rparr>)"
| deliver: "m \<in> set (ss_emitted (lk_tx x)) \<Longrightarrow>
    receiver_step (Segment m) (lk_rx x, lk_sys x) = Inr (r, s) \<Longrightarrow>
    link_step x (x\<lparr>lk_rx := r, lk_sys := s, lk_got := lk_got x @ [Segment m]\<rparr>)"
| consume: "receiver_step (Take n) (lk_rx x, lk_sys x) = Inr (r, s) \<Longrightarrow>
    link_step x (x\<lparr>lk_rx := r, lk_sys := s, lk_got := lk_got x @ [Take n]\<rparr>)"

inductive_cases link_stepE: "link_step x y"

subsection \<open>The two ends of an execution\<close>

text \<open>
  An execution of the system is one of the sender and one of the receiver, and the
  receiver has only got what the sender emitted.
\<close>

definition link_inv :: "tcp_sender \<Rightarrow> u64 \<Rightarrow> u64 \<Rightarrow> link \<Rightarrow> bool" where
  "link_inv tx c c' x \<longleftrightarrow>
     sender_step\<^sup>*\<^sup>* (new_sender_sys tx c) (lk_tx x) \<and>
     receiver_run (lk_got x) (new_tcp_receiver, new_sys c') = Inr (lk_rx x, lk_sys x) \<and>
     (\<forall>m. Segment m \<in> set (lk_got x) \<longrightarrow> m \<in> set (ss_emitted (lk_tx x)))"

lemma receiver_run_append:
  "receiver_run (es @ fs) s = bind_result (receiver_run es s) (receiver_run fs)"
proof (induction es arbitrary: s)
  case (Cons e es)
  have "receiver_run (es @ fs) = (\<lambda>s. bind_result (receiver_run es s) (receiver_run fs))"
    using Cons.IH by blast
  then show ?case by (simp add: bind_result_assoc)
qed simp

lemma sender_step_emitted: "sender_step x y \<Longrightarrow> set (ss_emitted x) \<subseteq> set (ss_emitted y)"
  by (erule sender_stepE) auto

lemma link_inv_step:
  assumes "link_step x y" and inv: "link_inv tx c c' x"
  shows "link_inv tx c c' y"
  using assms(1)
proof (cases rule: link_step.cases)
  case (sending s')
  then have "sender_step\<^sup>*\<^sup>* (new_sender_sys tx c) s'"
    using inv by (auto simp: link_inv_def intro: rtranclp.rtrancl_into_rtrancl)
  with sending sender_step_emitted [OF sending(2)] inv show ?thesis
    by (auto simp: link_inv_def simp del: receiver_run.simps receiver_step.simps)
next
  case (deliver m r s)
  then show ?thesis
    using inv by (auto simp: link_inv_def receiver_run_append simp del: receiver_step.simps)
next
  case (consume n r s)
  then show ?thesis
    using inv by (auto simp: link_inv_def receiver_run_append simp del: receiver_step.simps)
qed

lemma link_reach_inv:
  assumes "link_step\<^sup>*\<^sup>* (new_link tx c c') x"
  shows "link_inv tx c c' x"
  using assms
proof (induction rule: rtranclp_induct)
  case base
  then show ?case by (simp add: link_inv_def new_link_def)
next
  case (step y z)
  then show ?case using link_inv_step by blast
qed

text \<open>The receiver sees the end of the stream only in a segment that carries it.\<close>

lemma receiver_run_fin:
  "receiver_run es (r, s) = Inr (r', s') \<Longrightarrow> rcv_fin r' \<Longrightarrow>
     rcv_fin r \<or> (\<exists>m. Segment m \<in> set es \<and> sm_FIN m)"
proof (induction es arbitrary: r s)
  case (Cons e es)
  then obtain r1 s1 where 1: "receiver_step e (r, s) = Inr (r1, s1)"
    and 2: "receiver_run es (r1, s1) = Inr (r', s')" by auto
  have "rcv_fin r1 \<Longrightarrow> rcv_fin r \<or> (\<exists>m. e = Segment m \<and> sm_FIN m)"
    using 1 by (cases e) (auto simp: receiver_receive_def Let_def split: if_splits)
  with Cons.IH [OF 2 Cons.prems(2)] show ?case by auto
qed simp

lemma sender_steps_link:
  assumes "sender_step\<^sup>*\<^sup>* (lk_tx x) s'"
  shows "link_step\<^sup>*\<^sup>* x (x\<lparr>lk_tx := s'\<rparr>)"
  using assms
proof (induction rule: rtranclp_induct)
  case base
  have "x\<lparr>lk_tx := lk_tx x\<rparr> = x" by (cases x) simp
  then show ?case by simp
next
  case (step y z)
  have "link_step (x\<lparr>lk_tx := y\<rparr>) ((x\<lparr>lk_tx := y\<rparr>)\<lparr>lk_tx := z\<rparr>)"
    using step.hyps(2) by (intro link_step.sending) simp
  with step.IH show ?case by (simp add: rtranclp.rtrancl_into_rtrancl)
qed

text \<open>Both ends of a link keep their invariants, for the bytes that were cut into segments.\<close>

lemma link_reach_both:
  assumes "link_step\<^sup>*\<^sup>* (new_link (new_tcp_sender rto fixed random) c c') x"
    and "length (ss_written (lk_tx x)) < 2 ^ 31 - 1"
    and "length (ss_written (lk_tx x)) + unat c' < 2 ^ 64"
  shows "sender_inv (lk_tx x)" and "length (ss_sent (lk_tx x)) < 2 ^ 31 - 1"
    and "receiver_inv (ss_sent (lk_tx x)) (ts_isn (ss_tx (lk_tx x))) (lk_rx x, lk_sys x)"
    and "rcv_fin (lk_rx x) \<Longrightarrow> \<exists>m \<in> set (ss_emitted (lk_tx x)). sm_FIN m"
proof -
  let ?tx = "lk_tx x"
  have inv: "link_inv (new_tcp_sender rto fixed random) c c' x" by (rule link_reach_inv [OF assms(1)])
  then have reach: "sender_step\<^sup>*\<^sup>* (new_sender_sys (new_tcp_sender rto fixed random) c) ?tx"
    and run: "receiver_run (lk_got x) (new_tcp_receiver, new_sys c') = Inr (lk_rx x, lk_sys x)"
    and got: "\<And>m. Segment m \<in> set (lk_got x) \<Longrightarrow> m \<in> set (ss_emitted ?tx)"
    unfolding link_inv_def by blast+
  have "length (ss_written ?tx) + 2 < 2 ^ 64" using assms(2) by simp
  with reach show si: "sender_inv ?tx" by (rule sender_reach_inv [OF _ sender_inv_new])
  let ?str = "ss_sent ?tx" and ?isn = "ts_isn (ss_tx ?tx)"
  have w: "ss_written ?tx = ?str @ stream_content (ss_out ?tx)"
    and em: "\<And>m. m \<in> set (ss_emitted ?tx) \<Longrightarrow> \<exists>f. segment_of ?str ?isn f m"
    using si unfolding sender_inv_def by blast+
  have "length ?str \<le> length (ss_written ?tx)" using arg_cong [OF w, of length] by simp
  then have small: "length ?str < 2 ^ 31 - 1" and "length ?str + unat c' < 2 ^ 64" using assms(2,3) by simp_all
  from small show "length ?str < 2 ^ 31 - 1" .
  from \<open>length ?str + unat c' < 2 ^ 64\<close> have cap: "length ?str + unat (bs_capacity (rs_out (new_sys c'))) < 2 ^ 64"
    by (simp add: new_sys_def new_byte_stream_def)
  have ev: "\<forall>e \<in> set (lk_got x). receiver_event_of ?str ?isn e"
  proof
    fix e assume "e \<in> set (lk_got x)"
    with got em show "receiver_event_of ?str ?isn e" by (cases e) auto
  qed
  from receiver_inv_run [OF receiver_inv_new ev small cap] run
  show "receiver_inv ?str ?isn (lk_rx x, lk_sys x)" by auto
  show "\<exists>m \<in> set (ss_emitted ?tx). sm_FIN m" if "rcv_fin (lk_rx x)"
    using receiver_run_fin [OF run that] got by (auto simp: new_tcp_receiver_def)
qed

subsection \<open>Property\<close>

text \<open>
  C1: Whatever the network does with the segments and whatever acknowledgments the
  sender hears, the bytes delivered to the receiving application and waiting for it are a
  prefix of the bytes the sending application wrote; when the receiver's stream is closed
  they are all of them, and the sending application has closed its stream.  No segment the
  sender has emitted makes the receiver fail.
\<close>

theorem end_to_end_prefix:
  assumes "link_step\<^sup>*\<^sup>* (new_link (new_tcp_sender rto fixed random) c c') x"
    and "length (ss_written (lk_tx x)) < 2 ^ 31 - 1"
    and "length (ss_written (lk_tx x)) + unat c' < 2 ^ 64"
  shows "\<exists>rest. ss_written (lk_tx x) =
             rs_read (lk_sys x) @ stream_content (rs_out (lk_sys x)) @ rest \<and>
           (bs_closed (rs_out (lk_sys x)) \<longrightarrow> rest = [] \<and> bs_closed (ss_out (lk_tx x))) \<and>
           list_all (\<lambda>m. \<exists>r s. receiver_step (Segment m) (lk_rx x, lk_sys x) = Inr (r, s))
             (ss_emitted (lk_tx x))"
proof -
  let ?tx = "lk_tx x"
  note both = link_reach_both [OF assms]
  let ?str = "ss_sent ?tx" and ?isn = "ts_isn (ss_tx ?tx)"
  have w: "ss_written ?tx = ?str @ stream_content (ss_out ?tx)"
    and em: "\<And>m. m \<in> set (ss_emitted ?tx) \<Longrightarrow> \<exists>f. segment_of ?str ?isn f m"
    and fin: "\<not> ts_fin_sent (ss_tx ?tx) \<longrightarrow> (\<forall>m \<in> set (ss_emitted ?tx). \<not> sm_FIN m)"
    and closed: "ts_fin_sent (ss_tx ?tx) \<longrightarrow> bs_closed (ss_out ?tx) \<and> stream_content (ss_out ?tx) = []"
    using both(1) unfolding sender_inv_def by blast+
  have sys: "sys_inv ?str (lk_sys x)" using both(3) by (simp add: receiver_inv_def)
  then have del: "rs_read (lk_sys x) @ stream_content (rs_out (lk_sys x)) =
      take (next_index (rs_out (lk_sys x))) ?str" by (simp add: sys_inv_def)
  let ?rest = "drop (next_index (rs_out (lk_sys x))) ?str @ stream_content (ss_out ?tx)"
  have "ss_written ?tx = rs_read (lk_sys x) @ stream_content (rs_out (lk_sys x)) @ ?rest"
    unfolding w append_assoc [symmetric] del by simp
  moreover have "?rest = [] \<and> bs_closed (ss_out ?tx)" if "bs_closed (rs_out (lk_sys x))"
  proof -
    have "ra_last_received (rs_ra (lk_sys x))" and all: "next_index (rs_out (lk_sys x)) = length ?str"
      using sys that by (auto simp: sys_inv_def)
    then have "rcv_fin (lk_rx x)" using both(3) by (simp add: receiver_inv_def)
    with both(4) fin have "ts_fin_sent (ss_tx ?tx)" by blast
    with closed all show ?thesis by simp
  qed
  moreover have "list_all (\<lambda>m. \<exists>r s. receiver_step (Segment m) (lk_rx x, lk_sys x) = Inr (r, s)) (ss_emitted ?tx)"
    unfolding list_all_iff using receiver_inv_segment [OF both(3) _ both(2)] em by blast
  ultimately show ?thesis by blast
qed

theorem end_to_end_prefix_witness:
  "\<exists>(x :: link) m r s. link_step\<^sup>*\<^sup>* (new_link (new_tcp_sender 1000 (Some (Wrap32 7)) 0) 9 8) x \<and>
     m \<in> set (ss_emitted (lk_tx x)) \<and> receiver_step (Segment m) (lk_rx x, lk_sys x) = Inr (r, s)"
proof -
  let ?start = "new_link (new_tcp_sender 1000 (Some (Wrap32 7)) 0) 9 8"
  obtain s' where s': "sender_step\<^sup>*\<^sup>* (new_sender_sys (new_tcp_sender 1000 (Some (Wrap32 7)) 0) 9) s'"
    "ss_written s' = []" "ss_emitted s' \<noteq> []"
    using first_step_example by blast
  let ?x = "?start\<lparr>lk_tx := s'\<rparr>"
  have "sender_step\<^sup>*\<^sup>* (lk_tx ?start) s'" using s'(1) by (simp add: new_link_def)
  then have r: "link_step\<^sup>*\<^sup>* ?start ?x" by (rule sender_steps_link [of ?start])
  have "length (ss_written (lk_tx ?x)) < 2 ^ 31 - 1"
    "length (ss_written (lk_tx ?x)) + unat (8 :: u64) < 2 ^ 64" using s'(2) by simp_all
  from end_to_end_prefix [OF r this]
  have "list_all (\<lambda>m. \<exists>r s. receiver_step (Segment m) (lk_rx ?x, lk_sys ?x) = Inr (r, s)) (ss_emitted (lk_tx ?x))"
    by blast
  moreover obtain m where "m \<in> set (ss_emitted (lk_tx ?x))" using s'(3) by (cases "ss_emitted s'") auto
  ultimately show ?thesis using r unfolding list_all_iff by blast
qed

end
