(* ===== verification/Event_Loop.thy ===== *)
theory Event_Loop
  imports File_Descriptor "HOL-Library.Sublist"
begin

text \<open>
  The event loop of \<open>util/eventloop.hh\<close> and \<open>util/eventloop.cc\<close>.

  The closures of the rules read and change the state of the program, of any type \<open>'w\<close>; the
  file descriptors they share with the loop and the operating system are part of it, and a
  closure may cancel any rule.  \<open>poll\<close> and \<open>getsockopt\<close> are the parameter \<open>A\<close>.  Closures
  that add rules to the loop while it runs are not covered, and the messages printed to
  \<open>cerr\<close> are left out.
\<close>

subsection \<open>Rules\<close>

datatype direction = In | Out

definition POLLIN :: u16 where "POLLIN = 1"
definition POLLOUT :: u16 where "POLLOUT = 4"
definition POLLERR :: u16 where "POLLERR = 8"
definition POLLHUP :: u16 where "POLLHUP = 16"
definition POLLNVAL :: u16 where "POLLNVAL = 32"
definition ENOTSOCK :: int where "ENOTSOCK = 88"

fun direction_events :: "direction \<Rightarrow> u16" where
  "direction_events In = POLLIN"
| "direction_events Out = POLLOUT"

text \<open>
  The program state with the \<open>cancel_requested\<close> flags of the rules, which their handles
  set: the rules whose flag is set, by the identity of their \<open>shared_ptr\<close>.
\<close>

record 'w shared =
  sh_world :: 'w
  sh_cancelled :: "nat set"

type_synonym 'w interest = "'w shared \<Rightarrow> ('w shared \<times> bool) result"
type_synonym 'w callback = "'w shared \<Rightarrow> 'w shared result"

record 'w basic_rule =
  br_id :: nat
  br_category_id :: nat
  br_interest :: "'w interest"
  br_callback :: "'w callback"

record 'w fd_rule = "'w basic_rule" +
  fr_fd :: "'w shared \<Rightarrow> fd_wrapper"
  fr_direction :: direction
  fr_cancel :: "'w callback"
  fr_recover :: "'w interest"

definition service_count :: "'w fd_rule \<Rightarrow> 'w shared \<Rightarrow> u32" where
  "service_count r sh =
     (if fr_direction r = In then fw_read_count (fr_fd r sh) else fw_write_count (fr_fd r sh))"

subsection \<open>The loop and its rules\<close>

record 'w event_loop =
  el_categories :: "string list"
  el_capacity :: nat
  el_fd_rules :: "'w fd_rule list"
  el_non_fd_rules :: "'w basic_rule list"
  el_next_id :: nat

text \<open>\<open>capacity\<close> is what the vector has after \<open>reserve( 64 )\<close>: at least 64.\<close>

definition new_event_loop :: "nat \<Rightarrow> 'w event_loop" where
  "new_event_loop capacity =
     \<lparr>el_categories = [], el_capacity = capacity, el_fd_rules = [], el_non_fd_rules = [], el_next_id = 0\<rparr>"

definition add_category :: "string \<Rightarrow> 'w event_loop \<Rightarrow> ('w event_loop \<times> nat) result" where
  "add_category name el =
     (if length (el_categories el) \<ge> el_capacity el
      then Inl (Throws ''maximum categories reached'')
      else let el = el\<lparr>el_categories := el_categories el @ [name]\<rparr>
           in Inr (el, length (el_categories el) - 1))"

definition add_fd_rule ::
  "nat \<Rightarrow> ('w shared \<Rightarrow> fd_wrapper) \<Rightarrow> direction \<Rightarrow> 'w callback \<Rightarrow> 'w interest \<Rightarrow> 'w callback \<Rightarrow>
   'w interest \<Rightarrow> 'w event_loop \<Rightarrow> ('w event_loop \<times> nat) result" where
  "add_fd_rule category_id fd dir callback interest cancel recover el =
     (if category_id \<ge> length (el_categories el) then Inl (Throws ''bad category_id'')
      else Inr (el\<lparr>el_fd_rules := el_fd_rules el @
                    [\<lparr>br_id = el_next_id el, br_category_id = category_id, br_interest = interest,
                      br_callback = callback, fr_fd = fd, fr_direction = dir, fr_cancel = cancel,
                      fr_recover = recover\<rparr>],
                    el_next_id := el_next_id el + 1\<rparr>, el_next_id el))"

definition add_rule ::
  "nat \<Rightarrow> 'w callback \<Rightarrow> 'w interest \<Rightarrow> 'w event_loop \<Rightarrow> ('w event_loop \<times> nat) result" where
  "add_rule category_id callback interest el =
     (if category_id \<ge> length (el_categories el) then Inl (Throws ''bad category_id'')
      else Inr (el\<lparr>el_non_fd_rules := el_non_fd_rules el @
                    [\<lparr>br_id = el_next_id el, br_category_id = category_id, br_interest = interest,
                      br_callback = callback\<rparr>],
                    el_next_id := el_next_id el + 1\<rparr>, el_next_id el))"

definition add_named_fd_rule ::
  "string \<Rightarrow> ('w shared \<Rightarrow> fd_wrapper) \<Rightarrow> direction \<Rightarrow> 'w callback \<Rightarrow> 'w interest \<Rightarrow> 'w callback \<Rightarrow>
   'w interest \<Rightarrow> 'w event_loop \<Rightarrow> ('w event_loop \<times> nat) result" where
  "add_named_fd_rule name fd dir callback interest cancel recover el =
     bind_result (add_category name el) (\<lambda>(el, category_id).
       add_fd_rule category_id fd dir callback interest cancel recover el)"

definition default_interest :: "'w interest" where
  "default_interest sh = Inr (sh, True)"

definition default_cancel :: "'w callback" where
  "default_cancel sh = Inr sh"

definition default_recover :: "'w interest" where
  "default_recover sh = Inr (sh, False)"

text \<open>
  A handle is the identity of its rule.  A rule that is gone is never looked up again, so
  that setting its flag is the no-op of an expired \<open>weak_ptr\<close>.
\<close>

definition handle_cancel :: "nat \<Rightarrow> 'w shared \<Rightarrow> 'w shared" where
  "handle_cancel i sh = sh\<lparr>sh_cancelled := insert i (sh_cancelled sh)\<rparr>"

definition cancel_requested :: "('w, 'z) basic_rule_scheme \<Rightarrow> 'w shared \<Rightarrow> bool" where
  "cancel_requested r sh \<longleftrightarrow> br_id r \<in> sh_cancelled sh"

definition category_name :: "string list \<Rightarrow> nat \<Rightarrow> string result" where
  "category_name categories i =
     (if i < length categories then Inr (categories ! i) else Inl (Throws ''vector::_M_range_check''))"

subsection \<open>The rules without a file descriptor\<close>

definition busy_wait_detected :: "string \<Rightarrow> string \<Rightarrow> cpp_error" where
  "busy_wait_detected name what =
     Throws (''EventLoop: busy wait detected: rule \"'' @ name @ what)"

text \<open>\<open>iterations\<close> stays below 256: the test stops the loop at 128.\<close>

function busy_loop ::
  "string list \<Rightarrow> 'w basic_rule \<Rightarrow> nat \<Rightarrow> bool \<Rightarrow> 'w shared \<Rightarrow> ('w shared \<times> bool) result" where
  "busy_loop categories r iterations rule_fired sh =
     bind_result (br_interest r sh) (\<lambda>(sh, interested).
       if \<not> interested then Inr (sh, rule_fired)
       else if iterations \<ge> 128 then
         bind_result (category_name categories (br_category_id r)) (\<lambda>name.
           Inl (busy_wait_detected name
             (''\" is still interested after '' @ decimal (iterations + 1) @ '' iterations'')))
       else bind_result (br_callback r sh) (busy_loop categories r (iterations + 1) True))"
  by pat_completeness auto
termination by (relation "measure (\<lambda>(c, r, iterations, f, sh). 128 - iterations)") auto

declare busy_loop.simps [simp del]

fun serve_non_fd ::
  "string list \<Rightarrow> 'w basic_rule list \<Rightarrow> 'w shared \<Rightarrow> ('w basic_rule list \<times> 'w shared \<times> bool) result" where
  "serve_non_fd categories [] sh = Inr ([], sh, False)"
| "serve_non_fd categories (r # rs) sh =
     (if cancel_requested r sh then serve_non_fd categories rs sh
      else bind_result (busy_loop categories r 0 False sh) (\<lambda>(sh, rule_fired).
        if rule_fired then Inr (r # rs, sh, True)
        else bind_result (serve_non_fd categories rs sh) (\<lambda>(rs, sh, served). Inr (r # rs, sh, served))))"

subsection \<open>Polling\<close>

record pollfd =
  pf_fd :: int
  pf_events :: u16
  pf_revents :: u16

text \<open>
  \<open>poll\<close> answers the events of each entry by its index, and \<open>getsockopt\<close> with \<open>SO_ERROR\<close>
  the error of the socket and the length of the value.
\<close>

record 'w poll_api =
  pa_strerror :: error_category
  pa_poll :: "pollfd list \<Rightarrow> int \<Rightarrow> 'w shared \<Rightarrow> 'w shared \<times> sys_ret \<times> (nat \<Rightarrow> u16)"
  pa_socket_error :: "int \<Rightarrow> 'w shared \<Rightarrow> 'w shared \<times> sys_ret \<times> int \<times> nat"

fun setup_pollfds ::
  "'w fd_rule list \<Rightarrow> 'w shared \<Rightarrow> ('w fd_rule list \<times> pollfd list \<times> bool \<times> 'w shared) result" where
  "setup_pollfds [] sh = Inr ([], [], False, sh)"
| "setup_pollfds (r # rs) sh =
     (if cancel_requested r sh then setup_pollfds rs sh
      else if fr_direction r = In \<and> fw_eof (fr_fd r sh)
      then bind_result (fr_cancel r sh) (setup_pollfds rs)
      else if fw_closed (fr_fd r sh)
      then bind_result (fr_cancel r sh) (setup_pollfds rs)
      else bind_result (br_interest r sh) (\<lambda>(sh, interested).
        let p = \<lparr>pf_fd = fw_fd (fr_fd r sh),
                 pf_events = (if interested then direction_events (fr_direction r) else 0),
                 pf_revents = 0\<rparr>
        in bind_result (setup_pollfds rs sh) (\<lambda>(rs, pollfds, something_to_poll, sh).
           Inr (r # rs, p # pollfds, interested \<or> something_to_poll, sh))))"

definition with_revents :: "(nat \<Rightarrow> u16) \<Rightarrow> pollfd list \<Rightarrow> pollfd list" where
  "with_revents revents pollfds =
     map (\<lambda>i. (pollfds ! i)\<lparr>pf_revents := revents i\<rparr>) [0..<length pollfds]"

subsection \<open>The results of polling\<close>

text \<open>What is done about an error that was not recovered, before the rule is cancelled.\<close>

definition check_socket_error ::
  "'w poll_api \<Rightarrow> string list \<Rightarrow> 'w fd_rule \<Rightarrow> 'w shared \<Rightarrow> 'w shared result" where
  "check_socket_error A categories r sh =
     (case pa_socket_error A (fw_fd (fr_fd r sh)) sh of (sh, ret, socket_error, optlen) \<Rightarrow>
        if sr_value ret = -1 \<and> sr_errno ret = ENOTSOCK then
          bind_result (category_name categories (br_category_id r)) (\<lambda>_. Inr sh)
        else if sr_value ret = -1 then
          Inl (unix_error (pa_strerror A) ''getsockopt'' (sr_errno ret))
        else if optlen \<noteq> 4 then
          Inl (Throws (''unexpected length from getsockopt: '' @ decimal optlen))
        else if socket_error \<noteq> 0 then
          bind_result (category_name categories (br_category_id r)) (\<lambda>_. Inr sh)
        else Inr sh)"

text \<open>Whether a rule is defunct: a hangup was the only thing reported, or it only writes.\<close>

definition defunct :: "direction \<Rightarrow> pollfd \<Rightarrow> bool" where
  "defunct dir p \<longleftrightarrow>
     (let poll_ready = pf_revents p AND pf_events p \<noteq> 0;
          poll_hup = pf_revents p AND POLLHUP \<noteq> 0
      in poll_hup \<and> (pf_events p \<noteq> 0 \<and> \<not> poll_ready \<or> dir = Out))"

text \<open>Serving the rule that is ready.\<close>

definition serve_rule ::
  "string list \<Rightarrow> 'w fd_rule \<Rightarrow> 'w shared \<Rightarrow> 'w shared result" where
  "serve_rule categories r sh =
     (let count_before = service_count r sh
      in bind_result (br_callback r sh) (\<lambda>sh.
         if count_before = service_count r sh \<and> \<not> fw_closed (fr_fd r sh)
         then bind_result (br_interest r sh) (\<lambda>(sh, interested).
                if interested then
                  bind_result (category_name categories (br_category_id r)) (\<lambda>name.
                    Inl (busy_wait_detected name ''\" did not read/write fd and is still interested''))
                else Inr sh)
         else Inr sh))"

fun serve_polled ::
  "'w poll_api \<Rightarrow> string list \<Rightarrow> pollfd list \<Rightarrow> nat \<Rightarrow> 'w fd_rule list \<Rightarrow> 'w shared \<Rightarrow>
   ('w fd_rule list \<times> 'w shared) result" where
  "serve_polled A categories pollfds idx [] sh = Inr ([], sh)"
| "serve_polled A categories pollfds idx (r # rs) sh =
     (if idx \<ge> length pollfds then Inl (Throws ''vector::_M_range_check'')
      else
        let p = pollfds ! idx;
            keep = (\<lambda>sh. bind_result (serve_polled A categories pollfds (idx + 1) rs sh)
                           (\<lambda>(rs, sh). Inr (r # rs, sh)));
            drop_rule = (\<lambda>sh. bind_result (fr_cancel r sh)
                           (serve_polled A categories pollfds (idx + 1) rs));
            fail = (\<lambda>sh. bind_result (check_socket_error A categories r sh) drop_rule)
        in if pf_revents p AND (POLLERR OR POLLNVAL) \<noteq> 0 then
             (if pf_revents p AND POLLNVAL = 0 then
                bind_result (fr_recover r sh) (\<lambda>(sh, recovered). if recovered then keep sh else fail sh)
              else fail sh)
           else if defunct (fr_direction r) p then drop_rule sh
           else if pf_revents p AND pf_events p \<noteq> 0 then
             bind_result (serve_rule categories r sh) (\<lambda>sh. Inr (r # rs, sh))
           else keep sh)"

datatype loop_result = Success | Timeout | Exit

text \<open>The call of \<open>poll\<close> and the loop over what it reports.\<close>

definition poll_and_serve ::
  "'w poll_api \<Rightarrow> int \<Rightarrow> pollfd list \<Rightarrow> 'w event_loop \<Rightarrow> 'w shared \<Rightarrow>
   ('w event_loop \<times> 'w shared \<times> loop_result) result" where
  "poll_and_serve A timeout_ms pollfds el sh =
     (case pa_poll A pollfds timeout_ms sh of (sh, ret, revents) \<Rightarrow>
        bind_result (check_system_call (pa_strerror A) ''poll'' ret) (\<lambda>n.
        if n = 0 then Inr (el, sh, Timeout)
        else bind_result (serve_polled A (el_categories el) (with_revents revents pollfds) 0
                            (el_fd_rules el) sh) (\<lambda>(rs, sh).
             Inr (el\<lparr>el_fd_rules := rs\<rparr>, sh, Success))))"

text \<open>The part of \<open>wait_next_event\<close> on the rules with a file descriptor.\<close>

definition wait_fd_rules ::
  "'w poll_api \<Rightarrow> int \<Rightarrow> 'w event_loop \<Rightarrow> 'w shared \<Rightarrow>
   ('w event_loop \<times> 'w shared \<times> loop_result) result" where
  "wait_fd_rules A timeout_ms el sh =
     bind_result (setup_pollfds (el_fd_rules el) sh) (\<lambda>(rs, pollfds, something_to_poll, sh).
     let el = el\<lparr>el_fd_rules := rs\<rparr>
     in if \<not> something_to_poll then Inr (el, sh, Exit)
        else poll_and_serve A timeout_ms pollfds el sh)"

definition wait_next_event ::
  "'w poll_api \<Rightarrow> int \<Rightarrow> 'w event_loop \<Rightarrow> 'w shared \<Rightarrow>
   ('w event_loop \<times> 'w shared \<times> loop_result) result" where
  "wait_next_event A timeout_ms el sh =
     bind_result (serve_non_fd (el_categories el) (el_non_fd_rules el) sh) (\<lambda>(rs, sh, served).
     let el = el\<lparr>el_non_fd_rules := rs\<rparr>
     in if served then Inr (el, sh, Success) else wait_fd_rules A timeout_ms el sh)"

subsection \<open>Rules are only ever dropped\<close>

lemma serve_non_fd_subseq:
  "serve_non_fd categories rs sh = Inr (rs', sh', served) \<Longrightarrow> subseq rs' rs"
  by (induction rs arbitrary: sh rs' sh' served) (auto split: if_splits prod.splits)

lemma setup_pollfds_shape:
  "setup_pollfds rs sh = Inr (rs', pollfds, something, sh') \<Longrightarrow>
     subseq rs' rs \<and> length pollfds = length rs' \<and>
     (something \<longleftrightarrow> (\<exists>p \<in> set pollfds. pf_events p \<noteq> 0))"
proof (induction rs arbitrary: sh rs' pollfds something sh')
  case (Cons r rs)
  have ev: "direction_events d \<noteq> 0" for d by (cases d) (simp_all add: POLLIN_def POLLOUT_def)
  show ?case
  proof (cases "cancel_requested r sh \<or> fr_direction r = In \<and> fw_eof (fr_fd r sh) \<or> fw_closed (fr_fd r sh)")
    case True
    then obtain sh1 where "setup_pollfds rs sh1 = Inr (rs', pollfds, something, sh')"
      using Cons.prems by (auto split: if_splits)
    from Cons.IH [OF this] show ?thesis by auto
  next
    case False
    then have step: "setup_pollfds (r # rs) sh =
        bind_result (br_interest r sh) (\<lambda>(sh, interested).
          let p = \<lparr>pf_fd = fw_fd (fr_fd r sh),
                   pf_events = (if interested then direction_events (fr_direction r) else 0),
                   pf_revents = 0\<rparr>
          in bind_result (setup_pollfds rs sh) (\<lambda>(rs, pollfds, something_to_poll, sh).
             Inr (r # rs, p # pollfds, interested \<or> something_to_poll, sh)))"
      by auto
    obtain sh1 b where i: "br_interest r sh = Inr (sh1, b)"
      using Cons.prems unfolding step by auto
    obtain rs1 ps b1 sh2 where s: "setup_pollfds rs sh1 = Inr (rs1, ps, b1, sh2)"
      using Cons.prems unfolding step i by (auto simp: Let_def)
    have eqs: "rs' = r # rs1" "something \<longleftrightarrow> b \<or> b1" "sh' = sh2"
        "pollfds = \<lparr>pf_fd = fw_fd (fr_fd r sh1), pf_events = (if b then direction_events (fr_direction r) else 0),
                     pf_revents = 0\<rparr> # ps"
      using Cons.prems s unfolding step i by (auto simp: Let_def)
    from Cons.IH [OF s] show ?thesis unfolding eqs using ev by auto
  qed
qed auto

lemma serve_polled_subseq:
  "serve_polled A categories pollfds idx rs sh = Inr (rs', sh') \<Longrightarrow> subseq rs' rs"
proof (induction rs arbitrary: idx sh rs' sh')
  case (Cons r rs)
  then show ?case by (auto simp: Let_def split: if_splits)
qed simp

definition el_ok :: "'w event_loop \<Rightarrow> bool" where
  "el_ok el \<longleftrightarrow>
     (\<forall>r \<in> set (el_fd_rules el). br_category_id r < length (el_categories el) \<and> br_id r < el_next_id el) \<and>
     (\<forall>r \<in> set (el_non_fd_rules el). br_category_id r < length (el_categories el) \<and> br_id r < el_next_id el)"

lemma el_ok_new: "el_ok (new_event_loop capacity)"
  by (simp add: el_ok_def new_event_loop_def)

lemma el_ok_add_category: "add_category name el = Inr (el', i) \<Longrightarrow> el_ok el \<Longrightarrow> el_ok el'"
  by (auto simp: add_category_def el_ok_def Let_def less_Suc_eq split: if_splits)

lemma el_ok_add_fd_rule:
  "add_fd_rule c fd d cb i ca re el = Inr (el', n) \<Longrightarrow> el_ok el \<Longrightarrow> el_ok el'"
  by (auto simp: add_fd_rule_def el_ok_def less_Suc_eq split: if_splits)

lemma el_ok_add_rule: "add_rule c cb i el = Inr (el', n) \<Longrightarrow> el_ok el \<Longrightarrow> el_ok el'"
  by (auto simp: add_rule_def el_ok_def less_Suc_eq split: if_splits)

lemma subseq_set: "subseq xs ys \<Longrightarrow> set xs \<subseteq> set ys"
  by (auto dest: list_emb_set)

lemma subseq_distinct: "subseq xs ys \<Longrightarrow> distinct ys \<Longrightarrow> distinct xs"
  by (induction rule: list_emb.induct) (auto dest: list_emb_set)

definition shrinks_to :: "'w event_loop \<Rightarrow> 'w event_loop \<Rightarrow> bool" where
  "shrinks_to el el' \<longleftrightarrow>
     subseq (el_fd_rules el') (el_fd_rules el) \<and> subseq (el_non_fd_rules el') (el_non_fd_rules el) \<and>
     el_categories el' = el_categories el \<and> el_next_id el' = el_next_id el \<and>
     el_capacity el' = el_capacity el"

lemma shrinks_to_trans: "shrinks_to a b \<Longrightarrow> shrinks_to b c \<Longrightarrow> shrinks_to a c"
  unfolding shrinks_to_def by (metis subseq_order.trans)

lemma shrinks_to_fd: "subseq rs (el_fd_rules el) \<Longrightarrow> shrinks_to el (el\<lparr>el_fd_rules := rs\<rparr>)"
  by (simp add: shrinks_to_def)

lemma shrinks_to_non_fd: "subseq rs (el_non_fd_rules el) \<Longrightarrow> shrinks_to el (el\<lparr>el_non_fd_rules := rs\<rparr>)"
  by (simp add: shrinks_to_def)

lemma shrinks_to_ok: "shrinks_to el el' \<Longrightarrow> el_ok el \<Longrightarrow> el_ok el'"
  unfolding shrinks_to_def el_ok_def by (metis (no_types, lifting) subseq_set subsetD)

lemma poll_and_serve_shrinks:
  assumes "poll_and_serve A t pollfds el sh = Inr (el', sh', res)"
  shows "shrinks_to el el'"
  using assms shrinks_to_fd [OF serve_polled_subseq]
  by (auto simp: poll_and_serve_def shrinks_to_def split: prod.splits if_splits dest: serve_polled_subseq)

lemma wait_fd_rules_shrinks:
  assumes "wait_fd_rules A t el sh = Inr (el', sh', res)"
  shows "shrinks_to el el'"
proof -
  obtain rs ps b sh1 where 1: "setup_pollfds (el_fd_rules el) sh = Inr (rs, ps, b, sh1)"
    using assms by (auto simp: wait_fd_rules_def)
  let ?el = "el\<lparr>el_fd_rules := rs\<rparr>"
  have s: "shrinks_to el ?el" using setup_pollfds_shape [OF 1] by (intro shrinks_to_fd) blast
  show ?thesis
  proof (cases b)
    case True
    then have "poll_and_serve A t ps ?el sh1 = Inr (el', sh', res)"
      using assms 1 by (simp add: wait_fd_rules_def Let_def)
    from shrinks_to_trans [OF s poll_and_serve_shrinks [OF this]] show ?thesis .
  next
    case False
    then show ?thesis using assms 1 s by (auto simp: wait_fd_rules_def Let_def)
  qed
qed

lemma wait_next_event_shrinks:
  assumes "wait_next_event A t el sh = Inr (el', sh', res)"
  shows "shrinks_to el el'"
proof -
  obtain rs sh1 served where 1: "serve_non_fd (el_categories el) (el_non_fd_rules el) sh = Inr (rs, sh1, served)"
    using assms by (auto simp: wait_next_event_def)
  let ?el = "el\<lparr>el_non_fd_rules := rs\<rparr>"
  have s: "shrinks_to el ?el" by (rule shrinks_to_non_fd [OF serve_non_fd_subseq [OF 1]])
  show ?thesis
  proof (cases served)
    case True
    then show ?thesis using assms 1 s by (auto simp: wait_next_event_def Let_def)
  next
    case False
    then have "wait_fd_rules A t ?el sh1 = Inr (el', sh', res)"
      using assms 1 by (simp add: wait_next_event_def Let_def)
    from shrinks_to_trans [OF s wait_fd_rules_shrinks [OF this]] show ?thesis .
  qed
qed

subsection \<open>What can go wrong\<close>

definition closure_fails :: "'w event_loop \<Rightarrow> cpp_error \<Rightarrow> bool" where
  "closure_fails el e \<longleftrightarrow>
     (\<exists>sh. (\<exists>r \<in> set (el_non_fd_rules el). br_interest r sh = Inl e \<or> br_callback r sh = Inl e) \<or>
           (\<exists>r \<in> set (el_fd_rules el). br_interest r sh = Inl e \<or> br_callback r sh = Inl e \<or>
              fr_cancel r sh = Inl e \<or> fr_recover r sh = Inl e))"

definition busy_wait :: "string list \<Rightarrow> cpp_error \<Rightarrow> bool" where
  "busy_wait categories e \<longleftrightarrow> (\<exists>name \<in> set categories. \<exists>what. e = busy_wait_detected name what)"

definition system_fails :: "'w poll_api \<Rightarrow> cpp_error \<Rightarrow> bool" where
  "system_fails A e \<longleftrightarrow>
     (\<exists>n. e = unix_error (pa_strerror A) ''poll'' n \<or> e = unix_error (pa_strerror A) ''getsockopt'' n) \<or>
     (\<exists>len. e = Throws (''unexpected length from getsockopt: '' @ decimal len))"

lemma bind_result_Inl_iff:
  "bind_result m f = Inl e \<longleftrightarrow> m = Inl e \<or> (\<exists>x. m = Inr x \<and> f x = Inl e)"
  by (cases m) auto

lemma category_name_ok: "i < length categories \<Longrightarrow> category_name categories i = Inr (categories ! i)"
  by (simp add: category_name_def)

lemma busy_loop_error:
  "busy_loop categories r n f sh = Inl e \<Longrightarrow> br_category_id r < length categories \<Longrightarrow>
    busy_wait categories e \<or> (\<exists>sh. br_interest r sh = Inl e \<or> br_callback r sh = Inl e)"
proof (induction categories r n f sh rule: busy_loop.induct)
  case (1 categories r n f sh)
  note step = 1(2) [unfolded busy_loop.simps [of categories r n f sh]]
  show ?case
  proof (cases "br_interest r sh")
    case (Inl x)
    then show ?thesis using step by auto
  next
    case (Inr x)
    then obtain sh1 where i: "br_interest r sh = Inr (sh1, True)"
      using step by (cases x) (auto split: if_splits)
    show ?thesis
    proof (cases "n \<ge> 128")
      case True
      then show ?thesis
        using step i 1(3) by (auto simp: category_name_ok busy_wait_def)
    next
      case False
      then have "bind_result (br_callback r sh1) (busy_loop categories r (n + 1) True) = Inl e"
        using step i by simp
      then consider "br_callback r sh1 = Inl e"
        | sh2 where "br_callback r sh1 = Inr sh2" "busy_loop categories r (n + 1) True sh2 = Inl e"
        unfolding bind_result_Inl_iff by blast
      then show ?thesis
      proof cases
        case 2
        show ?thesis by (rule 1(1) [OF i _ _ _ 2(1) 2(2) 1(3)]) (use False in auto)
      qed blast
    qed
  qed
qed

lemma serve_non_fd_error:
  "serve_non_fd categories rs sh = Inl e \<Longrightarrow> \<forall>r \<in> set rs. br_category_id r < length categories \<Longrightarrow>
    busy_wait categories e \<or> (\<exists>r \<in> set rs. \<exists>sh. br_interest r sh = Inl e \<or> br_callback r sh = Inl e)"
proof (induction rs arbitrary: sh)
  case (Cons r rs)
  consider sh1 where "serve_non_fd categories rs sh1 = Inl e"
    | "busy_loop categories r 0 False sh = Inl e"
    using Cons.prems(1) by (auto simp: bind_result_Inl_iff split: if_splits)
  then show ?case
  proof cases
    case 1
    from Cons.IH [OF this] Cons.prems(2) show ?thesis by auto
  next
    case 2
    from busy_loop_error [OF this] Cons.prems(2) show ?thesis by auto
  qed
qed simp

lemma setup_pollfds_error:
  "setup_pollfds rs sh = Inl e \<Longrightarrow> \<exists>r \<in> set rs. \<exists>sh. br_interest r sh = Inl e \<or> fr_cancel r sh = Inl e"
proof (induction rs arbitrary: sh)
  case (Cons r rs)
  consider sh1 where "setup_pollfds rs sh1 = Inl e" | "fr_cancel r sh = Inl e" | "br_interest r sh = Inl e"
    using Cons.prems by (auto simp: bind_result_Inl_iff Let_def split: if_splits)
  then show ?case using Cons.IH by cases auto
qed simp

lemma check_socket_error_error:
  assumes "check_socket_error A categories r sh = Inl e" and "br_category_id r < length categories"
  shows "system_fails A e"
  using assms
  by (auto simp: check_socket_error_def category_name_ok system_fails_def split: if_splits prod.splits)

lemma serve_rule_error:
  assumes "serve_rule categories r sh = Inl e" and "br_category_id r < length categories"
  shows "busy_wait categories e \<or> (\<exists>sh. br_interest r sh = Inl e \<or> br_callback r sh = Inl e)"
proof -
  consider "br_callback r sh = Inl e" | sh1 where "br_interest r sh1 = Inl e"
    | "e = busy_wait_detected (categories ! br_category_id r) ''\" did not read/write fd and is still interested''"
    using assms
    by (auto simp: serve_rule_def Let_def bind_result_Inl_iff category_name_ok split: if_splits)
  then show ?thesis using assms(2) by cases (auto simp: busy_wait_def)
qed

lemma serve_polled_error:
  "serve_polled A categories pollfds idx rs sh = Inl e \<Longrightarrow> idx + length rs \<le> length pollfds \<Longrightarrow>
    \<forall>r \<in> set rs. br_category_id r < length categories \<Longrightarrow>
    busy_wait categories e \<or> system_fails A e \<or>
    (\<exists>r \<in> set rs. \<exists>sh. br_interest r sh = Inl e \<or> br_callback r sh = Inl e \<or>
       fr_cancel r sh = Inl e \<or> fr_recover r sh = Inl e)"
proof (induction rs arbitrary: idx sh)
  case (Cons r rs)
  consider (rest) sh1 where "serve_polled A categories pollfds (idx + 1) rs sh1 = Inl e"
    | (closure) sh1 where "fr_cancel r sh1 = Inl e \<or> fr_recover r sh1 = Inl e"
    | (sys) sh1 where "check_socket_error A categories r sh1 = Inl e"
    | (serve) sh1 where "serve_rule categories r sh1 = Inl e"
    using Cons.prems(1,2) by (auto simp: bind_result_Inl_iff Let_def split: if_splits)
  then show ?case
  proof cases
    case rest
    from Cons.IH [OF this] Cons.prems(2,3) show ?thesis by auto
  next
    case sys
    from check_socket_error_error [OF this] Cons.prems(3) show ?thesis by auto
  next
    case serve
    from serve_rule_error [OF this] Cons.prems(3) show ?thesis by auto
  qed auto
qed simp

lemma poll_and_serve_error:
  assumes "poll_and_serve A t pollfds el sh = Inl e" and "el_ok el"
    and "length pollfds = length (el_fd_rules el)"
  shows "busy_wait (el_categories el) e \<or> system_fails A e \<or> closure_fails el e"
proof -
  obtain sh1 ret rev where p: "pa_poll A pollfds t sh = (sh1, ret, rev)" by (cases "pa_poll A pollfds t sh")
  consider "check_system_call (pa_strerror A) ''poll'' ret = Inl e"
    | "serve_polled A (el_categories el) (with_revents rev pollfds) 0 (el_fd_rules el) sh1 = Inl e"
    using assms(1) p by (auto simp: poll_and_serve_def bind_result_Inl_iff split: if_splits)
  then show ?thesis
  proof cases
    case 1
    then show ?thesis by (auto simp: check_system_call_def system_fails_def split: if_splits)
  next
    case 2
    have "0 + length (el_fd_rules el) \<le> length (with_revents rev pollfds)"
      using assms(3) by (simp add: with_revents_def)
    from serve_polled_error [OF 2 this] assms(2) show ?thesis
      unfolding el_ok_def closure_fails_def by blast
  qed
qed

lemma closure_fails_mono: "shrinks_to el el' \<Longrightarrow> closure_fails el' e \<Longrightarrow> closure_fails el e"
  unfolding shrinks_to_def closure_fails_def by (meson subseq_set subsetD)

lemma wait_fd_rules_error:
  assumes "wait_fd_rules A t el sh = Inl e" and "el_ok el"
  shows "busy_wait (el_categories el) e \<or> system_fails A e \<or> closure_fails el e"
proof (cases "setup_pollfds (el_fd_rules el) sh")
  case (Inl e1)
  then show ?thesis
    using setup_pollfds_error [OF Inl] assms(1) by (auto simp: wait_fd_rules_def closure_fails_def)
next
  case (Inr x)
  obtain rs ps b sh1 where 1: "setup_pollfds (el_fd_rules el) sh = Inr (rs, ps, b, sh1)"
    using Inr by (cases x) auto
  let ?el = "el\<lparr>el_fd_rules := rs\<rparr>"
  have s: "shrinks_to el ?el" and l: "length ps = length rs"
    using setup_pollfds_shape [OF 1] by (simp_all add: shrinks_to_fd)
  have "poll_and_serve A t ps ?el sh1 = Inl e"
    using assms(1) 1 by (cases b) (auto simp: wait_fd_rules_def Let_def)
  from poll_and_serve_error [OF this shrinks_to_ok [OF s assms(2)]] l closure_fails_mono [OF s]
  show ?thesis by auto
qed

lemma wait_next_event_error:
  assumes "wait_next_event A t el sh = Inl e" and "el_ok el"
  shows "busy_wait (el_categories el) e \<or> system_fails A e \<or> closure_fails el e"
proof (cases "serve_non_fd (el_categories el) (el_non_fd_rules el) sh")
  case (Inl e1)
  then show ?thesis
    using serve_non_fd_error [OF Inl] assms by (auto simp: wait_next_event_def closure_fails_def el_ok_def)
next
  case (Inr x)
  obtain rs sh1 served where 1: "serve_non_fd (el_categories el) (el_non_fd_rules el) sh = Inr (rs, sh1, served)"
    using Inr by (cases x) auto
  let ?el = "el\<lparr>el_non_fd_rules := rs\<rparr>"
  have s: "shrinks_to el ?el" by (rule shrinks_to_non_fd [OF serve_non_fd_subseq [OF 1]])
  have "wait_fd_rules A t ?el sh1 = Inl e"
    using assms(1) 1 by (cases served) (auto simp: wait_next_event_def Let_def)
  from wait_fd_rules_error [OF this shrinks_to_ok [OF s assms(2)]] closure_fails_mono [OF s]
  show ?thesis by auto
qed

subsection \<open>Rules whose interest has no side effect\<close>

definition quiet :: "'w shared \<Rightarrow> 'w basic_rule \<Rightarrow> bool" where
  "quiet sh r \<longleftrightarrow> \<not> cancel_requested r sh \<and> br_interest r sh = Inr (sh, False)"

lemma serve_non_fd_quiet: "\<forall>r \<in> set rs. quiet sh r \<Longrightarrow> serve_non_fd categories rs sh = Inr (rs, sh, False)"
  by (induction rs) (simp_all add: quiet_def busy_loop.simps)

text \<open>A rule that stays, and whether it wants to be served.\<close>

definition live :: "'w shared \<Rightarrow> ('w fd_rule \<Rightarrow> bool) \<Rightarrow> 'w fd_rule \<Rightarrow> bool" where
  "live sh wants r \<longleftrightarrow>
     \<not> cancel_requested r sh \<and> \<not> (fr_direction r = In \<and> fw_eof (fr_fd r sh)) \<and>
     \<not> fw_closed (fr_fd r sh) \<and> br_interest r sh = Inr (sh, wants r)"

definition pollfd_of :: "'w shared \<Rightarrow> ('w fd_rule \<Rightarrow> bool) \<Rightarrow> 'w fd_rule \<Rightarrow> pollfd" where
  "pollfd_of sh wants r =
     \<lparr>pf_fd = fw_fd (fr_fd r sh), pf_events = (if wants r then direction_events (fr_direction r) else 0),
      pf_revents = 0\<rparr>"

lemma setup_pollfds_live:
  "\<forall>r \<in> set rs. live sh wants r \<Longrightarrow>
     setup_pollfds rs sh = Inr (rs, map (pollfd_of sh wants) rs, list_ex wants rs, sh)"
  by (induction rs) (auto simp: live_def pollfd_of_def Let_def)

definition ready :: "('w fd_rule \<Rightarrow> bool) \<Rightarrow> (nat \<Rightarrow> u16) \<Rightarrow> 'w fd_rule list \<Rightarrow> nat \<Rightarrow> bool" where
  "ready wants revents rs i \<longleftrightarrow>
     wants (rs ! i) \<and> revents i AND direction_events (fr_direction (rs ! i)) \<noteq> 0"

lemma no_trouble:
  fixes w :: u16
  assumes "w AND (POLLERR OR POLLNVAL OR POLLHUP) = 0"
  shows "w AND (POLLERR OR POLLNVAL) = 0" and "w AND POLLHUP = 0"
proof -
  have "w AND (POLLERR OR POLLNVAL) = (w AND (POLLERR OR POLLNVAL OR POLLHUP)) AND (POLLERR OR POLLNVAL)"
    unfolding and.assoc by (simp add: POLLERR_def POLLNVAL_def POLLHUP_def)
  then show "w AND (POLLERR OR POLLNVAL) = 0" using assms by simp
  have "w AND POLLHUP = (w AND (POLLERR OR POLLNVAL OR POLLHUP)) AND POLLHUP"
    unfolding and.assoc by (simp add: POLLERR_def POLLNVAL_def POLLHUP_def)
  then show "w AND POLLHUP = 0" using assms by simp
qed

lemma serve_polled_clean:
  assumes "pollfds = with_revents revents (map (pollfd_of sh0 wants) rules)"
    and "\<forall>i < length rules. revents i AND (POLLERR OR POLLNVAL OR POLLHUP) = 0"
  shows "rs = drop idx rules \<Longrightarrow> idx + length rs = length rules \<Longrightarrow>
    serve_polled A categories pollfds idx rs sh =
      (case find (ready wants revents rules) [idx..<length rules] of
         None \<Rightarrow> Inr (rs, sh)
       | Some i \<Rightarrow> bind_result (serve_rule categories (rules ! i) sh) (\<lambda>sh. Inr (rs, sh)))"
proof (induction rs arbitrary: idx)
  case Nil
  then show ?case by simp
next
  case (Cons r rs)
  from Cons.prems(2) have idx: "idx < length rules" by simp
  have "rules ! idx # drop (Suc idx) rules = r # rs"
    unfolding Cons.prems(1) by (rule Cons_nth_drop_Suc [OF idx])
  then have r: "rules ! idx = r" and rs: "rs = drop (idx + 1) rules" by simp_all
  have p: "pollfds ! idx = (pollfd_of sh0 wants r)\<lparr>pf_revents := revents idx\<rparr>"
    using idx r assms(1) by (simp add: with_revents_def)
  have l: "length pollfds = length rules" using assms(1) by (simp add: with_revents_def)
  note nt = no_trouble [OF assms(2) [rule_format, OF idx]]
  have nd: "\<not> defunct (fr_direction r) (pollfds ! idx)" unfolding p by (simp add: defunct_def nt)
  have rd: "pf_revents (pollfds ! idx) AND pf_events (pollfds ! idx) \<noteq> 0 \<longleftrightarrow> ready wants revents rules idx"
    unfolding p by (simp add: ready_def r pollfd_of_def)
  have u: "[idx..<length rules] = idx # [idx + 1..<length rules]" using idx by (simp add: upt_rec)
  have rev: "pf_revents (pollfds ! idx) = revents idx" unfolding p by simp
  have IH: "serve_polled A categories pollfds (idx + 1) rs sh =
      (case find (ready wants revents rules) [idx + 1..<length rules] of
         None \<Rightarrow> Inr (rs, sh)
       | Some i \<Rightarrow> bind_result (serve_rule categories (rules ! i) sh) (\<lambda>sh. Inr (rs, sh)))"
    by (rule Cons.IH) (use rs idx in auto)
  show ?case
  proof (cases "ready wants revents rules idx")
    case True
    then show ?thesis using idx l nt nd rd rev r u by (simp add: Let_def)
  next
    case False
    then have "serve_polled A categories pollfds idx (r # rs) sh =
        bind_result (serve_polled A categories pollfds (idx + 1) rs sh) (\<lambda>(rs, sh). Inr (r # rs, sh))"
      using idx l nt nd rd rev by (simp add: Let_def del: Suc_eq_plus1)
    also have "\<dots> = (case find (ready wants revents rules) [idx + 1..<length rules] of
         None \<Rightarrow> Inr (r # rs, sh)
       | Some i \<Rightarrow> bind_result (serve_rule categories (rules ! i) sh) (\<lambda>sh. Inr (r # rs, sh)))"
      unfolding IH by (auto split: option.split simp: bind_result_assoc)
    finally show ?thesis using False u by simp
  qed
qed

subsection \<open>A rule that is always interested\<close>

lemma busy_loop_runs:
  assumes "\<And>sh. br_interest r sh = Inr (sh, i sh)" and "\<And>sh. br_callback r sh = Inr (c sh)"
    and "\<And>k. k < m \<Longrightarrow> i ((c ^^ k) sh)" and "\<not> i ((c ^^ m) sh)" and "n + m \<le> 128"
  shows "busy_loop categories r n f sh = Inr ((c ^^ m) sh, f \<or> 0 < m)"
  using assms(3-5)
proof (induction m arbitrary: n f sh)
  case 0
  then show ?case by (subst busy_loop.simps) (simp add: assms(1))
next
  case (Suc m)
  have "i sh" using Suc.prems(1) [of 0] by simp
  moreover have "busy_loop categories r (n + 1) True (c sh) = Inr ((c ^^ m) (c sh), True \<or> 0 < m)"
  proof (rule Suc.IH)
    show "i ((c ^^ k) (c sh))" if "k < m" for k
      using Suc.prems(1) [of "Suc k"] that by (simp add: funpow_swap1)
  qed (use Suc.prems(2,3) in \<open>simp_all add: funpow_swap1\<close>)
  ultimately show ?case
    using Suc.prems(3) by (subst busy_loop.simps) (simp add: assms(1,2) funpow_swap1)
qed

lemma busy_loop_stuck:
  assumes "\<And>sh. br_interest r sh = Inr (sh, i sh)" and "\<And>sh. br_callback r sh = Inr (c sh)"
    and "\<And>k. k \<le> m \<Longrightarrow> i ((c ^^ k) sh)" and "n + m = 128"
    and "br_category_id r < length categories"
  shows "busy_loop categories r n f sh = Inl (busy_wait_detected (categories ! br_category_id r)
           (''\" is still interested after '' @ decimal 129 @ '' iterations''))"
  using assms(3,4)
proof (induction m arbitrary: n f sh)
  case 0
  then have "i sh" by (metis funpow_0 le_refl)
  then show ?case using 0 assms(5) by (subst busy_loop.simps) (simp add: assms(1) category_name_ok)
next
  case (Suc m)
  have "i sh" using Suc.prems(1) [of 0] by simp
  moreover have "busy_loop categories r (n + 1) True (c sh) = Inl (busy_wait_detected (categories ! br_category_id r)
           (''\" is still interested after '' @ decimal 129 @ '' iterations''))"
  proof (rule Suc.IH)
    show "i ((c ^^ k) (c sh))" if "k \<le> m" for k
      using Suc.prems(1) [of "Suc k"] that by (simp add: funpow_swap1)
  qed (use Suc.prems(2) in simp)
  ultimately show ?case
    using Suc.prems(2) by (subst busy_loop.simps) (simp add: assms(1,2))
qed

text \<open>
  An example: a rule that reads a descriptor, and a rule that counts up to \<open>limit\<close>.
\<close>

definition reader_rule :: "(fd_wrapper \<times> nat) fd_rule" where
  "reader_rule =
     \<lparr>br_id = 0, br_category_id = 0, br_interest = default_interest,
      br_callback = (\<lambda>sh. Inr (sh\<lparr>sh_world := apfst register_read (sh_world sh)\<rparr>)),
      fr_fd = (\<lambda>sh. fst (sh_world sh)), fr_direction = In, fr_cancel = default_cancel,
      fr_recover = default_recover\<rparr>"

definition count_up :: "(fd_wrapper \<times> nat) shared \<Rightarrow> (fd_wrapper \<times> nat) shared" where
  "count_up sh = sh\<lparr>sh_world := apsnd Suc (sh_world sh)\<rparr>"

definition counter_rule :: "nat \<Rightarrow> (fd_wrapper \<times> nat) basic_rule" where
  "counter_rule limit =
     \<lparr>br_id = 1, br_category_id = 1, br_interest = (\<lambda>sh. Inr (sh, snd (sh_world sh) < limit)),
      br_callback = (\<lambda>sh. Inr (count_up sh))\<rparr>"

definition reader_loop :: "nat \<Rightarrow> (fd_wrapper \<times> nat) event_loop" where
  "reader_loop limit =
     \<lparr>el_categories = [''reader'', ''counter''], el_capacity = 64, el_fd_rules = [reader_rule],
      el_non_fd_rules = [counter_rule limit], el_next_id = 2\<rparr>"

definition reader_api :: "int \<Rightarrow> (fd_wrapper \<times> nat) poll_api" where
  "reader_api n =
     \<lparr>pa_strerror = (\<lambda>e. ''error''),
      pa_poll = (\<lambda>ps t sh. (sh, \<lparr>sr_value = n, sr_errno = 0\<rparr>, \<lambda>i. POLLIN)),
      pa_socket_error = (\<lambda>fd sh. (sh, \<lparr>sr_value = 0, sr_errno = 0\<rparr>, 0, 4))\<rparr>"

definition reader_start :: "nat \<Rightarrow> (fd_wrapper \<times> nat) shared" where
  "reader_start k = \<lparr>sh_world = (queue_fd, k), sh_cancelled = {}\<rparr>"

lemma reader_loop_ok: "el_ok (reader_loop limit)"
  by (simp add: el_ok_def reader_loop_def reader_rule_def counter_rule_def)

lemma reader_loop_categories: "el_categories (reader_loop limit) = [''reader'', ''counter'']"
  by (simp add: reader_loop_def)

lemma reader_start_fields: "snd (sh_world (reader_start n)) = n" "sh_cancelled (reader_start n) = {}"
  by (simp_all add: reader_start_def)

lemma count_up_funpow: "(count_up ^^ k) (reader_start n) = reader_start (k + n)"
  by (induction k) (simp_all add: count_up_def reader_start_def)

subsection \<open>Loops as they are built\<close>

inductive loop_built :: "'w poll_api \<Rightarrow> nat \<Rightarrow> 'w event_loop \<Rightarrow> bool" for A capacity where
  start: "loop_built A capacity (new_event_loop capacity)"
| category: "loop_built A capacity el \<Longrightarrow> add_category name el = Inr (el', i) \<Longrightarrow> loop_built A capacity el'"
| fd_rule: "loop_built A capacity el \<Longrightarrow> add_fd_rule c fd d cb i ca re el = Inr (el', n) \<Longrightarrow>
    loop_built A capacity el'"
| other_rule: "loop_built A capacity el \<Longrightarrow> add_rule c cb i el = Inr (el', n) \<Longrightarrow> loop_built A capacity el'"
| wait: "loop_built A capacity el \<Longrightarrow> wait_next_event A t el sh = Inr (el', sh', res) \<Longrightarrow>
    loop_built A capacity el'"

lemma el_ok_fresh_id:
  "el_ok el \<Longrightarrow> el_next_id el \<notin> br_id ` set (el_fd_rules el) \<and> el_next_id el \<notin> br_id ` set (el_non_fd_rules el)"
  by (auto simp: el_ok_def)

lemma shrinks_to_distinct:
  assumes "shrinks_to el el'"
    and "distinct (map br_id (el_fd_rules el) @ map br_id (el_non_fd_rules el))"
  shows "distinct (map br_id (el_fd_rules el') @ map br_id (el_non_fd_rules el'))"
  by (rule subseq_distinct [OF _ assms(2)])
     (use assms(1) in \<open>auto simp: shrinks_to_def intro!: list_emb_append_mono subseq_map\<close>)

lemma reader_loop_built: "loop_built A 64 (reader_loop limit)"
proof -
  let ?el1 = "new_event_loop 64\<lparr>el_categories := [''reader'']\<rparr>"
  let ?el2 = "new_event_loop 64\<lparr>el_categories := [''reader'', ''counter'']\<rparr>"
  let ?el3 = "?el2\<lparr>el_fd_rules := [reader_rule], el_next_id := 1\<rparr>"
  have "loop_built A 64 ?el1"
    by (rule loop_built.category [OF loop_built.start, where name = "''reader''" and i = 0])
       (simp add: add_category_def new_event_loop_def)
  then have "loop_built A 64 ?el2"
    by (rule loop_built.category [where name = "''counter''" and i = 1]) (simp add: add_category_def new_event_loop_def)
  then have "loop_built A 64 ?el3"
    by (rule loop_built.fd_rule [where c = 0 and n = 0]) (simp add: add_fd_rule_def new_event_loop_def reader_rule_def)
  then show ?thesis
    by (rule loop_built.other_rule [where c = 1 and n = 1]) (simp add: add_rule_def new_event_loop_def reader_loop_def counter_rule_def)
qed

subsection \<open>Properties\<close>

text \<open>
  C18: However an event loop is built and run, by adding categories and rules, in any order
  and also between calls of \<open>wait_next_event\<close>, there are never more categories than it has
  reserved room for, every rule names a category that exists, and the identities of its rules
  are pairwise different, over both lists, so that a handle cancels one rule at most.
\<close>

theorem event_loop_well_formed:
  assumes "loop_built A capacity el"
  shows "el_capacity el = capacity \<and> length (el_categories el) \<le> capacity \<and> el_ok el \<and>
         distinct (map br_id (el_fd_rules el) @ map br_id (el_non_fd_rules el))"
  using assms
proof induction
  case start
  then show ?case by (simp add: new_event_loop_def el_ok_def)
next
  case (category el name el' i)
  then have "el_fd_rules el' = el_fd_rules el" "el_non_fd_rules el' = el_non_fd_rules el"
    "el_capacity el' = el_capacity el" "length (el_categories el') \<le> capacity"
    by (auto simp: add_category_def Let_def split: if_splits)
  with category el_ok_add_category [OF category.hyps(2)] show ?case by simp
next
  case (fd_rule el c fd d cb i ca re el' n)
  then have "map br_id (el_fd_rules el') = map br_id (el_fd_rules el) @ [el_next_id el]"
    "el_non_fd_rules el' = el_non_fd_rules el" "el_capacity el' = el_capacity el"
    "el_categories el' = el_categories el"
    by (auto simp: add_fd_rule_def split: if_splits)
  with fd_rule el_ok_add_fd_rule [OF fd_rule.hyps(2)] el_ok_fresh_id [of el] show ?case by simp
next
  case (other_rule el c cb i el' n)
  then have "map br_id (el_non_fd_rules el') = map br_id (el_non_fd_rules el) @ [el_next_id el]"
    "el_fd_rules el' = el_fd_rules el" "el_capacity el' = el_capacity el"
    "el_categories el' = el_categories el"
    by (auto simp: add_rule_def split: if_splits)
  with other_rule el_ok_add_rule [OF other_rule.hyps(2)] el_ok_fresh_id [of el] show ?case by simp
next
  case (wait el t sh el' sh' res)
  then have s: "shrinks_to el el'" using wait_next_event_shrinks by blast
  then have "el_capacity el' = el_capacity el" "el_categories el' = el_categories el"
    by (simp_all add: shrinks_to_def)
  with wait.IH shrinks_to_ok [OF s] shrinks_to_distinct [OF s] show ?case by simp
qed

text \<open>
  Witness: a loop with a category and one rule of each kind.
\<close>

theorem event_loop_well_formed_witness:
  "el_capacity (reader_loop 5) = 64 \<and> distinct (map br_id (el_fd_rules (reader_loop 5)) @ map br_id (el_non_fd_rules (reader_loop 5)))"
  using event_loop_well_formed [OF reader_loop_built, of 5] by blast

text \<open>
  C20: A call of \<open>wait_next_event\<close> only drops rules, in either list, and keeps the others
  in their order; and when it throws, either a closure of a rule threw, or \<open>poll\<close> or
  \<open>getsockopt\<close> failed, or a busy wait of a rule was detected.  Its own lookups by index
  never fail.
\<close>

theorem event_loop_fails_only:
  assumes "el_ok el"
  shows "case wait_next_event A timeout_ms el sh of
           Inl e \<Rightarrow> busy_wait (el_categories el) e \<or> system_fails A e \<or> closure_fails el e
         | Inr (el', sh', res) \<Rightarrow> shrinks_to el el' \<and> el_ok el'"
proof (cases "wait_next_event A timeout_ms el sh")
  case (Inl e)
  then show ?thesis using wait_next_event_error [OF Inl assms] by simp
next
  case (Inr x)
  then obtain el' sh' res where "wait_next_event A timeout_ms el sh = Inr (el', sh', res)" by (cases x) auto
  with wait_next_event_shrinks [OF this] shrinks_to_ok [OF _ assms] show ?thesis by simp
qed

theorem event_loop_fails_only_witness:
  "case wait_next_event (reader_api 1) 10 (reader_loop 5) (reader_start 2) of
     Inl e \<Rightarrow> busy_wait [''reader'', ''counter''] e \<or> system_fails (reader_api 1) e \<or> closure_fails (reader_loop 5) e
   | Inr (el', sh', res) \<Rightarrow> shrinks_to (reader_loop 5) el' \<and> el_ok el'"
  using event_loop_fails_only [OF reader_loop_ok, of 5 "reader_api 1" 10 "reader_start 2"]
  unfolding reader_loop_categories .

text \<open>
  C19: When no rule without a descriptor wants to run, no descriptor is closed or at its
  end and \<open>poll\<close> reports no trouble, the call returns \<open>Exit\<close> exactly when no rule is
  interested and \<open>Timeout\<close> exactly when \<open>poll\<close> reports none ready; otherwise it serves one
  rule, the first that is interested and ready, and all rules stay.
\<close>

theorem event_loop_serves_first_ready:
  assumes "\<forall>r \<in> set (el_non_fd_rules el). quiet sh r"
    and "\<forall>r \<in> set (el_fd_rules el). live sh wants r"
    and "pa_poll A (map (pollfd_of sh wants) (el_fd_rules el)) timeout_ms sh = (sh1, ret, revents)"
    and "sr_value ret \<ge> 0"
    and "\<forall>i < length (el_fd_rules el). revents i AND (POLLERR OR POLLNVAL OR POLLHUP) = 0"
  shows "wait_next_event A timeout_ms el sh =
     (if \<not> list_ex wants (el_fd_rules el) then Inr (el, sh, Exit)
      else if sr_value ret = 0 then Inr (el, sh1, Timeout)
      else case find (ready wants revents (el_fd_rules el)) [0..<length (el_fd_rules el)] of
             None \<Rightarrow> Inr (el, sh1, Success)
           | Some i \<Rightarrow> bind_result (serve_rule (el_categories el) (el_fd_rules el ! i) sh1)
                         (\<lambda>sh2. Inr (el, sh2, Success)))"
proof -
  let ?rs = "el_fd_rules el"
  have el: "el\<lparr>el_non_fd_rules := el_non_fd_rules el\<rparr> = el" "el\<lparr>el_fd_rules := ?rs\<rparr> = el" by simp_all
  have clean: "serve_polled A (el_categories el) (with_revents revents (map (pollfd_of sh wants) ?rs)) 0 ?rs sh1 =
      (case find (ready wants revents ?rs) [0..<length ?rs] of
         None \<Rightarrow> Inr (?rs, sh1)
       | Some i \<Rightarrow> bind_result (serve_rule (el_categories el) (?rs ! i) sh1) (\<lambda>sh. Inr (?rs, sh)))"
    by (rule serve_polled_clean [OF refl assms(5)]) simp_all
  show ?thesis
    unfolding wait_next_event_def wait_fd_rules_def poll_and_serve_def Let_def
      serve_non_fd_quiet [OF assms(1)] bind_result.simps prod.case el
      setup_pollfds_live [OF assms(2)] assms(3) clean
    using assms(4)
    by (auto simp: check_system_call_def bind_result_assoc split: option.split)
qed

theorem event_loop_serves_first_ready_witness:
  "wait_next_event (reader_api 1) 10 (reader_loop 5) (reader_start 5) =
     Inr (reader_loop 5, (reader_start 5)\<lparr>sh_world := (register_read queue_fd, 5)\<rparr>, Success)"
proof -
  have "wait_next_event (reader_api 1) 10 (reader_loop 5) (reader_start 5) =
     (if \<not> list_ex (\<lambda>r. True) (el_fd_rules (reader_loop 5)) then Inr (reader_loop 5, reader_start 5, Exit)
      else if (1 :: int) = 0 then Inr (reader_loop 5, reader_start 5, Timeout)
      else case find (ready (\<lambda>r. True) (\<lambda>i. POLLIN) (el_fd_rules (reader_loop 5))) [0..<length (el_fd_rules (reader_loop 5))] of
             None \<Rightarrow> Inr (reader_loop 5, reader_start 5, Success)
           | Some i \<Rightarrow> bind_result (serve_rule (el_categories (reader_loop 5)) (el_fd_rules (reader_loop 5) ! i) (reader_start 5))
                         (\<lambda>sh2. Inr (reader_loop 5, sh2, Success)))"
    using event_loop_serves_first_ready [of "reader_loop 5" "reader_start 5" "\<lambda>r. True" "reader_api 1" 10
        "reader_start 5" "\<lparr>sr_value = 1, sr_errno = 0\<rparr>" "\<lambda>i. POLLIN"]
    by (simp add: reader_loop_def quiet_def live_def counter_rule_def reader_rule_def reader_start_def
        cancel_requested_def default_interest_def reader_api_def queue_fd_def POLLIN_def POLLERR_def
        POLLNVAL_def POLLHUP_def)
  then show ?thesis
    by (simp add: reader_loop_def ready_def reader_rule_def POLLIN_def serve_rule_def Let_def
        service_count_def reader_start_def register_read_def queue_fd_def)
qed

text \<open>
  C30: A rule without a descriptor is called as long as it is interested.  If it stops
  being interested after at most 128 calls, and was called at all, the call returns
  \<open>Success\<close> without looking at any other rule; if it is still interested then, the busy wait is
  reported instead.
\<close>

theorem event_loop_busy_wait:
  assumes "el_non_fd_rules el = r # rs" and "\<not> cancel_requested r sh"
    and "br_category_id r < length (el_categories el)"
    and "\<forall>sh. br_interest r sh = Inr (sh, i sh)" and "\<forall>sh. br_callback r sh = Inr (c sh)"
    and "\<forall>k < m. i ((c ^^ k) sh)" and "0 < m" and "m \<le> 128 \<longrightarrow> \<not> i ((c ^^ m) sh)"
  shows "wait_next_event A timeout_ms el sh =
     (if m \<le> 128 then Inr (el, (c ^^ m) sh, Success)
      else Inl (busy_wait_detected (el_categories el ! br_category_id r)
                  (''\" is still interested after '' @ decimal 129 @ '' iterations'')))"
proof (cases "m \<le> 128")
  case True
  have "busy_loop (el_categories el) r 0 False sh = Inr ((c ^^ m) sh, False \<or> 0 < m)"
    by (rule busy_loop_runs [OF assms(4,5) [rule_format]]) (use True assms(6-8) in auto)
  moreover have "el\<lparr>el_non_fd_rules := r # rs\<rparr> = el" unfolding assms(1) [symmetric] by simp
  ultimately show ?thesis using True assms(1,2,7) by (simp add: wait_next_event_def)
next
  case False
  have "busy_loop (el_categories el) r 0 False sh =
      Inl (busy_wait_detected (el_categories el ! br_category_id r)
             (''\" is still interested after '' @ decimal 129 @ '' iterations''))"
    by (rule busy_loop_stuck [where m = 128, OF assms(4,5) [rule_format]]) (use False assms(3,6) in auto)
  then show ?thesis using False assms(1,2) by (simp add: wait_next_event_def)
qed


theorem event_loop_busy_wait_witness:
  "wait_next_event (reader_api 1) 10 (reader_loop 3) (reader_start 0) =
     Inr (reader_loop 3, reader_start 3, Success) \<and>
   (\<exists>e. wait_next_event (reader_api 1) 10 (reader_loop 500) (reader_start 0) = Inl e)"
proof
  have step: "wait_next_event (reader_api 1) 10 (reader_loop limit) (reader_start 0) =
     (if m \<le> 128 then Inr (reader_loop limit, (count_up ^^ m) (reader_start 0), Success)
      else Inl (busy_wait_detected (el_categories (reader_loop limit) ! br_category_id (counter_rule limit))
                  (''\" is still interested after '' @ decimal 129 @ '' iterations'')))"
    if "0 < m" "m = limit" for m limit
    by (rule event_loop_busy_wait [where rs = "[]" and i = "\<lambda>sh. snd (sh_world sh) < limit"])
       (use that in \<open>auto simp: count_up_funpow reader_start_fields reader_loop_def counter_rule_def cancel_requested_def\<close>)
  show "wait_next_event (reader_api 1) 10 (reader_loop 3) (reader_start 0) =
     Inr (reader_loop 3, reader_start 3, Success)"
    using step [of 3 3] by (simp add: count_up_funpow)
  show "\<exists>e. wait_next_event (reader_api 1) 10 (reader_loop 500) (reader_start 0) = Inl e"
    using step [of 500 500] by simp
qed

end
