(* ===== verification/Loop_Contract.thy ===== *)
theory Loop_Contract
  imports Event_Loop
begin

text \<open>
  What the closures of an event loop must keep for the loop to keep it: an invariant of the
  program state, and for each rule a condition that holds when the rule is interested and
  that only callbacks may end.  Since a call of \<open>wait_next_event\<close> runs one callback, that
  condition still holds when the callback starts.
\<close>

locale loop_contract =
  fixes A :: "'w poll_api"
    and rules :: "'w fd_rule set"
    and inv :: "'w shared \<Rightarrow> bool"
    and wants :: "'w fd_rule \<Rightarrow> 'w shared \<Rightarrow> bool"
  assumes interest_wants: "r \<in> rules \<Longrightarrow> inv sh \<Longrightarrow> br_interest r sh = Inr (sh', True) \<Longrightarrow> wants r sh'"
    and interest_inv: "r \<in> rules \<Longrightarrow> inv sh \<Longrightarrow> br_interest r sh = Inr (sh', b) \<Longrightarrow> inv sh'"
    and interest_stable: "r \<in> rules \<Longrightarrow> q \<in> rules \<Longrightarrow> inv sh \<Longrightarrow> br_interest r sh = Inr (sh', b) \<Longrightarrow>
          wants q sh \<Longrightarrow> wants q sh'"
    and cancel_inv: "r \<in> rules \<Longrightarrow> inv sh \<Longrightarrow> fr_cancel r sh = Inr sh' \<Longrightarrow> inv sh'"
    and cancel_stable: "r \<in> rules \<Longrightarrow> q \<in> rules \<Longrightarrow> q \<noteq> r \<Longrightarrow> inv sh \<Longrightarrow> fr_cancel r sh = Inr sh' \<Longrightarrow>
          wants q sh \<Longrightarrow> wants q sh'"
    and recover_inv: "r \<in> rules \<Longrightarrow> inv sh \<Longrightarrow> fr_recover r sh = Inr (sh', b) \<Longrightarrow> inv sh'"
    and recover_stable: "r \<in> rules \<Longrightarrow> q \<in> rules \<Longrightarrow> inv sh \<Longrightarrow> fr_recover r sh = Inr (sh', b) \<Longrightarrow>
          wants q sh \<Longrightarrow> wants q sh'"
    and poll_inv: "inv sh \<Longrightarrow> pa_poll A ps t sh = (sh', ret, revents) \<Longrightarrow> inv sh'"
    and poll_stable: "q \<in> rules \<Longrightarrow> inv sh \<Longrightarrow> pa_poll A ps t sh = (sh', ret, revents) \<Longrightarrow>
          wants q sh \<Longrightarrow> wants q sh'"
    and error_inv: "inv sh \<Longrightarrow> pa_socket_error A fd sh = (sh', ret, err, len) \<Longrightarrow> inv sh'"
    and error_stable: "q \<in> rules \<Longrightarrow> inv sh \<Longrightarrow> pa_socket_error A fd sh = (sh', ret, err, len) \<Longrightarrow>
          wants q sh \<Longrightarrow> wants q sh'"
    and callback_inv: "r \<in> rules \<Longrightarrow> inv sh \<Longrightarrow> wants r sh \<Longrightarrow> br_callback r sh = Inr sh' \<Longrightarrow> inv sh'"
begin

text \<open>Every entry of \<open>poll\<close> that asks for events belongs to a rule that wants to be served.\<close>

definition asks :: "'w shared \<Rightarrow> 'w fd_rule list \<Rightarrow> pollfd list \<Rightarrow> bool" where
  "asks sh rs ps \<longleftrightarrow> list_all2 (\<lambda>r p. pf_events p \<noteq> 0 \<longrightarrow> wants r sh) rs ps"

lemma asks_mono: "asks sh rs ps \<Longrightarrow> \<forall>r \<in> set rs. wants r sh \<longrightarrow> wants r sh' \<Longrightarrow> asks sh' rs ps"
  unfolding asks_def by (erule list.rel_mono_strong) auto

lemma asks_with_revents: "asks sh rs ps \<Longrightarrow> asks sh rs (with_revents revents ps)"
  by (simp add: asks_def with_revents_def list_all2_conv_all_nth)

lemma setup_keeps:
  assumes "setup_pollfds rs sh = Inr (rs', ps, something, sh')" and "set rs \<subseteq> rules" and "distinct rs" and "inv sh"
  shows "inv sh' \<and> asks sh' rs' ps \<and> (\<forall>q \<in> rules - set rs. wants q sh \<longrightarrow> wants q sh')"
  using assms
proof (induction rs arbitrary: sh rs' ps something sh')
  case Nil
  then show ?case by (simp add: asks_def)
next
  case (Cons r rs)
  have r: "r \<in> rules" "r \<notin> set rs" and rs: "set rs \<subseteq> rules" "distinct rs" using Cons.prems by auto
  consider (cancelled) "setup_pollfds rs sh = Inr (rs', ps, something, sh')"
    | (ended) sh1 where "fr_cancel r sh = Inr sh1" "setup_pollfds rs sh1 = Inr (rs', ps, something, sh')"
    | (kept) sh1 b rs1 ps1 b1 where "br_interest r sh = Inr (sh1, b)"
        "setup_pollfds rs sh1 = Inr (rs1, ps1, b1, sh')"
        "\<exists>p. rs' = r # rs1 \<and> ps = p # ps1 \<and> (pf_events p \<noteq> 0 \<longrightarrow> b)"
    using Cons.prems(1) by (fastforce simp: Let_def split: if_splits)
  then show ?case
  proof cases
    case cancelled
    from Cons.IH [OF this rs Cons.prems(4)] show ?thesis by auto
  next
    case ended
    from Cons.IH [OF ended(2) rs cancel_inv [OF r(1) Cons.prems(4) ended(1)]]
      cancel_stable [OF r(1) _ _ Cons.prems(4) ended(1)] show ?thesis by auto
  next
    case kept
    note i = interest_inv [OF r(1) Cons.prems(4) kept(1)]
    from Cons.IH [OF kept(2) rs i] have IH: "inv sh'" "asks sh' rs1 ps1"
      "\<forall>q \<in> rules - set rs. wants q sh1 \<longrightarrow> wants q sh'" by auto
    have "b \<longrightarrow> wants r sh1" using interest_wants [OF r(1) Cons.prems(4)] kept(1) by auto
    with IH(3) r have "b \<longrightarrow> wants r sh'" by blast
    with kept(3) IH interest_stable [OF r(1) _ Cons.prems(4) kept(1)] show ?thesis
      by (auto simp: asks_def)
  qed
qed

lemma serve_rule_keeps:
  assumes "serve_rule categories r sh = Inr sh'" and "r \<in> rules" and "inv sh" and "wants r sh"
  shows "inv sh'"
  using assms(1) callback_inv [OF assms(2-4)] interest_inv [OF assms(2)]
  by (auto simp: serve_rule_def Let_def split: if_splits)

lemma check_socket_error_keeps:
  assumes "check_socket_error A categories r sh = Inr sh'" and "inv sh"
  shows "inv sh' \<and> (\<forall>q \<in> rules. wants q sh \<longrightarrow> wants q sh')"
proof -
  obtain sh1 ret err len where e: "pa_socket_error A (fw_fd (fr_fd r sh)) sh = (sh1, ret, err, len)"
    by (cases "pa_socket_error A (fw_fd (fr_fd r sh)) sh")
  then have "sh' = sh1" using assms(1) by (auto simp: check_socket_error_def split: if_splits)
  with error_inv [OF assms(2) e] error_stable [OF _ assms(2) e] show ?thesis by blast
qed

lemma serve_polled_keeps:
  assumes "serve_polled A categories pollfds idx rs sh = Inr (rs', sh')"
    and "set rs \<subseteq> rules" and "distinct rs" and "inv sh" and "asks sh rs (drop idx pollfds)"
  shows "inv sh'"
  using assms
proof (induction rs arbitrary: idx sh rs' sh')
  case (Cons r rs)
  have r: "r \<in> rules" "r \<notin> set rs" and rs: "set rs \<subseteq> rules" "distinct rs" using Cons.prems by auto
  have idx: "idx < length pollfds" using Cons.prems(5) by (auto simp: asks_def dest: list_all2_lengthD)
  have d: "drop idx pollfds = pollfds ! idx # drop (idx + 1) pollfds"
    using Cons_nth_drop_Suc [OF idx] by simp
  have w: "pf_events (pollfds ! idx) \<noteq> 0 \<Longrightarrow> wants r sh" and asks: "asks sh rs (drop (idx + 1) pollfds)"
    using Cons.prems(5) unfolding d asks_def by simp_all
  have goes_on: "inv sh''" if step: "serve_polled A categories pollfds (idx + 1) rs sh1 = Inr (rs1, sh'')"
    "inv sh1" "\<forall>q \<in> set rs. wants q sh \<longrightarrow> wants q sh1" for sh1 rs1 sh''
    by (rule Cons.IH [OF step(1) rs step(2) asks_mono [OF asks step(3)]])
  have drops: "inv sh''" if step: "fr_cancel r sh1 = Inr sh2"
    "serve_polled A categories pollfds (idx + 1) rs sh2 = Inr (rs1, sh'')"
    "inv sh1" "\<forall>q \<in> set rs. wants q sh \<longrightarrow> wants q sh1" for sh1 sh2 rs1 sh''
    by (rule goes_on [OF step(2) cancel_inv [OF r(1) step(3,1)]])
       (use step r rs cancel_stable [OF r(1) _ _ step(3,1)] in auto)
  have fails: "inv sh''" if step: "check_socket_error A categories r sh1 = Inr sh2"
    "fr_cancel r sh2 = Inr sh3" "serve_polled A categories pollfds (idx + 1) rs sh3 = Inr (rs1, sh'')"
    "inv sh1" "\<forall>q \<in> set rs. wants q sh \<longrightarrow> wants q sh1" for sh1 sh2 sh3 rs1 sh''
    using check_socket_error_keeps [OF step(1,4)] step(5) rs by (intro drops [OF step(2,3)]) auto
  note inv = Cons.prems(4)
  consider (keep) rs1 where "serve_polled A categories pollfds (idx + 1) rs sh = Inr (rs1, sh')"
    | (recovered) sh1 rs1 where "fr_recover r sh = Inr (sh1, True)"
        "serve_polled A categories pollfds (idx + 1) rs sh1 = Inr (rs1, sh')"
    | (unrecovered) sh1 sh2 sh3 where "fr_recover r sh = Inr (sh1, False)"
        "check_socket_error A categories r sh1 = Inr sh2" "fr_cancel r sh2 = Inr sh3"
        "serve_polled A categories pollfds (idx + 1) rs sh3 = Inr (rs', sh')"
    | (invalid) sh2 sh3 where "check_socket_error A categories r sh = Inr sh2" "fr_cancel r sh2 = Inr sh3"
        "serve_polled A categories pollfds (idx + 1) rs sh3 = Inr (rs', sh')"
    | (defunct) sh2 where "fr_cancel r sh = Inr sh2"
        "serve_polled A categories pollfds (idx + 1) rs sh2 = Inr (rs', sh')"
    | (serve) "serve_rule categories r sh = Inr sh'"
        "pf_revents (pollfds ! idx) AND pf_events (pollfds ! idx) \<noteq> 0"
    using Cons.prems(1) idx by (auto simp: Let_def simp del: Suc_eq_plus1 split: if_splits)
  then show ?case
  proof cases
    case keep
    then show ?thesis by (rule goes_on) (use inv in auto)
  next
    case recovered
    show ?thesis by (rule goes_on [OF recovered(2)])
       (use recover_inv [OF r(1) inv recovered(1)] recover_stable [OF r(1) _ inv recovered(1)] rs in auto)
  next
    case unrecovered
    show ?thesis by (rule fails [OF unrecovered(2-4)])
       (use recover_inv [OF r(1) inv unrecovered(1)] recover_stable [OF r(1) _ inv unrecovered(1)] rs in auto)
  next
    case invalid
    show ?thesis by (rule fails [OF invalid]) (use inv in auto)
  next
    case defunct
    show ?thesis by (rule drops [OF defunct]) (use inv in auto)
  next
    case serve
    then have "pf_events (pollfds ! idx) \<noteq> 0" by auto
    from w [OF this] show ?thesis by (rule serve_rule_keeps [OF serve(1) r(1) inv])
  qed
qed simp

lemma wait_keeps:
  assumes "wait_next_event A t el sh = Inr (el', sh', res)"
    and "el_non_fd_rules el = []" and "set (el_fd_rules el) \<subseteq> rules" and "distinct (el_fd_rules el)"
    and "inv sh"
  shows "inv sh' \<and> el_non_fd_rules el' = [] \<and> set (el_fd_rules el') \<subseteq> rules \<and> distinct (el_fd_rules el')"
proof -
  have "shrinks_to el el'" by (rule wait_next_event_shrinks [OF assms(1)])
  then have el': "el_non_fd_rules el' = []" "set (el_fd_rules el') \<subseteq> rules" "distinct (el_fd_rules el')"
    using assms(2-4) by (auto simp: shrinks_to_def dest: subseq_set subseq_distinct)
  have "el\<lparr>el_non_fd_rules := el_non_fd_rules el\<rparr> = el" by simp
  then have same: "el\<lparr>el_non_fd_rules := []\<rparr> = el" unfolding assms(2) .
  have "wait_fd_rules A t (el\<lparr>el_non_fd_rules := []\<rparr>) sh = Inr (el', sh', res)"
    using assms(1,2) by (simp add: wait_next_event_def Let_def)
  then have w: "wait_fd_rules A t el sh = Inr (el', sh', res)" unfolding same .
  obtain rs ps b sh1 where s: "setup_pollfds (el_fd_rules el) sh = Inr (rs, ps, b, sh1)"
    using w by (auto simp: wait_fd_rules_def)
  from setup_keeps [OF s assms(3-5)] have inv: "inv sh1" and asks: "asks sh1 rs ps" by auto
  have sub: "subseq rs (el_fd_rules el)" using setup_pollfds_shape [OF s] by blast
  then have rs: "set rs \<subseteq> rules" "distinct rs" using assms(3,4) by (auto dest: subseq_set subseq_distinct)
  have "inv sh'"
  proof (cases b)
    case False
    then show ?thesis using w s inv by (auto simp: wait_fd_rules_def Let_def)
  next
    case True
    obtain sh2 ret revents where p: "pa_poll A ps t sh1 = (sh2, ret, revents)" by (cases "pa_poll A ps t sh1")
    have inv2: "inv sh2" by (rule poll_inv [OF inv p])
    have "\<forall>r \<in> set rs. wants r sh1 \<longrightarrow> wants r sh2" using poll_stable [OF _ inv p] rs(1) by blast
    then have "asks sh2 rs ps" by (rule asks_mono [OF asks])
    then have a: "asks sh2 rs (drop 0 (with_revents revents ps))" by (simp add: asks_with_revents)
    have "poll_and_serve A t ps (el\<lparr>el_fd_rules := rs\<rparr>) sh1 = Inr (el', sh', res)"
      using w s True by (simp add: wait_fd_rules_def Let_def)
    then consider "sh' = sh2"
      | rs' where "serve_polled A (el_categories el) (with_revents revents ps) 0 rs sh2 = Inr (rs', sh')"
      using p by (auto simp: poll_and_serve_def split: if_splits)
    then show ?thesis
    proof cases
      case 1
      then show ?thesis using inv2 by simp
    next
      case 2
      show ?thesis by (rule serve_polled_keeps [OF 2 rs inv2 a])
    qed
  qed
  with el' show ?thesis by blast
qed

end

text \<open>
  Where it fails: an error of a pass of the loop is not one of the \<open>bad\<close> ones, when no closure
  of a rule fails in such a way, the callback of a rule in the states in which it is called.
\<close>

locale loop_failures = loop_contract A rules inv wants
  for A :: "'w poll_api" and rules :: "'w fd_rule set" and inv :: "'w shared \<Rightarrow> bool"
    and wants :: "'w fd_rule \<Rightarrow> 'w shared \<Rightarrow> bool" +
  fixes bad :: "cpp_error \<Rightarrow> bool"
  assumes thrown_ok: "\<not> bad (Throws m)"
    and interest_ok: "r \<in> rules \<Longrightarrow> br_interest r sh = Inl e \<Longrightarrow> \<not> bad e"
    and cancel_ok: "r \<in> rules \<Longrightarrow> fr_cancel r sh = Inl e \<Longrightarrow> \<not> bad e"
    and recover_ok: "r \<in> rules \<Longrightarrow> fr_recover r sh = Inl e \<Longrightarrow> \<not> bad e"
    and callback_ok: "r \<in> rules \<Longrightarrow> inv sh \<Longrightarrow> wants r sh \<Longrightarrow> br_callback r sh = Inl e \<Longrightarrow> \<not> bad e"
begin

lemma category_name_fails: "category_name categories i = Inl e \<Longrightarrow> \<not> bad e"
  using thrown_ok by (auto simp: category_name_def split: if_splits)

lemma check_system_call_fails: "check_system_call strerror attempt ret = Inl e \<Longrightarrow> \<not> bad e"
  using thrown_ok by (auto simp: check_system_call_def unix_error_def tagged_error_def split: if_splits)

lemma setup_fails: "setup_pollfds rs sh = Inl e \<Longrightarrow> set rs \<subseteq> rules \<Longrightarrow> \<not> bad e"
proof (induction rs arbitrary: sh)
  case (Cons r rs)
  have r: "r \<in> rules" "set rs \<subseteq> rules" using Cons.prems by auto
  consider sh1 where "setup_pollfds rs sh1 = Inl e" | "fr_cancel r sh = Inl e" | "br_interest r sh = Inl e"
    using Cons.prems(1) by (auto simp: bind_result_Inl_iff Let_def split: if_splits)
  then show ?case using Cons.IH r(2) cancel_ok [OF r(1)] interest_ok [OF r(1)] by cases blast+
qed simp

lemma check_socket_error_fails: "check_socket_error A categories r sh = Inl e \<Longrightarrow> \<not> bad e"
  using thrown_ok category_name_fails
  by (auto simp: check_socket_error_def bind_result_Inl_iff unix_error_def tagged_error_def split: prod.splits if_splits)

lemma serve_rule_fails:
  assumes "serve_rule categories r sh = Inl e" and "r \<in> rules" and "inv sh" and "wants r sh"
  shows "\<not> bad e"
  using assms(1) callback_ok [OF assms(2-4)] interest_ok [OF assms(2)] category_name_fails thrown_ok
  by (auto simp: serve_rule_def bind_result_Inl_iff busy_wait_detected_def Let_def split: if_splits)

lemma serve_polled_fails:
  assumes "serve_polled A categories pollfds idx rs sh = Inl e"
    and "set rs \<subseteq> rules" and "distinct rs" and "inv sh" and "asks sh rs (drop idx pollfds)"
  shows "\<not> bad e"
  using assms
proof (induction rs arbitrary: idx sh)
  case (Cons r rs)
  have r: "r \<in> rules" "r \<notin> set rs" and rs: "set rs \<subseteq> rules" "distinct rs" using Cons.prems by auto
  have idx: "idx < length pollfds" using Cons.prems(5) by (auto simp: asks_def dest: list_all2_lengthD)
  have d: "drop idx pollfds = pollfds ! idx # drop (idx + 1) pollfds"
    using Cons_nth_drop_Suc [OF idx] by simp
  have w: "pf_events (pollfds ! idx) \<noteq> 0 \<Longrightarrow> wants r sh" and asks: "asks sh rs (drop (idx + 1) pollfds)"
    using Cons.prems(5) unfolding d asks_def by simp_all
  have goes_on: "\<not> bad e" if step: "serve_polled A categories pollfds (idx + 1) rs sh1 = Inl e"
    "inv sh1" "\<forall>q \<in> set rs. wants q sh \<longrightarrow> wants q sh1" for sh1
    by (rule Cons.IH [OF step(1) rs step(2) asks_mono [OF asks step(3)]])
  have drops: "\<not> bad e" if step: "bind_result (fr_cancel r sh1) (serve_polled A categories pollfds (idx + 1) rs) = Inl e"
    "inv sh1" "\<forall>q \<in> set rs. wants q sh \<longrightarrow> wants q sh1" for sh1
  proof (cases "fr_cancel r sh1")
    case (Inr sh2)
    show ?thesis
      by (rule goes_on [OF _ cancel_inv [OF r(1) step(2) Inr]])
         (use step Inr r rs cancel_stable [OF r(1) _ _ step(2) Inr] in auto)
  qed (use step(1) cancel_ok [OF r(1)] in auto)
  have fails: "\<not> bad e" if step: "bind_result (check_socket_error A categories r sh1)
      (\<lambda>sh. bind_result (fr_cancel r sh) (serve_polled A categories pollfds (idx + 1) rs)) = Inl e"
    "inv sh1" "\<forall>q \<in> set rs. wants q sh \<longrightarrow> wants q sh1" for sh1
  proof (cases "check_socket_error A categories r sh1")
    case (Inr sh2)
    show ?thesis
      by (rule drops [of sh2]) (use step Inr check_socket_error_keeps [OF Inr step(2)] rs in auto)
  qed (use step(1) check_socket_error_fails in auto)
  note inv = Cons.prems(4)
  consider (keep) "serve_polled A categories pollfds (idx + 1) rs sh = Inl e"
    | (recover) "fr_recover r sh = Inl e"
    | (recovered) sh1 where "fr_recover r sh = Inr (sh1, True)"
        "serve_polled A categories pollfds (idx + 1) rs sh1 = Inl e"
    | (unrecovered) sh1 where "fr_recover r sh = Inr (sh1, False)"
        "bind_result (check_socket_error A categories r sh1)
          (\<lambda>sh. bind_result (fr_cancel r sh) (serve_polled A categories pollfds (idx + 1) rs)) = Inl e"
    | (invalid) "bind_result (check_socket_error A categories r sh)
          (\<lambda>sh. bind_result (fr_cancel r sh) (serve_polled A categories pollfds (idx + 1) rs)) = Inl e"
    | (defunct) "bind_result (fr_cancel r sh) (serve_polled A categories pollfds (idx + 1) rs) = Inl e"
    | (serve) "serve_rule categories r sh = Inl e" "pf_revents (pollfds ! idx) AND pf_events (pollfds ! idx) \<noteq> 0"
    using Cons.prems(1) idx
    by (auto simp: Let_def bind_result_Inl_iff [of "serve_polled A categories pollfds (Suc idx) rs s" for s]
        bind_result_Inl_iff [of "serve_rule categories r sh"] bind_result_Inl_iff [of "fr_recover r sh"]
        simp del: bind_result_Inr_iff split: if_splits)
  then show ?case
  proof cases
    case keep
    then show ?thesis by (rule goes_on) (use inv in auto)
  next
    case recover
    then show ?thesis by (rule recover_ok [OF r(1)])
  next
    case recovered
    show ?thesis by (rule goes_on [OF recovered(2)])
       (use recover_inv [OF r(1) inv recovered(1)] recover_stable [OF r(1) _ inv recovered(1)] rs in auto)
  next
    case unrecovered
    show ?thesis by (rule fails [OF unrecovered(2)])
       (use recover_inv [OF r(1) inv unrecovered(1)] recover_stable [OF r(1) _ inv unrecovered(1)] rs in auto)
  next
    case invalid
    show ?thesis by (rule fails [OF invalid]) (use inv in auto)
  next
    case defunct
    show ?thesis by (rule drops [OF defunct]) (use inv in auto)
  next
    case serve
    then have "pf_events (pollfds ! idx) \<noteq> 0" by auto
    from w [OF this] show ?thesis by (rule serve_rule_fails [OF serve(1) r(1) inv])
  qed
qed simp

lemma wait_fails:
  assumes "wait_next_event A t el sh = Inl e"
    and "el_non_fd_rules el = []" and "set (el_fd_rules el) \<subseteq> rules" and "distinct (el_fd_rules el)"
    and "inv sh"
  shows "\<not> bad e"
proof -
  have "el\<lparr>el_non_fd_rules := el_non_fd_rules el\<rparr> = el" by simp
  then have same: "el\<lparr>el_non_fd_rules := []\<rparr> = el" unfolding assms(2) .
  have "wait_fd_rules A t (el\<lparr>el_non_fd_rules := []\<rparr>) sh = Inl e"
    using assms(1,2) by (simp add: wait_next_event_def Let_def)
  then have w: "wait_fd_rules A t el sh = Inl e" unfolding same .
  show ?thesis
  proof (cases "setup_pollfds (el_fd_rules el) sh")
    case (Inl e')
    then show ?thesis using w setup_fails [OF Inl assms(3)] by (simp add: wait_fd_rules_def)
  next
    case (Inr x)
    obtain rs ps b sh1 where x: "x = (rs, ps, b, sh1)" by (cases x)
    note s = Inr [unfolded x]
    from setup_keeps [OF s assms(3-5)] have inv: "inv sh1" and asks: "asks sh1 rs ps" by auto
    have sub: "subseq rs (el_fd_rules el)" using setup_pollfds_shape [OF s] by blast
    then have rs: "set rs \<subseteq> rules" "distinct rs" using assms(3,4) by (auto dest: subseq_set subseq_distinct)
    obtain sh2 ret revents where p: "pa_poll A ps t sh1 = (sh2, ret, revents)" by (cases "pa_poll A ps t sh1")
    have inv2: "inv sh2" by (rule poll_inv [OF inv p])
    have "\<forall>r \<in> set rs. wants r sh1 \<longrightarrow> wants r sh2" using poll_stable [OF _ inv p] rs(1) by blast
    then have "asks sh2 rs ps" by (rule asks_mono [OF asks])
    then have a: "asks sh2 rs (drop 0 (with_revents revents ps))" by (simp add: asks_with_revents)
    have "poll_and_serve A t ps (el\<lparr>el_fd_rules := rs\<rparr>) sh1 = Inl e"
      using w s by (simp add: wait_fd_rules_def Let_def split: if_splits)
    then consider "check_system_call (pa_strerror A) ''poll'' ret = Inl e"
      | "serve_polled A (el_categories el) (with_revents revents ps) 0 rs sh2 = Inl e"
      using p by (auto simp: poll_and_serve_def bind_result_Inl_iff split: if_splits)
    then show ?thesis
    proof cases
      case 1
      then show ?thesis by (rule check_system_call_fails)
    next
      case 2
      show ?thesis by (rule serve_polled_fails [OF 2 rs inv2 a])
    qed
  qed
qed

end

end
