(* ===== verification/Socket.thy ===== *)
theory Socket
  imports File_Descriptor Address
begin

text \<open>
  Sockets (\<open>util/socket.hh\<close>, \<open>util/socket.cc\<close>): a \<open>Socket\<close> is a file descriptor, and its
  operations are system calls checked by \<open>FileDescriptor::CheckSystemCall\<close>.

  The system calls are the parameter \<open>S\<close>, beside the kernel \<open>K\<close> of the file descriptors.
  A call that stores into a variable of the caller answers what the variable holds after
  it.
\<close>

subsection \<open>The system calls\<close>

record 'k socket_api =
  sa_socket :: "int \<Rightarrow> int \<Rightarrow> int \<Rightarrow> 'k \<Rightarrow> 'k \<times> sys_ret"
  sa_getsockopt :: "int \<Rightarrow> int \<Rightarrow> int \<Rightarrow> int \<Rightarrow> 'k \<Rightarrow> 'k \<times> sys_ret \<times> int \<times> nat"
  sa_setsockopt :: "int \<Rightarrow> int \<Rightarrow> int \<Rightarrow> bytes \<Rightarrow> 'k \<Rightarrow> 'k \<times> sys_ret"
  sa_getsockname :: "int \<Rightarrow> 'k \<Rightarrow> 'k \<times> sys_ret \<times> bytes \<times> nat"
  sa_getpeername :: "int \<Rightarrow> 'k \<Rightarrow> 'k \<times> sys_ret \<times> bytes \<times> nat"
  sa_bind :: "int \<Rightarrow> bytes \<Rightarrow> 'k \<Rightarrow> 'k \<times> sys_ret"
  sa_connect :: "int \<Rightarrow> bytes \<Rightarrow> 'k \<Rightarrow> 'k \<times> sys_ret"
  sa_shutdown :: "int \<Rightarrow> int \<Rightarrow> 'k \<Rightarrow> 'k \<times> sys_ret"
  sa_recvfrom :: "int \<Rightarrow> nat \<Rightarrow> int \<Rightarrow> 'k \<Rightarrow> 'k \<times> sys_ret \<times> bytes \<times> bytes \<times> nat"
  sa_sendto :: "int \<Rightarrow> bytes \<Rightarrow> bytes \<Rightarrow> 'k \<Rightarrow> 'k \<times> sys_ret"
  sa_send :: "int \<Rightarrow> bytes \<Rightarrow> 'k \<Rightarrow> 'k \<times> sys_ret"
  sa_listen :: "int \<Rightarrow> int \<Rightarrow> 'k \<Rightarrow> 'k \<times> sys_ret"
  sa_accept :: "int \<Rightarrow> 'k \<Rightarrow> 'k \<times> sys_ret"

definition AF_UNIX :: nat where "AF_UNIX = 1"
definition SOCK_STREAM :: int where "SOCK_STREAM = 1"
definition SOCK_DGRAM :: int where "SOCK_DGRAM = 2"
definition IPPROTO_TCP :: int where "IPPROTO_TCP = 6"
definition SOL_SOCKET :: int where "SOL_SOCKET = 1"
definition SO_REUSEADDR :: int where "SO_REUSEADDR = 2"
definition SO_TYPE :: int where "SO_TYPE = 3"
definition SO_ERROR :: int where "SO_ERROR = 4"
definition SO_BINDTODEVICE :: int where "SO_BINDTODEVICE = 25"
definition SO_PROTOCOL :: int where "SO_PROTOCOL = 38"
definition SO_DOMAIN :: int where "SO_DOMAIN = 39"
definition SOL_PACKET :: int where "SOL_PACKET = 263"
definition PACKET_ADD_MEMBERSHIP :: int where "PACKET_ADD_MEMBERSHIP = 1"
definition PACKET_MR_PROMISC :: u16 where "PACKET_MR_PROMISC = 1"
definition MSG_TRUNC :: int where "MSG_TRUNC = 32"
definition SHUT_RD :: int where "SHUT_RD = 0"
definition SHUT_WR :: int where "SHUT_WR = 1"
definition SHUT_RDWR :: int where "SHUT_RDWR = 2"

definition sizeof_int :: nat where "sizeof_int = 4"

text \<open>An integer as it lies in memory, least significant byte first.\<close>

definition le_bytes :: "'a::len word \<Rightarrow> bytes" where
  "le_bytes w = rev (be_bytes w)"

definition raw_sockaddr :: "address \<Rightarrow> bytes" where
  "raw_sockaddr a = take (ad_size a) (ad_storage a)"

subsection \<open>Options\<close>

definition socket_getsockopt ::
  "'k kernel \<Rightarrow> 'k socket_api \<Rightarrow> int \<Rightarrow> int \<Rightarrow> int \<Rightarrow> fd_wrapper \<Rightarrow> 'k \<Rightarrow> (int \<times> nat \<times> 'k) result" where
  "socket_getsockopt K S level option option_value fw k =
     (case sa_getsockopt S (fw_fd fw) level option option_value k of (k, r, option_value, optlen) \<Rightarrow>
        bind_result (fd_check_system_call K ''getsockopt'' r fw) (\<lambda>_. Inr (option_value, optlen, k)))"

definition socket_setsockopt ::
  "'k kernel \<Rightarrow> 'k socket_api \<Rightarrow> int \<Rightarrow> int \<Rightarrow> bytes \<Rightarrow> fd_wrapper \<Rightarrow> 'k \<Rightarrow> 'k result" where
  "socket_setsockopt K S level option option_value fw k =
     (case sa_setsockopt S (fw_fd fw) level option option_value k of (k, r) \<Rightarrow>
        bind_result (fd_check_system_call K ''setsockopt'' r fw) (\<lambda>_. Inr k))"

subsection \<open>Construction\<close>

definition new_socket ::
  "'k kernel \<Rightarrow> 'k socket_api \<Rightarrow> nat \<Rightarrow> int \<Rightarrow> int \<Rightarrow> 'k \<Rightarrow> (fd_wrapper \<times> 'k) result" where
  "new_socket K S domain type protocol k =
     (case sa_socket S (int domain) type protocol k of (k, r) \<Rightarrow>
        bind_result (check_system_call (k_strerror K) ''socket'' r) (\<lambda>fd. new_fd_wrapper K fd k))"

text \<open>One of the three checks of the constructor.\<close>

definition verify_option ::
  "'k kernel \<Rightarrow> 'k socket_api \<Rightarrow> int \<Rightarrow> int \<Rightarrow> string \<Rightarrow> fd_wrapper \<Rightarrow> int \<times> 'k \<Rightarrow> (int \<times> 'k) result" where
  "verify_option K S option expected message fw av_k =
     bind_result (socket_getsockopt K S SOL_SOCKET option (fst av_k) fw (snd av_k))
       (\<lambda>(actual_value, len, k).
        if len \<noteq> sizeof_int \<or> actual_value \<noteq> expected then Inl (Throws message)
        else Inr (actual_value, k))"

definition socket_of_fd ::
  "'k kernel \<Rightarrow> 'k socket_api \<Rightarrow> nat \<Rightarrow> int \<Rightarrow> int \<Rightarrow> fd_wrapper \<Rightarrow> 'k \<Rightarrow> (fd_wrapper \<times> 'k) result" where
  "socket_of_fd K S domain type protocol fw k =
     bind_result (verify_option K S SO_DOMAIN (int domain) ''socket domain mismatch'' fw (0, k)) (\<lambda>s.
     bind_result (verify_option K S SO_TYPE type ''socket type mismatch'' fw s) (\<lambda>s.
     bind_result (verify_option K S SO_PROTOCOL protocol ''socket protocol mismatch'' fw s) (\<lambda>(_, k).
     Inr (fw, k))))"

definition udp_socket_of_fd ::
  "'k kernel \<Rightarrow> 'k socket_api \<Rightarrow> fd_wrapper \<Rightarrow> 'k \<Rightarrow> (fd_wrapper \<times> 'k) result" where
  "udp_socket_of_fd K S fw k = socket_of_fd K S AF_INET SOCK_DGRAM 0 fw k"

definition new_udp_socket :: "'k kernel \<Rightarrow> 'k socket_api \<Rightarrow> 'k \<Rightarrow> (fd_wrapper \<times> 'k) result" where
  "new_udp_socket K S k = new_socket K S AF_INET SOCK_DGRAM 0 k"

definition tcp_socket_of_fd ::
  "'k kernel \<Rightarrow> 'k socket_api \<Rightarrow> fd_wrapper \<Rightarrow> 'k \<Rightarrow> (fd_wrapper \<times> 'k) result" where
  "tcp_socket_of_fd K S fw k = socket_of_fd K S AF_INET SOCK_STREAM IPPROTO_TCP fw k"

definition new_tcp_socket :: "'k kernel \<Rightarrow> 'k socket_api \<Rightarrow> 'k \<Rightarrow> (fd_wrapper \<times> 'k) result" where
  "new_tcp_socket K S k = new_socket K S AF_INET SOCK_STREAM 0 k"

definition new_packet_socket ::
  "'k kernel \<Rightarrow> 'k socket_api \<Rightarrow> int \<Rightarrow> int \<Rightarrow> 'k \<Rightarrow> (fd_wrapper \<times> 'k) result" where
  "new_packet_socket K S type protocol k = new_socket K S AF_PACKET type protocol k"

definition local_stream_socket_of_fd ::
  "'k kernel \<Rightarrow> 'k socket_api \<Rightarrow> fd_wrapper \<Rightarrow> 'k \<Rightarrow> (fd_wrapper \<times> 'k) result" where
  "local_stream_socket_of_fd K S fw k = socket_of_fd K S AF_UNIX SOCK_STREAM 0 fw k"

subsection \<open>Addresses and connections\<close>

definition socket_get_address ::
  "'k kernel \<Rightarrow> string \<Rightarrow> (int \<Rightarrow> 'k \<Rightarrow> 'k \<times> sys_ret \<times> bytes \<times> nat) \<Rightarrow> fd_wrapper \<Rightarrow> 'k \<Rightarrow>
   (address \<times> 'k) result" where
  "socket_get_address K name_of_function call fw k =
     (case call (fw_fd fw) k of (k, r, addr, sz) \<Rightarrow>
        bind_result (fd_check_system_call K name_of_function r fw) (\<lambda>_.
        bind_result (address_of_raw addr sz) (\<lambda>a. Inr (a, k))))"

definition local_address ::
  "'k kernel \<Rightarrow> 'k socket_api \<Rightarrow> fd_wrapper \<Rightarrow> 'k \<Rightarrow> (address \<times> 'k) result" where
  "local_address K S fw k = socket_get_address K ''getsockname'' (sa_getsockname S) fw k"

definition peer_address ::
  "'k kernel \<Rightarrow> 'k socket_api \<Rightarrow> fd_wrapper \<Rightarrow> 'k \<Rightarrow> (address \<times> 'k) result" where
  "peer_address K S fw k = socket_get_address K ''getpeername'' (sa_getpeername S) fw k"

definition socket_bind ::
  "'k kernel \<Rightarrow> 'k socket_api \<Rightarrow> address \<Rightarrow> fd_wrapper \<Rightarrow> 'k \<Rightarrow> 'k result" where
  "socket_bind K S a fw k =
     (case sa_bind S (fw_fd fw) (raw_sockaddr a) k of (k, r) \<Rightarrow>
        bind_result (fd_check_system_call K ''bind'' r fw) (\<lambda>_. Inr k))"

definition bind_to_device ::
  "'k kernel \<Rightarrow> 'k socket_api \<Rightarrow> bytes \<Rightarrow> fd_wrapper \<Rightarrow> 'k \<Rightarrow> 'k result" where
  "bind_to_device K S device_name fw k =
     socket_setsockopt K S SOL_SOCKET SO_BINDTODEVICE device_name fw k"

definition socket_connect ::
  "'k kernel \<Rightarrow> 'k socket_api \<Rightarrow> address \<Rightarrow> fd_wrapper \<Rightarrow> 'k \<Rightarrow> 'k result" where
  "socket_connect K S a fw k =
     (case sa_connect S (fw_fd fw) (raw_sockaddr a) k of (k, r) \<Rightarrow>
        bind_result (fd_check_system_call K ''connect'' r fw) (\<lambda>_. Inr k))"

definition socket_shutdown ::
  "'k kernel \<Rightarrow> 'k socket_api \<Rightarrow> int \<Rightarrow> fd_wrapper \<Rightarrow> 'k \<Rightarrow> (fd_wrapper \<times> 'k) result" where
  "socket_shutdown K S how fw k =
     (case sa_shutdown S (fw_fd fw) how k of (k, r) \<Rightarrow>
        bind_result (fd_check_system_call K ''shutdown'' r fw) (\<lambda>_.
        if how = SHUT_RD then Inr (register_read fw, k)
        else if how = SHUT_WR then Inr (register_write fw, k)
        else if how = SHUT_RDWR then Inr (register_write (register_read fw), k)
        else Inl (Throws ''Socket::shutdown() called with invalid `how`'')))"

definition set_reuseaddr ::
  "'k kernel \<Rightarrow> 'k socket_api \<Rightarrow> fd_wrapper \<Rightarrow> 'k \<Rightarrow> 'k result" where
  "set_reuseaddr K S fw k =
     socket_setsockopt K S SOL_SOCKET SO_REUSEADDR (le_bytes (1 :: u32)) fw k"

definition throw_if_error ::
  "'k kernel \<Rightarrow> 'k socket_api \<Rightarrow> fd_wrapper \<Rightarrow> 'k \<Rightarrow> 'k result" where
  "throw_if_error K S fw k =
     bind_result (socket_getsockopt K S SOL_SOCKET SO_ERROR 0 fw k) (\<lambda>(socket_error, len, k).
     if len \<noteq> sizeof_int then Inl (Throws (''unexpected length from getsockopt: '' @ decimal len))
     else if socket_error \<noteq> 0 then Inl (unix_error (k_strerror K) ''socket error'' socket_error)
     else Inr k)"

subsection \<open>Datagrams\<close>

text \<open>
  The payload is grown to the size of the buffer with zeros; \<open>recvfrom\<close> stores into it,
  and with \<open>MSG_TRUNC\<close> answers the length of the datagram even when that is larger.
\<close>

definition datagram_recv ::
  "'k kernel \<Rightarrow> 'k socket_api \<Rightarrow> fd_wrapper \<Rightarrow> 'k \<Rightarrow> (address \<times> bytes \<times> fd_wrapper \<times> 'k) result" where
  "datagram_recv K S fw k =
     (case sa_recvfrom S (fw_fd fw) kReadBufferSize MSG_TRUNC k of (k, r, data, source, fromlen) \<Rightarrow>
        let payload = take kReadBufferSize (data @ replicate (kReadBufferSize - length data) 0)
        in bind_result (fd_check_system_call K ''recvfrom'' r fw) (\<lambda>recv_len.
           if recv_len > int (length payload) then Inl (Throws ''recvfrom (oversized datagram)'')
           else let fw = register_read fw
                in bind_result (address_of_raw source fromlen) (\<lambda>source_address.
                   Inr (source_address, take (nat recv_len) payload, fw, k))))"

definition datagram_sendto ::
  "'k kernel \<Rightarrow> 'k socket_api \<Rightarrow> address \<Rightarrow> bytes \<Rightarrow> fd_wrapper \<Rightarrow> 'k \<Rightarrow> (fd_wrapper \<times> 'k) result" where
  "datagram_sendto K S destination payload fw k =
     (case sa_sendto S (fw_fd fw) payload (raw_sockaddr destination) k of (k, r) \<Rightarrow>
        bind_result (fd_check_system_call K ''sendto'' r fw) (\<lambda>_. Inr (register_write fw, k)))"

definition datagram_send ::
  "'k kernel \<Rightarrow> 'k socket_api \<Rightarrow> bytes \<Rightarrow> fd_wrapper \<Rightarrow> 'k \<Rightarrow> (fd_wrapper \<times> 'k) result" where
  "datagram_send K S payload fw k =
     (case sa_send S (fw_fd fw) payload k of (k, r) \<Rightarrow>
        bind_result (fd_check_system_call K ''send'' r fw) (\<lambda>_. Inr (register_write fw, k)))"

subsection \<open>Listening\<close>

definition tcp_listen ::
  "'k kernel \<Rightarrow> 'k socket_api \<Rightarrow> int \<Rightarrow> fd_wrapper \<Rightarrow> 'k \<Rightarrow> 'k result" where
  "tcp_listen K S backlog fw k =
     (case sa_listen S (fw_fd fw) backlog k of (k, r) \<Rightarrow>
        bind_result (fd_check_system_call K ''listen'' r fw) (\<lambda>_. Inr k))"

text \<open>The new socket, and the listening one with its read counted.\<close>

definition tcp_accept ::
  "'k kernel \<Rightarrow> 'k socket_api \<Rightarrow> fd_wrapper \<Rightarrow> 'k \<Rightarrow> (fd_wrapper \<times> fd_wrapper \<times> 'k) result" where
  "tcp_accept K S fw k =
     (let fw = register_read fw
      in case sa_accept S (fw_fd fw) k of (k, r) \<Rightarrow>
           bind_result (fd_check_system_call K ''accept'' r fw) (\<lambda>fd.
           bind_result (new_fd_wrapper K fd k) (\<lambda>(conn, k).
           bind_result (tcp_socket_of_fd K S conn k) (\<lambda>(conn, k).
           Inr (conn, fw, k)))))"

text \<open>\<open>sll_ifindex\<close> is at offset 4 of a \<open>sockaddr_ll\<close>; then a \<open>packet_mreq\<close> is stored.\<close>

definition set_promiscuous ::
  "'k kernel \<Rightarrow> 'k socket_api \<Rightarrow> fd_wrapper \<Rightarrow> 'k \<Rightarrow> 'k result" where
  "set_promiscuous K S fw k =
     bind_result (local_address K S fw k) (\<lambda>(a, k).
     bind_result (address_as Sockaddr_ll a) (\<lambda>sll.
     socket_setsockopt K S SOL_PACKET PACKET_ADD_MEMBERSHIP
       (take 4 (drop 4 sll) @ le_bytes PACKET_MR_PROMISC @ replicate 2 0 @ replicate 8 0) fw k))"

subsection \<open>Which descriptors become sockets\<close>

lemma new_fd_wrapper_fd: "new_fd_wrapper K fd k = Inr (fw, k') \<Longrightarrow> fw_fd fw = fd \<and> 0 \<le> fd"
  by (auto simp: new_fd_wrapper_def Let_def split: if_splits prod.splits)

lemma socket_of_fd_same: "socket_of_fd K S domain type protocol fw k = Inr (fw', k') \<Longrightarrow> fw' = fw"
  by (auto simp: socket_of_fd_def)

lemma tcp_accept_fd:
  assumes "tcp_accept K S fw k = Inr (conn, fw', k')"
    and "sa_accept S (fw_fd fw) k = (k1, r)"
  shows "fw' = register_read fw \<and>
         (if sr_value r \<ge> 0 then fw_fd conn = sr_value r else fw_fd conn = 0 \<and> would_block fw r)"
  using assms
  by (auto simp: tcp_accept_def tcp_socket_of_fd_def Let_def fd_check_system_call_def
      register_read_def would_block_def split: if_splits dest!: new_fd_wrapper_fd socket_of_fd_same)

subsection \<open>Properties\<close>

text \<open>What POSIX and Linux document of \<open>recvfrom\<close> with \<open>MSG_TRUNC\<close>.\<close>

definition datagram_ok :: "sys_ret \<Rightarrow> bytes \<Rightarrow> bool" where
  "datagram_ok r data \<longleftrightarrow>
     (if sr_value r < 0 then data = [] else length data = min (nat (sr_value r)) kReadBufferSize)"

text \<open>
  Receiving returns exactly the datagram and its sender and counts the read; a datagram
  that does not fit is refused, without counting the read; and when a non-blocking socket
  has nothing to receive, the caller sees an empty datagram from whatever sender the
  address variable holds.
\<close>

theorem datagram_recv_outcome:
  assumes "sa_recvfrom S (fw_fd fw) kReadBufferSize MSG_TRUNC k = (k', r, data, source, fromlen)"
    and "datagram_ok r data" and "address_of_raw source fromlen = Inr a"
  shows "datagram_recv K S fw k =
     (if sr_value r > int kReadBufferSize then Inl (Throws ''recvfrom (oversized datagram)'')
      else if sr_value r \<ge> 0 then Inr (a, data, register_read fw, k')
      else if would_block fw r then Inr (a, [], register_read fw, k')
      else Inl (unix_error (k_strerror K) ''recvfrom'' (sr_errno r)))"
proof -
  let ?p = "take kReadBufferSize (data @ replicate (kReadBufferSize - length data) 0)"
  have l: "length ?p = kReadBufferSize" by simp
  have d: "take (nat (sr_value r)) ?p = data" if "0 \<le> sr_value r" "sr_value r \<le> int kReadBufferSize"
  proof -
    have "length data = nat (sr_value r)" using assms(2) that by (simp add: datagram_ok_def nat_le_iff)
    then show ?thesis using that by (simp add: nat_le_iff min_absorb1)
  qed
  show ?thesis
    unfolding datagram_recv_def assms(1) prod.case Let_def l fd_check_system_call_def
    using d assms(3) by auto
qed

text \<open>
  C27: \<open>accept\<close> on a non-blocking listening socket to which the kernel answers that no
  connection is waiting does not fail for that reason: it goes on with descriptor 0, so that if
  it returns a connection at all, that is descriptor 0 and not one that the kernel made.
\<close>

theorem tcp_accept_takes_descriptor_0:
  assumes "sa_accept S (fw_fd fw) k = (k1, r)"
    and "would_block fw r" and "sr_value r < 0"
  shows "tcp_accept K S fw k =
           bind_result (new_fd_wrapper K 0 k1) (\<lambda>(conn, k).
           bind_result (tcp_socket_of_fd K S conn k) (\<lambda>(conn, k). Inr (conn, register_read fw, k))) \<and>
         (\<forall>conn fw' k'. tcp_accept K S fw k = Inr (conn, fw', k') \<longrightarrow> fw_fd conn = 0)"
proof
  show "\<forall>conn fw' k'. tcp_accept K S fw k = Inr (conn, fw', k') \<longrightarrow> fw_fd conn = 0"
    using tcp_accept_fd [OF _ assms(1)] assms(3) by fastforce
  have "fw_fd (register_read fw) = fw_fd fw" "would_block (register_read fw) r"
    using assms(2) by (simp_all add: register_read_def would_block_def)
  then show "tcp_accept K S fw k =
           bind_result (new_fd_wrapper K 0 k1) (\<lambda>(conn, k).
           bind_result (tcp_socket_of_fd K S conn k) (\<lambda>(conn, k). Inr (conn, register_read fw, k)))"
    using assms(1,3) unfolding tcp_accept_def Let_def fd_check_system_call_def by simp
qed

text \<open>An example: nobody connects, and descriptor 0 is a TCP socket, as under \<open>inetd\<close>.\<close>

definition lonely_api :: "bytes socket_api" where
  "lonely_api =
     \<lparr>sa_socket = (\<lambda>d t p k. (k, \<lparr>sr_value = 5, sr_errno = 0\<rparr>)),
      sa_getsockopt = (\<lambda>fd l opt v k. (k, \<lparr>sr_value = 0, sr_errno = 0\<rparr>,
         (if opt = SO_DOMAIN then int AF_INET else if opt = SO_TYPE then SOCK_STREAM
          else if opt = SO_PROTOCOL then IPPROTO_TCP else 0), sizeof_int)),
      sa_setsockopt = (\<lambda>fd l opt v k. (k, \<lparr>sr_value = 0, sr_errno = 0\<rparr>)),
      sa_getsockname = (\<lambda>fd k. (k, \<lparr>sr_value = 0, sr_errno = 0\<rparr>, sockaddr_in 1 1, 16)),
      sa_getpeername = (\<lambda>fd k. (k, \<lparr>sr_value = 0, sr_errno = 0\<rparr>, sockaddr_in 2 2, 16)),
      sa_bind = (\<lambda>fd a k. (k, \<lparr>sr_value = 0, sr_errno = 0\<rparr>)),
      sa_connect = (\<lambda>fd a k. (k, \<lparr>sr_value = 0, sr_errno = 0\<rparr>)),
      sa_shutdown = (\<lambda>fd how k. (k, \<lparr>sr_value = 0, sr_errno = 0\<rparr>)),
      sa_recvfrom = (\<lambda>fd n f k. (k, \<lparr>sr_value = -1, sr_errno = EAGAIN\<rparr>, [], replicate 128 0, 128)),
      sa_sendto = (\<lambda>fd p a k. (k, \<lparr>sr_value = 0, sr_errno = 0\<rparr>)),
      sa_send = (\<lambda>fd p k. (k, \<lparr>sr_value = 0, sr_errno = 0\<rparr>)),
      sa_listen = (\<lambda>fd n k. (k, \<lparr>sr_value = 0, sr_errno = 0\<rparr>)),
      sa_accept = (\<lambda>fd k. (k, \<lparr>sr_value = -1, sr_errno = EAGAIN\<rparr>))\<rparr>"

theorem tcp_accept_takes_descriptor_0_witness:
  "\<exists>conn. tcp_accept queue_kernel lonely_api queue_fd [] = Inr (conn, register_read queue_fd, []) \<and>
          fw_fd conn = 0"
proof -
  have "sa_accept lonely_api (fw_fd queue_fd) [] = ([], \<lparr>sr_value = -1, sr_errno = EAGAIN\<rparr>)"
    by (simp add: lonely_api_def)
  moreover have "would_block queue_fd \<lparr>sr_value = -1, sr_errno = EAGAIN\<rparr>"
    by (simp add: would_block_def queue_fd_def)
  moreover have "sr_value \<lparr>sr_value = -1, sr_errno = EAGAIN\<rparr> < 0" by simp
  ultimately have ab: "tcp_accept queue_kernel lonely_api queue_fd [] =
           bind_result (new_fd_wrapper queue_kernel 0 []) (\<lambda>(conn, k).
           bind_result (tcp_socket_of_fd queue_kernel lonely_api conn k)
             (\<lambda>(conn, k). Inr (conn, register_read queue_fd, k))) \<and>
         (\<forall>conn fw' k'. tcp_accept queue_kernel lonely_api queue_fd [] = Inr (conn, fw', k') \<longrightarrow> fw_fd conn = 0)"
    by (rule tcp_accept_takes_descriptor_0)
  note a = conjunct1 [OF ab] and b = conjunct2 [OF ab]
  have "k_getfl queue_kernel 0 [] = ([], \<lparr>sr_value = 2048, sr_errno = 0\<rparr>)" by (simp add: queue_kernel_def)
  then obtain conn where c: "new_fd_wrapper queue_kernel 0 [] = Inr (conn, [])"
    by (simp add: new_fd_wrapper_def fd_check_system_call_def)
  have opt: "sa_getsockopt lonely_api fd l opt v k = (k, \<lparr>sr_value = 0, sr_errno = 0\<rparr>,
         (if opt = SO_DOMAIN then int AF_INET else if opt = SO_TYPE then SOCK_STREAM
          else if opt = SO_PROTOCOL then IPPROTO_TCP else 0), sizeof_int)" for fd l opt v k
    by (simp add: lonely_api_def)
  have "tcp_socket_of_fd queue_kernel lonely_api conn [] = Inr (conn, [])"
    by (simp add: tcp_socket_of_fd_def socket_of_fd_def verify_option_def socket_getsockopt_def
        opt fd_check_system_call_def SO_DOMAIN_def SO_TYPE_def SO_PROTOCOL_def)
  with a c have "tcp_accept queue_kernel lonely_api queue_fd [] = Inr (conn, register_read queue_fd, [])" by simp
  with b show ?thesis by blast
qed

end
