(* ===== verification/Printing.thy ===== *)
theory Printing
  imports Ethernet Tcp_Over_Ip
begin

text \<open>
  The textual forms of Ethernet addresses, Ethernet headers, ARP messages and IPv4 headers
  (the \<open>to_string\<close> functions of \<open>util/ethernet_header.cc\<close>, \<open>util/arp_message.cc\<close> and
  \<open>util/ipv4_header.cc\<close>).
\<close>

subsection \<open>Hexadecimal numbers\<close>

definition hex_digit :: "nat \<Rightarrow> char" where
  "hex_digit n = (if n < 10 then char_of (48 + n) else char_of (87 + n))"

fun hexadecimal :: "nat \<Rightarrow> string" where
  "hexadecimal n =
     (if n < 16 then [hex_digit n] else hexadecimal (n div 16) @ [hex_digit (n mod 16)])"

declare hexadecimal.simps [simp del]

text \<open>\<open>width( 2 )\<close> and \<open>setfill( '0' )\<close>.\<close>

definition pad2 :: "string \<Rightarrow> string" where
  "pad2 s = replicate (2 - length s) (CHR ''0'') @ s"

subsection \<open>The textual forms\<close>

fun ethernet_address_to_string :: "ethernet_address \<Rightarrow> string" where
  "ethernet_address_to_string [] = []"
| "ethernet_address_to_string [b] = pad2 (hexadecimal (unat b))"
| "ethernet_address_to_string (b # bs) =
     pad2 (hexadecimal (unat b)) @ '':'' @ ethernet_address_to_string bs"

definition ethernet_header_to_string :: "ethernet_header \<Rightarrow> string" where
  "ethernet_header_to_string h =
     ''dst='' @ ethernet_address_to_string (eh_dst h) @
     '', src='' @ ethernet_address_to_string (eh_src h) @ '', type='' @
     (if eh_type h = TYPE_IPv4 then ''IPv4''
      else if eh_type h = TYPE_ARP then ''ARP''
      else ''[unknown type '' @ hexadecimal (unat (eh_type h)) @ ''!]'')"

definition arp_to_string :: "net_lib \<Rightarrow> arp_message \<Rightarrow> string" where
  "arp_to_string L m =
     (let opcode_str = ''(unknown type)'';
          opcode_str = (if arp_opcode m = OPCODE_REQUEST then ''REQUEST'' else opcode_str);
          opcode_str = (if arp_opcode m = OPCODE_REPLY then ''REPLY'' else opcode_str)
      in ''opcode='' @ opcode_str @ '', sender='' @ ethernet_address_to_string (arp_sender_ethernet_address m) @
         ''/'' @ nl_inet_ntoa L (arp_sender_ip_address m) @
         '', target='' @ ethernet_address_to_string (arp_target_ethernet_address m) @
         ''/'' @ nl_inet_ntoa L (arp_target_ip_address m))"

text \<open>The version is printed in hexadecimal, and the rest in decimal.\<close>

definition ipv4_to_string :: "net_lib \<Rightarrow> ipv4_header \<Rightarrow> string" where
  "ipv4_to_string L h =
     ''IPv'' @ hexadecimal (unat (ip_ver h)) @ '', '' @
     ''len='' @ decimal (unat (ip_len h)) @ '', '' @
     ''protocol='' @ decimal (unat (ip_proto h)) @ '', '' @
     (if unat (ip_ttl h) \<ge> 10 then '''' else ''ttl='' @ decimal (unat (ip_ttl h)) @ '', '') @
     ''src='' @ nl_inet_ntoa L (ip_src h) @ '', '' @
     ''dst='' @ nl_inet_ntoa L (ip_dst h)"

subsection \<open>The text identifies what was printed\<close>

definition hex_value :: "string \<Rightarrow> nat" where
  "hex_value s = foldl (\<lambda>n c. 16 * n + (if of_char c < (58 :: nat) then of_char c - 48 else of_char c - 87)) 0 s"

lemma hex_digit_value:
  "n < 16 \<Longrightarrow> (if of_char (hex_digit n) < (58 :: nat) then of_char (hex_digit n) - 48 else of_char (hex_digit n) - 87) = n"
  by (simp add: hex_digit_def of_char_of)

lemma hex_value_hexadecimal: "hex_value (hexadecimal n) = n"
proof (induction n rule: hexadecimal.induct)
  case (1 n)
  show ?case
  proof (cases "n < 16")
    case True
    then show ?thesis by (subst hexadecimal.simps) (simp add: hex_value_def hex_digit_value del: One_nat_def)
  next
    case False
    then have "hex_value (hexadecimal (n div 16)) = n div 16" using 1 by simp
    then show ?thesis
      using False hex_digit_value [of "n mod 16"]
      by (subst hexadecimal.simps) (simp add: hex_value_def split del: if_split)
  qed
qed

lemma hex_value_pad2: "hex_value (pad2 s) = hex_value s"
proof -
  have "foldl (\<lambda>n c. 16 * n + (if of_char c < (58 :: nat) then of_char c - 48 else of_char c - 87)) 0
      (replicate k (CHR ''0'')) = (0 :: nat)" for k
    by (induction k) simp_all
  then show ?thesis by (simp add: hex_value_def pad2_def)
qed

lemma length_hexadecimal: "n < 256 \<Longrightarrow> length (hexadecimal n) \<le> 2 \<and> 0 < length (hexadecimal n)"
proof -
  assume "n < 256"
  then have "n div 16 < 16" by (intro less_mult_imp_div_less) simp
  then show ?thesis
    by (subst (1 2) hexadecimal.simps) (simp add: hexadecimal.simps [of "n div 16"])
qed

lemma length_pad2: "length (pad2 (hexadecimal (unat (b :: byte)))) = 2"
  using length_hexadecimal [OF u8_less [of b]] by (simp add: pad2_def)

lemma pad2_inj: "pad2 (hexadecimal (unat (a :: byte))) = pad2 (hexadecimal (unat b)) \<longleftrightarrow> a = b"
proof
  assume "pad2 (hexadecimal (unat a)) = pad2 (hexadecimal (unat b))"
  then have "hex_value (pad2 (hexadecimal (unat a))) = hex_value (pad2 (hexadecimal (unat b)))" by simp
  then show "a = b" unfolding hex_value_pad2 hex_value_hexadecimal word_unat_eq_iff .
qed simp

lemma ethernet_address_to_string_inj:
  "length a = length b \<Longrightarrow>
     ethernet_address_to_string a @ s = ethernet_address_to_string b @ t \<longleftrightarrow> a = b \<and> s = t"
proof (induction a arbitrary: b rule: ethernet_address_to_string.induct)
  case 1
  then show ?case by simp
next
  case (2 x)
  then obtain y where "b = [y]" by (cases b) auto
  then show ?case by (auto simp: append_eq_append_conv length_pad2 pad2_inj)
next
  case (3 x x1 xs)
  then obtain y y1 ys where b: "b = y # y1 # ys" by (cases b; cases "tl b") auto
  have "ethernet_address_to_string (x1 # xs) @ s = ethernet_address_to_string (y1 # ys) @ t \<longleftrightarrow>
      x1 # xs = y1 # ys \<and> s = t" using 3 b by (intro 3(1)) simp
  then show ?case unfolding b by (auto simp: append_eq_append_conv length_pad2 pad2_inj)
qed

lemma ethernet_header_to_string_inj:
  assumes "length (eh_dst h) = length (eh_dst g)" and "length (eh_src h) = length (eh_src g)"
  shows "ethernet_header_to_string h = ethernet_header_to_string g \<longleftrightarrow> h = g"
proof
  assume eq: "ethernet_header_to_string h = ethernet_header_to_string g"
  let ?t = "\<lambda>h. (if eh_type h = TYPE_IPv4 then ''IPv4'' else if eh_type h = TYPE_ARP then ''ARP''
      else ''[unknown type '' @ hexadecimal (unat (eh_type h)) @ ''!]'')"
  have dst: "eh_dst h = eh_dst g" and "'', src='' @ ethernet_address_to_string (eh_src h) @ '', type='' @ ?t h =
      '', src='' @ ethernet_address_to_string (eh_src g) @ '', type='' @ ?t g"
    using eq unfolding ethernet_header_to_string_def same_append_eq
    by (simp_all only: ethernet_address_to_string_inj [OF assms(1)] same_append_eq)
  then have src: "eh_src h = eh_src g" and "'', type='' @ ?t h = '', type='' @ ?t g"
    unfolding same_append_eq by (simp_all only: ethernet_address_to_string_inj [OF assms(2)] same_append_eq)
  then have t: "?t h = ?t g" unfolding same_append_eq by blast
  have inj: "hexadecimal m = hexadecimal n \<longleftrightarrow> m = n" for m n
    by (metis hex_value_hexadecimal)
  have "eh_type h = eh_type g" using t by (auto simp: inj word_unat_eq_iff split: if_splits)
  with dst src show "h = g" by (cases h; cases g) simp
qed simp

end
