(* ===== verification/Tcp_Minnow_Socket.thy ===== *)
theory Tcp_Minnow_Socket
  imports Tcp_Peer Adapters Event_Loop Socket
begin

text \<open>
  The TCP socket of \<open>util/tcp_minnow_socket.hh\<close> and \<open>util/tcp_minnow_socket.cc\<close>: a TCP peer,
  a datagram adapter and a pair of connected local sockets, driven by an event loop with
  four rules.

  The state of the socket is the program state of the event loop; the closures of the
  rules are functions on it.  The adapter (the template parameter of the class) is a record
  of operations.  The two threads of the class are not modelled as such: what the owner's
  thread does to the shared descriptors, or to the abort flag, happens in the system calls,
  which may change the state.  A loop that does not end is the value \<open>None\<close>, and
  \<open>Diverges\<close> inside a closure.
\<close>

subsection \<open>State\<close>

record ('a, 'k) minnow =
  sk_fd :: fd_wrapper
  sk_thread_data :: fd_wrapper
  sk_adapter :: 'a
  sk_tcp :: "tcp_peer option"
  sk_outgoing :: "tcp_segment list"
  sk_abort :: bool
  sk_inbound_shutdown :: bool
  sk_outbound_shutdown :: bool
  sk_fully_acked :: bool
  sk_kernel :: 'k

record ('a, 'k) adapter_ops =
  ao_read :: "'a \<Rightarrow> 'k \<Rightarrow> ('a \<times> 'k \<times> tcp_segment option) result"
  ao_write :: "tcp_segment \<Rightarrow> 'a \<Rightarrow> 'k \<Rightarrow> (tcp_segment \<times> 'a \<times> 'k) result"
  ao_tick :: "u64 \<Rightarrow> 'a \<Rightarrow> 'k \<Rightarrow> ('a \<times> 'k) result"
  ao_base :: "'a \<Rightarrow> fd_adapter"
  ao_set_base :: "fd_adapter \<Rightarrow> 'a \<Rightarrow> 'a"
  ao_fd :: "'a \<Rightarrow> fd_wrapper"

text \<open>
  What the class uses: the operating system, the C library, the adapter, \<open>poll\<close> on the
  state of the socket, the clock and \<open>socketpair\<close>.
\<close>

record ('a, 'k) minnow_env =
  en_kernel :: "'k kernel"
  en_sockets :: "'k socket_api"
  en_lib :: net_lib
  en_ops :: "('a, 'k) adapter_ops"
  en_poll :: "('a, 'k) minnow poll_api"
  en_clock :: "'k \<Rightarrow> 'k \<times> u64"
  en_socketpair :: "int \<Rightarrow> 'k \<Rightarrow> 'k \<times> sys_ret \<times> int \<times> int"

abbreviation sk_config :: "('a, 'k) minnow_env \<Rightarrow> ('a, 'k) minnow \<Rightarrow> fd_adapter_config" where
  "sk_config E w \<equiv> fa_cfg (ao_base (en_ops E) (sk_adapter w))"

text \<open>The adapters the class is instantiated with.\<close>

definition tun_ops :: "'k kernel \<Rightarrow> net_lib \<Rightarrow> (tun_adapter, 'k) adapter_ops" where
  "tun_ops K L =
     \<lparr>ao_read = tun_read K L, ao_write = tun_write K L, ao_tick = (\<lambda>ms tu k. Inr (tu, k)),
      ao_base = tu_base, ao_set_base = (\<lambda>fa tu. tu\<lparr>tu_base := fa\<rparr>), ao_fd = tu_tun\<rparr>"

definition ethernet_ops :: "'k kernel \<Rightarrow> net_lib \<Rightarrow> (ethernet_adapter, 'k) adapter_ops" where
  "ethernet_ops K L =
     \<lparr>ao_read = (\<lambda>et k. returned (ethernet_read K L et k)),
      ao_write = (\<lambda>seg et k. returned (ethernet_write K L seg et k)),
      ao_tick = (\<lambda>ms et k. returned (ethernet_tick K ms et k)),
      ao_base = et_base, ao_set_base = (\<lambda>fa et. et\<lparr>et_base := fa\<rparr>), ao_fd = et_tap\<rparr>"

definition TCP_TICK_MS :: int where "TCP_TICK_MS = 10"

text \<open>\<open>operator->\<close> of the optional peer.\<close>

definition the_tcp :: "('a, 'k) minnow \<Rightarrow> tcp_peer result" where
  "the_tcp w = (case sk_tcp w of Some p \<Rightarrow> Inr p | None \<Rightarrow> Inl (Undefined ''empty optional''))"

definition on_tcp :: "(tcp_peer \<Rightarrow> tcp_peer result) \<Rightarrow> ('a, 'k) minnow \<Rightarrow> ('a, 'k) minnow result" where
  "on_tcp f w = bind_result (the_tcp w) (\<lambda>p. bind_result (f p) (\<lambda>p. Inr (w\<lparr>sk_tcp := Some p\<rparr>)))"

text \<open>
  The messages to \<open>cerr\<close> name the destination, and \<open>Address::to_string\<close> may throw.
\<close>

definition debug_destination :: "('a, 'k) minnow_env \<Rightarrow> fd_adapter_config \<Rightarrow> string result" where
  "debug_destination E cfg =
     address_to_string (nl_gni (en_lib E)) (nl_gai_message (en_lib E)) (fc_destination cfg)"

subsection \<open>Collecting segments\<close>

partial_function (option) collect_loop ::
  "tcp_peer \<Rightarrow> tcp_segment list \<Rightarrow> (tcp_peer \<times> tcp_segment list) result option" where
  "collect_loop p outgoing =
     (case peer_maybe_send p of
        None \<Rightarrow> None
      | Some (Inl e) \<Rightarrow> Some (Inl e)
      | Some (Inr (p, None)) \<Rightarrow> Some (Inr (p, outgoing))
      | Some (Inr (p, Some seg)) \<Rightarrow> collect_loop p (outgoing @ [seg]))"

definition collect_segments :: "('a, 'k) minnow \<Rightarrow> ('a, 'k) minnow result" where
  "collect_segments w =
     (case sk_tcp w of
        None \<Rightarrow> Inr w
      | Some p \<Rightarrow>
          bind_result (returned (collect_loop p (sk_outgoing w))) (\<lambda>(p, outgoing).
          Inr (w\<lparr>sk_tcp := Some p, sk_outgoing := outgoing\<rparr>)))"

subsection \<open>Rule 1: a segment from the network\<close>

definition network_interest :: "('a, 'k) minnow \<Rightarrow> bool result" where
  "network_interest w = bind_result (the_tcp w) (\<lambda>p. Inr (peer_active p))"

definition network_callback :: "('a, 'k) minnow_env \<Rightarrow> ('a, 'k) minnow \<Rightarrow> ('a, 'k) minnow result" where
  "network_callback E w =
     bind_result (ao_read (en_ops E) (sk_adapter w) (sk_kernel w)) (\<lambda>(a, k, seg).
     let w = w\<lparr>sk_adapter := a, sk_kernel := k\<rparr>
     in bind_result (case seg of
                       None \<Rightarrow> Inr w
                     | Some seg \<Rightarrow> bind_result (on_tcp (peer_receive seg) w) collect_segments) (\<lambda>w.
        if \<not> fw_eof (sk_thread_data w) then Inr w
        else case sk_tcp w of
               None \<Rightarrow> Inl (Throws ''bad optional access'')
             | Some p \<Rightarrow>
                 if sequence_numbers_in_flight (pe_sender p) = 0 \<and> \<not> sk_fully_acked w
                 then bind_result (debug_destination E (sk_config E w)) (\<lambda>_.
                      Inr (w\<lparr>sk_fully_acked := True\<rparr>))
                 else Inr w))"

subsection \<open>Rule 2: bytes from the application\<close>

definition outbound_interest :: "('a, 'k) minnow \<Rightarrow> bool result" where
  "outbound_interest w =
     bind_result (the_tcp w) (\<lambda>p.
     Inr (peer_active p \<and> \<not> sk_outbound_shutdown w \<and> available_capacity (pe_outbound p) > 0))"

definition outbound_cancel :: "('a, 'k) minnow \<Rightarrow> ('a, 'k) minnow result" where
  "outbound_cancel w =
     bind_result (on_tcp (\<lambda>p. Inr (p\<lparr>pe_outbound := writer_close (pe_outbound p)\<rparr>)) w) (\<lambda>w.
     Inr (w\<lparr>sk_outbound_shutdown := True\<rparr>))"

definition outbound_callback :: "('a, 'k) minnow_env \<Rightarrow> ('a, 'k) minnow \<Rightarrow> ('a, 'k) minnow result" where
  "outbound_callback E w =
     bind_result (the_tcp w) (\<lambda>p.
     let data = replicate (unat (available_capacity (pe_outbound p))) 0
     in bind_result (fd_read (en_kernel E) data (sk_thread_data w) (sk_kernel w)) (\<lambda>(data, fw, k).
        let w = w\<lparr>sk_thread_data := fw, sk_kernel := k\<rparr>
        in bind_result (on_tcp (\<lambda>p. Inr (p\<lparr>pe_outbound := writer_push data (pe_outbound p)\<rparr>)) w) (\<lambda>w.
           bind_result (if fw_eof (sk_thread_data w)
                        then bind_result (outbound_cancel w) (\<lambda>w.
                             bind_result (debug_destination E (sk_config E w)) (\<lambda>_. Inr w))
                        else Inr w) (\<lambda>w.
           bind_result (on_tcp (\<lambda>p. returned (peer_push p)) w) collect_segments))))"

subsection \<open>Rule 3: bytes to the application\<close>

definition inbound_interest :: "('a, 'k) minnow \<Rightarrow> bool result" where
  "inbound_interest w =
     bind_result (the_tcp w) (\<lambda>p.
     Inr (reader_bytes_buffered (pe_inbound p) \<noteq> 0 \<or>
          (reader_is_finished (pe_inbound p) \<or> reader_has_error (pe_inbound p)) \<and> \<not> sk_inbound_shutdown w))"

definition inbound_callback :: "('a, 'k) minnow_env \<Rightarrow> ('a, 'k) minnow \<Rightarrow> ('a, 'k) minnow result" where
  "inbound_callback E w =
     bind_result (the_tcp w) (\<lambda>p.
     bind_result
       (if reader_bytes_buffered (pe_inbound p) \<noteq> 0
        then bind_result (fd_write (en_kernel E) (reader_peek (pe_inbound p)) (sk_thread_data w) (sk_kernel w))
               (\<lambda>(bytes_written, fw, k).
                Inr (p\<lparr>pe_inbound := reader_pop (of_nat bytes_written) (pe_inbound p)\<rparr>, fw, k))
        else Inr (p, sk_thread_data w, sk_kernel w)) (\<lambda>(p, fw, k).
     let w = w\<lparr>sk_tcp := Some p, sk_thread_data := fw, sk_kernel := k\<rparr>
     in if reader_is_finished (pe_inbound p) \<or> reader_has_error (pe_inbound p)
        then bind_result (socket_shutdown (en_kernel E) (en_sockets E) SHUT_WR fw k) (\<lambda>(fw, k).
             bind_result (debug_destination E (sk_config E w)) (\<lambda>_.
             Inr (w\<lparr>sk_thread_data := fw, sk_kernel := k, sk_inbound_shutdown := True\<rparr>)))
        else Inr w))"

subsection \<open>Rule 4: segments to the network\<close>

definition sending_interest :: "('a, 'k) minnow \<Rightarrow> bool result" where
  "sending_interest w = Inr (sk_outgoing w \<noteq> [])"

fun write_segments ::
  "('a, 'k) adapter_ops \<Rightarrow> tcp_segment list \<Rightarrow> 'a \<Rightarrow> 'k \<Rightarrow> ('a \<times> 'k) result" where
  "write_segments ops [] a k = Inr (a, k)"
| "write_segments ops (seg # segs) a k =
     bind_result (ao_write ops seg a k) (\<lambda>(seg, a, k). write_segments ops segs a k)"

definition sending_callback :: "('a, 'k) minnow_env \<Rightarrow> ('a, 'k) minnow \<Rightarrow> ('a, 'k) minnow result" where
  "sending_callback E w =
     bind_result (write_segments (en_ops E) (sk_outgoing w) (sk_adapter w) (sk_kernel w)) (\<lambda>(a, k).
     Inr (w\<lparr>sk_adapter := a, sk_kernel := k, sk_outgoing := []\<rparr>))"

subsection \<open>The event loop of a socket\<close>

type_synonym ('a, 'k) minnow_loop = "('a, 'k) minnow event_loop"
type_synonym ('a, 'k) minnow_shared = "('a, 'k) minnow shared"

text \<open>A closure of a rule acts on the socket in the state of the program.\<close>

definition as_callback ::
  "(('a, 'k) minnow \<Rightarrow> ('a, 'k) minnow result) \<Rightarrow> ('a, 'k) minnow callback" where
  "as_callback f sh = bind_result (f (sh_world sh)) (\<lambda>w. Inr (sh\<lparr>sh_world := w\<rparr>))"

definition as_interest :: "(('a, 'k) minnow \<Rightarrow> bool result) \<Rightarrow> ('a, 'k) minnow interest" where
  "as_interest f sh = bind_result (f (sh_world sh)) (\<lambda>b. Inr (sh, b))"

definition adapter_fd :: "('a, 'k) minnow_env \<Rightarrow> ('a, 'k) minnow_shared \<Rightarrow> fd_wrapper" where
  "adapter_fd E sh = ao_fd (en_ops E) (sk_adapter (sh_world sh))"

definition thread_fd :: "('a, 'k) minnow_shared \<Rightarrow> fd_wrapper" where
  "thread_fd sh = sk_thread_data (sh_world sh)"

definition add_tcp_rules ::
  "('a, 'k) minnow_env \<Rightarrow> ('a, 'k) minnow_loop \<Rightarrow> ('a, 'k) minnow_loop result" where
  "add_tcp_rules E el =
     bind_result (add_named_fd_rule ''receive TCP segment from the network'' (adapter_fd E) In
       (as_callback (network_callback E)) (as_interest network_interest)
       default_cancel default_recover el) (\<lambda>(el, _).
     bind_result (add_named_fd_rule ''push bytes to TCPPeer'' thread_fd In
       (as_callback (outbound_callback E)) (as_interest outbound_interest)
       (as_callback outbound_cancel) default_recover el) (\<lambda>(el, _).
     bind_result (add_named_fd_rule ''read bytes from inbound stream'' thread_fd Out
       (as_callback (inbound_callback E)) (as_interest inbound_interest)
       default_cancel default_recover el) (\<lambda>(el, _).
     bind_result (add_named_fd_rule ''send TCP segment'' (adapter_fd E) Out
       (as_callback (sending_callback E)) (as_interest sending_interest)
       default_cancel default_recover el) (\<lambda>(el, _). Inr el))))"

definition initialize_tcp ::
  "('a, 'k) minnow_env \<Rightarrow> tcp_config \<Rightarrow> u32 \<Rightarrow> ('a, 'k) minnow_loop \<Rightarrow> ('a, 'k) minnow \<Rightarrow>
   (('a, 'k) minnow_loop \<times> ('a, 'k) minnow) result" where
  "initialize_tcp E config random el w =
     (let w = w\<lparr>sk_tcp := Some (new_tcp_peer config random)\<rparr>
      in bind_result (add_tcp_rules E el) (\<lambda>el. Inr (el, w)))"

text \<open>What \<open>_tcp_loop\<close> does after an event: the peer and the adapter learn the time.\<close>

definition tick_all ::
  "('a, 'k) minnow_env \<Rightarrow> tcp_peer \<Rightarrow> u64 \<Rightarrow> ('a, 'k) minnow \<Rightarrow> (u64 \<times> ('a, 'k) minnow) result" where
  "tick_all E p base_time w =
     (let (k, next_time) = en_clock E (sk_kernel w);
          w = w\<lparr>sk_kernel := k, sk_tcp := Some (peer_tick (next_time - base_time) p)\<rparr>
      in bind_result (collect_segments w) (\<lambda>w.
         bind_result (ao_tick (en_ops E) (next_time - base_time) (sk_adapter w) (sk_kernel w)) (\<lambda>(a, k).
         Inr (next_time, w\<lparr>sk_adapter := a, sk_kernel := k\<rparr>))))"

text \<open>One iteration: whether the loop goes on, and the new base time.\<close>

definition tcp_iteration ::
  "('a, 'k) minnow_env \<Rightarrow> u64 \<Rightarrow> ('a, 'k) minnow_loop \<Rightarrow> ('a, 'k) minnow_shared \<Rightarrow>
   (bool \<times> u64 \<times> ('a, 'k) minnow_loop \<times> ('a, 'k) minnow_shared) result" where
  "tcp_iteration E base_time el sh =
     bind_result (wait_next_event (en_poll E) TCP_TICK_MS el sh) (\<lambda>(el, sh, ret).
     if ret = Exit \<or> sk_abort (sh_world sh) then Inr (False, base_time, el, sh)
     else case sk_tcp (sh_world sh) of
            None \<Rightarrow> Inl (Throws ''_tcp_loop entered before TCPPeer initialized'')
          | Some p \<Rightarrow>
              if peer_active p
              then bind_result (tick_all E p base_time (sh_world sh)) (\<lambda>(base_time, w).
                   Inr (True, base_time, el, sh\<lparr>sh_world := w\<rparr>))
              else Inr (True, base_time, el, sh))"

partial_function (option) tcp_loop_from ::
  "('a, 'k) minnow_env \<Rightarrow> (('a, 'k) minnow \<Rightarrow> bool result) \<Rightarrow> u64 \<Rightarrow> ('a, 'k) minnow_loop \<Rightarrow>
   ('a, 'k) minnow_shared \<Rightarrow> (('a, 'k) minnow_loop \<times> ('a, 'k) minnow_shared) result option" where
  "tcp_loop_from E condition base_time el sh =
     (case condition (sh_world sh) of
        Inl e \<Rightarrow> Some (Inl e)
      | Inr go_on \<Rightarrow>
          if \<not> go_on then Some (Inr (el, sh))
          else (case tcp_iteration E base_time el sh of
             Inl e \<Rightarrow> Some (Inl e)
           | Inr (again, base_time, el, sh) \<Rightarrow>
               if again then tcp_loop_from E condition base_time el sh else Some (Inr (el, sh))))"

definition tcp_loop ::
  "('a, 'k) minnow_env \<Rightarrow> (('a, 'k) minnow \<Rightarrow> bool result) \<Rightarrow> ('a, 'k) minnow_loop \<Rightarrow>
   ('a, 'k) minnow_shared \<Rightarrow> (('a, 'k) minnow_loop \<times> ('a, 'k) minnow_shared) result option" where
  "tcp_loop E condition el sh =
     (let (k, base_time) = en_clock E (sk_kernel (sh_world sh));
          sh = sh\<lparr>sh_world := (sh_world sh)\<lparr>sk_kernel := k\<rparr>\<rparr>
      in tcp_loop_from E condition base_time el sh)"

subsection \<open>Construction\<close>

definition new_minnow_of_pair ::
  "('a, 'k) minnow_env \<Rightarrow> fd_wrapper \<times> fd_wrapper \<Rightarrow> 'a \<Rightarrow> 'k \<Rightarrow> ('a, 'k) minnow result" where
  "new_minnow_of_pair E data_socket_pair datagram_interface k =
     bind_result (local_stream_socket_of_fd (en_kernel E) (en_sockets E) (fst data_socket_pair) k) (\<lambda>(fd, k).
     bind_result (local_stream_socket_of_fd (en_kernel E) (en_sockets E) (snd data_socket_pair) k) (\<lambda>(thread_data, k).
     bind_result (fd_set_blocking (en_kernel E) False thread_data k) (\<lambda>(thread_data, k).
     bind_result (fd_set_blocking (en_kernel E) False fd k) (\<lambda>(fd, k).
     Inr \<lparr>sk_fd = fd, sk_thread_data = thread_data, sk_adapter = datagram_interface, sk_tcp = None,
          sk_outgoing = [], sk_abort = False, sk_inbound_shutdown = False,
          sk_outbound_shutdown = False, sk_fully_acked = False, sk_kernel = k\<rparr>))))"

definition socket_pair_helper ::
  "('a, 'k) minnow_env \<Rightarrow> int \<Rightarrow> 'k \<Rightarrow> ((fd_wrapper \<times> fd_wrapper) \<times> 'k) result" where
  "socket_pair_helper E type k =
     (case en_socketpair E type k of (k, r, fd0, fd1) \<Rightarrow>
        bind_result (check_system_call (k_strerror (en_kernel E)) ''socketpair'' r) (\<lambda>_.
        bind_result (new_fd_wrapper (en_kernel E) fd0 k) (\<lambda>(a, k).
        bind_result (new_fd_wrapper (en_kernel E) fd1 k) (\<lambda>(b, k). Inr ((a, b), k)))))"

definition new_minnow :: "('a, 'k) minnow_env \<Rightarrow> 'a \<Rightarrow> 'k \<Rightarrow> ('a, 'k) minnow result" where
  "new_minnow E datagram_interface k =
     bind_result (socket_pair_helper E SOCK_STREAM k) (\<lambda>(pair, k).
     new_minnow_of_pair E pair datagram_interface k)"

subsection \<open>Connecting\<close>

definition set_adapter_config ::
  "('a, 'k) minnow_env \<Rightarrow> fd_adapter_config \<Rightarrow> ('a, 'k) minnow \<Rightarrow> ('a, 'k) minnow" where
  "set_adapter_config E c_ad w =
     w\<lparr>sk_adapter := ao_set_base (en_ops E) (set_config c_ad (ao_base (en_ops E) (sk_adapter w))) (sk_adapter w)\<rparr>"

definition connecting :: "('a, 'k) minnow \<Rightarrow> bool result" where
  "connecting w =
     bind_result (the_tcp w) (\<lambda>p. Inr (sequence_numbers_in_flight (pe_sender p) = 1))"

text \<open>What \<open>connect\<close> does before it enters the loop.\<close>

definition start_connect ::
  "('a, 'k) minnow_env \<Rightarrow> tcp_config \<Rightarrow> fd_adapter_config \<Rightarrow> u32 \<Rightarrow> ('a, 'k) minnow_loop \<Rightarrow>
   ('a, 'k) minnow \<Rightarrow> (('a, 'k) minnow_loop \<times> ('a, 'k) minnow) result" where
  "start_connect E c_tcp c_ad random el w =
     (if sk_tcp w \<noteq> None then Inl (Throws ''connect() with TCPConnection already initialized'')
      else bind_result (initialize_tcp E c_tcp random el w) (\<lambda>(el, w).
        let w = set_adapter_config E c_ad w
        in bind_result (debug_destination E c_ad) (\<lambda>_.
           bind_result (if sk_tcp w = None then Inl (Throws ''TCPPeer not successfully initialized'')
                        else on_tcp (\<lambda>p. returned (peer_push p)) w) (\<lambda>w.
           bind_result (collect_segments w) (\<lambda>w.
           bind_result (connecting w) (\<lambda>one_in_flight.
           if one_in_flight then Inr (el, w)
           else Inl (Throws (''After TCPConnection::connect(), expected sequence_numbers_in_flight() == 1'')))))))) "

text \<open>The thread that \<open>connect\<close> starts at its end runs \<open>tcp_main\<close>.\<close>

definition minnow_connect ::
  "('a, 'k) minnow_env \<Rightarrow> tcp_config \<Rightarrow> fd_adapter_config \<Rightarrow> u32 \<Rightarrow> ('a, 'k) minnow_loop \<Rightarrow>
   ('a, 'k) minnow_shared \<Rightarrow> (('a, 'k) minnow_loop \<times> ('a, 'k) minnow_shared) result option" where
  "minnow_connect E c_tcp c_ad random el sh =
     (case start_connect E c_tcp c_ad random el (sh_world sh) of
        Inl e \<Rightarrow> Some (Inl e)
      | Inr (el, w) \<Rightarrow>
          map_option (\<lambda>r. bind_result r (\<lambda>(el, sh).
              bind_result (the_tcp (sh_world sh)) (\<lambda>_.
              bind_result (debug_destination E c_ad) (\<lambda>_. Inr (el, sh)))))
            (tcp_loop E connecting el (sh\<lparr>sh_world := w\<rparr>)))"

definition accepting :: "('a, 'k) minnow \<Rightarrow> bool result" where
  "accepting w =
     bind_result (the_tcp w) (\<lambda>p.
     Inr (\<not> peer_has_ackno p \<or> sequence_numbers_in_flight (pe_sender p) \<noteq> 0))"

definition minnow_listen_and_accept ::
  "('a, 'k) minnow_env \<Rightarrow> tcp_config \<Rightarrow> fd_adapter_config \<Rightarrow> u32 \<Rightarrow> ('a, 'k) minnow_loop \<Rightarrow>
   ('a, 'k) minnow_shared \<Rightarrow> (('a, 'k) minnow_loop \<times> ('a, 'k) minnow_shared) result option" where
  "minnow_listen_and_accept E c_tcp c_ad random el sh =
     (if sk_tcp (sh_world sh) \<noteq> None
      then Some (Inl (Throws ''listen_and_accept() with TCPConnection already initialized''))
      else case initialize_tcp E c_tcp random el (sh_world sh) of
             Inl e \<Rightarrow> Some (Inl e)
           | Inr (el, w) \<Rightarrow>
               (let w = set_adapter_config E c_ad w;
                    w = w\<lparr>sk_adapter := ao_set_base (en_ops E)
                            (set_listening True (ao_base (en_ops E) (sk_adapter w))) (sk_adapter w)\<rparr>
                in map_option (\<lambda>r. bind_result r (\<lambda>(el, sh).
                     bind_result (debug_destination E (sk_config E (sh_world sh))) (\<lambda>_. Inr (el, sh))))
                     (tcp_loop E accepting el (sh\<lparr>sh_world := w\<rparr>))))"

definition tcp_main ::
  "('a, 'k) minnow_env \<Rightarrow> ('a, 'k) minnow_loop \<Rightarrow> ('a, 'k) minnow_shared \<Rightarrow>
   (('a, 'k) minnow_loop \<times> ('a, 'k) minnow_shared) result option" where
  "tcp_main E el sh =
     (if sk_tcp (sh_world sh) = None then Some (Inl (Throws ''no TCP''))
      else map_option (\<lambda>r. bind_result r (\<lambda>(el, sh).
             let w = sh_world sh
             in bind_result (socket_shutdown (en_kernel E) (en_sockets E) SHUT_RDWR (sk_fd w) (sk_kernel w)) (\<lambda>(fd, k).
                if sk_tcp w = None then Inl (Throws ''bad optional access'')
                else Inr (el, sh\<lparr>sh_world := w\<lparr>sk_fd := fd, sk_kernel := k, sk_tcp := None\<rparr>\<rparr>))))
             (tcp_loop E (\<lambda>w. Inr True) el sh))"

subsection \<open>The sockets of the applications\<close>

definition new_cs144_socket ::
  "(tun_adapter, 'k) minnow_env \<Rightarrow> 'k \<Rightarrow> (tun_adapter, 'k) minnow result" where
  "new_cs144_socket E k =
     bind_result (open_tuntap (en_kernel E) ''tun144'' True k) (\<lambda>(tun, k).
     bind_result (new_fd_adapter (en_lib E)) (\<lambda>fa.
     new_minnow E \<lparr>tu_base = fa, tu_tun = tun\<rparr> k))"

text \<open>\<open>port\<close> and \<open>random\<close> are what the random devices yield.\<close>

definition socket_config ::
  "net_lib \<Rightarrow> string \<Rightarrow> u16 \<Rightarrow> address \<Rightarrow> fd_adapter_config result" where
  "socket_config L source_ip port destination =
     bind_result (default_fd_adapter_config L) (\<lambda>cfg.
     bind_result (address_of_host (nl_gai L) (nl_gai_message L) source_ip (decimal (unat port))) (\<lambda>source.
     Inr (cfg\<lparr>fc_source := source, fc_destination := destination\<rparr>)))"

definition cs144_connect ::
  "(tun_adapter, 'k) minnow_env \<Rightarrow> address \<Rightarrow> u16 \<Rightarrow> u32 \<Rightarrow> (tun_adapter, 'k) minnow_loop \<Rightarrow>
   (tun_adapter, 'k) minnow_shared \<Rightarrow> ((tun_adapter, 'k) minnow_loop \<times> (tun_adapter, 'k) minnow_shared) result option" where
  "cs144_connect E a port random el sh =
     (let tcp_config = default_tcp_config\<lparr>cfg_rt_timeout := 100\<rparr>
      in case socket_config (en_lib E) ''169.254.144.9'' port a of
           Inl e \<Rightarrow> Some (Inl e)
         | Inr multiplexer_config \<Rightarrow> minnow_connect E tcp_config multiplexer_config random el sh)"

definition random_private_ethernet_address :: "byte list \<Rightarrow> ethernet_address" where
  "random_private_ethernet_address rnd =
     (case take 6 rnd of [] \<Rightarrow> [] | b # bs \<Rightarrow> and (or b 0x02) 0xfe # bs)"

definition new_full_stack_socket ::
  "(ethernet_adapter, 'k) minnow_env \<Rightarrow> byte list \<Rightarrow> 'k \<Rightarrow> (ethernet_adapter, 'k) minnow result" where
  "new_full_stack_socket E rnd k =
     bind_result (open_tuntap (en_kernel E) ''tap10'' False k) (\<lambda>(tap, k).
     bind_result (address_of_host (nl_gai (en_lib E)) (nl_gai_message (en_lib E)) ''169.254.10.9'' ''0'') (\<lambda>ip.
     bind_result (address_of_host (nl_gai (en_lib E)) (nl_gai_message (en_lib E)) ''169.254.10.1'' ''0'') (\<lambda>next_hop.
     bind_result (new_ethernet_adapter (en_kernel E) (en_lib E) tap
                    (random_private_ethernet_address rnd) ip next_hop k) (\<lambda>(et, k).
     new_minnow E et k))))"

definition full_stack_connect ::
  "(ethernet_adapter, 'k) minnow_env \<Rightarrow> address \<Rightarrow> u16 \<Rightarrow> u32 \<Rightarrow> (ethernet_adapter, 'k) minnow_loop \<Rightarrow>
   (ethernet_adapter, 'k) minnow_shared \<Rightarrow>
   ((ethernet_adapter, 'k) minnow_loop \<times> (ethernet_adapter, 'k) minnow_shared) result option" where
  "full_stack_connect E a port random el sh =
     (let tcp_config = default_tcp_config\<lparr>cfg_rt_timeout := 100\<rparr>
      in case socket_config (en_lib E) ''169.254.10.9'' port a of
           Inl e \<Rightarrow> Some (Inl e)
         | Inr multiplexer_config \<Rightarrow> minnow_connect E tcp_config multiplexer_config random el sh)"

subsection \<open>Collecting ends\<close>

text \<open>
  A push takes from the stream what it puts into segments, and every segment collected was
  pushed, is a retransmission or answers: \<open>left_to_send\<close> goes down with each.
\<close>

definition left_to_send :: "tcp_peer \<Rightarrow> nat" where
  "left_to_send p =
     2 * (length (stream_content (pe_outbound p)) + of_bool (\<not> ts_fin_sent (pe_sender p))) +
     length (ts_pushed (pe_sender p)) + of_bool (ts_retransmit (pe_sender p)) + of_bool (pe_need_send p)"

definition peer_open :: "tcp_peer \<Rightarrow> bool" where
  "peer_open p \<longleftrightarrow> stream_inv (pe_outbound p) \<and> ts_syn_sent (pe_sender p) \<and> ts_ackno (pe_sender p) \<noteq> None"

lemma few_segments: "\<forall>m \<in> set ms. 0 < sequence_length m \<Longrightarrow> length ms \<le> segments_length ms"
  by (induction ms) (auto simp: Suc_le_eq intro: add_mono)

lemma open_push_returns:
  assumes "peer_open p"
  obtains p' where "peer_push p = Some (Inr p')" and "peer_open p'" and "left_to_send p' \<le> left_to_send p"
    and "ts_retransmit (pe_sender p') = ts_retransmit (pe_sender p)" and "pe_need_send p' = pe_need_send p"
    and "ts_in_flight (pe_sender p') = ts_in_flight (pe_sender p)"
proof -
  let ?s = "pe_sender p" and ?out = "pe_outbound p"
  obtain ackno where inv: "stream_inv ?out" "ts_syn_sent ?s" "ts_ackno ?s = Some ackno"
    using assms by (auto simp: peer_open_def)
  let ?room = "unat (window_room ?s ackno)" and ?xs = "stream_content ?out"
  let ?closing = "\<not> ts_fin_sent ?s \<and> bs_closed ?out"
  define ms where "ms = cut_segments (ts_isn ?s) (ts_abs_seqno ?s) ?room ?xs ?closing"
  obtain out where push: "sender_push ?s ?out = Some (Inr (after_push ms ?s, out))"
    and out: "stream_inv out" "stream_content out = drop ?room ?xs"
    using sender_push_cut [OF inv] unfolding ms_def by blast
  let ?p = "p\<lparr>pe_sender := after_push ms ?s, pe_outbound := out\<rparr>"
  have "length ms \<le> segments_length ms"
    using cut_segments_plain unfolding ms_def by (intro few_segments) blast
  moreover have "segments_length ms = min ?room (length ?xs) + of_bool (?closing \<and> length ?xs < ?room)"
    unfolding ms_def by (rule cut_segments_length)
  moreover have "(\<exists>m \<in> set ms. sm_FIN m) \<longleftrightarrow> ?closing \<and> length ?xs < ?room"
    unfolding ms_def by (rule cut_segments_any_fin)
  ultimately have "left_to_send ?p \<le> left_to_send p" using out(2) by (auto simp: left_to_send_def)
  then show ?thesis using push out(1) inv that [of ?p] by (simp add: peer_push_def peer_open_def)
qed

lemma open_maybe_send:
  assumes "peer_open p"
  shows "(\<exists>e. peer_maybe_send p = Some (Inl e)) \<and> ts_retransmit (pe_sender p) \<and> ts_in_flight (pe_sender p) = [] \<or>
    (\<exists>p'. peer_maybe_send p = Some (Inr (p', None)) \<and> peer_open p' \<and> ts_pushed (pe_sender p') = [] \<and> \<not> pe_need_send p' \<and>
       \<not> ts_retransmit (pe_sender p')) \<or>
    (\<exists>p' seg. peer_maybe_send p = Some (Inr (p', Some seg)) \<and> peer_open p' \<and> \<not> ts_retransmit (pe_sender p') \<and>
       left_to_send p' < left_to_send p)"
proof -
  let ?msg = "receiver_send (pe_receiver p) (pe_inbound p)"
  obtain q where q: "(if rm_ackno ?msg \<noteq> None then peer_push p else Some (Inr p)) = Some (Inr q)"
    "peer_open q" "left_to_send q \<le> left_to_send p" "ts_retransmit (pe_sender q) = ts_retransmit (pe_sender p)"
    "ts_in_flight (pe_sender q) = ts_in_flight (pe_sender p)"
  proof (cases "rm_ackno ?msg = None")
    case True
    then show ?thesis using that assms by simp
  next
    case False
    obtain q where "peer_push p = Some (Inr q)" "peer_open q" "left_to_send q \<le> left_to_send p"
      "ts_retransmit (pe_sender q) = ts_retransmit (pe_sender p)"
      "ts_in_flight (pe_sender q) = ts_in_flight (pe_sender p)"
      using open_push_returns [OF assms] by blast
    then show ?thesis using that False by simp
  qed
  have e: "peer_maybe_send p = Some (peer_make_segment ?msg q)" using q(1) by (simp add: peer_maybe_send_def Let_def)
  show ?thesis
  proof (cases "ts_retransmit (pe_sender q)")
    case True
    then show ?thesis
    proof (cases "ts_in_flight (pe_sender q)")
      case Nil
      then show ?thesis using True e q by (simp add: peer_make_segment_def sender_maybe_send_def Let_def)
    next
      case (Cons seg segs)
      then show ?thesis using True e q(2,3)
        by (auto simp: peer_make_segment_def sender_maybe_send_def Let_def left_to_send_def peer_open_def)
    qed
  next
    case False
    then show ?thesis
    proof (cases "ts_pushed (pe_sender q)")
      case Nil
      then show ?thesis using False e q(2,3)
        by (cases "pe_need_send q")
           (auto simp: peer_make_segment_def sender_maybe_send_def Let_def left_to_send_def peer_open_def)
    next
      case (Cons m ms)
      then show ?thesis using False e q(2,3)
        by (auto simp: peer_make_segment_def sender_maybe_send_def Let_def left_to_send_def peer_open_def)
    qed
  qed
qed

text \<open>Collecting ends on every open connection.\<close>

lemma collect_loop_ends:
  assumes "peer_open p"
  shows "\<exists>r. collect_loop p queued = Some r \<and>
    (\<forall>e. r = Inl e \<longrightarrow> ts_retransmit (pe_sender p) \<and> ts_in_flight (pe_sender p) = []) \<and>
    (\<forall>p' queued'. r = Inr (p', queued') \<longrightarrow> peer_open p' \<and> ts_pushed (pe_sender p') = [] \<and>
       \<not> pe_need_send p' \<and> \<not> ts_retransmit (pe_sender p'))"
  using assms
proof (induction "left_to_send p" arbitrary: p queued rule: less_induct)
  case less
  from open_maybe_send [OF less.prems] show ?case
  proof (elim disjE exE conjE)
    fix e
    assume "peer_maybe_send p = Some (Inl e)" "ts_retransmit (pe_sender p)" "ts_in_flight (pe_sender p) = []"
    then show ?thesis by (subst collect_loop.simps) simp
  next
    fix p'
    assume "peer_maybe_send p = Some (Inr (p', None))" "peer_open p'" "ts_pushed (pe_sender p') = []" "\<not> pe_need_send p'"
      "\<not> ts_retransmit (pe_sender p')"
    then show ?thesis by (subst collect_loop.simps) simp
  next
    fix p' seg
    assume m: "peer_maybe_send p = Some (Inr (p', Some seg))" and o: "peer_open p'"
      and n: "\<not> ts_retransmit (pe_sender p')" and l: "left_to_send p' < left_to_send p"
    have "collect_loop p queued = collect_loop p' (queued @ [seg])"
      using m by (subst collect_loop.simps) simp
    with less.hyps [OF l o, of "queued @ [seg]"] n show ?thesis by auto
  qed
qed
end
