(* ===== verification/Byte_Log.thy ===== *)
theory Byte_Log
  imports Socket
begin

text \<open>
  What a program that moves bytes between descriptors relies on of the operating system, and
  what the operations on descriptors then do to the bytes that were ever moved.
\<close>

subsection \<open>Logs\<close>

text \<open>
  \<open>bl_in\<close> and \<open>bl_out\<close> are the bytes that were ever read from and written to a descriptor
  in a state of the operating system.  A read yields at most what was asked for, a write takes a
  prefix of what it is given, and no other call moves bytes.

  \<open>reads_logged\<close> also excludes that a read reports that it would block.  The descriptors are
  non-blocking, so the kernel may do so on a read of a descriptor without data; what the
  hypothesis rests on is that the programs read a descriptor only in a callback of the event
  loop, after \<open>poll\<close> reported it ready and with no other reader in between.  Where a read would
  block nevertheless, \<open>FileDescriptor::read\<close> returns a buffer of bytes that were never read
  (theory \<open>File_Descriptor\<close>), and what is shown from \<open>reads_logged\<close> does not hold.
\<close>

record 'k byte_log =
  bl_in :: "'k \<Rightarrow> int \<Rightarrow> bytes"
  bl_out :: "'k \<Rightarrow> int \<Rightarrow> bytes"

definition same_log :: "'k byte_log \<Rightarrow> 'k \<Rightarrow> 'k \<Rightarrow> bool" where
  "same_log G k k' \<longleftrightarrow> bl_in G k' = bl_in G k \<and> bl_out G k' = bl_out G k"

definition reads_logged :: "'k kernel \<Rightarrow> 'k byte_log \<Rightarrow> bool" where
  "reads_logged K G \<longleftrightarrow>
     (\<forall>fd n k k' r data. k_read K fd n k = (k', r, data) \<longrightarrow>
        transfer_ok n r data \<and> bl_in G k' = (bl_in G k)(fd := bl_in G k fd @ data) \<and>
        bl_out G k' = bl_out G k \<and> sr_errno r \<noteq> EAGAIN \<and> sr_errno r \<noteq> EINPROGRESS)"

definition readv_logged :: "'k kernel \<Rightarrow> 'k byte_log \<Rightarrow> bool" where
  "readv_logged K G \<longleftrightarrow>
     (\<forall>fd ns k k' r data. k_readv K fd ns k = (k', r, data) \<longrightarrow>
        (\<forall>fd'. fd' \<noteq> fd \<longrightarrow> bl_in G k' fd' = bl_in G k fd') \<and> bl_out G k' = bl_out G k)"

definition writes_logged :: "'k kernel \<Rightarrow> 'k byte_log \<Rightarrow> bool" where
  "writes_logged K G \<longleftrightarrow>
     (\<forall>fd bufs k k' r. k_writev K fd bufs k = (k', r) \<longrightarrow>
        bl_out G k' = (bl_out G k)(fd := bl_out G k fd @ take (nat (sr_value r)) (concat bufs)) \<and>
        bl_in G k' = bl_in G k)"

definition calls_logged :: "'k kernel \<Rightarrow> 'k socket_api \<Rightarrow> 'k byte_log \<Rightarrow> bool" where
  "calls_logged K S G \<longleftrightarrow>
     (\<forall>fd k. same_log G k (fst (k_getfl K fd k)) \<and> same_log G k (fst (k_close K fd k))) \<and>
     (\<forall>fd flags k. same_log G k (fst (k_setfl K fd flags k))) \<and>
     (\<forall>fd how k. same_log G k (fst (sa_shutdown S fd how k)))"

subsection \<open>What the operations move\<close>

lemma fd_read_moves:
  assumes "reads_logged K G" and "fd_read K buffer fw k = Inr (data, fw', k')" and "buffer \<noteq> []"
  shows "bl_in G k' = (bl_in G k)(fw_fd fw := bl_in G k (fw_fd fw) @ data) \<and>
         bl_out G k' = bl_out G k \<and> length data \<le> length buffer \<and> fw_fd fw' = fw_fd fw"
proof -
  obtain k1 r d where r: "k_read K (fw_fd fw) (length buffer) k = (k1, r, d)"
    by (cases "k_read K (fw_fd fw) (length buffer) k")
  then have ok: "transfer_ok (length buffer) r d" and log: "bl_in G k1 = (bl_in G k)(fw_fd fw := bl_in G k (fw_fd fw) @ d)"
    "bl_out G k1 = bl_out G k" and e: "\<not> would_block fw r"
    using assms(1) unfolding reads_logged_def would_block_def by blast+
  have nn: "\<not> sr_value r < 0"
    using assms(2,3) e r by (auto simp: fd_read_def Let_def)
  then have len: "length d = nat (sr_value r)" "length d \<le> length buffer"
    using ok by (auto simp: transfer_ok_def)
  have "data = d" "k' = k1" "fw_fd fw' = fw_fd fw"
    using assms(2,3) nn r len by (auto simp: fd_read_def Let_def register_read_def set_eof_def split: if_splits)
  with log len show ?thesis by simp
qed

lemma fd_write_moves:
  assumes "writes_logged K G" and "fd_write K buffer fw k = Inr (n, fw', k')"
  shows "bl_out G k' = (bl_out G k)(fw_fd fw := bl_out G k (fw_fd fw) @ take n buffer) \<and>
         bl_in G k' = bl_in G k \<and> n \<le> length buffer \<and> fw_fd fw' = fw_fd fw"
proof -
  obtain k1 r where r: "k_writev K (fw_fd fw) [buffer] k = (k1, r)" by (cases "k_writev K (fw_fd fw) [buffer] k")
  then have log: "bl_out G k1 = (bl_out G k)(fw_fd fw := bl_out G k (fw_fd fw) @ take (nat (sr_value r)) buffer)"
    "bl_in G k1 = bl_in G k"
    using assms(1) unfolding writes_logged_def by force+
  have n: "n = nat (sr_value r)" "k' = k1" "n \<le> length buffer" "fw_fd fw' = fw_fd fw"
    using assms(2) r
    by (auto simp: fd_write_def fd_writev_def Let_def fd_check_system_call_def register_write_def split: if_splits)
  with log show ?thesis by simp
qed

lemma shutdown_logged:
  assumes "calls_logged K S G" and "socket_shutdown K S how fw k = Inr (fw', k')"
  shows "same_log G k k' \<and> fw_fd fw' = fw_fd fw"
proof -
  obtain k1 r where s: "sa_shutdown S (fw_fd fw) how k = (k1, r)" by (cases "sa_shutdown S (fw_fd fw) how k")
  then have "same_log G k k1" using assms(1) unfolding calls_logged_def by (metis fst_conv)
  then show ?thesis using assms(2) s
    by (auto simp: socket_shutdown_def register_read_def register_write_def split: if_splits)
qed

lemma close_logged:
  assumes "calls_logged K S G" and "fd_close K fw k = Inr (fw', k')"
  shows "same_log G k k' \<and> fw_fd fw' = fw_fd fw"
proof -
  obtain k1 r where s: "k_close K (fw_fd fw) k = (k1, r)" by (cases "k_close K (fw_fd fw) k")
  then have "same_log G k k1" using assms(1) unfolding calls_logged_def by (metis fst_conv)
  then show ?thesis using assms(2) s by (auto simp: fd_close_def)
qed

lemma new_fd_wrapper_logged:
  assumes "calls_logged K S G" and "new_fd_wrapper K fd k = Inr (fw, k')"
  shows "same_log G k k' \<and> fw_fd fw = fd"
proof -
  obtain k1 r where s: "k_getfl K fd k = (k1, r)" by (cases "k_getfl K fd k")
  then have "same_log G k k1" using assms(1) unfolding calls_logged_def by (metis fst_conv)
  then show ?thesis using assms(2) s by (auto simp: new_fd_wrapper_def split: if_splits)
qed

lemma set_blocking_logged:
  assumes "calls_logged K S G" and "fd_set_blocking K b fw k = Inr (fw', k')"
  shows "same_log G k k' \<and> fw_fd fw' = fw_fd fw"
proof -
  obtain k1 r where s: "k_getfl K (fw_fd fw) k = (k1, r)" by (cases "k_getfl K (fw_fd fw) k")
  obtain v where v: "fd_check_system_call K ''fcntl'' r fw = Inr v"
    using assms(2) s by (auto simp: fd_set_blocking_def Let_def)
  define flags where
    "flags = (if b then word_of_int v XOR (word_of_int v AND O_NONBLOCK) else word_of_int v OR O_NONBLOCK)"
  obtain k2 r2 where f: "k_setfl K (fw_fd fw) flags k1 = (k2, r2)" by (cases "k_setfl K (fw_fd fw) flags k1")
  have e: "k' = k2 \<and> fw_fd fw' = fw_fd fw"
    using assms(2) s v f by (auto simp: fd_set_blocking_def Let_def flags_def)
  have "same_log G k k1" using assms(1) s unfolding calls_logged_def by (metis fst_conv)
  moreover have "same_log G k1 k2" using assms(1) f unfolding calls_logged_def by (metis fst_conv)
  ultimately show ?thesis using e by (simp add: same_log_def)
qed

end
