(* ===== verification/Relay_Device.thy ===== *)
theory Relay_Device
  imports Byte_Log Event_Loop
begin

text \<open>
  An operating system for the examples: it keeps, for each descriptor, the bytes that wait to
  be read and those that were ever read and written; every call succeeds.
\<close>

subsection \<open>The device\<close>

record relay_device =
  rd_pending :: "int \<Rightarrow> bytes"
  rd_in :: "int \<Rightarrow> bytes"
  rd_out :: "int \<Rightarrow> bytes"

definition ok_ret :: "int \<Rightarrow> sys_ret" where "ok_ret n = \<lparr>sr_value = n, sr_errno = 0\<rparr>"

definition relay_read :: "int \<Rightarrow> nat \<Rightarrow> relay_device \<Rightarrow> relay_device \<times> sys_ret \<times> bytes" where
  "relay_read fd n d =
     (let data = take n (rd_pending d fd)
      in (d\<lparr>rd_pending := (rd_pending d)(fd := drop n (rd_pending d fd)),
            rd_in := (rd_in d)(fd := rd_in d fd @ data)\<rparr>, ok_ret (int (length data)), data))"

definition relay_kernel :: "relay_device kernel" where
  "relay_kernel = \<lparr>k_strerror = (\<lambda>_. ''''),
     k_getfl = (\<lambda>fd d. (d, ok_ret 0)), k_setfl = (\<lambda>fd flags d. (d, ok_ret 0)),
     k_close = (\<lambda>fd d. (d, ok_ret 0)), k_read = relay_read,
     k_readv = (\<lambda>fd ns. relay_read fd (sum_list ns)),
     k_writev = (\<lambda>fd bufs d. (d\<lparr>rd_out := (rd_out d)(fd := rd_out d fd @ concat bufs)\<rparr>,
                               ok_ret (int (length (concat bufs))))),
     k_open = (\<lambda>path flags d. (d, ok_ret 3)), k_tunsetiff = (\<lambda>fd flags name d. (d, ok_ret 0))\<rparr>"

definition relay_sockets :: "relay_device socket_api" where
  "relay_sockets = \<lparr>sa_socket = (\<lambda>_ _ _ d. (d, ok_ret 3)), sa_getsockopt = (\<lambda>_ _ _ _ d. (d, ok_ret 0, 0, 4)),
     sa_setsockopt = (\<lambda>_ _ _ _ d. (d, ok_ret 0)), sa_getsockname = (\<lambda>_ d. (d, ok_ret 0, [], 0)),
     sa_getpeername = (\<lambda>_ d. (d, ok_ret 0, [], 0)), sa_bind = (\<lambda>_ _ d. (d, ok_ret 0)),
     sa_connect = (\<lambda>_ _ d. (d, ok_ret 0)), sa_shutdown = (\<lambda>_ _ d. (d, ok_ret 0)),
     sa_recvfrom = (\<lambda>_ _ _ d. (d, ok_ret 0, [], [], 0)), sa_sendto = (\<lambda>_ _ _ d. (d, ok_ret 0)),
     sa_send = (\<lambda>_ _ d. (d, ok_ret 0)), sa_listen = (\<lambda>_ _ d. (d, ok_ret 0)),
     sa_accept = (\<lambda>_ d. (d, ok_ret 4))\<rparr>"

definition relay_log :: "relay_device byte_log" where
  "relay_log = \<lparr>bl_in = rd_in, bl_out = rd_out\<rparr>"

lemma relay_device_logged:
  "reads_logged relay_kernel relay_log" "readv_logged relay_kernel relay_log"
  "writes_logged relay_kernel relay_log" "calls_logged relay_kernel relay_sockets relay_log"
  by (auto simp: reads_logged_def readv_logged_def writes_logged_def calls_logged_def
      relay_kernel_def relay_sockets_def relay_log_def relay_read_def ok_ret_def same_log_def
      transfer_ok_def Let_def EAGAIN_def EINPROGRESS_def)

lemma relay_reads_ok: "reads_ok relay_kernel"
  by (auto simp: reads_ok_def relay_kernel_def relay_read_def ok_ret_def transfer_ok_def Let_def)

subsection \<open>Polling\<close>

text \<open>
  A descriptor is always ready to be written, and ready to be read when bytes wait;
  \<open>device\<close> is where the program state holds the device.
\<close>

definition relay_poll :: "('w \<Rightarrow> relay_device) \<Rightarrow> 'w poll_api" where
  "relay_poll device = \<lparr>pa_strerror = (\<lambda>_. ''''),
     pa_poll = (\<lambda>ps t sh. (sh, ok_ret (int (length ps)),
       \<lambda>i. if pf_events (ps ! i) = POLLIN \<and> rd_pending (device (sh_world sh)) (pf_fd (ps ! i)) = [] then 0
           else pf_events (ps ! i))),
     pa_socket_error = (\<lambda>fd sh. (sh, ok_ret 0, 0, 4))\<rparr>"

lemma relay_poll_pure:
  "pa_poll (relay_poll device) ps t sh = (sh', ret, revents) \<Longrightarrow> sh' = sh"
  "pa_socket_error (relay_poll device) fd sh = (sh', ret', err, len) \<Longrightarrow> sh' = sh"
  by (simp_all add: relay_poll_def)

text \<open>With all rules live, the first one that is ready is served.\<close>

definition relay_ready :: "('w \<Rightarrow> relay_device) \<Rightarrow> 'w shared \<Rightarrow> ('w fd_rule \<Rightarrow> bool) \<Rightarrow> 'w fd_rule list \<Rightarrow> nat option" where
  "relay_ready device sh wants rs =
     find (ready wants (\<lambda>i. snd (snd (pa_poll (relay_poll device) (map (pollfd_of sh wants) rs) 0 sh)) i) rs)
       [0..<length rs]"

lemma relay_serves:
  assumes rules: "el_fd_rules el = rs" "el_non_fd_rules el = []"
    and live: "\<forall>r \<in> set rs. live sh wants r" and some: "list_ex wants rs"
    and i: "relay_ready device sh wants rs = Some i"
    and serve: "serve_rule (el_categories el) (rs ! i) sh = Inr sh'"
  shows "wait_next_event (relay_poll device) t el sh = Inr (el, sh', Success)"
proof -
  let ?A = "relay_poll device" and ?ps = "map (pollfd_of sh wants) rs"
  define rev where "rev = (\<lambda>i. snd (snd (pa_poll ?A ?ps 0 sh)) i)"
  have same: "el\<lparr>el_fd_rules := el_fd_rules el\<rparr> = el"
    "el\<lparr>el_non_fd_rules := el_non_fd_rules el, el_fd_rules := el_fd_rules el\<rparr> = el" by simp_all
  then have both: "el\<lparr>el_non_fd_rules := [], el_fd_rules := rs\<rparr> = el" unfolding rules by simp
  have ev: "pf_events (?ps ! i) \<in> {0, POLLIN, POLLOUT}" if "i < length rs" for i
    using that by (cases "fr_direction (rs ! i)") (simp_all add: pollfd_of_def)
  have clean: "\<forall>i < length rs. rev i AND (POLLERR OR POLLNVAL OR POLLHUP) = 0"
    unfolding rev_def using ev
    by (fastforce simp: relay_poll_def POLLERR_def POLLNVAL_def POLLHUP_def POLLIN_def POLLOUT_def)
  have s: "serve_polled ?A (el_categories el) (with_revents rev ?ps) 0 rs sh = Inr (rs, sh')"
    using serve_polled_clean [OF refl clean, of rs 0] i [unfolded relay_ready_def, folded rev_def] serve by simp
  have p: "pa_poll ?A ?ps t sh = (sh, ok_ret (int (length rs)), rev)"
    unfolding rev_def by (simp add: relay_poll_def)
  have "rs \<noteq> []" using some by auto
  then have "poll_and_serve ?A t ?ps el sh = Inr (el, sh', Success)"
    using rules same by (simp add: poll_and_serve_def p s check_system_call_def ok_ret_def)
  then show ?thesis
    using some live by (simp add: wait_next_event_def wait_fd_rules_def setup_pollfds_live rules both)
qed

end
