(* ===== verification/Peer_Run.thy ===== *)
theory Peer_Run
  imports Tcp_Minnow_Socket End_To_End
begin

text \<open>
  The operations of a peer as steps of its two halves: every operation that the socket calls on
  a \<open>TCPPeer\<close> takes its sender through steps of the transition system of
  \<open>Sender_Run\<close>, and its receiver through a run of \<open>Tcp_Receiver\<close>.
\<close>

subsection \<open>What a push keeps\<close>

lemma read_loop_closed:
  "read_loop len bs out = Inr (bs', data) \<Longrightarrow> bs_closed bs' = bs_closed bs"
proof (induction len bs out rule: read_loop.induct)
  case (1 len bs out)
  show ?case
  proof (cases "reader_bytes_buffered bs \<noteq> 0 \<and> length out < len \<and> reader_peek bs \<noteq> []")
    case True
    then have "bs_closed bs' = bs_closed (reader_pop (of_nat (length (take (len - length out) (reader_peek bs)))) bs)"
      using "1.prems" by (intro "1.IH" [OF _ refl _ refl]) (simp_all add: read_loop.simps [of len bs] Let_def)
    then show ?thesis by (simp add: stream_simps)
  next
    case False
    then show ?thesis using "1.prems" by (subst (asm) read_loop.simps) (auto simp: Let_def split: if_splits)
  qed
qed

lemma push_round_frame:
  assumes "push_round budget segment s outbound = Inr (budget', segment', s', outbound')"
  shows "ts_syn_sent s' = ts_syn_sent s \<and> bs_closed outbound' = bs_closed outbound"
proof -
  let ?k = "min (of_nat MAX_PAYLOAD_SIZE) (min budget (reader_bytes_buffered outbound))"
  obtain o1 b where rd: "read_stream outbound ?k = Inr (o1, b)"
    using assms by (auto simp: push_round_def Let_def)
  then have "bs_closed o1 = bs_closed outbound" unfolding read_stream_def by (rule read_loop_closed)
  moreover have "outbound' = o1" using assms unfolding push_round_def Let_def rd by simp
  moreover have "s' = (let s1 = s\<lparr>ts_abs_seqno := ts_abs_seqno s + of_nat (length b)\<rparr>;
      s2 = (if F then s1\<lparr>ts_fin_sent := True, ts_abs_seqno := ts_abs_seqno s1 + 1\<rparr> else s1)
      in if F' then s2\<lparr>ts_pushed := ts_pushed s2 @ [m]\<rparr> else s2) \<Longrightarrow> ts_syn_sent s' = ts_syn_sent s" for F F' m
    by (simp add: Let_def)
  moreover have "\<exists>F F' m. s' = (let s1 = s\<lparr>ts_abs_seqno := ts_abs_seqno s + of_nat (length b)\<rparr>;
      s2 = (if F then s1\<lparr>ts_fin_sent := True, ts_abs_seqno := ts_abs_seqno s1 + 1\<rparr> else s1)
      in if F' then s2\<lparr>ts_pushed := ts_pushed s2 @ [m]\<rparr> else s2)"
    using assms unfolding push_round_def Let_def rd bind_result.simps prod.case sum.inject prod.inject
    by (elim conjE) (intro exI, erule sym)
  ultimately show ?thesis by blast
qed

lemma push_loop_frame:
  assumes "push_loop budget segment s outbound = Some (Inr (s', outbound'))"
  shows "ts_syn_sent s' = ts_syn_sent s \<and> bs_closed outbound' = bs_closed outbound"
proof -
  let ?P = "\<lambda>budget segment s outbound (r :: (tcp_sender \<times> byte_stream) result). \<forall>s' outbound'. r = Inr (s', outbound') \<longrightarrow>
           ts_syn_sent s' = ts_syn_sent s \<and> bs_closed outbound' = bs_closed outbound"
  have "?P budget segment s outbound (Inr (s', outbound'))"
  proof (rule push_loop.raw_induct [where P = ?P, OF _ assms])
    fix f budget segment s outbound r
    assume IH: "\<And>budget segment s outbound r. f budget segment s outbound = Some r \<Longrightarrow>
          ?P budget segment s outbound r"
      and body: "(if budget > 0 \<or> sm_SYN segment then
        (case push_round budget segment s outbound of
           Inl e \<Rightarrow> Some (Inl e)
         | Inr st \<Rightarrow>
             (case st of (budget, segment, s, outbound) \<Rightarrow>
                if reader_bytes_buffered outbound = 0 then Some (Inr (s, outbound))
                else f budget segment s outbound))
      else Some (Inr (s, outbound))) = Some r"
    show "?P budget segment s outbound r"
    proof (cases "push_round budget segment s outbound")
      case (Inl e)
      have "r = Inl e \<or> r = Inr (s, outbound)"
      proof (cases "budget > 0 \<or> sm_SYN segment")
        case True
        then show ?thesis using body unfolding if_P [OF True] Inl by simp
      next
        case False
        then show ?thesis using body unfolding if_not_P [OF False] by simp
      qed
      then show ?thesis by auto
    next
      case (Inr st)
      obtain b g s1 o1 where x: "st = (b, g, s1, o1)" by (cases st)
      note fr = push_round_frame [OF Inr [unfolded x]]
      consider "r = Inr (s, outbound)" | "r = Inr (s1, o1)" | "f b g s1 o1 = Some r"
      proof (cases "budget > 0 \<or> sm_SYN segment")
        case True
        then show ?thesis using body that unfolding if_P [OF True] Inr x
          by (cases "reader_bytes_buffered o1 = 0") simp_all
      next
        case False
        then show ?thesis using body that unfolding if_not_P [OF False] by simp
      qed
      then show ?thesis
      proof cases
        case 3
        from IH [OF this] show ?thesis unfolding fr [THEN conjunct1] fr [THEN conjunct2] .
      qed (use fr in auto)
    qed
  qed
  then show ?thesis by blast
qed

lemma sender_push_frame:
  assumes "sender_push s outbound = Some (Inr (s', outbound'))"
  shows "ts_syn_sent s' \<and> bs_closed outbound' = bs_closed outbound"
proof -
  obtain b g s1 where "push_loop b g s1 outbound = Some (Inr (s', outbound'))" and "ts_syn_sent s1"
    using assms by (cases "ts_syn_sent s") (auto simp: sender_push_def Let_def split: option.splits)
  with push_loop_frame [OF this(1)] show ?thesis by simp
qed

subsection \<open>The sender of a peer\<close>

text \<open>
  \<open>sends cfg random p written queued\<close>: the sender of \<open>p\<close> and its stream came about from
  those of a new peer by steps of a sender, the application has written \<open>written\<close> to the
  stream, and every segment of \<open>queued\<close> is one that the sender has emitted or an empty one.
\<close>

definition carries :: "sender_sys \<Rightarrow> tcp_segment \<Rightarrow> bool" where
  "carries x seg \<longleftrightarrow> tg_sender seg \<in> set (ss_emitted x) \<or> sequence_length (tg_sender seg) = 0"

definition sends :: "tcp_config \<Rightarrow> u32 \<Rightarrow> tcp_peer \<Rightarrow> bytes \<Rightarrow> tcp_segment list \<Rightarrow> bool" where
  "sends cfg random p written queued \<longleftrightarrow>
     (\<exists>x. sender_step\<^sup>*\<^sup>* (new_sender_sys (pe_sender (new_tcp_peer cfg random)) (cfg_send_capacity cfg)) x \<and>
        ss_tx x = pe_sender p \<and> ss_out x = pe_outbound p \<and> ss_written x = written \<and>
        (\<forall>seg \<in> set queued. carries x seg))"

lemma sends_new: "sends cfg random (new_tcp_peer cfg random) [] []"
  unfolding sends_def
  by (intro exI [of _ "new_sender_sys (pe_sender (new_tcp_peer cfg random)) (cfg_send_capacity cfg)"])
     (simp add: new_sender_sys_def new_tcp_peer_def)

text \<open>A step of the sender that emits at most \<open>ms\<close> is a step of its peer.\<close>

lemma sends_step:
  assumes "sends cfg random p written queued"
    and "\<And>x. ss_tx x = pe_sender p \<Longrightarrow> ss_out x = pe_outbound p \<Longrightarrow>
      \<exists>y. sender_step x y \<and> ss_tx y = pe_sender p' \<and> ss_out y = pe_outbound p' \<and>
          ss_written y = ss_written x @ d \<and> ss_emitted y = ss_emitted x @ ms"
    and "\<forall>seg \<in> set segs. tg_sender seg \<in> set ms \<or> sequence_length (tg_sender seg) = 0"
  shows "sends cfg random p' (written @ d) (queued @ segs)"
proof -
  let ?start = "new_sender_sys (pe_sender (new_tcp_peer cfg random)) (cfg_send_capacity cfg)"
  obtain x where x: "sender_step\<^sup>*\<^sup>* ?start x" "ss_tx x = pe_sender p" "ss_out x = pe_outbound p"
    "ss_written x = written" "\<forall>seg \<in> set queued. carries x seg"
    using assms(1) unfolding sends_def by blast
  obtain y where y: "sender_step x y" "ss_tx y = pe_sender p'" "ss_out y = pe_outbound p'"
    "ss_written y = ss_written x @ d" "ss_emitted y = ss_emitted x @ ms"
    using assms(2) [OF x(2,3)] by blast
  from x(1) y(1) have "sender_step\<^sup>*\<^sup>* ?start y" by (rule rtranclp.rtrancl_into_rtrancl)
  then show ?thesis
    unfolding sends_def using x y assms(3) by (intro exI [of _ y]) (auto simp: carries_def)
qed

lemma sends_same:
  assumes "sends cfg random p written queued" and "pe_sender p' = pe_sender p" and "pe_outbound p' = pe_outbound p"
    and "\<forall>seg \<in> set segs. sequence_length (tg_sender seg) = 0"
  shows "sends cfg random p' written (queued @ segs)"
proof -
  have "\<forall>seg \<in> set segs. carries x seg" for x using assms(4) by (simp add: carries_def)
  then show ?thesis using assms(1-3) unfolding sends_def by (force simp: ball_Un)
qed

lemma sends_subset:
  "sends cfg random p written queued \<Longrightarrow> set queued' \<subseteq> set queued \<Longrightarrow> sends cfg random p written queued'"
  unfolding sends_def by blast

lemma sends_write:
  assumes "sends cfg random p written queued" and "ts_syn_sent (pe_sender p)" and "\<not> bs_closed (pe_outbound p)"
    and "length d \<le> unat (available_capacity (pe_outbound p))"
  shows "sends cfg random (p\<lparr>pe_outbound := writer_push d (pe_outbound p)\<rparr>) (written @ d) queued"
  using sends_step [OF assms(1), where p' = "p\<lparr>pe_outbound := writer_push d (pe_outbound p)\<rparr>" and d = d
      and ms = "[]" and segs = "[]"] assms(2-4)
  by (simp, elim meta_mp, intro exI conjI, rule_tac d = d in sender_step.app_write) simp_all

lemma sends_close:
  assumes "sends cfg random p written queued"
  shows "sends cfg random (p\<lparr>pe_outbound := writer_close (pe_outbound p)\<rparr>) written queued"
proof -
  let ?p = "p\<lparr>pe_outbound := writer_close (pe_outbound p)\<rparr>"
  have "\<exists>y. sender_step x y \<and> ss_tx y = pe_sender ?p \<and> ss_out y = pe_outbound ?p \<and>
      ss_written y = ss_written x @ [] \<and> ss_emitted y = ss_emitted x @ []"
    if "ss_tx x = pe_sender p" "ss_out x = pe_outbound p" for x
    using that by (intro exI conjI, rule_tac sender_step.app_close) simp_all
  from sends_step [OF assms this, where segs = "[]"] show ?thesis by simp
qed

lemma sends_push:
  assumes "sends cfg random p written queued" and "peer_push p = Some (Inr p')"
  shows "sends cfg random p' written queued"
proof -
  have "sender_push (pe_sender p) (pe_outbound p) = Some (Inr (pe_sender p', pe_outbound p'))"
    using assms(2) by (auto simp: peer_push_def)
  then show ?thesis
    using sends_step [OF assms(1), where p' = p' and d = "[]" and ms = "[]" and segs = "[]"]
    by (simp, elim meta_mp, intro exI conjI, rule_tac sender_step.push) auto
qed

lemma sends_hear:
  assumes "sends cfg random p written queued" and "sender_receive msg (pe_sender p) = Inr (pe_sender p')"
    and "pe_outbound p' = pe_outbound p"
  shows "sends cfg random p' written queued"
  using sends_step [OF assms(1), where p' = p' and d = "[]" and ms = "[]" and segs = "[]"] assms(2,3)
  by (simp, elim meta_mp, intro exI conjI, rule_tac sender_step.hear) auto

lemma sends_tick:
  assumes "sends cfg random p written queued"
  shows "sends cfg random (peer_tick n p) written queued"
proof -
  have "\<exists>y. sender_step x y \<and> ss_tx y = pe_sender (peer_tick n p) \<and> ss_out y = pe_outbound (peer_tick n p) \<and>
      ss_written y = ss_written x @ [] \<and> ss_emitted y = ss_emitted x @ []"
    if "ss_tx x = pe_sender p" "ss_out x = pe_outbound p" for x
    using that by (intro exI conjI, rule_tac n = n in sender_step.wait) (simp_all add: peer_tick_def)
  from sends_step [OF assms this, where segs = "[]"] show ?thesis by simp
qed

lemma sends_transmit:
  assumes "sends cfg random p written queued"
    and "sender_maybe_send (pe_sender p) = Inr (pe_sender p', Some (tg_sender seg))"
    and "pe_outbound p' = pe_outbound p"
  shows "sends cfg random p' written (queued @ [seg])"
  using sends_step [OF assms(1), where p' = p' and d = "[]" and ms = "[tg_sender seg]" and segs = "[seg]"] assms(2,3)
  by (simp, elim meta_mp, intro exI conjI, rule_tac sender_step.transmit) auto

subsection \<open>The receiver of a peer\<close>

text \<open>
  \<open>receives cfg Q p taken\<close>: the receiver of \<open>p\<close>, its reassembler and its stream came about
  from those of a new peer by a run of a receiver on segments that satisfy \<open>Q\<close>, and \<open>taken\<close>
  was taken out of the stream.  After a reset the stream is the one of the run with the
  error flag.
\<close>

definition receives :: "tcp_config \<Rightarrow> (tcp_sender_message \<Rightarrow> bool) \<Rightarrow> tcp_peer \<Rightarrow> bytes \<Rightarrow> bool" where
  "receives cfg Q p taken \<longleftrightarrow>
     (\<exists>es s. receiver_run es (new_tcp_receiver, new_sys (cfg_recv_capacity cfg)) = Inr (pe_receiver p, s) \<and>
        (\<forall>m. Segment m \<in> set es \<longrightarrow> Q m) \<and> rs_ra s = pe_reassembler p \<and> rs_read s = taken \<and>
        (pe_inbound p = rs_out s \<or> pe_inbound p = writer_set_error (rs_out s)))"

lemma receives_new: "receives cfg Q (new_tcp_peer cfg random) []"
  unfolding receives_def
  by (rule exI [of _ "[]"]) (simp add: new_tcp_peer_def new_sys_def)

lemma receives_same:
  "receives cfg Q p taken \<Longrightarrow> pe_receiver p' = pe_receiver p \<Longrightarrow> pe_reassembler p' = pe_reassembler p \<Longrightarrow>
     pe_inbound p' = pe_inbound p \<Longrightarrow> receives cfg Q p' taken"
  by (simp add: receives_def)

lemma receives_error:
  "receives cfg Q p taken \<Longrightarrow> receives cfg Q (p\<lparr>pe_inbound := writer_set_error (pe_inbound p)\<rparr>) taken"
  unfolding receives_def by fastforce

lemma receives_step:
  assumes "receives cfg Q p taken" and "\<not> reader_has_error (pe_inbound p)" and "Q m"
    and "receiver_receive m (pe_receiver p) (pe_reassembler p) (pe_inbound p) = Inr (r, ra, inbound)"
    and "pe_receiver p' = r" "pe_reassembler p' = ra" "pe_inbound p' = inbound"
  shows "receives cfg Q p' taken"
proof -
  obtain es s where s: "receiver_run es (new_tcp_receiver, new_sys (cfg_recv_capacity cfg)) = Inr (pe_receiver p, s)"
    "\<forall>m. Segment m \<in> set es \<longrightarrow> Q m" "rs_ra s = pe_reassembler p" "rs_read s = taken"
    and o: "pe_inbound p = rs_out s"
    using assms(1,2) unfolding receives_def by (auto simp: reader_has_error_def writer_set_error_def)
  obtain s' where s': "receiver_step (Segment m) (pe_receiver p, s) = Inr (r, s')"
    "rs_ra s' = ra" "rs_out s' = inbound" "rs_read s' = rs_read s"
    using assms(4) s(3) o by simp
  have "receiver_run (es @ [Segment m]) (new_tcp_receiver, new_sys (cfg_recv_capacity cfg)) = Inr (r, s')"
    using s(1) s'(1) by (simp add: receiver_run_append del: receiver_step.simps)
  then show ?thesis
    unfolding receives_def using s s' assms(3,5-7) by (intro exI [of _ "es @ [Segment m]"] exI [of _ s']) auto
qed

text \<open>Taking bytes off the front buffer is a read of that many bytes.\<close>

lemma pop_loop_error:
  "pop_loop n (writer_set_error bs) = writer_set_error (pop_loop n bs)"
proof (induction n bs rule: pop_loop.induct)
  case (1 n bs)
  show ?case
  proof (cases "bs_q bs = [] \<or> n = 0")
    case True
    then show ?thesis
      by (subst (1 2) pop_loop.simps) (auto simp: writer_set_error_def split: list.split)
  next
    case False
    then obtain b rest where q: "bs_q bs = b # rest" and n: "0 < n" by (cases "bs_q bs") auto
    let ?k = "min n (length b)"
    let ?bs = "bs\<lparr>bs_q := if length b > ?k then drop ?k b # rest else rest,
                  bs_bytes_popped := bs_bytes_popped bs + of_nat ?k,
                  bs_current_size := bs_current_size bs - of_nat ?k\<rparr>"
    have e: "pop_loop n bs = pop_loop (n - ?k) ?bs"
      using q n by (subst pop_loop.simps) (simp add: Let_def)
    have "pop_loop n (writer_set_error bs) = pop_loop (n - ?k) (writer_set_error ?bs)"
      using q n by (subst pop_loop.simps, cases bs) (simp add: Let_def writer_set_error_def)
    then show ?thesis unfolding e using "1.IH" [OF q n refl refl] by simp
  qed
qed

lemma reader_pop_error: "reader_pop n (writer_set_error bs) = writer_set_error (reader_pop n bs)"
  by (simp add: reader_pop_def pop_loop_error) (simp add: writer_set_error_def)

lemma reader_pop_0: "reader_pop 0 bs = bs"
  by (simp add: reader_pop_def) (subst pop_loop.simps, simp split: list.split)

lemma read_stream_front:
  assumes "n \<le> length (reader_peek bs)" and "n < 2 ^ 64" and "reader_bytes_buffered bs \<noteq> 0"
  shows "read_stream bs (of_nat n) = Inr (reader_pop (of_nat n) bs, take n (reader_peek bs))"
proof -
  have n: "unat (of_nat n :: u64) = n" using assms(2) by (intro unat_of_nat_small) simp
  show ?thesis
  proof (cases "n = 0")
    case True
    then show ?thesis by (simp add: read_stream_def read_loop.simps reader_pop_0)
  next
    case False
    then have "reader_peek bs \<noteq> []" using assms(1) by auto
    then show ?thesis
      using False assms n unfolding read_stream_def
      by (subst read_loop.simps, subst read_loop.simps) (simp add: Let_def min_def)
  qed
qed

lemma peek_error [simp]: "reader_peek (writer_set_error bs) = reader_peek bs"
  "reader_bytes_buffered (writer_set_error bs) = reader_bytes_buffered bs"
  by (simp_all add: reader_peek_def writer_set_error_def reader_bytes_buffered_def)

lemma receives_take:
  assumes "receives cfg Q p taken" and "n \<le> length (reader_peek (pe_inbound p))" and "n < 2 ^ 64"
    and "reader_bytes_buffered (pe_inbound p) \<noteq> 0"
  shows "receives cfg Q (p\<lparr>pe_inbound := reader_pop (of_nat n) (pe_inbound p)\<rparr>)
           (taken @ take n (reader_peek (pe_inbound p)))"
proof -
  obtain es s where s: "receiver_run es (new_tcp_receiver, new_sys (cfg_recv_capacity cfg)) = Inr (pe_receiver p, s)"
    "\<forall>m. Segment m \<in> set es \<longrightarrow> Q m" "rs_ra s = pe_reassembler p" "rs_read s = taken"
    and o: "pe_inbound p = rs_out s \<or> pe_inbound p = writer_set_error (rs_out s)"
    using assms(1) unfolding receives_def by blast
  have peek: "reader_peek (pe_inbound p) = reader_peek (rs_out s)"
    "reader_bytes_buffered (pe_inbound p) = reader_bytes_buffered (rs_out s)" using o by auto
  let ?s = "s\<lparr>rs_out := reader_pop (of_nat n) (rs_out s), rs_read := rs_read s @ take n (reader_peek (rs_out s))\<rparr>"
  have "receiver_step (Take (of_nat n)) (pe_receiver p, s) = Inr (pe_receiver p, ?s)"
    using read_stream_front [of n "rs_out s"] assms(2-4) peek by simp
  then have "receiver_run (es @ [Take (of_nat n)]) (new_tcp_receiver, new_sys (cfg_recv_capacity cfg)) =
      Inr (pe_receiver p, ?s)"
    using s(1) by (simp add: receiver_run_append del: receiver_step.simps)
  then show ?thesis
    unfolding receives_def using s(2-4) o peek
    by (intro exI [of _ "es @ [Take (of_nat n)]"] exI [of _ ?s]) (auto simp: reader_pop_error)
qed

subsection \<open>The operations of a peer\<close>

definition peer_runs ::
  "tcp_config \<Rightarrow> u32 \<Rightarrow> (tcp_sender_message \<Rightarrow> bool) \<Rightarrow> tcp_peer \<Rightarrow> bytes \<Rightarrow> bytes \<Rightarrow> tcp_segment list \<Rightarrow> bool" where
  "peer_runs cfg random Q p written taken queued \<longleftrightarrow>
     sends cfg random p written queued \<and> receives cfg Q p taken \<and> ts_syn_sent (pe_sender p)"

lemma peer_push_keeps:
  assumes "peer_push p = Some (Inr p')"
  shows "pe_receiver p' = pe_receiver p \<and> pe_reassembler p' = pe_reassembler p \<and>
         pe_inbound p' = pe_inbound p \<and> ts_syn_sent (pe_sender p') \<and>
         bs_closed (pe_outbound p') = bs_closed (pe_outbound p)"
  using assms by (auto simp: peer_push_def dest: sender_push_frame)

lemma peer_push_runs:
  assumes "sends cfg random p written queued" and "receives cfg Q p taken" and "peer_push p = Some (Inr p')"
  shows "peer_runs cfg random Q p' written taken queued"
  using sends_push [OF assms(1,3)] receives_same [OF assms(2)] peer_push_keeps [OF assms(3)]
  by (simp add: peer_runs_def)

lemma sender_maybe_send_None:
  "sender_maybe_send s = Inr (s', None) \<Longrightarrow> s' = s"
  by (auto simp: sender_maybe_send_def Let_def split: if_splits list.splits)

lemma sender_maybe_send_syn: "sender_maybe_send s = Inr (s', m) \<Longrightarrow> ts_syn_sent s' = ts_syn_sent s"
  using maybe_send_outstanding by blast

definition new_segments :: "tcp_segment option \<Rightarrow> tcp_segment list" where
  "new_segments g = (case g of None \<Rightarrow> [] | Some seg \<Rightarrow> [seg])"

lemma peer_make_segment_runs:
  assumes "peer_runs cfg random Q p written taken queued" and "peer_make_segment msg p = Inr (p', g)"
  shows "peer_runs cfg random Q p' written taken (queued @ new_segments g) \<and>
         pe_outbound p' = pe_outbound p"
proof -
  obtain s m where m: "sender_maybe_send (pe_sender p) = Inr (s, m)"
    using assms(2) by (auto simp: peer_make_segment_def)
  have p': "pe_sender p' = s" "pe_receiver p' = pe_receiver p" "pe_reassembler p' = pe_reassembler p"
    "pe_inbound p' = pe_inbound p" "pe_outbound p' = pe_outbound p"
    using assms(2) m by (auto simp: peer_make_segment_def Let_def)
  have runs: "sends cfg random p written queued" "receives cfg Q p taken" "ts_syn_sent (pe_sender p)"
    using assms(1) by (simp_all add: peer_runs_def)
  have "sends cfg random p' written (queued @ new_segments g)"
  proof (cases m)
    case None
    then have "s = pe_sender p" using m sender_maybe_send_None by blast
    moreover have "\<forall>seg \<in> set (new_segments g). sequence_length (tg_sender seg) = 0"
      using assms(2) m None
      by (auto simp: peer_make_segment_def Let_def new_segments_def sender_send_empty_message_def
          empty_sender_message_def sequence_length_def split: if_splits)
    ultimately show ?thesis using p' by (intro sends_same [OF runs(1)]) simp_all
  next
    case (Some x)
    then obtain seg where g: "g = Some seg" "tg_sender seg = x"
      using assms(2) m by (auto simp: peer_make_segment_def Let_def)
    then show ?thesis using m Some p' by (simp add: new_segments_def) (intro sends_transmit [OF runs(1)], simp_all)
  qed
  moreover have "receives cfg Q p' taken" by (rule receives_same [OF runs(2) p'(2-4)])
  moreover have "ts_syn_sent (pe_sender p')" using sender_maybe_send_syn [OF m] runs(3) p'(1) by simp
  ultimately show ?thesis using p'(5) by (simp add: peer_runs_def)
qed

lemma peer_maybe_send_runs:
  assumes "peer_runs cfg random Q p written taken queued" and "peer_maybe_send p = Some (Inr (p', g))"
  shows "peer_runs cfg random Q p' written taken (queued @ new_segments g) \<and>
         bs_closed (pe_outbound p') = bs_closed (pe_outbound p)"
proof -
  let ?msg = "receiver_send (pe_receiver p) (pe_inbound p)"
  obtain q where q: "(if rm_ackno ?msg \<noteq> None then peer_push p else Some (Inr p)) = Some (Inr q)"
    and g: "peer_make_segment ?msg q = Inr (p', g)"
    using assms(2) by (auto simp: peer_maybe_send_def Let_def split: if_splits)
  have "peer_runs cfg random Q q written taken queued \<and> bs_closed (pe_outbound q) = bs_closed (pe_outbound p)"
  proof (cases "rm_ackno ?msg = None")
    case True
    then show ?thesis using q assms(1) by simp
  next
    case False
    then have "peer_push p = Some (Inr q)" using q by simp
    moreover from this assms(1) have "peer_runs cfg random Q q written taken queued"
      by (intro peer_push_runs [of cfg random p]) (simp_all add: peer_runs_def)
    ultimately show ?thesis using peer_push_keeps by blast
  qed
  with peer_make_segment_runs [OF _ g, of cfg random Q written taken queued] show ?thesis by simp
qed

lemma collect_loop_runs:
  assumes "collect_loop p queued = Some (Inr (p', queued'))" and "peer_runs cfg random Q p written taken queued"
  shows "peer_runs cfg random Q p' written taken queued' \<and> bs_closed (pe_outbound p') = bs_closed (pe_outbound p)"
proof -
  let ?P = "\<lambda>p queued (r :: (tcp_peer \<times> tcp_segment list) result).
    \<forall>p' queued'. r = Inr (p', queued') \<longrightarrow> peer_runs cfg random Q p written taken queued \<longrightarrow>
      peer_runs cfg random Q p' written taken queued' \<and> bs_closed (pe_outbound p') = bs_closed (pe_outbound p)"
  have "?P p queued (Inr (p', queued'))"
  proof (rule collect_loop.raw_induct [where P = ?P, OF _ assms(1)])
    fix f p queued r
    assume IH: "\<And>p queued r. f p queued = Some r \<Longrightarrow> ?P p queued r"
      and body: "(case peer_maybe_send p of
        None \<Rightarrow> None
      | Some (Inl e) \<Rightarrow> Some (Inl e)
      | Some (Inr (p, None)) \<Rightarrow> Some (Inr (p, queued))
      | Some (Inr (p, Some seg)) \<Rightarrow> f p (queued @ [seg])) = Some r"
    show "?P p queued r"
    proof (intro allI impI)
      fix p' queued'
      assume r: "r = Inr (p', queued')" and runs: "peer_runs cfg random Q p written taken queued"
      from body r consider (ended) "peer_maybe_send p = Some (Inr (p', None))" "queued' = queued"
        | (more) q seg where "peer_maybe_send p = Some (Inr (q, Some seg))" "f q (queued @ [seg]) = Some r"
        by (auto split: option.splits sum.splits)
      then show "peer_runs cfg random Q p' written taken queued' \<and> bs_closed (pe_outbound p') = bs_closed (pe_outbound p)"
      proof cases
        case ended
        from peer_maybe_send_runs [OF runs ended(1)] ended(2) show ?thesis by (simp add: new_segments_def)
      next
        case more
        from peer_maybe_send_runs [OF runs more(1)] IH [OF more(2)] r show ?thesis
          by (simp add: new_segments_def)
      qed
    qed
  qed
  then show ?thesis using assms(2) by blast
qed

lemma peer_receive_runs:
  assumes "peer_runs cfg random Q p written taken queued" and "peer_receive seg p = Inr p'" and "Q (tg_sender seg)"
  shows "peer_runs cfg random Q p' written taken queued \<and> pe_outbound p' = pe_outbound p"
proof -
  have runs: "sends cfg random p written queued" "receives cfg Q p taken" "ts_syn_sent (pe_sender p)"
    using assms(1) by (simp_all add: peer_runs_def)
  show ?thesis
  proof (cases "tg_reset seg \<or> reader_has_error (pe_inbound p)")
    case True
    then have p': "p' = p\<lparr>pe_inbound := writer_set_error (pe_inbound p)\<rparr>"
      using assms(2) by (auto simp: peer_receive_def)
    have "sends cfg random p' written (queued @ [])" unfolding p' by (rule sends_same [OF runs(1)]) simp_all
    with receives_error [OF runs(2)] runs(3) show ?thesis unfolding p' by (simp add: peer_runs_def)
  next
    case False
    obtain s r ra inbound where s: "sender_receive (tg_receiver seg) (pe_sender p) = Inr s"
      and r: "receiver_receive (tg_sender seg) (pe_receiver p) (pe_reassembler p) (pe_inbound p) = Inr (r, ra, inbound)"
      using assms(2) False by (auto simp: peer_receive_def Let_def)
    have p': "pe_sender p' = s" "pe_outbound p' = pe_outbound p" "pe_receiver p' = r" "pe_reassembler p' = ra"
      "pe_inbound p' = inbound"
      using assms(2) False s r by (auto simp: peer_receive_def Let_def)
    have "sends cfg random p' written queued" using s p' by (intro sends_hear [OF runs(1)]) simp_all
    moreover have "receives cfg Q p' taken"
      using receives_step [OF runs(2) _ assms(3) r p'(3-5)] False by blast
    moreover have "ts_syn_sent s" using sender_receive_keeps(1) [OF s] runs(3) by simp
    ultimately show ?thesis using p' by (simp add: peer_runs_def)
  qed
qed

lemma peer_tick_runs:
  assumes "peer_runs cfg random Q p written taken queued"
  shows "peer_runs cfg random Q (peer_tick n p) written taken queued"
  using assms sends_tick receives_same [of cfg Q p taken "peer_tick n p"]
  by (auto simp: peer_runs_def peer_tick_def tick_outstanding)

lemma peer_runs_close:
  assumes "peer_runs cfg random Q p written taken queued"
  shows "peer_runs cfg random Q (p\<lparr>pe_outbound := writer_close (pe_outbound p)\<rparr>) written taken queued"
  using assms sends_close receives_same [of cfg Q p taken "p\<lparr>pe_outbound := writer_close (pe_outbound p)\<rparr>"]
  by (auto simp: peer_runs_def)

lemma peer_runs_write:
  assumes "peer_runs cfg random Q p written taken queued" and "\<not> bs_closed (pe_outbound p)"
    and "length d \<le> unat (available_capacity (pe_outbound p))"
  shows "peer_runs cfg random Q (p\<lparr>pe_outbound := writer_push d (pe_outbound p)\<rparr>) (written @ d) taken queued"
  using assms sends_write receives_same [of cfg Q p taken "p\<lparr>pe_outbound := writer_push d (pe_outbound p)\<rparr>"]
  by (auto simp: peer_runs_def)

lemma peer_runs_take:
  assumes "peer_runs cfg random Q p written taken queued" and "n \<le> length (reader_peek (pe_inbound p))"
    and "n < 2 ^ 64" and "reader_bytes_buffered (pe_inbound p) \<noteq> 0"
  shows "peer_runs cfg random Q (p\<lparr>pe_inbound := reader_pop (of_nat n) (pe_inbound p)\<rparr>) written
           (taken @ take n (reader_peek (pe_inbound p))) queued"
proof -
  have runs: "sends cfg random p written queued" "receives cfg Q p taken" "ts_syn_sent (pe_sender p)"
    using assms(1) by (simp_all add: peer_runs_def)
  have "sends cfg random (p\<lparr>pe_inbound := reader_pop (of_nat n) (pe_inbound p)\<rparr>) written (queued @ [])"
    by (rule sends_same [OF runs(1)]) simp_all
  with receives_take [OF runs(2) assms(2-4)] runs(3) show ?thesis by (simp add: peer_runs_def)
qed

end
