(* ===== verification/Socket_Run.thy ===== *)
theory Socket_Run
  imports Peer_Run Loop_Contract Byte_Log
begin

text \<open>
  What runs inside the socket of \<open>util/tcp_minnow_socket.cc\<close>: whatever its event loop serves,
  the sender and the receiver of its peer only go through the steps of \<open>Peer_Run\<close>, fed with
  what the application wrote and what the adapter brought.
\<close>

subsection \<open>What the socket relies on\<close>

text \<open>
  The adapter, the clock and \<open>poll\<close> move no byte of the descriptor \<open>s\<close> that the
  application is connected to, the adapter only brings segments that satisfy \<open>Q\<close>, and of the
  state of the socket the application's thread changes nothing while \<open>poll\<close> waits but the
  abort flag and its own descriptor.
\<close>

definition apart :: "'k byte_log \<Rightarrow> int \<Rightarrow> 'k \<Rightarrow> 'k \<Rightarrow> bool" where
  "apart G s k k' \<longleftrightarrow> bl_in G k' s = bl_in G k s \<and> bl_out G k' s = bl_out G k s"

definition adapter_apart ::
  "('a, 'k) adapter_ops \<Rightarrow> 'k byte_log \<Rightarrow> int \<Rightarrow> (tcp_sender_message \<Rightarrow> bool) \<Rightarrow> ('a \<Rightarrow> bool) \<Rightarrow> bool" where
  "adapter_apart ops G s Q mine \<longleftrightarrow>
     (\<forall>a k a' k' seg. mine a \<longrightarrow> ao_read ops a k = Inr (a', k', seg) \<longrightarrow>
        mine a' \<and> apart G s k k' \<and> (\<forall>g. seg = Some g \<longrightarrow> Q (tg_sender g))) \<and>
     (\<forall>g a k g' a' k'. mine a \<longrightarrow> ao_write ops g a k = Inr (g', a', k') \<longrightarrow> mine a' \<and> apart G s k k') \<and>
     (\<forall>fa a. mine a \<longrightarrow> mine (ao_set_base ops fa a)) \<and>
     (\<forall>n a k a' k'. mine a \<longrightarrow> ao_tick ops n a k = Inr (a', k') \<longrightarrow> mine a' \<and> apart G s k k')"

definition only_waits :: "'k byte_log \<Rightarrow> int \<Rightarrow> ('a, 'k) minnow \<Rightarrow> ('a, 'k) minnow \<Rightarrow> bool" where
  "only_waits G s w w' \<longleftrightarrow>
     (\<exists>k b fd. w' = w\<lparr>sk_kernel := k, sk_abort := b, sk_fd := fd\<rparr> \<and> apart G s (sk_kernel w) k)"

definition polls_apart :: "('a, 'k) minnow poll_api \<Rightarrow> 'k byte_log \<Rightarrow> int \<Rightarrow> bool" where
  "polls_apart A G s \<longleftrightarrow>
     (\<forall>ps t sh sh' ret revents. pa_poll A ps t sh = (sh', ret, revents) \<longrightarrow>
        only_waits G s (sh_world sh) (sh_world sh')) \<and>
     (\<forall>fd sh sh' ret err len. pa_socket_error A fd sh = (sh', ret, err, len) \<longrightarrow>
        only_waits G s (sh_world sh) (sh_world sh'))"

definition socket_world ::
  "('a, 'k) minnow_env \<Rightarrow> 'k byte_log \<Rightarrow> int \<Rightarrow> (tcp_sender_message \<Rightarrow> bool) \<Rightarrow> ('a \<Rightarrow> bool) \<Rightarrow> bool" where
  "socket_world E G s Q mine \<longleftrightarrow>
     reads_logged (en_kernel E) G \<and> writes_logged (en_kernel E) G \<and>
     calls_logged (en_kernel E) (en_sockets E) G \<and> adapter_apart (en_ops E) G s Q mine \<and>
     polls_apart (en_poll E) G s \<and> (\<forall>k. apart G s k (fst (en_clock E k)))"

subsection \<open>The invariant of the socket\<close>

definition socket_runs ::
  "'k byte_log \<Rightarrow> int \<Rightarrow> tcp_config \<Rightarrow> u32 \<Rightarrow> (tcp_sender_message \<Rightarrow> bool) \<Rightarrow>
   ('a \<Rightarrow> bool) \<Rightarrow> ('a, 'k) minnow \<Rightarrow> bool" where
  "socket_runs G s cfg random Q mine w \<longleftrightarrow>
     mine (sk_adapter w) \<and>
     (\<exists>p. sk_tcp w = Some p \<and>
        peer_runs cfg random Q p (bl_in G (sk_kernel w) s) (bl_out G (sk_kernel w) s) (sk_outgoing w) \<and>
        fw_fd (sk_thread_data w) = s \<and> (bs_closed (pe_outbound p) \<longrightarrow> sk_outbound_shutdown w))"

lemma socket_runs_apart:
  assumes "socket_runs G s cfg random Q mine w" and "sk_tcp w' = sk_tcp w" and "sk_outgoing w' = sk_outgoing w"
    and "fw_fd (sk_thread_data w') = fw_fd (sk_thread_data w)"
    and "sk_outbound_shutdown w' = sk_outbound_shutdown w" and "apart G s (sk_kernel w) (sk_kernel w')"
    and "mine (sk_adapter w) \<Longrightarrow> mine (sk_adapter w')"
  shows "socket_runs G s cfg random Q mine w'"
  using assms by (simp add: socket_runs_def apart_def)

lemma same_log_apart: "same_log G k k' \<Longrightarrow> apart G s k k'"
  by (simp add: same_log_def apart_def)

lemma apart_refl [simp]: "apart G s k k"
  by (simp add: apart_def)

lemma apart_trans: "apart G s k k' \<Longrightarrow> apart G s k' k'' \<Longrightarrow> apart G s k k''"
  by (simp add: apart_def)

lemma adapter_apartI:
  assumes "\<And>a k a' k' seg. mine a \<Longrightarrow> ao_read ops a k = Inr (a', k', seg) \<Longrightarrow>
      mine a' \<and> apart G s k k' \<and> (\<forall>g. seg = Some g \<longrightarrow> Q (tg_sender g))"
    and "\<And>g a k g' a' k'. mine a \<Longrightarrow> ao_write ops g a k = Inr (g', a', k') \<Longrightarrow> mine a' \<and> apart G s k k'"
    and "\<And>fa a. mine a \<Longrightarrow> mine (ao_set_base ops fa a)"
    and "\<And>n a k a' k'. mine a \<Longrightarrow> ao_tick ops n a k = Inr (a', k') \<Longrightarrow> mine a' \<and> apart G s k k'"
  shows "adapter_apart ops G s Q mine"
  unfolding adapter_apart_def
proof (intro conjI)
  show "\<forall>a k a' k' seg. mine a \<longrightarrow> ao_read ops a k = Inr (a', k', seg) \<longrightarrow>
      mine a' \<and> apart G s k k' \<and> (\<forall>g. seg = Some g \<longrightarrow> Q (tg_sender g))" using assms(1) by blast
  show "\<forall>g a k g' a' k'. mine a \<longrightarrow> ao_write ops g a k = Inr (g', a', k') \<longrightarrow> mine a' \<and> apart G s k k'"
    using assms(2) by blast
  show "\<forall>fa a. mine a \<longrightarrow> mine (ao_set_base ops fa a)" using assms(3) by blast
  show "\<forall>n a k a' k'. mine a \<longrightarrow> ao_tick ops n a k = Inr (a', k') \<longrightarrow> mine a' \<and> apart G s k k'"
    using assms(4) by blast
qed

lemma adapter_apartD:
  assumes "adapter_apart ops G s Q mine"
  shows "ao_read ops a k = Inr (a', k', seg) \<Longrightarrow> mine a \<Longrightarrow>
      mine a' \<and> apart G s k k' \<and> (\<forall>g. seg = Some g \<longrightarrow> Q (tg_sender g))"
    and "ao_write ops g a k = Inr (g', a', k') \<Longrightarrow> mine a \<Longrightarrow> mine a' \<and> apart G s k k'"
    and "mine a \<Longrightarrow> mine (ao_set_base ops fa a)"
    and "ao_tick ops n a k = Inr (a', k') \<Longrightarrow> mine a \<Longrightarrow> mine a' \<and> apart G s k k'"
  using assms unfolding adapter_apart_def by blast+

lemma only_waits_runs:
  assumes "only_waits G s w w'" and "socket_runs G s cfg random Q mine w"
  shows "socket_runs G s cfg random Q mine w'"
  using assms by (auto simp: only_waits_def intro: socket_runs_apart)

text \<open>A function on the peer that keeps its part keeps the whole.\<close>

lemma on_tcp_runs:
  assumes "on_tcp f w = Inr w'" and "socket_runs G s cfg random Q mine w"
    and "\<And>p p' written taken queued. f p = Inr p' \<Longrightarrow> peer_runs cfg random Q p written taken queued \<Longrightarrow>
      peer_runs cfg random Q p' written taken queued \<and>
      (bs_closed (pe_outbound p') \<longrightarrow> bs_closed (pe_outbound p))"
  shows "socket_runs G s cfg random Q mine w'"
proof -
  obtain p p' where p: "sk_tcp w = Some p" "f p = Inr p'" "w' = w\<lparr>sk_tcp := Some p'\<rparr>"
    using assms(1) by (auto simp: on_tcp_def the_tcp_def split: option.splits)
  with assms(2) assms(3) [OF p(2)] show ?thesis by (auto simp: socket_runs_def)
qed

lemma collect_segments_runs:
  assumes "collect_segments w = Inr w'" and "socket_runs G s cfg random Q mine w"
  shows "socket_runs G s cfg random Q mine w' \<and> sk_kernel w' = sk_kernel w \<and> sk_thread_data w' = sk_thread_data w \<and>
         sk_outbound_shutdown w' = sk_outbound_shutdown w \<and> sk_adapter w' = sk_adapter w"
proof -
  obtain p where p: "sk_tcp w = Some p"
    "peer_runs cfg random Q p (bl_in G (sk_kernel w) s) (bl_out G (sk_kernel w) s) (sk_outgoing w)"
    "fw_fd (sk_thread_data w) = s" "bs_closed (pe_outbound p) \<longrightarrow> sk_outbound_shutdown w"
    and mine: "mine (sk_adapter w)"
    using assms(2) by (auto simp: socket_runs_def)
  obtain p' queued' where c: "collect_loop p (sk_outgoing w) = Some (Inr (p', queued'))"
    and w': "w' = w\<lparr>sk_tcp := Some p', sk_outgoing := queued'\<rparr>"
    using assms(1) p(1) by (auto simp: collect_segments_def elim!: returned.elims)
  from collect_loop_runs [OF c p(2)] p(3,4) mine show ?thesis unfolding w' by (simp add: socket_runs_def)
qed

subsection \<open>The callbacks keep the invariant\<close>

lemma socket_worldD:
  assumes "socket_world E G s Q mine"
  shows "reads_logged (en_kernel E) G" and "writes_logged (en_kernel E) G"
    and "calls_logged (en_kernel E) (en_sockets E) G"
    and "mine a \<Longrightarrow> ao_read (en_ops E) a k = Inr (a', k', seg) \<Longrightarrow> mine a' \<and> apart G s k k'"
    and "mine a \<Longrightarrow> ao_read (en_ops E) a k = Inr (a', k', Some g) \<Longrightarrow> Q (tg_sender g)"
    and "mine a \<Longrightarrow> ao_write (en_ops E) g a k = Inr (g', a', k') \<Longrightarrow> mine a' \<and> apart G s k k'"
    and "mine a \<Longrightarrow> ao_tick (en_ops E) n a k = Inr (a', k') \<Longrightarrow> mine a' \<and> apart G s k k'"
    and "pa_poll (en_poll E) ps t sh = (sh', ret, revents) \<Longrightarrow> only_waits G s (sh_world sh) (sh_world sh')"
    and "pa_socket_error (en_poll E) fd sh = (sh', ret, err, len) \<Longrightarrow> only_waits G s (sh_world sh) (sh_world sh')"
    and "apart G s k (fst (en_clock E k))" and "mine a \<Longrightarrow> mine (ao_set_base (en_ops E) fa a)"
  using assms unfolding socket_world_def adapter_apart_def polls_apart_def by (fast | simp)+

lemma network_callback_runs:
  assumes ok: "socket_world E G s Q mine" and runs: "socket_runs G s cfg random Q mine w"
    and w': "network_callback E w = Inr w'"
  shows "socket_runs G s cfg random Q mine w'"
proof -
  obtain a k seg where rd: "ao_read (en_ops E) (sk_adapter w) (sk_kernel w) = Inr (a, k, seg)"
    using w' by (auto simp: network_callback_def)
  let ?w = "w\<lparr>sk_adapter := a, sk_kernel := k\<rparr>"
  have mine: "mine (sk_adapter w)" using runs by (simp add: socket_runs_def)
  have 1: "socket_runs G s cfg random Q mine ?w"
    by (rule socket_runs_apart [OF runs]) (use socket_worldD(4) [OF ok mine rd] in simp_all)
  obtain w2 where w2: "(case seg of None \<Rightarrow> Inr ?w
      | Some seg \<Rightarrow> bind_result (on_tcp (peer_receive seg) ?w) collect_segments) = Inr w2"
    and w'2: "w' = w2 \<or> w' = w2\<lparr>sk_fully_acked := True\<rparr>"
    using w' rd by (auto simp: network_callback_def Let_def split: if_splits option.splits)
  have "socket_runs G s cfg random Q mine w2"
  proof (cases seg)
    case None
    then show ?thesis using w2 1 by simp
  next
    case (Some g)
    then obtain w1 where w1: "on_tcp (peer_receive g) ?w = Inr w1" "collect_segments w1 = Inr w2"
      using w2 by auto
    have "Q (tg_sender g)" using socket_worldD(5) [OF ok mine] rd Some by blast
    then have "socket_runs G s cfg random Q mine w1"
      using peer_receive_runs by (intro on_tcp_runs [OF w1(1) 1]) auto
    with collect_segments_runs [OF w1(2)] show ?thesis by blast
  qed
  then show ?thesis using w'2 by (auto intro: socket_runs_apart)
qed

lemma outbound_cancel_runs:
  assumes "outbound_cancel w = Inr w'" and "socket_runs G s cfg random Q mine w"
  shows "socket_runs G s cfg random Q mine w'"
proof -
  obtain p where p: "sk_tcp w = Some p"
    and w': "w' = w\<lparr>sk_tcp := Some (p\<lparr>pe_outbound := writer_close (pe_outbound p)\<rparr>), sk_outbound_shutdown := True\<rparr>"
    using assms(1) by (auto simp: outbound_cancel_def on_tcp_def the_tcp_def split: option.splits)
  show ?thesis using assms(2) p peer_runs_close unfolding w' by (auto simp: socket_runs_def)
qed

lemma returned_Inr: "returned r = Inr x \<longleftrightarrow> r = Some (Inr x)"
  by (cases r) simp_all

lemma peer_push_on_runs:
  assumes "on_tcp (\<lambda>p. returned (peer_push p)) w = Inr w'" and "socket_runs G s cfg random Q mine w"
  shows "socket_runs G s cfg random Q mine w'"
proof (rule on_tcp_runs [OF assms])
  fix p p' written taken queued
  assume "returned (peer_push p) = Inr p'" and r: "peer_runs cfg random Q p written taken queued"
  then have p: "peer_push p = Some (Inr p')" by (simp add: returned_Inr)
  have "sends cfg random p written queued" "receives cfg Q p taken" using r by (simp_all add: peer_runs_def)
  from peer_push_runs [OF this p] peer_push_keeps [OF p]
  show "peer_runs cfg random Q p' written taken queued \<and> (bs_closed (pe_outbound p') \<longrightarrow> bs_closed (pe_outbound p))"
    by simp
qed

lemma outbound_callback_runs:
  assumes ok: "socket_world E G s Q mine" and runs: "socket_runs G s cfg random Q mine w"
    and wants: "outbound_interest w = Inr True" and w': "outbound_callback E w = Inr w'"
  shows "socket_runs G s cfg random Q mine w'"
proof -
  obtain p where p: "sk_tcp w = Some p"
    "peer_runs cfg random Q p (bl_in G (sk_kernel w) s) (bl_out G (sk_kernel w) s) (sk_outgoing w)"
    "fw_fd (sk_thread_data w) = s" "bs_closed (pe_outbound p) \<longrightarrow> sk_outbound_shutdown w"
    and mine: "mine (sk_adapter w)"
    using runs by (auto simp: socket_runs_def)
  have cap: "available_capacity (pe_outbound p) > 0" and open_stream: "\<not> sk_outbound_shutdown w"
    using wants p(1) by (simp_all add: outbound_interest_def the_tcp_def)
  let ?buffer = "replicate (unat (available_capacity (pe_outbound p))) (0 :: byte)"
  have "unat (available_capacity (pe_outbound p)) \<noteq> 0" using cap by (simp add: unat_eq_zero word_neq_0_conv)
  then have ne: "?buffer \<noteq> []" by simp
  obtain data fw k where rd: "fd_read (en_kernel E) ?buffer (sk_thread_data w) (sk_kernel w) = Inr (data, fw, k)"
    using w' p(1) by (auto simp: outbound_callback_def the_tcp_def Let_def)
  let ?p = "p\<lparr>pe_outbound := writer_push data (pe_outbound p)\<rparr>"
  let ?w = "w\<lparr>sk_thread_data := fw, sk_kernel := k, sk_tcp := Some ?p\<rparr>"
  obtain w2 w3 where w2: "w2 = ?w \<or> outbound_cancel ?w = Inr w2"
    and w3: "on_tcp (\<lambda>p. returned (peer_push p)) w2 = Inr w3" and c: "collect_segments w3 = Inr w'"
  proof -
    have "bind_result (if fw_eof fw then bind_result (outbound_cancel ?w) (\<lambda>w.
              bind_result (debug_destination E (sk_config E w)) (\<lambda>_. Inr w)) else Inr ?w)
            (\<lambda>w. bind_result (on_tcp (\<lambda>p. returned (peer_push p)) w) collect_segments) = Inr w'"
      using w' p(1) rd unfolding outbound_callback_def
      by (simp add: the_tcp_def on_tcp_def [of "\<lambda>p. Inr (p\<lparr>pe_outbound := writer_push data (pe_outbound p)\<rparr>)"] Let_def)
    then show thesis using that by (cases "fw_eof fw") auto
  qed
  note moves = fd_read_moves [OF socket_worldD(1) [OF ok] rd ne]
  have "\<not> bs_closed (pe_outbound p)" using p(4) open_stream by blast
  then have "peer_runs cfg random Q ?p (bl_in G (sk_kernel w) s @ data) (bl_out G (sk_kernel w) s) (sk_outgoing w)"
    using moves by (intro peer_runs_write [OF p(2)]) simp_all
  then have "socket_runs G s cfg random Q mine ?w"
    using moves p(3,4) mine by (simp add: socket_runs_def stream_simps)
  then have "socket_runs G s cfg random Q mine w2" using w2 outbound_cancel_runs by blast
  from collect_segments_runs [OF c peer_push_on_runs [OF w3 this]] show ?thesis by blast
qed

text \<open>The stream of the receiver stays well-formed, whatever arrives.\<close>

lemma deliver_and_close_stream:
  assumes "(if c then Inr (ra0, out) else if c' then Inr (ra0, out)
      else bind_result x (\<lambda>d. bind_result (y d) (\<lambda>cb. bind_result (ra_deliver (f d cb) out) (\<lambda>(ra, out).
        Inr (ra, ra_close ra out))))) = Inr (ra', out')" and "stream_inv out"
  shows "stream_inv out'"
proof -
  have deliver: "stream_inv out1" if "ra_deliver ra1 out = Inr (ra2, out1)" for ra1 ra2 out1
    using that assms(2) by (auto simp: ra_deliver_def split: if_split_asm list.split_asm)
  show ?thesis
    using assms by (auto split: if_split_asm dest!: deliver simp: ra_close_def stream_simps)
qed

lemma reassembler_insert_stream:
  assumes "reassembler_insert first_index data is_last ra out = Inr (ra', out')" and "stream_inv out"
  shows "stream_inv out'"
  by (rule deliver_and_close_stream [OF assms(1) [unfolded reassembler_insert_def Let_def] assms(2)])

lemma receiver_step_stream:
  assumes "receiver_step e (r, s) = Inr (r', s')" and "stream_inv (rs_out s)"
  shows "stream_inv (rs_out s')"
proof (cases e)
  case (Segment m)
  then obtain ra out where m: "receiver_receive m r (rs_ra s) (rs_out s) = Inr (r', ra, out)"
    and s': "rs_out s' = out"
    using assms(1) by auto
  have "out = rs_out s \<or> (\<exists>i d l. reassembler_insert i d l (rs_ra s) (rs_out s) = Inr (ra, out))"
    using m by (simp add: receiver_receive_def Let_def split: if_split_asm) blast+
  with assms(2) show ?thesis unfolding s' by (auto dest: reassembler_insert_stream)
next
  case (Take n)
  obtain out d where r: "read_stream (rs_out s) n = Inr (out, d)" "stream_inv out"
    using read_stream_correct [OF assms(2), of n] by blast
  then have "rs_out s' = out" using assms(1) Take by auto
  then show ?thesis using r(2) by simp
qed

lemma receiver_run_stream:
  "receiver_run es (r, s) = Inr (r', s') \<Longrightarrow> stream_inv (rs_out s) \<Longrightarrow> stream_inv (rs_out s')"
proof (induction es arbitrary: r s)
  case (Cons e es)
  then obtain r1 s1 where 1: "receiver_step e (r, s) = Inr (r1, s1)"
    and 2: "receiver_run es (r1, s1) = Inr (r', s')" by auto
  from Cons.IH [OF 2 receiver_step_stream [OF 1 Cons.prems(2)]] show ?case .
qed simp

lemma reader_peek_small:
  assumes "receives cfg Q p taken" and "n \<le> length (reader_peek (pe_inbound p))"
  shows "n < 2 ^ 64"
proof -
  obtain es s where s: "receiver_run es (new_tcp_receiver, new_sys (cfg_recv_capacity cfg)) = Inr (pe_receiver p, s)"
    and o: "pe_inbound p = rs_out s \<or> pe_inbound p = writer_set_error (rs_out s)"
    using assms(1) unfolding receives_def by blast
  have inv: "stream_inv (rs_out s)" by (rule receiver_run_stream [OF s]) (simp add: new_sys_def)
  obtain rest where "stream_content (rs_out s) = reader_peek (rs_out s) @ rest"
    using reader_peek_content [OF inv] by blast
  then have "length (reader_peek (rs_out s)) \<le> 2 ^ 64 - 1"
    using stream_content_bound [OF inv] by simp
  moreover have "n \<le> length (reader_peek (rs_out s))" using assms(2) o by auto
  ultimately show ?thesis by simp
qed

lemma inbound_callback_runs:
  assumes ok: "socket_world E G s Q mine" and runs: "socket_runs G s cfg random Q mine w"
    and w': "inbound_callback E w = Inr w'"
  shows "socket_runs G s cfg random Q mine w'"
proof -
  obtain p where p: "sk_tcp w = Some p"
    "peer_runs cfg random Q p (bl_in G (sk_kernel w) s) (bl_out G (sk_kernel w) s) (sk_outgoing w)"
    "fw_fd (sk_thread_data w) = s" "bs_closed (pe_outbound p) \<longrightarrow> sk_outbound_shutdown w"
    and mine: "mine (sk_adapter w)"
    using runs by (auto simp: socket_runs_def)
  let ?buf = "reader_bytes_buffered (pe_inbound p) \<noteq> 0"
  obtain p1 fw k where step: "(if ?buf
      then bind_result (fd_write (en_kernel E) (reader_peek (pe_inbound p)) (sk_thread_data w) (sk_kernel w))
             (\<lambda>(bytes_written, fw, k).
              Inr (p\<lparr>pe_inbound := reader_pop (of_nat bytes_written) (pe_inbound p)\<rparr>, fw, k))
      else Inr (p, sk_thread_data w, sk_kernel w)) = Inr (p1, fw, k)"
    using w' p(1) by (auto simp: inbound_callback_def the_tcp_def split del: if_split)
  let ?w = "w\<lparr>sk_tcp := Some p1, sk_thread_data := fw, sk_kernel := k\<rparr>"
  have 1: "socket_runs G s cfg random Q mine ?w"
  proof (cases ?buf)
    case True
    then obtain n where wr: "fd_write (en_kernel E) (reader_peek (pe_inbound p)) (sk_thread_data w) (sk_kernel w) = Inr (n, fw, k)"
      and p1: "p1 = p\<lparr>pe_inbound := reader_pop (of_nat n) (pe_inbound p)\<rparr>"
      using step by auto
    note moves = fd_write_moves [OF socket_worldD(2) [OF ok] wr]
    then have n: "n \<le> length (reader_peek (pe_inbound p))" by simp
    from peer_runs_take [OF p(2) n reader_peek_small [OF p(2) [unfolded peer_runs_def, THEN conjunct2, THEN conjunct1] n] True] moves p(3,4) mine
    show ?thesis unfolding p1 by (simp add: socket_runs_def)
  next
    case False
    then have "p1 = p" "fw = sk_thread_data w" "k = sk_kernel w" using step by auto
    then show ?thesis using p mine by (simp add: socket_runs_def)
  qed
  show ?thesis
  proof (cases "reader_is_finished (pe_inbound p1) \<or> reader_has_error (pe_inbound p1)")
    case False
    then have "w' = ?w" using w' p(1) step by (simp add: inbound_callback_def the_tcp_def Let_def split del: if_split)
    then show ?thesis using 1 by simp
  next
    case True
    obtain fw1 k1 where sh: "socket_shutdown (en_kernel E) (en_sockets E) SHUT_WR fw k = Inr (fw1, k1)"
      and w'1: "w' = ?w\<lparr>sk_thread_data := fw1, sk_kernel := k1, sk_inbound_shutdown := True\<rparr>"
      using w' p(1) step True by (auto simp: inbound_callback_def the_tcp_def Let_def split del: if_split)
    have "same_log G k k1 \<and> fw_fd fw1 = fw_fd fw" by (rule shutdown_logged [OF socket_worldD(3) [OF ok] sh])
    then show ?thesis unfolding w'1 by (intro socket_runs_apart [OF 1]) (simp_all add: same_log_apart)
  qed
qed

lemma write_segments_apart:
  assumes "socket_world E G s Q mine"
  shows "write_segments (en_ops E) segs a k = Inr (a', k') \<Longrightarrow> mine a \<Longrightarrow> mine a' \<and> apart G s k k'"
proof (induction segs arbitrary: a k)
  case (Cons seg segs)
  then obtain g a1 k1 where "ao_write (en_ops E) seg a k = Inr (g, a1, k1)"
    "write_segments (en_ops E) segs a1 k1 = Inr (a', k')" by auto
  with Cons.IH Cons.prems(2) socket_worldD(6) [OF assms] show ?case by (blast intro: apart_trans)
qed simp

lemma sending_callback_runs:
  assumes ok: "socket_world E G s Q mine" and runs: "socket_runs G s cfg random Q mine w"
    and w': "sending_callback E w = Inr w'"
  shows "socket_runs G s cfg random Q mine w'"
proof -
  obtain a k where wr: "write_segments (en_ops E) (sk_outgoing w) (sk_adapter w) (sk_kernel w) = Inr (a, k)"
    and e: "w' = w\<lparr>sk_adapter := a, sk_kernel := k, sk_outgoing := []\<rparr>"
    using w' by (auto simp: sending_callback_def)
  have "socket_runs G s cfg random Q mine (w\<lparr>sk_outgoing := []\<rparr>)"
    using runs sends_subset [of cfg random _ _ "sk_outgoing w" "[]"]
    by (auto simp: socket_runs_def peer_runs_def)
  then show ?thesis unfolding e
    by (rule socket_runs_apart) (use write_segments_apart [OF ok wr] runs in \<open>simp_all add: socket_runs_def\<close>)
qed

subsection \<open>The rules of the event loop\<close>

definition tcp_rule ::
  "nat \<Rightarrow> (('a, 'k) minnow_shared \<Rightarrow> fd_wrapper) \<Rightarrow> direction \<Rightarrow> (('a, 'k) minnow \<Rightarrow> ('a, 'k) minnow result) \<Rightarrow>
   (('a, 'k) minnow \<Rightarrow> bool result) \<Rightarrow> ('a, 'k) minnow callback \<Rightarrow> ('a, 'k) minnow fd_rule" where
  "tcp_rule i fd dir callback interest cancel =
     \<lparr>br_id = i, br_category_id = i, br_interest = as_interest interest, br_callback = as_callback callback,
      fr_fd = fd, fr_direction = dir, fr_cancel = cancel, fr_recover = default_recover\<rparr>"

definition the_tcp_rules :: "('a, 'k) minnow_env \<Rightarrow> ('a, 'k) minnow fd_rule list" where
  "the_tcp_rules E =
     [tcp_rule 0 (adapter_fd E) In (network_callback E) network_interest default_cancel,
      tcp_rule 1 thread_fd In (outbound_callback E) outbound_interest (as_callback outbound_cancel),
      tcp_rule 2 thread_fd Out (inbound_callback E) inbound_interest default_cancel,
      tcp_rule 3 (adapter_fd E) Out (sending_callback E) sending_interest default_cancel]"

lemma add_tcp_rules_are:
  assumes "add_tcp_rules E (new_event_loop capacity) = Inr el"
  shows "el_fd_rules el = the_tcp_rules E" and "el_non_fd_rules el = []"
  using assms
  by (auto simp: add_tcp_rules_def add_named_fd_rule_def add_category_def add_fd_rule_def new_event_loop_def
      Let_def the_tcp_rules_def tcp_rule_def numeral_2_eq_2 numeral_3_eq_3 split: if_splits)

lemma add_tcp_rules_exist:
  "4 \<le> capacity \<Longrightarrow> \<exists>el. add_tcp_rules E (new_event_loop capacity) = Inr el"
  by (simp add: add_tcp_rules_def add_named_fd_rule_def add_category_def add_fd_rule_def new_event_loop_def Let_def)

lemma distinct_tcp_rules: "distinct (the_tcp_rules E)"
  by (simp add: the_tcp_rules_def tcp_rule_def)

lemma tcp_rule_simps [simp]:
  "br_id (tcp_rule i fd dir cb f ca) = i" "br_interest (tcp_rule i fd dir cb f ca) = as_interest f"
  "br_callback (tcp_rule i fd dir cb f ca) = as_callback cb"
  "fr_cancel (tcp_rule i fd dir cb f ca) = ca" "fr_recover (tcp_rule i fd dir cb f ca) = default_recover"
  by (simp_all add: tcp_rule_def)

text \<open>What a rule wants: the second one room in a stream that is not shut down.\<close>

definition tcp_wants :: "('a, 'k) minnow fd_rule \<Rightarrow> ('a, 'k) minnow_shared \<Rightarrow> bool" where
  "tcp_wants r sh \<longleftrightarrow> (br_id r = 1 \<longrightarrow> outbound_interest (sh_world sh) = Inr True)"

definition keeps_running ::
  "('a, 'k) minnow_env \<Rightarrow> 'k byte_log \<Rightarrow> int \<Rightarrow> tcp_config \<Rightarrow> u32 \<Rightarrow> (tcp_sender_message \<Rightarrow> bool) \<Rightarrow>
   ('a \<Rightarrow> bool) \<Rightarrow> ('a, 'k) minnow_shared \<Rightarrow> bool" where
  "keeps_running E G s cfg random Q mine sh \<longleftrightarrow> socket_world E G s Q mine \<and> socket_runs G s cfg random Q mine (sh_world sh)"

lemma tcp_rule_cases:
  assumes "r \<in> set (the_tcp_rules E)"
  obtains i fd dir cb f ca where "r = tcp_rule i fd dir cb f ca"
    and "(i, cb, f, ca) \<in> {(0, network_callback E, network_interest, default_cancel),
           (1, outbound_callback E, outbound_interest, as_callback outbound_cancel),
           (2, inbound_callback E, inbound_interest, default_cancel),
           (3, sending_callback E, sending_interest, default_cancel)}"
  using assms unfolding the_tcp_rules_def by auto

lemma tcp_interest_pure:
  assumes "r \<in> set (the_tcp_rules E)" and "br_interest r sh = Inr (sh', b)"
  shows "sh' = sh" and "b \<Longrightarrow> tcp_wants r sh"
  using assms(1)
  by (rule tcp_rule_cases, use assms(2) in \<open>auto simp: as_interest_def tcp_wants_def\<close>)+

lemma tcp_rules_same_id:
  "r \<in> set (the_tcp_rules E) \<Longrightarrow> q \<in> set (the_tcp_rules E) \<Longrightarrow> br_id q = br_id r \<Longrightarrow> q = r"
  by (auto simp: the_tcp_rules_def)

lemma tcp_cancel_is:
  assumes "r \<in> set (the_tcp_rules E)" and "fr_cancel r sh = Inr sh'"
  shows "sh' = sh \<or> br_id r = 1 \<and> outbound_cancel (sh_world sh) = Inr (sh_world sh')"
  using assms(1)
  by (rule tcp_rule_cases) (use assms(2) in \<open>auto simp: as_callback_def default_cancel_def\<close>)

lemma only_waits_wants:
  assumes "only_waits G s (sh_world sh) (sh_world sh')" and "tcp_wants q sh"
  shows "tcp_wants q sh'"
  using assms by (auto simp: only_waits_def tcp_wants_def outbound_interest_def the_tcp_def)

lemma tcp_callback_keeps:
  assumes "r \<in> set (the_tcp_rules E)" and "keeps_running E G s cfg random Q mine sh" and "tcp_wants r sh"
    and "br_callback r sh = Inr sh'"
  shows "keeps_running E G s cfg random Q mine sh'"
proof -
  have ok: "socket_world E G s Q mine" and runs: "socket_runs G s cfg random Q mine (sh_world sh)"
    using assms(2) by (simp_all add: keeps_running_def)
  from assms(1) have "socket_runs G s cfg random Q mine (sh_world sh')"
  proof (rule tcp_rule_cases)
    fix i fd dir cb f ca
    assume r: "r = tcp_rule i fd dir cb f ca"
      and cases: "(i, cb, f, ca) \<in> {(0, network_callback E, network_interest, default_cancel),
           (1, outbound_callback E, outbound_interest, as_callback outbound_cancel),
           (2, inbound_callback E, inbound_interest, default_cancel),
           (3, sending_callback E, sending_interest, default_cancel)}"
    have cb: "cb (sh_world sh) = Inr (sh_world sh')" using assms(4) unfolding r by (auto simp: as_callback_def)
    have w: "i = 1 \<Longrightarrow> outbound_interest (sh_world sh) = Inr True" using assms(3) unfolding r by (simp add: tcp_wants_def)
    from cases consider "cb = network_callback E" | "i = 1" "cb = outbound_callback E" | "cb = inbound_callback E"
      | "cb = sending_callback E" by auto
    then show ?thesis
    proof cases
      case 1 then show ?thesis using network_callback_runs [OF ok runs] cb by simp
    next
      case 2 then show ?thesis using outbound_callback_runs [OF ok runs w] cb by simp
    next
      case 3 then show ?thesis using inbound_callback_runs [OF ok runs] cb by simp
    next
      case 4 then show ?thesis using sending_callback_runs [OF ok runs] cb by simp
    qed
  qed
  with ok show ?thesis by (simp add: keeps_running_def)
qed

lemma only_waits_keeps:
  "only_waits G s (sh_world sh) (sh_world sh') \<Longrightarrow> keeps_running E G s cfg random Q mine sh \<Longrightarrow>
     keeps_running E G s cfg random Q mine sh'"
  by (auto simp: keeps_running_def dest: only_waits_runs)

interpretation socket_loop:
  loop_contract "en_poll E" "set (the_tcp_rules E)" "keeps_running E G s cfg random Q mine" tcp_wants
proof (unfold_locales, goal_cases)
  case (1 r sh sh')
  then show ?case using tcp_interest_pure [OF 1(1,3)] by simp
next
  case (2 r sh sh' b)
  then show ?case using tcp_interest_pure(1) [OF 2(1,3)] by simp
next
  case (3 r q sh sh' b)
  then show ?case using tcp_interest_pure(1) [OF 3(1,4)] by simp
next
  case (4 r sh sh')
  from tcp_cancel_is [OF 4(1,3)] 4(2) show ?case
    by (auto simp: keeps_running_def dest: outbound_cancel_runs)
next
  case (5 r q sh sh')
  from tcp_cancel_is [OF 5(1,5)] show ?case
  proof
    assume "br_id r = 1 \<and> outbound_cancel (sh_world sh) = Inr (sh_world sh')"
    then have "br_id q \<noteq> 1" using tcp_rules_same_id [OF 5(1,2)] 5(3) by auto
    then show ?thesis by (simp add: tcp_wants_def)
  qed (use 5(6) in simp)
next
  case (6 r sh sh' b)
  then show ?case by (auto elim!: tcp_rule_cases simp: default_recover_def)
next
  case (7 r q sh sh' b)
  then show ?case by (auto elim!: tcp_rule_cases simp: default_recover_def)
next
  case (8 sh ps t sh' ret revents)
  have "socket_world E G s Q mine" using 8(1) by (simp add: keeps_running_def)
  then show ?case using only_waits_keeps [OF socket_worldD(8) [OF _ 8(2)] 8(1)] by blast
next
  case (9 q sh ps t sh' ret revents)
  have "socket_world E G s Q mine" using 9(2) by (simp add: keeps_running_def)
  then show ?case using only_waits_wants [OF socket_worldD(8) [OF _ 9(3)] 9(4)] by blast
next
  case (10 sh fd sh' ret err len)
  have "socket_world E G s Q mine" using 10(1) by (simp add: keeps_running_def)
  then show ?case using only_waits_keeps [OF socket_worldD(9) [OF _ 10(2)] 10(1)] by blast
next
  case (11 q sh fd sh' ret err len)
  have "socket_world E G s Q mine" using 11(2) by (simp add: keeps_running_def)
  then show ?case using only_waits_wants [OF socket_worldD(9) [OF _ 11(3)] 11(4)] by blast
next
  case (12 r sh sh')
  show ?case by (rule tcp_callback_keeps [OF 12])
qed

subsection \<open>Running the socket\<close>

lemma tick_all_runs:
  assumes ok: "socket_world E G s Q mine" and runs: "socket_runs G s cfg random Q mine w"
    and p: "sk_tcp w = Some p" and t: "tick_all E p base_time w = Inr (base_time', w')"
  shows "socket_runs G s cfg random Q mine w'"
proof -
  obtain k now where c: "en_clock E (sk_kernel w) = (k, now)" by (cases "en_clock E (sk_kernel w)")
  then have k: "apart G s (sk_kernel w) k" using socket_worldD(10) [OF ok, of "sk_kernel w"] by simp
  let ?w = "w\<lparr>sk_kernel := k, sk_tcp := Some (peer_tick (now - base_time) p)\<rparr>"
  have "socket_runs G s cfg random Q mine ?w"
    using runs p k peer_tick_runs by (auto simp: socket_runs_def apart_def peer_tick_def)
  moreover obtain w1 where w1: "collect_segments ?w = Inr w1" using t c by (auto simp: tick_all_def)
  ultimately have 1: "socket_runs G s cfg random Q mine w1" using collect_segments_runs by blast
  obtain a k2 where tk: "ao_tick (en_ops E) (now - base_time) (sk_adapter w1) (sk_kernel w1) = Inr (a, k2)"
    and w': "w' = w1\<lparr>sk_adapter := a, sk_kernel := k2\<rparr>"
    using t c w1 by (auto simp: tick_all_def)
  show ?thesis unfolding w'
    by (rule socket_runs_apart [OF 1]) (use socket_worldD(7) [OF ok _ tk] 1 in \<open>simp_all add: socket_runs_def\<close>)
qed

text \<open>A step: one iteration of a loop of the socket, or the reading of the clock before it.\<close>

inductive socket_step ::
  "('a, 'k) minnow_env \<Rightarrow> ('a, 'k) minnow_loop \<times> ('a, 'k) minnow_shared \<Rightarrow>
   ('a, 'k) minnow_loop \<times> ('a, 'k) minnow_shared \<Rightarrow> bool" for E where
  iterate: "tcp_iteration E base_time el sh = Inr (again, base_time', el', sh') \<Longrightarrow>
    socket_step E (el, sh) (el', sh')"
| look: "en_clock E (sk_kernel (sh_world sh)) = (k, now) \<Longrightarrow>
    socket_step E (el, sh) (el, sh\<lparr>sh_world := (sh_world sh)\<lparr>sk_kernel := k\<rparr>\<rparr>)"

definition tcp_loop_ok :: "('a, 'k) minnow_env \<Rightarrow> ('a, 'k) minnow_loop \<Rightarrow> bool" where
  "tcp_loop_ok E el \<longleftrightarrow>
     el_non_fd_rules el = [] \<and> set (el_fd_rules el) \<subseteq> set (the_tcp_rules E) \<and> distinct (el_fd_rules el)"

lemma socket_step_keeps:
  assumes "socket_step E (el, sh) (el', sh')" and "tcp_loop_ok E el" and "keeps_running E G s cfg random Q mine sh"
  shows "tcp_loop_ok E el' \<and> keeps_running E G s cfg random Q mine sh'"
  using assms(1)
proof cases
  case (iterate base_time again base_time')
  have ok: "socket_world E G s Q mine" using assms(3) by (simp add: keeps_running_def)
  obtain sh1 ret where w: "wait_next_event (en_poll E) TCP_TICK_MS el sh = Inr (el', sh1, ret)"
    and r: "sh' = sh1 \<or> (\<exists>p b w. sk_tcp (sh_world sh1) = Some p \<and>
      tick_all E p base_time (sh_world sh1) = Inr (b, w) \<and> sh' = sh1\<lparr>sh_world := w\<rparr>)"
    using iterate by (auto simp: tcp_iteration_def split: if_splits option.splits)
  have "keeps_running E G s cfg random Q mine sh1 \<and> el_non_fd_rules el' = [] \<and>
      set (el_fd_rules el') \<subseteq> set (the_tcp_rules E) \<and> distinct (el_fd_rules el')"
    using assms(2,3) unfolding tcp_loop_ok_def by (intro socket_loop.wait_keeps [OF w]) auto
  with r tick_all_runs [OF ok] show ?thesis
    by (auto simp: tcp_loop_ok_def keeps_running_def)
next
  case (look k now)
  then have "apart G s (sk_kernel (sh_world sh)) k"
    using socket_worldD(10) [of E G s Q mine "sk_kernel (sh_world sh)"] assms(3) by (simp add: keeps_running_def)
  then show ?thesis using look assms(2,3) by (auto simp: keeps_running_def intro: socket_runs_apart)
qed

lemma socket_steps_keep:
  assumes "(socket_step E)\<^sup>*\<^sup>* (el, sh) (el', sh')" and "tcp_loop_ok E el" and "keeps_running E G s cfg random Q mine sh"
  shows "tcp_loop_ok E el' \<and> keeps_running E G s cfg random Q mine sh'"
  using assms
proof (induction rule: rtranclp_induct2)
  case (step el1 sh1 el2 sh2)
  from step.IH [OF step.prems] socket_step_keeps [OF step.hyps(2)] show ?case by blast
qed blast

subsection \<open>Connecting\<close>

definition fresh_socket :: "'k byte_log \<Rightarrow> int \<Rightarrow> ('a \<Rightarrow> bool) \<Rightarrow> ('a, 'k) minnow \<Rightarrow> bool" where
  "fresh_socket G s mine w \<longleftrightarrow>
     mine (sk_adapter w) \<and> bl_in G (sk_kernel w) s = [] \<and> bl_out G (sk_kernel w) s = [] \<and>
     sk_outgoing w = [] \<and> fw_fd (sk_thread_data w) = s"

lemma initialize_tcp_is:
  assumes "initialize_tcp E cfg random (new_event_loop capacity) w = Inr (el, w')"
  shows "w' = w\<lparr>sk_tcp := Some (new_tcp_peer cfg random)\<rparr> \<and> tcp_loop_ok E el"
  using assms distinct_tcp_rules [of E]
  by (auto simp: initialize_tcp_def Let_def tcp_loop_ok_def add_tcp_rules_are)

lemma start_connect_runs:
  assumes ok: "socket_world E G s Q mine" and fresh: "fresh_socket G s mine w"
    and start: "start_connect E cfg c_ad random (new_event_loop capacity) w = Inr (el, w')"
  shows "tcp_loop_ok E el \<and> socket_runs G s cfg random Q mine w'"
proof -
  obtain w1 where i: "initialize_tcp E cfg random (new_event_loop capacity) w = Inr (el, w1)"
    using start by (auto simp: start_connect_def Let_def split: if_splits)
  note w1 = initialize_tcp_is [OF i]
  let ?p = "new_tcp_peer cfg random"
  let ?w = "set_adapter_config E c_ad w1"
  obtain w2 where p: "on_tcp (\<lambda>p. returned (peer_push p)) ?w = Inr w2" and c: "collect_segments w2 = Inr w'"
    using start i by (auto simp: start_connect_def Let_def split: if_splits)
  have w: "sk_tcp ?w = Some ?p" "sk_kernel ?w = sk_kernel w" "sk_outgoing ?w = []"
    "sk_thread_data ?w = sk_thread_data w" "mine (sk_adapter ?w)"
    using w1 fresh socket_worldD(11) [OF ok] by (simp_all add: set_adapter_config_def fresh_socket_def)
  obtain p2 where p2: "peer_push ?p = Some (Inr p2)" "w2 = ?w\<lparr>sk_tcp := Some p2\<rparr>"
    using p w(1) by (auto simp: on_tcp_def the_tcp_def returned_Inr)
  have "\<not> bs_closed (pe_outbound ?p)" by (simp add: new_tcp_peer_def new_byte_stream_def)
  then have "\<not> bs_closed (pe_outbound p2)" using peer_push_keeps [OF p2(1)] by simp
  with peer_push_runs [OF sends_new receives_new p2(1)] fresh w
  have "socket_runs G s cfg random Q mine w2"
    unfolding p2(2) by (simp add: socket_runs_def fresh_socket_def)
  with collect_segments_runs [OF c] w1 show ?thesis by blast
qed

text \<open>A loop that returns has made steps.\<close>

lemma tcp_loop_from_steps:
  assumes "tcp_loop_from E condition base_time el sh = Some (Inr (el', sh'))"
  shows "(socket_step E)\<^sup>*\<^sup>* (el, sh) (el', sh')"
proof -
  let ?P = "\<lambda>(E :: ('a, 'b) minnow_env) condition (base_time :: u64) el sh (r :: (('a, 'b) minnow_loop \<times> ('a, 'b) minnow_shared) result).
      \<forall>el' sh'. r = Inr (el', sh') \<longrightarrow> (socket_step E)\<^sup>*\<^sup>* (el, sh) (el', sh')"
  have "?P E condition base_time el sh (Inr (el', sh'))"
  proof (rule tcp_loop_from.raw_induct [where P = ?P, OF _ assms])
    fix f and E :: "('a, 'b) minnow_env" and condition base_time el sh
      and r :: "(('a, 'b) minnow_loop \<times> ('a, 'b) minnow_shared) result"
    assume IH: "\<And>E condition base_time el sh r. f E condition base_time el sh = Some r \<Longrightarrow>
        ?P E condition base_time el sh r"
      and body: "(case condition (sh_world sh) of
        Inl e \<Rightarrow> Some (Inl e)
      | Inr go_on \<Rightarrow>
          if \<not> go_on then Some (Inr (el, sh))
          else (case tcp_iteration E base_time el sh of
             Inl e \<Rightarrow> Some (Inl e)
           | Inr (again, base_time, el, sh) \<Rightarrow>
               if again then f E condition base_time el sh else Some (Inr (el, sh)))) = Some r"
    show "?P E condition base_time el sh r"
    proof (intro allI impI)
      fix el' sh'
      assume r: "r = Inr (el', sh')"
      with body consider "el' = el" "sh' = sh"
        | b where "tcp_iteration E base_time el sh = Inr (False, b, el', sh')"
        | b el1 sh1 where "tcp_iteration E base_time el sh = Inr (True, b, el1, sh1)" "f E condition b el1 sh1 = Some r"
        by (auto split: sum.splits if_splits)
      then show "(socket_step E)\<^sup>*\<^sup>* (el, sh) (el', sh')"
      proof cases
        case 2
        then show ?thesis by (blast intro: socket_step.iterate)
      next
        case 3
        from IH [OF 3(2)] r have "(socket_step E)\<^sup>*\<^sup>* (el1, sh1) (el', sh')" by blast
        with socket_step.iterate [OF 3(1)] show ?thesis by (blast intro: converse_rtranclp_into_rtranclp)
      qed simp
    qed
  qed
  then show ?thesis by blast
qed

lemma tcp_loop_steps:
  assumes "tcp_loop E condition el sh = Some (Inr (el', sh'))"
  shows "(socket_step E)\<^sup>*\<^sup>* (el, sh) (el', sh')"
proof -
  obtain k now where c: "en_clock E (sk_kernel (sh_world sh)) = (k, now)"
    by (cases "en_clock E (sk_kernel (sh_world sh))")
  let ?sh = "sh\<lparr>sh_world := (sh_world sh)\<lparr>sk_kernel := k\<rparr>\<rparr>"
  have "(socket_step E)\<^sup>*\<^sup>* (el, ?sh) (el', sh')"
    using assms c by (intro tcp_loop_from_steps [where condition = condition and base_time = now]) (simp add: tcp_loop_def)
  with socket_step.look [OF c] show ?thesis by (blast intro: converse_rtranclp_into_rtranclp)
qed

lemma minnow_connect_steps:
  assumes "minnow_connect E cfg c_ad random el0 sh0 = Some (Inr (el', sh'))"
  shows "\<exists>el w. start_connect E cfg c_ad random el0 (sh_world sh0) = Inr (el, w) \<and>
           (socket_step E)\<^sup>*\<^sup>* (el, sh0\<lparr>sh_world := w\<rparr>) (el', sh')"
proof -
  obtain el w where s: "start_connect E cfg c_ad random el0 (sh_world sh0) = Inr (el, w)"
    using assms by (auto simp: minnow_connect_def split: sum.splits)
  have "tcp_loop E connecting el (sh0\<lparr>sh_world := w\<rparr>) = Some (Inr (el', sh'))"
    using assms s by (auto simp: minnow_connect_def)
  from tcp_loop_steps [OF this] s show ?thesis by blast
qed

text \<open>What \<open>connect\<close> sends before its loop.\<close>

definition syn_segment :: "tcp_config \<Rightarrow> u32 \<Rightarrow> tcp_segment" where
  "syn_segment cfg random =
     \<lparr>tg_sender = \<lparr>sm_seqno = ts_isn (pe_sender (new_tcp_peer cfg random)), sm_SYN = True, sm_payload = [],
                    sm_FIN = False\<rparr>,
      tg_receiver = \<lparr>rm_ackno = None, rm_window_size = ucast (min (cfg_recv_capacity cfg) 65535)\<rparr>,
      tg_reset = False, tg_udinfo = tg_udinfo empty_tcp_segment\<rparr>"

lemma new_peer_connects:
  obtains p p' where "peer_push (new_tcp_peer cfg random) = Some (Inr p)"
    and "collect_loop p [] = Some (Inr (p', [syn_segment cfg random]))"
    and "sequence_numbers_in_flight (pe_sender p') = 1" and "peer_open p'" and "\<not> ts_retransmit (pe_sender p')"
    and "stream_content (pe_outbound p') = []" and "bs_capacity (pe_outbound p') = cfg_send_capacity cfg"
    and "pe_inbound p' = new_byte_stream (cfg_recv_capacity cfg)"
proof -
  let ?p0 = "new_tcp_peer cfg random"
  let ?s = "pe_sender ?p0" and ?out = "new_byte_stream (cfg_send_capacity cfg)"
  have out: "pe_outbound ?p0 = ?out" by (simp add: new_tcp_peer_def)
  have s: "\<not> ts_syn_sent ?s" "ts_ackno ?s = Some (ts_isn ?s)" "ts_pushed ?s = []" "ts_in_flight ?s = []"
    "\<not> ts_retransmit ?s" "ts_abs_seqno ?s = 0" "\<not> ts_fin_sent ?s"
    by (simp_all add: new_tcp_peer_def)
  obtain out1 where push: "sender_push ?s ?out =
      Some (Inr ((after_push [first_segment ?s ?out] ?s)\<lparr>ts_syn_sent := True\<rparr>, out1))"
    and out1: "bs_error out1 = bs_error ?out" "stream_inv out1" "stream_content out1 = []"
      "bs_capacity out1 = bs_capacity ?out"
    by (rule sender_push_first [OF new_stream_inv stream_content_new s(1,2)])
  let ?m = "first_segment ?s ?out"
  have m: "?m = tg_sender (syn_segment cfg random)"
    using s by (cases "ts_isn ?s") (simp add: first_segment_def syn_segment_def new_byte_stream_def wrap_def wrap32_plus_def)
  define s1 where "s1 = (after_push [?m] ?s)\<lparr>ts_syn_sent := True\<rparr>"
  have s1: "ts_pushed s1 = [?m]" "ts_in_flight s1 = []" "\<not> ts_retransmit s1" by (simp_all add: s1_def s)
  obtain s2 where send: "sender_maybe_send s1 = Inr (s2, Some ?m)" and s2: "ts_pushed s2 = []"
    "map os_message (ts_in_flight s2) = [?m]" "\<not> ts_retransmit s2" "ts_syn_sent s2" "ts_ackno s2 \<noteq> None"
  proof -
    have "ts_syn_sent s1" "ts_ackno s1 \<noteq> None" using s(2) by (simp_all add: s1_def)
    then show thesis using s1 that by (simp add: sender_maybe_send_def Let_def)
  qed
  let ?p1 = "?p0\<lparr>pe_sender := s1, pe_outbound := out1\<rparr>" and ?p2 = "?p0\<lparr>pe_sender := s2, pe_outbound := out1\<rparr>"
  have p0: "pe_receiver ?p0 = new_tcp_receiver" "pe_inbound ?p0 = new_byte_stream (cfg_recv_capacity cfg)"
    "\<not> pe_need_send ?p0" by (simp_all add: new_tcp_peer_def)
  have "\<not> bs_error out1" using out1 by (simp add: new_byte_stream_def)
  then have first: "peer_maybe_send ?p1 = Some (Inr (?p2, Some (syn_segment cfg random)))"
    using send m p0
    by (simp add: peer_maybe_send_def peer_make_segment_def receiver_send_def new_tcp_receiver_def Let_def
        reader_has_error_def new_byte_stream_def available_capacity_def syn_segment_def)
  have "sender_maybe_send s2 = Inr (s2, None)" using s2 by (simp add: sender_maybe_send_def)
  then have second: "peer_maybe_send ?p2 = Some (Inr (?p2, None))"
    using p0 by (simp add: peer_maybe_send_def peer_make_segment_def receiver_send_def new_tcp_receiver_def Let_def)
  have "peer_push ?p0 = Some (Inr ?p1)" using push out by (simp add: peer_push_def s1_def)
  moreover have "collect_loop ?p1 [] = Some (Inr (?p2, [syn_segment cfg random]))"
    by (subst collect_loop.simps, simp add: first, subst collect_loop.simps, simp add: second)
  moreover have "sequence_numbers_in_flight s2 = 1"
    using s2 by (simp add: in_flight_sum outstanding_def segments_length_def sequence_length_def m syn_segment_def)
  ultimately show ?thesis
    using s2(3-5) out1 p0(2) by (intro that [of ?p1 ?p2]) (simp_all add: peer_open_def new_byte_stream_def)
qed

lemma connect_starts:
  assumes "sk_tcp w = None" and "sk_outgoing w = []" and "4 \<le> capacity"
    and "debug_destination E c_ad = Inr name"
  obtains el w' where "start_connect E cfg c_ad random (new_event_loop capacity) w = Inr (el, w')"
    and "sk_outgoing w' = [syn_segment cfg random]" and "connecting w' = Inr True"
    and "sk_kernel w' = sk_kernel w" and "sk_thread_data w' = sk_thread_data w"
    and "sk_adapter w' = sk_adapter (set_adapter_config E c_ad w)" and "tcp_loop_ok E el"
    and "el_fd_rules el = the_tcp_rules E" and "sk_outbound_shutdown w' = sk_outbound_shutdown w"
    and "sk_abort w' = sk_abort w"
    and "\<exists>p. sk_tcp w' = Some p \<and> peer_open p \<and> \<not> ts_retransmit (pe_sender p) \<and>
           stream_content (pe_outbound p) = [] \<and> bs_capacity (pe_outbound p) = cfg_send_capacity cfg \<and>
           pe_inbound p = new_byte_stream (cfg_recv_capacity cfg)"
proof -
  obtain el where el: "add_tcp_rules E (new_event_loop capacity) = Inr el"
    using add_tcp_rules_exist [OF assms(3), of E] by blast
  obtain p p' where p: "peer_push (new_tcp_peer cfg random) = Some (Inr p)"
    "collect_loop p [] = Some (Inr (p', [syn_segment cfg random]))"
    "sequence_numbers_in_flight (pe_sender p') = 1" and p': "peer_open p'" "\<not> ts_retransmit (pe_sender p')"
    "stream_content (pe_outbound p') = []" "bs_capacity (pe_outbound p') = cfg_send_capacity cfg"
    "pe_inbound p' = new_byte_stream (cfg_recv_capacity cfg)"
    by (rule new_peer_connects)
  let ?w = "set_adapter_config E c_ad (w\<lparr>sk_tcp := Some (new_tcp_peer cfg random)\<rparr>)"
  let ?w' = "?w\<lparr>sk_tcp := Some p', sk_outgoing := [syn_segment cfg random]\<rparr>"
  have i: "initialize_tcp E cfg random (new_event_loop capacity) w =
      Inr (el, w\<lparr>sk_tcp := Some (new_tcp_peer cfg random)\<rparr>)"
    by (simp add: initialize_tcp_def el)
  have "sk_tcp ?w = Some (new_tcp_peer cfg random)" "sk_outgoing ?w = []"
    using assms(2) by (simp_all add: set_adapter_config_def)
  then have "start_connect E cfg c_ad random (new_event_loop capacity) w = Inr (el, ?w')"
    using assms(1,4) p
    by (simp add: start_connect_def i Let_def on_tcp_def the_tcp_def collect_segments_def connecting_def)
  moreover have "connecting ?w' = Inr True" using p(3) by (simp add: connecting_def the_tcp_def)
  moreover have "tcp_loop_ok E el" using initialize_tcp_is [OF i] by blast
  ultimately show ?thesis using p' add_tcp_rules_are(1) [OF el]
    by (intro that [of el ?w']) (simp_all add: set_adapter_config_def)
qed

subsection \<open>The states of a connected socket\<close>

text \<open>
  The states that a socket goes through once \<open>connect\<close> has been called on it: in its loop,
  and in the loop of the thread that it starts.
\<close>

definition socket_reaches ::
  "('a, 'k) minnow_env \<Rightarrow> tcp_config \<Rightarrow> fd_adapter_config \<Rightarrow> u32 \<Rightarrow> nat \<Rightarrow> ('a, 'k) minnow \<Rightarrow>
   ('a, 'k) minnow_shared \<Rightarrow> bool" where
  "socket_reaches E cfg c_ad random capacity w sh \<longleftrightarrow>
     (\<exists>el w1 el'. start_connect E cfg c_ad random (new_event_loop capacity) w = Inr (el, w1) \<and>
        (socket_step E)\<^sup>*\<^sup>* (el, \<lparr>sh_world = w1, sh_cancelled = {}\<rparr>) (el', sh))"

lemma minnow_connect_reaches:
  assumes "minnow_connect E cfg c_ad random (new_event_loop capacity) \<lparr>sh_world = w, sh_cancelled = {}\<rparr> =
             Some (Inr (el, sh))"
    and "tcp_loop E (\<lambda>w. Inr True) el sh = Some (Inr (el', sh'))"
  shows "socket_reaches E cfg c_ad random capacity w sh \<and> socket_reaches E cfg c_ad random capacity w sh'"
proof -
  obtain el1 w1 where 1: "start_connect E cfg c_ad random (new_event_loop capacity) w = Inr (el1, w1)"
    "(socket_step E)\<^sup>*\<^sup>* (el1, \<lparr>sh_world = w1, sh_cancelled = {}\<rparr>) (el, sh)"
    using minnow_connect_steps [OF assms(1)] by auto
  moreover from 1(2) tcp_loop_steps [OF assms(2)]
  have "(socket_step E)\<^sup>*\<^sup>* (el1, \<lparr>sh_world = w1, sh_cancelled = {}\<rparr>) (el', sh')" by (rule rtranclp_trans)
  ultimately show ?thesis unfolding socket_reaches_def by blast
qed

lemma socket_reaches_runs:
  assumes "socket_world E G s Q mine" and "fresh_socket G s mine w"
    and "socket_reaches E cfg c_ad random capacity w sh"
  shows "socket_runs G s cfg random Q mine (sh_world sh)"
proof -
  obtain el w1 el' where 1: "start_connect E cfg c_ad random (new_event_loop capacity) w = Inr (el, w1)"
    and steps: "(socket_step E)\<^sup>*\<^sup>* (el, \<lparr>sh_world = w1, sh_cancelled = {}\<rparr>) (el', sh)"
    using assms(3) unfolding socket_reaches_def by blast
  have "tcp_loop_ok E el" and "keeps_running E G s cfg random Q mine \<lparr>sh_world = w1, sh_cancelled = {}\<rparr>"
    using start_connect_runs [OF assms(1,2) 1] assms(1) by (simp_all add: keeps_running_def)
  from socket_steps_keep [OF steps this] show ?thesis by (simp add: keeps_running_def)
qed

lemma sends_sender_inv:
  assumes "sends cfg random p written queued" and "length written + 2 < 2 ^ 64"
  shows "\<exists>sent. written = sent @ stream_content (pe_outbound p) \<and> tx_ok sent (pe_sender p) \<and>
           stream_inv (pe_outbound p) \<and>
           (\<forall>seg \<in> set queued. (\<exists>f. segment_of sent (ts_isn (pe_sender p)) f (tg_sender seg)) \<or>
              sequence_length (tg_sender seg) = 0)"
proof -
  obtain x where x: "sender_step\<^sup>*\<^sup>* (new_sender_sys (pe_sender (new_tcp_peer cfg random)) (cfg_send_capacity cfg)) x"
    "ss_tx x = pe_sender p" "ss_out x = pe_outbound p" "ss_written x = written" "\<forall>seg \<in> set queued. carries x seg"
    using assms(1) unfolding sends_def by blast
  have "sender_inv (new_sender_sys (pe_sender (new_tcp_peer cfg random)) (cfg_send_capacity cfg))"
    by (simp add: new_tcp_peer_def sender_inv_new)
  from sender_reach_inv [OF x(1) this] x(4) assms(2) have "sender_inv x" by simp
  with x show ?thesis by (intro exI [of _ "ss_sent x"]) (auto simp: sender_inv_def carries_def)
qed

lemma receives_delivers:
  assumes "receives cfg (\<lambda>m. \<exists>f. segment_of str isn f m) p taken"
    and "length str < 2 ^ 31 - 1" and "length str + unat (cfg_recv_capacity cfg) < 2 ^ 64"
  shows "\<exists>rest. str = taken @ stream_content (pe_inbound p) @ rest \<and>
           (writer_is_closed (pe_inbound p) \<longrightarrow> rest = [])"
proof -
  obtain es s where s: "receiver_run es (new_tcp_receiver, new_sys (cfg_recv_capacity cfg)) = Inr (pe_receiver p, s)"
    "\<forall>m. Segment m \<in> set es \<longrightarrow> (\<exists>f. segment_of str isn f m)" "rs_read s = taken"
    and o: "pe_inbound p = rs_out s \<or> pe_inbound p = writer_set_error (rs_out s)"
    using assms(1) unfolding receives_def by blast
  have ev: "\<forall>e \<in> set es. receiver_event_of str isn e"
  proof
    fix e assume "e \<in> set es"
    with s(2) show "receiver_event_of str isn e" by (cases e) auto
  qed
  have "bs_capacity (rs_out (new_sys (cfg_recv_capacity cfg))) = cfg_recv_capacity cfg"
    by (simp add: new_sys_def new_byte_stream_def)
  with assms(3) have "length str + unat (bs_capacity (rs_out (new_sys (cfg_recv_capacity cfg)))) < 2 ^ 64" by simp
  from receiver_inv_run [OF receiver_inv_new ev assms(2) this] s(1)
  have "receiver_inv str isn (pe_receiver p, s)" by auto
  then have sys: "sys_inv str s" by (simp add: receiver_inv_def)
  have same: "stream_content (pe_inbound p) = stream_content (rs_out s)"
    "writer_is_closed (pe_inbound p) = bs_closed (rs_out s)"
    using o by (auto simp: writer_set_error_def stream_content_def writer_is_closed_def)
  have "taken @ stream_content (pe_inbound p) = take (next_index (rs_out s)) str"
    using sys s(3) same by (simp add: sys_inv_def)
  then have "str = taken @ stream_content (pe_inbound p) @ drop (next_index (rs_out s)) str"
    by (metis append.assoc append_take_drop_id)
  moreover have "writer_is_closed (pe_inbound p) \<longrightarrow> drop (next_index (rs_out s)) str = []"
    using sys same by (auto simp: sys_inv_def)
  ultimately show ?thesis by blast
qed

end
