(* ===== verification/Socket_Relay.thy ===== *)
theory Socket_Relay
  imports Socket_Run Relay_Device
begin

text \<open>
  What a connected socket of \<open>util/tcp_minnow_socket.cc\<close> does for its application: the
  properties of every state it reaches, with a socket over a TUN device as the example.
\<close>

subsection \<open>The TUN adapter keeps apart\<close>

lemma fd_readv_apart:
  assumes "readv_logged K G" and "fd_readv K bufs fw k = Inr (bufs', fw', k')" and "fw_fd fw \<noteq> s"
  shows "apart G s k k' \<and> fw_fd fw' = fw_fd fw"
proof (cases "bufs = []")
  case True
  then show ?thesis using assms(2) by (simp add: fd_readv_def)
next
  case False
  let ?ns = "map length (butlast bufs @ [replicate kReadBufferSize 0])"
  obtain k1 r d where r: "k_readv K (fw_fd fw) ?ns k = (k1, r, d)" by (cases "k_readv K (fw_fd fw) ?ns k")
  then have "apart G s k k1" using assms(1,3) unfolding readv_logged_def apart_def by (metis (no_types, lifting))
  moreover have "k' = k1 \<and> fw_fd fw' = fw_fd fw"
    using assms(2) r False by (auto simp: fd_readv_def Let_def register_read_def split: if_splits)
  ultimately show ?thesis by simp
qed

lemma fd_writev_apart:
  assumes "writes_logged K G" and "fd_writev K bufs fw k = Inr (n, fw', k')" and "fw_fd fw \<noteq> s"
  shows "apart G s k k' \<and> fw_fd fw' = fw_fd fw"
proof -
  obtain k1 r where r: "k_writev K (fw_fd fw) bufs k = (k1, r)" by (cases "k_writev K (fw_fd fw) bufs k")
  then have "apart G s k k1" using assms(1,3) unfolding writes_logged_def apart_def by (metis fun_upd_apply)
  moreover have "k' = k1 \<and> fw_fd fw' = fw_fd fw"
    using assms(2) r by (auto simp: fd_writev_def Let_def register_write_def split: if_splits)
  ultimately show ?thesis by simp
qed

text \<open>A TUN adapter on another descriptor than the application's moves none of its bytes.\<close>

lemma tun_adapter_apart:
  assumes "readv_logged K G" and "writes_logged K G"
    and "\<And>tu k tu' k' g. tun_read K L tu k = Inr (tu', k', Some g) \<Longrightarrow> Q (tg_sender g)"
  shows "adapter_apart (tun_ops K L) G s Q (\<lambda>tu. fw_fd (tu_tun tu) \<noteq> s)"
proof -
  have rd: "fw_fd (tu_tun tu') \<noteq> s \<and> apart G s k k'"
    if r: "fw_fd (tu_tun tu) \<noteq> s" "tun_read K L tu k = Inr (tu', k', seg)" for tu k tu' k' seg
  proof -
    obtain strs fw k1 where v: "fd_readv K [replicate IPV4_LENGTH 0, []] (tu_tun tu) k = Inr (strs, fw, k1)"
      using r(2) by (auto simp: tun_read_def)
    then have "k' = k1 \<and> tu_tun tu' = fw" using r(2) by (auto simp: tun_read_def Let_def split: if_splits)
    with fd_readv_apart [OF assms(1) v r(1)] r(1) show ?thesis by simp
  qed
  have wr: "fw_fd (tu_tun tu') \<noteq> s \<and> apart G s k k'"
    if h: "fw_fd (tu_tun tu) \<noteq> s" "tun_write K L g tu k = Inr (g', tu', k')" for g tu k g' tu' k'
  proof -
    obtain bufs n fw where w: "fd_writev K bufs (tu_tun tu) k = Inr (n, fw, k')" and "tu_tun tu' = fw"
      using h(2) by (auto simp: tun_write_def)
    with fd_writev_apart [OF assms(2) w h(1)] h(1) show ?thesis by simp
  qed
  show ?thesis
  proof (rule adapter_apartI, goal_cases)
    case (1 a k a' k' seg)
    then have "tun_read K L a k = Inr (a', k', seg)" by (simp add: tun_ops_def)
    with rd [OF 1(1) this] assms(3) [of a k a' k'] show ?case by simp
  next
    case (2 g a k g' a' k')
    then show ?case using wr by (simp add: tun_ops_def)
  qed (auto simp: tun_ops_def)
qed

subsection \<open>An example\<close>

text \<open>
  A socket over a TUN device that cannot be read, whose application has written three bytes:
  the second rule of the event loop reads them.
\<close>

definition deaf_kernel :: "relay_device kernel" where
  "deaf_kernel = relay_kernel\<lparr>k_readv := \<lambda>fd ns d. (d, \<lparr>sr_value = -1, sr_errno = 5\<rparr>, [])\<rparr>"

lemma deaf_kernel_logged:
  "reads_logged deaf_kernel relay_log" "readv_logged deaf_kernel relay_log"
  "writes_logged deaf_kernel relay_log" "calls_logged deaf_kernel relay_sockets relay_log"
  using relay_device_logged
  by (simp_all add: deaf_kernel_def reads_logged_def writes_logged_def calls_logged_def readv_logged_def)

lemma deaf_reads_ok: "reads_ok deaf_kernel"
  using relay_reads_ok by (simp add: deaf_kernel_def reads_ok_def transfer_ok_def)

lemma deaf_tun_read: "tun_read deaf_kernel L tu d \<noteq> Inr (tu', d', Some g)"
  by (simp add: tun_read_def fd_readv_def deaf_kernel_def would_block_def EAGAIN_def EINPROGRESS_def Let_def)

definition deaf_env :: "(tun_adapter, relay_device) minnow_env" where
  "deaf_env = \<lparr>en_kernel = deaf_kernel, en_sockets = relay_sockets, en_lib = numeric_lib,
     en_ops = tun_ops deaf_kernel numeric_lib, en_poll = relay_poll sk_kernel, en_clock = (\<lambda>d. (d, 0)),
     en_socketpair = (\<lambda>t d. (d, ok_ret 0, 3, 4))\<rparr>"

lemma deaf_world: "socket_world deaf_env relay_log 3 Q (\<lambda>tu. fw_fd (tu_tun tu) \<noteq> 3)"
proof -
  have "only_waits relay_log 3 w w" for w :: "(tun_adapter, relay_device) minnow"
    unfolding only_waits_def by (intro exI [of _ "sk_kernel w"] exI [of _ "sk_abort w"] exI [of _ "sk_fd w"]) simp
  then have "polls_apart (relay_poll sk_kernel :: (tun_adapter, relay_device) minnow poll_api) relay_log 3"
    by (auto simp: polls_apart_def dest!: relay_poll_pure)
  moreover have "adapter_apart (tun_ops deaf_kernel numeric_lib) relay_log 3 Q (\<lambda>tu. fw_fd (tu_tun tu) \<noteq> 3)"
    by (rule tun_adapter_apart [OF deaf_kernel_logged(2,3)]) (simp add: deaf_tun_read)
  ultimately show ?thesis by (simp add: socket_world_def deaf_env_def deaf_kernel_logged)
qed

definition plain_fd :: "int \<Rightarrow> fd_wrapper" where
  "plain_fd fd = \<lparr>fw_fd = fd, fw_eof = False, fw_closed = False, fw_non_blocking = True,
                  fw_read_count = 0, fw_write_count = 0\<rparr>"

definition deaf_socket :: "(tun_adapter, relay_device) minnow" where
  "deaf_socket = \<lparr>sk_fd = plain_fd 4, sk_thread_data = plain_fd 3,
     sk_adapter = \<lparr>tu_base = end_at False (inet_address 1 80) (inet_address 2 90), tu_tun = plain_fd 5\<rparr>,
     sk_tcp = None, sk_outgoing = [], sk_abort = False, sk_inbound_shutdown = False,
     sk_outbound_shutdown = False, sk_fully_acked = False,
     sk_kernel = \<lparr>rd_pending = (\<lambda>_. [])(3 := [1, 2, 3]), rd_in = (\<lambda>_. []), rd_out = (\<lambda>_. [])\<rparr>\<rparr>"

definition deaf_config :: fd_adapter_config where
  "deaf_config = \<lparr>fc_source = inet_address 1 80, fc_destination = inet_address 2 90,
                  fc_loss_rate_dn = 0, fc_loss_rate_up = 0\<rparr>"

lemma deaf_fresh: "fresh_socket relay_log 3 (\<lambda>tu. fw_fd (tu_tun tu) \<noteq> 3) deaf_socket"
  by (simp add: fresh_socket_def deaf_socket_def plain_fd_def relay_log_def)

lemma deaf_destination: "\<exists>name. debug_destination deaf_env deaf_config = Inr name"
  using lib_port_inet [OF numeric_lib_ok, of 2 90]
  by (auto simp: debug_destination_def deaf_env_def deaf_config_def address_to_string_def address_port_def)

subsection \<open>Open connections\<close>

text \<open>On an open connection the second rule takes what was read, and the ticks return.\<close>

lemma collect_segments_open:
  assumes "sk_tcp w = Some p" and "peer_open p" and "ts_retransmit (pe_sender p) \<longrightarrow> ts_in_flight (pe_sender p) \<noteq> []"
  shows "\<exists>p' queued. collect_segments w = Inr (w\<lparr>sk_tcp := Some p', sk_outgoing := queued\<rparr>) \<and>
           peer_open p' \<and> \<not> ts_retransmit (pe_sender p')"
proof -
  obtain r where r: "collect_loop p (sk_outgoing w) = Some r" "\<forall>e. r \<noteq> Inl e"
    "\<forall>p' queued'. r = Inr (p', queued') \<longrightarrow> peer_open p' \<and> \<not> ts_retransmit (pe_sender p')"
    using collect_loop_ends [OF assms(2), of "sk_outgoing w"] assms(3) by blast
  then obtain p' queued where "r = Inr (p', queued)" by (cases r) auto
  with r assms(1) show ?thesis
    by (intro exI [of _ p'] exI [of _ queued]) (simp add: collect_segments_def)
qed

lemma peer_open_write:
  "peer_open p \<Longrightarrow> peer_open (p\<lparr>pe_outbound := writer_push d (pe_outbound p)\<rparr>)"
  by (simp add: peer_open_def)

lemma outbound_callback_open:
  assumes "sk_tcp w = Some p" and "peer_open p" and "\<not> ts_retransmit (pe_sender p)"
    and "fd_read (en_kernel E) (replicate (unat (available_capacity (pe_outbound p))) 0) (sk_thread_data w)
           (sk_kernel w) = Inr (data, fw, k)" and "\<not> fw_eof fw"
  shows "\<exists>p' queued. outbound_callback E w =
           Inr (w\<lparr>sk_thread_data := fw, sk_kernel := k, sk_tcp := Some p', sk_outgoing := queued\<rparr>) \<and>
           peer_open p' \<and> \<not> ts_retransmit (pe_sender p')"
proof -
  let ?p = "p\<lparr>pe_outbound := writer_push data (pe_outbound p)\<rparr>"
  obtain q where q: "peer_push ?p = Some (Inr q)" "peer_open q" "ts_retransmit (pe_sender q) = ts_retransmit (pe_sender ?p)"
    using open_push_returns [OF peer_open_write [OF assms(2)], of data] by blast
  let ?w = "w\<lparr>sk_thread_data := fw, sk_kernel := k, sk_tcp := Some q\<rparr>"
  obtain p' queued where "collect_segments ?w = Inr (?w\<lparr>sk_tcp := Some p', sk_outgoing := queued\<rparr>)"
    "peer_open p'" "\<not> ts_retransmit (pe_sender p')"
    using collect_segments_open [of ?w q] q(2,3) assms(3) by auto
  then show ?thesis
    using assms(1,4,5) q(1)
    by (intro exI [of _ p'] exI [of _ queued]) (simp add: outbound_callback_def the_tcp_def on_tcp_def Let_def)
qed

lemma sender_tick_retransmit:
  "ts_retransmit (sender_tick n s) \<Longrightarrow> \<not> ts_retransmit s \<Longrightarrow> ts_in_flight (sender_tick n s) \<noteq> []"
  by (auto simp: sender_tick_def Let_def split: if_splits)

lemma tcp_iteration_open:
  assumes wait: "wait_next_event (en_poll E) TCP_TICK_MS el sh = Inr (el', sh', Success)"
    and p: "sk_tcp (sh_world sh') = Some p" "peer_open p" "\<not> ts_retransmit (pe_sender p)" "\<not> sk_abort (sh_world sh')"
    and ops: "\<And>n a k. ao_tick (en_ops E) n a k = Inr (a, k)" "\<And>k. fst (en_clock E k) = k"
  shows "\<exists>sh''. socket_step E (el, sh) (el', sh'') \<and> sk_kernel (sh_world sh'') = sk_kernel (sh_world sh')"
proof (cases "peer_active p")
  case False
  then have "tcp_iteration E 0 el sh = Inr (True, 0, el', sh')"
    using wait p(1,4) by (simp add: tcp_iteration_def)
  then show ?thesis by (blast intro: socket_step.iterate)
next
  case True
  let ?w = "sh_world sh'"
  obtain now where now: "en_clock E (sk_kernel ?w) = (sk_kernel ?w, now)" using ops(2) by (metis prod.collapse)
  let ?p = "peer_tick (now - 0) p"
  have "peer_open ?p" using p(2) by (simp add: peer_open_def peer_tick_def tick_outstanding)
  moreover have "ts_retransmit (pe_sender ?p) \<longrightarrow> ts_in_flight (pe_sender ?p) \<noteq> []"
    using sender_tick_retransmit p(3) by (auto simp: peer_tick_def)
  ultimately obtain p' queued where c: "collect_segments (?w\<lparr>sk_kernel := sk_kernel ?w, sk_tcp := Some ?p\<rparr>) =
      Inr (?w\<lparr>sk_kernel := sk_kernel ?w, sk_tcp := Some p', sk_outgoing := queued\<rparr>)"
    using collect_segments_open [of "?w\<lparr>sk_kernel := sk_kernel ?w, sk_tcp := Some ?p\<rparr>" ?p] by auto
  then have "\<exists>w'. tick_all E p 0 ?w = Inr (now, w') \<and> sk_kernel w' = sk_kernel ?w"
    using now ops(1) by (simp add: tick_all_def)
  then obtain w' where "tick_all E p 0 ?w = Inr (now, w')" "sk_kernel w' = sk_kernel ?w" by blast
  then have "tcp_iteration E 0 el sh = Inr (True, now, el', sh'\<lparr>sh_world := w'\<rparr>)"
    using wait p(1,4) True by (simp add: tcp_iteration_def)
  then show ?thesis using \<open>sk_kernel w' = sk_kernel ?w\<close> by (force intro: socket_step.iterate)
qed

definition deaf_wants :: "(tun_adapter, relay_device) minnow_shared \<Rightarrow> (tun_adapter, relay_device) minnow fd_rule \<Rightarrow> bool" where
  "deaf_wants sh r = (case br_interest r sh of Inr (_, b) \<Rightarrow> b | _ \<Rightarrow> False)"

text \<open>The state after \<open>connect\<close> has sent its SYN.\<close>

definition deaf_connected :: "(tun_adapter, relay_device) minnow \<Rightarrow> bool" where
  "deaf_connected w \<longleftrightarrow>
     sk_thread_data w = plain_fd 3 \<and> sk_kernel w = sk_kernel deaf_socket \<and> tu_tun (sk_adapter w) = plain_fd 5 \<and>
     \<not> sk_outbound_shutdown w \<and> \<not> sk_abort w \<and>
     (\<exists>p. sk_tcp w = Some p \<and> peer_open p \<and> \<not> ts_retransmit (pe_sender p) \<and> stream_content (pe_outbound p) = [] \<and>
        bs_capacity (pe_outbound p) = DEFAULT_CAPACITY \<and> pe_inbound p = new_byte_stream DEFAULT_CAPACITY)"

lemma deaf_starts:
  obtains el w where "start_connect deaf_env default_tcp_config deaf_config 7 (new_event_loop 64) deaf_socket = Inr (el, w)"
    and "deaf_connected w" and "el_fd_rules el = the_tcp_rules deaf_env" and "el_non_fd_rules el = []"
proof -
  obtain name where d: "debug_destination deaf_env deaf_config = Inr name" using deaf_destination by blast
  have w: "sk_tcp deaf_socket = None" "sk_outgoing deaf_socket = []" "4 \<le> (64 :: nat)" by (simp_all add: deaf_socket_def)
  show ?thesis
  proof (rule connect_starts [OF w d, of default_tcp_config 7])
    fix el w'
    assume s: "start_connect deaf_env default_tcp_config deaf_config 7 (new_event_loop 64) deaf_socket = Inr (el, w')"
      "sk_kernel w' = sk_kernel deaf_socket" "sk_thread_data w' = sk_thread_data deaf_socket"
      "sk_adapter w' = sk_adapter (set_adapter_config deaf_env deaf_config deaf_socket)" "tcp_loop_ok deaf_env el"
      "el_fd_rules el = the_tcp_rules deaf_env" "sk_outbound_shutdown w' = sk_outbound_shutdown deaf_socket"
      "sk_abort w' = sk_abort deaf_socket"
      and p: "\<exists>p. sk_tcp w' = Some p \<and> peer_open p \<and> \<not> ts_retransmit (pe_sender p) \<and>
           stream_content (pe_outbound p) = [] \<and> bs_capacity (pe_outbound p) = cfg_send_capacity default_tcp_config \<and>
           pe_inbound p = new_byte_stream (cfg_recv_capacity default_tcp_config)"
    have "tu_tun (sk_adapter w') = plain_fd 5"
      unfolding s(4) by (simp add: set_adapter_config_def deaf_env_def tun_ops_def deaf_socket_def)
    then have "deaf_connected w'"
      using s p by (simp add: deaf_connected_def deaf_socket_def default_tcp_config_def)
    moreover have "el_non_fd_rules el = []" using s(5) by (simp add: tcp_loop_ok_def)
    ultimately show ?thesis using s(1,6) by (intro that)
  qed
qed

lemma deaf_read:
  "fd_read (en_kernel deaf_env) (replicate n 0) (plain_fd 3) (sk_kernel deaf_socket) =
     Inr ([1, 2, 3], register_read (plain_fd 3), fst (relay_read 3 3 (sk_kernel deaf_socket)))"
  if "3 \<le> n"
proof -
  have r: "k_read (en_kernel deaf_env) (fw_fd (plain_fd 3)) (if replicate n 0 = ([] :: bytes) then kReadBufferSize
      else length (replicate n 0 :: bytes)) (sk_kernel deaf_socket) =
      (fst (relay_read 3 3 (sk_kernel deaf_socket)), ok_ret 3, [1, 2, 3])"
    using that by (simp add: deaf_env_def deaf_kernel_def relay_kernel_def relay_read_def plain_fd_def deaf_socket_def Let_def)
  have ok: "reads_ok (en_kernel deaf_env)" using deaf_reads_ok by (simp add: deaf_env_def)
  show ?thesis
    using fd_read_result [OF ok r] by (simp add: ok_ret_def plain_fd_def register_read_def)
qed

lemma deaf_reads:
  assumes w: "deaf_connected w" and el: "el_fd_rules el = the_tcp_rules deaf_env" "el_non_fd_rules el = []"
  shows "\<exists>p q. wait_next_event (en_poll deaf_env) TCP_TICK_MS el \<lparr>sh_world = w, sh_cancelled = {}\<rparr> =
    Inr (el, \<lparr>sh_world = w\<lparr>sk_thread_data := register_read (plain_fd 3),
        sk_kernel := fst (relay_read 3 3 (sk_kernel w)), sk_tcp := Some p, sk_outgoing := q\<rparr>, sh_cancelled = {}\<rparr>, Success) \<and>
      peer_open p \<and> \<not> ts_retransmit (pe_sender p)"
proof -
  let ?sh = "\<lparr>sh_world = w, sh_cancelled = {}\<rparr>"
  obtain p where p: "sk_tcp w = Some p" "peer_open p" "\<not> ts_retransmit (pe_sender p)"
    "stream_content (pe_outbound p) = []" "bs_capacity (pe_outbound p) = DEFAULT_CAPACITY"
    "pe_inbound p = new_byte_stream DEFAULT_CAPACITY"
    and k: "sk_thread_data w = plain_fd 3" "sk_kernel w = sk_kernel deaf_socket" "tu_tun (sk_adapter w) = plain_fd 5"
    "\<not> sk_outbound_shutdown w" "\<not> sk_abort w"
    using w unfolding deaf_connected_def by blast
  have "bs_current_size (pe_outbound p) = 0"
    using p(2,4) by (simp add: peer_open_def stream_inv_def unat_eq_zero)
  then have room: "available_capacity (pe_outbound p) = 64000"
    using p(5) by (simp add: available_capacity_def DEFAULT_CAPACITY_def)
  then have a: "3 \<le> unat (available_capacity (pe_outbound p))" by simp
  obtain p' q where o: "outbound_callback deaf_env w = Inr (w\<lparr>sk_thread_data := register_read (plain_fd 3),
        sk_kernel := fst (relay_read 3 3 (sk_kernel w)), sk_tcp := Some p', sk_outgoing := q\<rparr>)"
    and o': "peer_open p'" "\<not> ts_retransmit (pe_sender p')"
    using outbound_callback_open [OF p(1-3), of deaf_env] deaf_read [OF a] k by (auto simp: plain_fd_def register_read_def)
  let ?sh' = "\<lparr>sh_world = w\<lparr>sk_thread_data := register_read (plain_fd 3),
        sk_kernel := fst (relay_read 3 3 (sk_kernel w)), sk_tcp := Some p', sk_outgoing := q\<rparr>, sh_cancelled = {}\<rparr>"
  have interest: "outbound_interest w = Inr True" "network_interest w = Inr True" "inbound_interest w = Inr False"
    using p k room by (simp_all add: outbound_interest_def network_interest_def inbound_interest_def the_tcp_def
        peer_active_def new_byte_stream_def reader_has_error_def writer_is_closed_def reader_is_finished_def
        reader_bytes_buffered_def)
  have pending: "rd_pending (sk_kernel w) 5 = []" "rd_pending (sk_kernel w) 3 = [1, 2, 3]"
    by (simp_all add: k(2) deaf_socket_def)
  have fd: "adapter_fd deaf_env ?sh = plain_fd 5" "thread_fd ?sh = plain_fd 3"
    using k by (simp_all add: adapter_fd_def thread_fd_def deaf_env_def tun_ops_def)
  have "wait_next_event (relay_poll sk_kernel) TCP_TICK_MS el ?sh = Inr (el, ?sh', Success)"
  proof (rule relay_serves [OF el, where wants = "deaf_wants ?sh" and i = 1])
    show "\<forall>r \<in> set (the_tcp_rules deaf_env). live ?sh (deaf_wants ?sh) r"
      using fd by (simp add: live_def cancel_requested_def the_tcp_rules_def tcp_rule_def as_interest_def
          deaf_wants_def interest sending_interest_def plain_fd_def)
    show "list_ex (deaf_wants ?sh) (the_tcp_rules deaf_env)"
      by (simp add: the_tcp_rules_def tcp_rule_def as_interest_def deaf_wants_def interest)
    show "relay_ready sk_kernel ?sh (deaf_wants ?sh) (the_tcp_rules deaf_env) = Some 1"
      using fd pending by (simp add: relay_ready_def ready_def upt_rec relay_poll_def pollfd_of_def POLLIN_def
          POLLOUT_def the_tcp_rules_def tcp_rule_def as_interest_def deaf_wants_def interest plain_fd_def)
    show "serve_rule (el_categories el) (the_tcp_rules deaf_env ! 1) ?sh = Inr ?sh'"
      using k o by (simp add: serve_rule_def the_tcp_rules_def tcp_rule_def as_callback_def as_interest_def
          service_count_def thread_fd_def plain_fd_def register_read_def)
  qed
  then show ?thesis using o' by (intro exI [of _ p'] exI [of _ q]) (simp add: deaf_env_def)
qed

lemma deaf_reached:
  obtains sh where "socket_reaches deaf_env default_tcp_config deaf_config 7 64 deaf_socket sh"
    and "rd_in (sk_kernel (sh_world sh)) 3 = [1, 2, 3]"
proof -
  obtain el w where s: "start_connect deaf_env default_tcp_config deaf_config 7 (new_event_loop 64) deaf_socket = Inr (el, w)"
    "deaf_connected w" "el_fd_rules el = the_tcp_rules deaf_env" "el_non_fd_rules el = []"
    by (rule deaf_starts)
  let ?sh = "\<lparr>sh_world = w, sh_cancelled = {}\<rparr>"
  let ?k = "fst (relay_read 3 3 (sk_kernel w))"
  have k: "sk_kernel w = sk_kernel deaf_socket" "\<not> sk_abort w" using s(2) by (simp_all add: deaf_connected_def)
  obtain p q where r: "wait_next_event (en_poll deaf_env) TCP_TICK_MS el ?sh =
      Inr (el, \<lparr>sh_world = w\<lparr>sk_thread_data := register_read (plain_fd 3), sk_kernel := ?k, sk_tcp := Some p,
        sk_outgoing := q\<rparr>, sh_cancelled = {}\<rparr>, Success)"
    and p: "peer_open p" "\<not> ts_retransmit (pe_sender p)"
    using deaf_reads [OF s(2-4)] by blast
  have ops: "ao_tick (en_ops deaf_env) n a k = Inr (a, k)" "fst (en_clock deaf_env k) = k" for n a k
    by (simp_all add: deaf_env_def tun_ops_def)
  obtain sh' where sh': "socket_step deaf_env (el, ?sh) (el, sh')" "sk_kernel (sh_world sh') = ?k"
    using tcp_iteration_open [OF r _ p _ ops] k(2) by auto
  have "rd_in ?k 3 = [1, 2, 3]" by (simp add: k(1) relay_read_def deaf_socket_def Let_def)
  moreover have "socket_reaches deaf_env default_tcp_config deaf_config 7 64 deaf_socket sh'"
    unfolding socket_reaches_def using s(1) sh'(1) by blast
  ultimately show ?thesis using sh'(2) that by simp
qed

subsection \<open>Collecting in a reached state\<close>

lemma open_collects: "peer_open p \<Longrightarrow> collect_loop p queued \<noteq> None"
  using collect_loop_ends by fastforce

lemma peer_open_close:
  "peer_open p \<Longrightarrow> peer_open (p\<lparr>pe_outbound := writer_close (pe_outbound p)\<rparr>)"
  by (simp add: peer_open_def writer_close_def stream_inv_def stream_content_def)

lemma peer_receive_open:
  assumes "peer_open p" and "peer_receive seg p = Inr p'"
  shows "peer_open p'"
proof (cases "tg_reset seg \<or> reader_has_error (pe_inbound p)")
  case True
  then show ?thesis using assms by (auto simp: peer_receive_def peer_open_def)
next
  case False
  then obtain s where s: "sender_receive (tg_receiver seg) (pe_sender p) = Inr s"
    and p': "pe_sender p' = s" "pe_outbound p' = pe_outbound p"
    using assms(2) by (auto simp: peer_receive_def Let_def)
  from sender_receive_keeps(1,3) [OF s] assms(1) p' show ?thesis by (simp add: peer_open_def)
qed

lemma peer_tick_open: "peer_open p \<Longrightarrow> peer_open (peer_tick ms p)"
  by (simp add: peer_open_def peer_tick_def tick_outstanding)

lemma open_push_collects:
  assumes "peer_open p"
  shows "\<exists>p'. peer_push p = Some (Inr p') \<and> (\<forall>queued. collect_loop p' queued \<noteq> None)"
proof -
  obtain p' where "peer_push p = Some (Inr p')" "peer_open p'" using open_push_returns [OF assms] by blast
  then show ?thesis using open_collects by blast
qed

lemma open_operations_collect:
  assumes "peer_open p"
  shows "f = id \<or> f = writer_close \<Longrightarrow>
      \<exists>p'. peer_push (p\<lparr>pe_outbound := f (writer_push data (pe_outbound p))\<rparr>) = Some (Inr p') \<and>
        (\<forall>queued. collect_loop p' queued \<noteq> None)"
    and "peer_receive seg p = Inr p' \<Longrightarrow> collect_loop p' queued \<noteq> None"
    and "collect_loop (peer_tick ms p) queued \<noteq> None"
proof -
  assume "f = id \<or> f = writer_close"
  then have "peer_open (p\<lparr>pe_outbound := f (writer_push data (pe_outbound p))\<rparr>)"
    using peer_open_write [OF assms, of data] peer_open_close [OF peer_open_write [OF assms, of data]] by auto
  then show "\<exists>p'. peer_push (p\<lparr>pe_outbound := f (writer_push data (pe_outbound p))\<rparr>) = Some (Inr p') \<and>
        (\<forall>queued. collect_loop p' queued \<noteq> None)" by (rule open_push_collects)
qed (use open_collects peer_receive_open [OF assms] peer_tick_open [OF assms] in blast)+

lemma socket_reaches_open:
  assumes "socket_world E G s Q mine" and "fresh_socket G s mine w"
    and "socket_reaches E cfg c_ad random capacity w sh"
    and "length (bl_in G (sk_kernel (sh_world sh)) s) + 2 < 2 ^ 64"
  shows "\<exists>p. sk_tcp (sh_world sh) = Some p \<and> peer_open p"
proof -
  obtain p where p: "sk_tcp (sh_world sh) = Some p" "ts_syn_sent (pe_sender p)"
    and s: "sends cfg random p (bl_in G (sk_kernel (sh_world sh)) s) (sk_outgoing (sh_world sh))"
    using socket_reaches_runs [OF assms(1-3)] by (auto simp: socket_runs_def peer_runs_def)
  from sends_sender_inv [OF s assms(4)] p show ?thesis by (auto simp: peer_open_def tx_ok_def)
qed

subsection \<open>Properties\<close>

text \<open>
  C17: On a socket that is not connected, \<open>connect\<close> gets past its checks: before it enters
  the loop exactly one segment waits to be sent, the SYN without data or acknowledgment, and
  one sequence number is in flight.
\<close>

theorem connect_sends_syn:
  assumes "sk_tcp w = None" and "sk_outgoing w = []" and "4 \<le> capacity"
    and "debug_destination E c_ad = Inr name"
  shows "\<exists>el w'. start_connect E cfg c_ad random (new_event_loop capacity) w = Inr (el, w') \<and>
           sk_outgoing w' = [syn_segment cfg random] \<and> connecting w' = Inr True"
proof -
  obtain el w' where "start_connect E cfg c_ad random (new_event_loop capacity) w = Inr (el, w')"
    "sk_outgoing w' = [syn_segment cfg random]" "connecting w' = Inr True"
    by (rule connect_starts [OF assms])
  then show ?thesis by blast
qed

text \<open>
  Witness: a socket over a TUN device sends its SYN.
\<close>

theorem connect_sends_syn_witness:
  "\<exists>el w'. start_connect deaf_env default_tcp_config deaf_config 7 (new_event_loop 64) deaf_socket = Inr (el, w') \<and>
     sk_outgoing w' = [syn_segment default_tcp_config 7] \<and> connecting w' = Inr True"
proof -
  obtain name where "debug_destination deaf_env deaf_config = Inr name" using deaf_destination by blast
  then show ?thesis by (intro connect_sends_syn) (simp_all add: deaf_socket_def)
qed

text \<open>
  C13: A connected socket runs TCP: in every state it reaches, whatever its event loop serves,
  its sender came about by steps of a sender to whose stream the application has written what
  was read from its descriptor, every segment that waits to be sent is one that this sender
  has emitted or one without sequence numbers, and its receiver came about by a run on
  segments that the adapter has brought, with the bytes taken out of its stream written to
  the descriptor of the application.
\<close>

theorem socket_refines_tcp:
  assumes "socket_world E G s Q mine" and "fresh_socket G s mine w"
    and "socket_reaches E cfg c_ad random capacity w sh"
  shows "\<exists>p. sk_tcp (sh_world sh) = Some p \<and>
           sends cfg random p (bl_in G (sk_kernel (sh_world sh)) s) (sk_outgoing (sh_world sh)) \<and>
           receives cfg Q p (bl_out G (sk_kernel (sh_world sh)) s)"
  using socket_reaches_runs [OF assms] by (auto simp: socket_runs_def peer_runs_def)

text \<open>
  Witness: a connected socket whose application has written three bytes, which it has read.
\<close>

theorem socket_refines_tcp_witness:
  "\<exists>sh p. socket_reaches deaf_env default_tcp_config deaf_config 7 64 deaf_socket sh \<and>
     sk_tcp (sh_world sh) = Some p \<and>
     sends default_tcp_config 7 p [1, 2, 3] (sk_outgoing (sh_world sh)) \<and>
     receives default_tcp_config (\<lambda>m. False) p (rd_out (sk_kernel (sh_world sh)) 3)"
proof -
  obtain sh where sh: "socket_reaches deaf_env default_tcp_config deaf_config 7 64 deaf_socket sh"
    and r: "rd_in (sk_kernel (sh_world sh)) 3 = [1, 2, 3]"
    by (rule deaf_reached)
  from socket_refines_tcp [OF deaf_world deaf_fresh sh, of "\<lambda>m. False"] r sh show ?thesis
    by (auto simp: relay_log_def)
qed

text \<open>
  C12: When all segments that the adapter brings are segments of one stream \<open>str\<close>, what a
  connected socket has written to the application followed by what it holds for it is a
  prefix of \<open>str\<close>, all of it once the inbound stream is closed; what was read from the
  application is what was cut into segments followed by what is buffered, and every segment
  that waits to be sent is one of the former or has no sequence numbers.
\<close>

theorem socket_relays:
  assumes "socket_world E G s (\<lambda>m. \<exists>f. segment_of str isn f m) mine" and "fresh_socket G s mine w"
    and "socket_reaches E cfg c_ad random capacity w sh"
    and "length str < 2 ^ 31 - 1" and "length str + unat (cfg_recv_capacity cfg) < 2 ^ 64"
    and "length (bl_in G (sk_kernel (sh_world sh)) s) + 2 < 2 ^ 64"
  shows "\<exists>p sent rest. sk_tcp (sh_world sh) = Some p \<and>
           str = bl_out G (sk_kernel (sh_world sh)) s @ stream_content (pe_inbound p) @ rest \<and>
           (writer_is_closed (pe_inbound p) \<longrightarrow> rest = []) \<and>
           bl_in G (sk_kernel (sh_world sh)) s = sent @ stream_content (pe_outbound p) \<and>
           (\<forall>seg \<in> set (sk_outgoing (sh_world sh)).
              (\<exists>f. segment_of sent (ts_isn (pe_sender p)) f (tg_sender seg)) \<or> sequence_length (tg_sender seg) = 0)"
proof -
  obtain p where p: "sk_tcp (sh_world sh) = Some p"
    and s: "sends cfg random p (bl_in G (sk_kernel (sh_world sh)) s) (sk_outgoing (sh_world sh))"
    and r: "receives cfg (\<lambda>m. \<exists>f. segment_of str isn f m) p (bl_out G (sk_kernel (sh_world sh)) s)"
    using socket_reaches_runs [OF assms(1-3)] by (auto simp: socket_runs_def peer_runs_def)
  from sends_sender_inv [OF s assms(6)] receives_delivers [OF r assms(4,5)] p show ?thesis by blast
qed

text \<open>
  Witness: the three bytes of the application are in segments or in the outbound stream.
\<close>

theorem socket_relays_witness:
  "\<exists>sh p sent rest. socket_reaches deaf_env default_tcp_config deaf_config 7 64 deaf_socket sh \<and>
     sk_tcp (sh_world sh) = Some p \<and>
     [5, 6] = rd_out (sk_kernel (sh_world sh)) 3 @ stream_content (pe_inbound p) @ rest \<and>
     [1, 2, 3] = sent @ stream_content (pe_outbound p)"
proof -
  obtain sh where sh: "socket_reaches deaf_env default_tcp_config deaf_config 7 64 deaf_socket sh"
    and r: "rd_in (sk_kernel (sh_world sh)) 3 = [1, 2, 3]"
    by (rule deaf_reached)
  have "length [5, 6 :: u8] < 2 ^ 31 - 1" "length [5, 6 :: u8] + unat (cfg_recv_capacity default_tcp_config) < 2 ^ 64"
    by (simp_all add: default_tcp_config_def DEFAULT_CAPACITY_def)
  from socket_relays [OF deaf_world deaf_fresh sh this] r sh show ?thesis
    by (fastforce simp: relay_log_def)
qed

text \<open>
  C16: No loop of a connected socket runs forever: in every state that it reaches, pushing what
  the application wrote returns without an error, and collecting segments ends, whatever was
  written, whether or not the stream was closed, whatever segment was received before, and
  however much time has passed.
\<close>

theorem socket_collects:
  assumes "socket_world E G s Q mine" and "fresh_socket G s mine w"
    and "socket_reaches E cfg c_ad random capacity w sh"
    and "length (bl_in G (sk_kernel (sh_world sh)) s) + 2 < 2 ^ 64"
  shows "\<exists>p. sk_tcp (sh_world sh) = Some p \<and>
           (\<forall>data f. f = id \<or> f = writer_close \<longrightarrow>
              (\<exists>p'. peer_push (p\<lparr>pe_outbound := f (writer_push data (pe_outbound p))\<rparr>) = Some (Inr p') \<and>
                 (\<forall>queued. collect_loop p' queued \<noteq> None))) \<and>
           (\<forall>seg p' queued. peer_receive seg p = Inr p' \<longrightarrow> collect_loop p' queued \<noteq> None) \<and>
           (\<forall>ms queued. collect_loop (peer_tick ms p) queued \<noteq> None)"
proof -
  obtain p where p: "sk_tcp (sh_world sh) = Some p" "peer_open p"
    using socket_reaches_open [OF assms] by blast
  then show ?thesis
    using open_operations_collect [OF p(2)] by blast
qed

text \<open>
  Witness: the socket whose application has written three bytes.
\<close>

theorem socket_collects_witness:
  "\<exists>sh p. socket_reaches deaf_env default_tcp_config deaf_config 7 64 deaf_socket sh \<and>
     sk_tcp (sh_world sh) = Some p \<and> collect_loop (peer_tick 10 p) [] \<noteq> None"
proof -
  obtain sh where sh: "socket_reaches deaf_env default_tcp_config deaf_config 7 64 deaf_socket sh"
    and r: "rd_in (sk_kernel (sh_world sh)) 3 = [1, 2, 3]"
    by (rule deaf_reached)
  from socket_collects [OF deaf_world deaf_fresh sh] r sh show ?thesis by (auto simp: relay_log_def)
qed

end
