(* ===== verification/Stream_Copy.thy ===== *)
theory Stream_Copy
  imports Byte_Stream Relay_Device Loop_Contract
begin

text \<open>
  Copying between a socket and the standard streams
  (\<open>apps/bidirectional_stream_copy.cc\<close>): two byte streams between three descriptors, moved
  along by an event loop with four rules.
\<close>

subsection \<open>Moving bytes between a descriptor and a stream\<close>

text \<open>The callbacks that fill a stream: as much as it has room for is read.\<close>

definition pump_in ::
  "'k kernel \<Rightarrow> fd_wrapper \<Rightarrow> byte_stream \<Rightarrow> 'k \<Rightarrow> (fd_wrapper \<times> byte_stream \<times> 'k) result" where
  "pump_in K fw bs k =
     (let data = replicate (unat (available_capacity bs)) 0
      in bind_result (fd_read K data fw k) (\<lambda>(data, fw, k).
         let bs = writer_push data bs;
             bs = (if fw_eof fw then writer_close bs else bs)
         in Inr (fw, bs, k)))"

text \<open>The callbacks that empty one: what was written is popped.\<close>

definition pump_out ::
  "'k kernel \<Rightarrow> fd_wrapper \<Rightarrow> byte_stream \<Rightarrow> 'k \<Rightarrow> (fd_wrapper \<times> byte_stream \<times> 'k) result" where
  "pump_out K fw bs k =
     (if reader_bytes_buffered bs \<noteq> 0
      then bind_result (fd_write K (reader_peek bs) fw k) (\<lambda>(n, fw, k).
             Inr (fw, reader_pop (of_nat n) bs, k))
      else Inr (fw, bs, k))"

definition can_pump_in :: "byte_stream \<Rightarrow> byte_stream \<Rightarrow> bool" where
  "can_pump_in bs other \<longleftrightarrow>
     \<not> reader_has_error bs \<and> available_capacity bs > 0 \<and> \<not> reader_has_error other"

definition can_pump_out :: "byte_stream \<Rightarrow> bool \<Rightarrow> bool" where
  "can_pump_out bs is_shutdown \<longleftrightarrow>
     reader_bytes_buffered bs \<noteq> 0 \<or> (reader_is_finished bs \<and> \<not> is_shutdown)"

subsection \<open>State and rules\<close>

record 'k copier =
  cp_socket :: fd_wrapper
  cp_input :: fd_wrapper
  cp_output :: fd_wrapper
  cp_outbound :: byte_stream
  cp_inbound :: byte_stream
  cp_outbound_shutdown :: bool
  cp_inbound_shutdown :: bool
  cp_kernel :: 'k

definition buffer_size :: u64 where "buffer_size = 1048576"
definition STDIN_FILENO :: int where "STDIN_FILENO = 0"
definition STDOUT_FILENO :: int where "STDOUT_FILENO = 1"

definition copy_callback ::
  "('k copier \<Rightarrow> 'k copier result) \<Rightarrow> 'k copier callback" where
  "copy_callback f sh = bind_result (f (sh_world sh)) (\<lambda>w. Inr (sh\<lparr>sh_world := w\<rparr>))"

definition copy_interest :: "('k copier \<Rightarrow> bool) \<Rightarrow> 'k copier interest" where
  "copy_interest f sh = Inr (sh, f (sh_world sh))"

definition input_callback :: "'k kernel \<Rightarrow> 'k copier \<Rightarrow> 'k copier result" where
  "input_callback K w =
     bind_result (pump_in K (cp_input w) (cp_outbound w) (cp_kernel w)) (\<lambda>(fw, bs, k).
     Inr (w\<lparr>cp_input := fw, cp_outbound := bs, cp_kernel := k\<rparr>))"

definition input_interest :: "'k copier \<Rightarrow> bool" where
  "input_interest w = can_pump_in (cp_outbound w) (cp_inbound w)"

definition close_outbound :: "'k copier \<Rightarrow> 'k copier result" where
  "close_outbound w = Inr (w\<lparr>cp_outbound := writer_close (cp_outbound w)\<rparr>)"

definition to_socket_callback :: "'k kernel \<Rightarrow> 'k socket_api \<Rightarrow> 'k copier \<Rightarrow> 'k copier result" where
  "to_socket_callback K S w =
     bind_result (pump_out K (cp_socket w) (cp_outbound w) (cp_kernel w)) (\<lambda>(fw, bs, k).
     let w = w\<lparr>cp_socket := fw, cp_outbound := bs, cp_kernel := k\<rparr>
     in if reader_is_finished bs
        then bind_result (socket_shutdown K S SHUT_WR fw k) (\<lambda>(fw, k).
             Inr (w\<lparr>cp_socket := fw, cp_kernel := k, cp_outbound_shutdown := True\<rparr>))
        else Inr w)"

definition to_socket_interest :: "'k copier \<Rightarrow> bool" where
  "to_socket_interest w = can_pump_out (cp_outbound w) (cp_outbound_shutdown w)"

definition from_socket_callback :: "'k kernel \<Rightarrow> 'k copier \<Rightarrow> 'k copier result" where
  "from_socket_callback K w =
     bind_result (pump_in K (cp_socket w) (cp_inbound w) (cp_kernel w)) (\<lambda>(fw, bs, k).
     Inr (w\<lparr>cp_socket := fw, cp_inbound := bs, cp_kernel := k\<rparr>))"

definition from_socket_interest :: "'k copier \<Rightarrow> bool" where
  "from_socket_interest w = can_pump_in (cp_inbound w) (cp_outbound w)"

definition close_inbound :: "'k copier \<Rightarrow> 'k copier result" where
  "close_inbound w = Inr (w\<lparr>cp_inbound := writer_close (cp_inbound w)\<rparr>)"

definition output_callback :: "'k kernel \<Rightarrow> 'k copier \<Rightarrow> 'k copier result" where
  "output_callback K w =
     bind_result (pump_out K (cp_output w) (cp_inbound w) (cp_kernel w)) (\<lambda>(fw, bs, k).
     let w = w\<lparr>cp_output := fw, cp_inbound := bs, cp_kernel := k\<rparr>
     in if reader_is_finished bs
        then bind_result (fd_close K fw k) (\<lambda>(fw, k).
             Inr (w\<lparr>cp_output := fw, cp_kernel := k, cp_inbound_shutdown := True\<rparr>))
        else Inr w)"

definition output_interest :: "'k copier \<Rightarrow> bool" where
  "output_interest w = can_pump_out (cp_inbound w) (cp_inbound_shutdown w)"

definition copy_rules ::
  "'k kernel \<Rightarrow> 'k socket_api \<Rightarrow> 'k copier event_loop \<Rightarrow> 'k copier event_loop result" where
  "copy_rules K S el =
     bind_result (add_named_fd_rule ''read from stdin into outbound byte stream''
       (\<lambda>sh. cp_input (sh_world sh)) In (copy_callback (input_callback K)) (copy_interest input_interest)
       (copy_callback close_outbound) default_recover el) (\<lambda>(el, _).
     bind_result (add_named_fd_rule ''read from outbound byte stream into socket''
       (\<lambda>sh. cp_socket (sh_world sh)) Out (copy_callback (to_socket_callback K S))
       (copy_interest to_socket_interest) (copy_callback close_outbound) default_recover el) (\<lambda>(el, _).
     bind_result (add_named_fd_rule ''read from socket into inbound byte stream''
       (\<lambda>sh. cp_socket (sh_world sh)) In (copy_callback (from_socket_callback K))
       (copy_interest from_socket_interest) (copy_callback close_inbound) default_recover el) (\<lambda>(el, _).
     bind_result (add_named_fd_rule ''read from inbound byte stream into stdout''
       (\<lambda>sh. cp_output (sh_world sh)) Out (copy_callback (output_callback K))
       (copy_interest output_interest) (copy_callback close_inbound) default_recover el) (\<lambda>(el, _).
     Inr el))))"

definition start_copy ::
  "'k kernel \<Rightarrow> 'k socket_api \<Rightarrow> nat \<Rightarrow> fd_wrapper \<Rightarrow> 'k \<Rightarrow> ('k copier event_loop \<times> 'k copier) result" where
  "start_copy K S capacity socket k =
     bind_result (new_fd_wrapper K STDIN_FILENO k) (\<lambda>(input, k).
     bind_result (new_fd_wrapper K STDOUT_FILENO k) (\<lambda>(out, k).
     bind_result (fd_set_blocking K False socket k) (\<lambda>(socket, k).
     bind_result (fd_set_blocking K False input k) (\<lambda>(input, k).
     bind_result (fd_set_blocking K False out k) (\<lambda>(out, k).
     bind_result (copy_rules K S (new_event_loop capacity)) (\<lambda>el.
     Inr (el, \<lparr>cp_socket = socket, cp_input = input, cp_output = out,
               cp_outbound = new_byte_stream buffer_size, cp_inbound = new_byte_stream buffer_size,
               cp_outbound_shutdown = False, cp_inbound_shutdown = False, cp_kernel = k\<rparr>)))))))"

text \<open>The loop of the copy; \<open>None\<close> is a copy that does not end.\<close>

partial_function (option) copy_loop ::
  "'k copier poll_api \<Rightarrow> 'k copier event_loop \<Rightarrow> 'k copier shared \<Rightarrow> 'k copier shared result option" where
  "copy_loop A el sh =
     (case wait_next_event A (-1) el sh of
        Inl e \<Rightarrow> Some (Inl e)
      | Inr (el, sh, res) \<Rightarrow> if res = Exit then Some (Inr sh) else copy_loop A el sh)"

definition bidirectional_stream_copy ::
  "'k kernel \<Rightarrow> 'k socket_api \<Rightarrow> 'k copier poll_api \<Rightarrow> nat \<Rightarrow> fd_wrapper \<Rightarrow> 'k \<Rightarrow>
   'k copier shared result option" where
  "bidirectional_stream_copy K S A capacity socket k =
     (case start_copy K S capacity socket k of
        Inl e \<Rightarrow> Some (Inl e)
      | Inr (el, w) \<Rightarrow> copy_loop A el \<lparr>sh_world = w, sh_cancelled = {}\<rparr>)"

subsection \<open>What the operating system is relied on for\<close>

definition polls_logged :: "'k copier poll_api \<Rightarrow> 'k byte_log \<Rightarrow> bool" where
  "polls_logged A G \<longleftrightarrow>
     (\<forall>ps t sh sh' ret revents. pa_poll A ps t sh = (sh', ret, revents) \<longrightarrow>
        (\<exists>k. sh_world sh' = (sh_world sh)\<lparr>cp_kernel := k\<rparr> \<and> same_log G (cp_kernel (sh_world sh)) k)) \<and>
     (\<forall>fd sh sh' ret err len. pa_socket_error A fd sh = (sh', ret, err, len) \<longrightarrow>
        (\<exists>k. sh_world sh' = (sh_world sh)\<lparr>cp_kernel := k\<rparr> \<and> same_log G (cp_kernel (sh_world sh)) k))"

definition world_logged ::
  "'k kernel \<Rightarrow> 'k socket_api \<Rightarrow> 'k copier poll_api \<Rightarrow> 'k byte_log \<Rightarrow> bool" where
  "world_logged K S A G \<longleftrightarrow>
     reads_logged K G \<and> writes_logged K G \<and> calls_logged K S G \<and> polls_logged A G"

subsection \<open>What a callback moves\<close>

lemma pump_in_moves:
  assumes "reads_logged K G" and "stream_inv bs" and "available_capacity bs > 0"
    and "pump_in K fw bs k = Inr (fw', bs', k')"
  shows "\<exists>data. bl_in G k' = (bl_in G k)(fw_fd fw := bl_in G k (fw_fd fw) @ data) \<and>
           bl_out G k' = bl_out G k \<and> stream_content bs' = stream_content bs @ data \<and>
           stream_inv bs' \<and> fw_fd fw' = fw_fd fw"
proof -
  obtain data where r: "fd_read K (replicate (unat (available_capacity bs)) 0) fw k = Inr (data, fw', k')"
    and bs': "bs' = (if fw_eof fw' then writer_close (writer_push data bs) else writer_push data bs)"
    using assms(4) by (auto simp: pump_in_def Let_def)
  have "unat (available_capacity bs) \<noteq> 0" using assms(3) by (simp add: unat_eq_zero word_neq_0_conv)
  then have "replicate (unat (available_capacity bs)) (0 :: byte) \<noteq> []" by simp
  from fd_read_moves [OF assms(1) r this] bs' assms(2) show ?thesis
    by (auto simp: stream_simps)
qed

lemma pump_out_moves:
  assumes "writes_logged K G" and "stream_inv bs" and "pump_out K fw bs k = Inr (fw', bs', k')"
  shows "\<exists>data. bl_out G k' = (bl_out G k)(fw_fd fw := bl_out G k (fw_fd fw) @ data) \<and>
           bl_in G k' = bl_in G k \<and> stream_content bs = data @ stream_content bs' \<and>
           stream_inv bs' \<and> fw_fd fw' = fw_fd fw"
proof (cases "reader_bytes_buffered bs = 0")
  case True
  then show ?thesis using assms by (intro exI [of _ "[]"]) (auto simp: pump_out_def)
next
  case False
  then obtain n where w: "fd_write K (reader_peek bs) fw k = Inr (n, fw', k')"
    and bs': "bs' = reader_pop (of_nat n) bs"
    using assms(3) by (auto simp: pump_out_def)
  note m = fd_write_moves [OF assms(1) w]
  obtain rest where c: "stream_content bs = reader_peek bs @ rest"
    by (rule reader_peek_content [OF assms(2)]) blast
  have "length (reader_peek bs) \<le> length (stream_content bs)" unfolding c by simp
  then have "n \<le> unat (bs_current_size bs)" using m assms(2) by (simp add: stream_inv_size)
  then have n: "unat (of_nat n :: u64) = n" by (rule unat_of_nat_unat_le)
  have "stream_content bs' = drop n (stream_content bs)"
    unfolding bs' using reader_pop_loop(1) [OF assms(2), of "of_nat n"] n by simp
  moreover have "take n (reader_peek bs) = take n (stream_content bs)" using m c by simp
  ultimately have "stream_content bs = take n (reader_peek bs) @ stream_content bs'" by simp
  with m assms(2) show ?thesis unfolding bs' by (intro exI [of _ "take n (reader_peek bs)"]) auto
qed

subsection \<open>The invariant of the copy\<close>

definition copied :: "'k byte_log \<Rightarrow> int \<Rightarrow> 'k copier \<Rightarrow> bool" where
  "copied G s w \<longleftrightarrow>
     fw_fd (cp_input w) = STDIN_FILENO \<and> fw_fd (cp_output w) = STDOUT_FILENO \<and> fw_fd (cp_socket w) = s \<and>
     stream_inv (cp_outbound w) \<and> stream_inv (cp_inbound w) \<and>
     bl_in G (cp_kernel w) STDIN_FILENO = bl_out G (cp_kernel w) s @ stream_content (cp_outbound w) \<and>
     bl_in G (cp_kernel w) s = bl_out G (cp_kernel w) STDOUT_FILENO @ stream_content (cp_inbound w)"

lemma copied_same_log:
  "same_log G (cp_kernel w) k \<Longrightarrow> copied G s (w\<lparr>cp_kernel := k\<rparr>) \<longleftrightarrow> copied G s w"
  by (simp add: copied_def same_log_def)

lemma input_callback_copied:
  assumes "reads_logged K G" and "copied G s w" and "input_interest w" and "s \<noteq> STDIN_FILENO"
    and "input_callback K w = Inr w'"
  shows "copied G s w'"
proof -
  obtain fw bs k where p: "pump_in K (cp_input w) (cp_outbound w) (cp_kernel w) = Inr (fw, bs, k)"
    and w': "w' = w\<lparr>cp_input := fw, cp_outbound := bs, cp_kernel := k\<rparr>"
    using assms(5) by (auto simp: input_callback_def)
  have "stream_inv (cp_outbound w)" "available_capacity (cp_outbound w) > 0"
    using assms(2,3) by (simp_all add: copied_def input_interest_def can_pump_in_def)
  from pump_in_moves [OF assms(1) this p] show ?thesis
    using assms(2,4) unfolding w' by (auto simp: copied_def)
qed

lemma from_socket_callback_copied:
  assumes "reads_logged K G" and "copied G s w" and "from_socket_interest w" and "s \<noteq> STDIN_FILENO"
    and "from_socket_callback K w = Inr w'"
  shows "copied G s w'"
proof -
  obtain fw bs k where p: "pump_in K (cp_socket w) (cp_inbound w) (cp_kernel w) = Inr (fw, bs, k)"
    and w': "w' = w\<lparr>cp_socket := fw, cp_inbound := bs, cp_kernel := k\<rparr>"
    using assms(5) by (auto simp: from_socket_callback_def)
  have "stream_inv (cp_inbound w)" "available_capacity (cp_inbound w) > 0"
    using assms(2,3) by (simp_all add: copied_def from_socket_interest_def can_pump_in_def)
  from pump_in_moves [OF assms(1) this p] show ?thesis
    using assms(2,4) unfolding w' by (auto simp: copied_def)
qed

lemma to_socket_callback_copied:
  assumes "writes_logged K G" and "calls_logged K S G" and "copied G s w" and "s \<noteq> STDOUT_FILENO"
    and "to_socket_callback K S w = Inr w'"
  shows "copied G s w'"
proof -
  obtain fw bs k where p: "pump_out K (cp_socket w) (cp_outbound w) (cp_kernel w) = Inr (fw, bs, k)"
    using assms(5) by (auto simp: to_socket_callback_def)
  let ?w = "w\<lparr>cp_socket := fw, cp_outbound := bs, cp_kernel := k\<rparr>"
  have "stream_inv (cp_outbound w)" using assms(3) by (simp add: copied_def)
  from pump_out_moves [OF assms(1) this p] have c: "copied G s ?w"
    using assms(3,4) by (auto simp: copied_def)
  consider "w' = ?w" | fw1 k1 where "socket_shutdown K S SHUT_WR fw k = Inr (fw1, k1)"
      "w' = ?w\<lparr>cp_socket := fw1, cp_kernel := k1, cp_outbound_shutdown := True\<rparr>"
    using assms(5) p by (auto simp: to_socket_callback_def Let_def split: if_splits)
  then show ?thesis
  proof cases
    case 2
    from shutdown_logged [OF assms(2) 2(1)] c show ?thesis
      unfolding 2(2) by (simp add: copied_def same_log_def)
  qed (use c in simp)
qed

lemma output_callback_copied:
  assumes "writes_logged K G" and "calls_logged K S G" and "copied G s w" and "s \<noteq> STDOUT_FILENO"
    and "output_callback K w = Inr w'"
  shows "copied G s w'"
proof -
  obtain fw bs k where p: "pump_out K (cp_output w) (cp_inbound w) (cp_kernel w) = Inr (fw, bs, k)"
    using assms(5) by (auto simp: output_callback_def)
  let ?w = "w\<lparr>cp_output := fw, cp_inbound := bs, cp_kernel := k\<rparr>"
  have "stream_inv (cp_inbound w)" using assms(3) by (simp add: copied_def)
  from pump_out_moves [OF assms(1) this p] have c: "copied G s ?w"
    using assms(3,4) by (auto simp: copied_def)
  consider "w' = ?w" | fw1 k1 where "fd_close K fw k = Inr (fw1, k1)"
      "w' = ?w\<lparr>cp_output := fw1, cp_kernel := k1, cp_inbound_shutdown := True\<rparr>"
    using assms(5) p by (auto simp: output_callback_def Let_def split: if_splits)
  then show ?thesis
  proof cases
    case 2
    from close_logged [OF assms(2) 2(1)] c show ?thesis
      unfolding 2(2) by (simp add: copied_def same_log_def)
  qed (use c in simp)
qed

subsection \<open>The rules keep the invariant\<close>

definition copy_rule ::
  "nat \<Rightarrow> ('k copier \<Rightarrow> fd_wrapper) \<Rightarrow> direction \<Rightarrow> ('k copier \<Rightarrow> 'k copier result) \<Rightarrow> ('k copier \<Rightarrow> bool) \<Rightarrow>
   ('k copier \<Rightarrow> 'k copier result) \<Rightarrow> 'k copier fd_rule" where
  "copy_rule i fd dir callback interest cancel =
     \<lparr>br_id = i, br_category_id = i, br_interest = copy_interest interest,
      br_callback = copy_callback callback, fr_fd = (\<lambda>sh. fd (sh_world sh)), fr_direction = dir,
      fr_cancel = copy_callback cancel, fr_recover = default_recover\<rparr>"

definition the_copy_rules :: "'k kernel \<Rightarrow> 'k socket_api \<Rightarrow> 'k copier fd_rule list" where
  "the_copy_rules K S =
     [copy_rule 0 cp_input In (input_callback K) input_interest close_outbound,
      copy_rule 1 cp_socket Out (to_socket_callback K S) to_socket_interest close_outbound,
      copy_rule 2 cp_socket In (from_socket_callback K) from_socket_interest close_inbound,
      copy_rule 3 cp_output Out (output_callback K) output_interest close_inbound]"

lemma copy_rules_are:
  assumes "copy_rules K S (new_event_loop capacity) = Inr el"
  shows "el_fd_rules el = the_copy_rules K S" and "el_non_fd_rules el = []"
  using assms
  by (auto simp: copy_rules_def add_named_fd_rule_def add_category_def add_fd_rule_def new_event_loop_def
      Let_def the_copy_rules_def copy_rule_def numeral_2_eq_2 numeral_3_eq_3 split: if_splits)

lemma copy_rules_exist:
  "4 \<le> capacity \<Longrightarrow> \<exists>el. copy_rules K S (new_event_loop capacity) = Inr el"
  by (simp add: copy_rules_def add_named_fd_rule_def add_category_def add_fd_rule_def new_event_loop_def Let_def)

lemma distinct_copy_rules: "distinct (the_copy_rules K S)"
  by (simp add: the_copy_rules_def copy_rule_def)

definition keeps_copied ::
  "'k kernel \<Rightarrow> 'k socket_api \<Rightarrow> 'k copier poll_api \<Rightarrow> 'k byte_log \<Rightarrow> int \<Rightarrow> 'k copier shared \<Rightarrow> bool" where
  "keeps_copied K S A G s sh \<longleftrightarrow>
     (world_logged K S A G \<and> s \<noteq> STDIN_FILENO \<and> s \<noteq> STDOUT_FILENO \<longrightarrow> copied G s (sh_world sh))"

definition copy_wants ::
  "'k kernel \<Rightarrow> 'k socket_api \<Rightarrow> 'k copier poll_api \<Rightarrow> 'k byte_log \<Rightarrow> 'k copier fd_rule \<Rightarrow> 'k copier shared \<Rightarrow> bool" where
  "copy_wants K S A G r sh \<longleftrightarrow> (world_logged K S A G \<longrightarrow> br_interest r sh = Inr (sh, True))"

lemma copy_rule_simps [simp]:
  "br_interest (copy_rule i fd dir cb f ca) = copy_interest f"
  "br_callback (copy_rule i fd dir cb f ca) = copy_callback cb"
  "fr_cancel (copy_rule i fd dir cb f ca) = copy_callback ca"
  "fr_recover (copy_rule i fd dir cb f ca) = default_recover"
  by (simp_all add: copy_rule_def)

lemma copy_rule_cases:
  assumes "r \<in> set (the_copy_rules K S)"
  obtains i fd dir cb f ca where "r = copy_rule i fd dir cb f ca"
    and "(cb, f, ca) \<in> {(input_callback K, input_interest, close_outbound),
           (to_socket_callback K S, to_socket_interest, close_outbound),
           (from_socket_callback K, from_socket_interest, close_inbound),
           (output_callback K, output_interest, close_inbound)}"
  using assms unfolding the_copy_rules_def by auto

lemma closing_keeps:
  assumes "ca \<in> {close_outbound, close_inbound}" and "ca w = Inr w'"
  shows "copied G s w \<longrightarrow> copied G s w'" and "input_interest w \<longrightarrow> input_interest w'"
    and "from_socket_interest w \<longrightarrow> from_socket_interest w'"
    and "to_socket_interest w \<longrightarrow> to_socket_interest w'" and "output_interest w \<longrightarrow> output_interest w'"
  using assms
  by (auto simp: close_outbound_def close_inbound_def copied_def stream_simps input_interest_def
      from_socket_interest_def to_socket_interest_def output_interest_def can_pump_in_def
      can_pump_out_def reader_has_error_def reader_bytes_buffered_def reader_is_finished_def)

lemma kernel_keeps_interest:
  "input_interest (w\<lparr>cp_kernel := k\<rparr>) = input_interest w"
  "from_socket_interest (w\<lparr>cp_kernel := k\<rparr>) = from_socket_interest w"
  "to_socket_interest (w\<lparr>cp_kernel := k\<rparr>) = to_socket_interest w"
  "output_interest (w\<lparr>cp_kernel := k\<rparr>) = output_interest w"
  by (simp_all add: input_interest_def from_socket_interest_def to_socket_interest_def output_interest_def)

lemma copy_interest_pure:
  assumes "r \<in> set (the_copy_rules K S)" and "br_interest r sh = Inr (sh', b)"
  shows "sh' = sh"
  using assms(1) by (rule copy_rule_cases) (use assms(2) in \<open>auto simp: copy_interest_def\<close>)

lemma copy_cancel_is:
  assumes "r \<in> set (the_copy_rules K S)" and "fr_cancel r sh = Inr sh'"
  obtains ca w where "ca \<in> {close_outbound, close_inbound}" and "ca (sh_world sh) = Inr w"
    and "sh' = sh\<lparr>sh_world := w\<rparr>"
  using assms(1)
proof (rule copy_rule_cases)
  fix i fd dir cb f ca
  assume r: "r = copy_rule i fd dir cb f ca"
    and cases: "(cb, f, ca) \<in> {(input_callback K, input_interest, close_outbound),
           (to_socket_callback K S, to_socket_interest, close_outbound),
           (from_socket_callback K, from_socket_interest, close_inbound),
           (output_callback K, output_interest, close_inbound)}"
  then have "ca \<in> {close_outbound, close_inbound}" by auto
  with assms(2) show thesis unfolding r by (auto simp: copy_callback_def intro: that)
qed

text \<open>What keeps the interest of all four rules keeps what any of them wants.\<close>

lemma copy_wants_keep:
  assumes "q \<in> set (the_copy_rules K S)" and "copy_wants K S A G q sh"
    and "world_logged K S A G \<Longrightarrow>
      (input_interest (sh_world sh) \<longrightarrow> input_interest (sh_world sh')) \<and>
      (from_socket_interest (sh_world sh) \<longrightarrow> from_socket_interest (sh_world sh')) \<and>
      (to_socket_interest (sh_world sh) \<longrightarrow> to_socket_interest (sh_world sh')) \<and>
      (output_interest (sh_world sh) \<longrightarrow> output_interest (sh_world sh'))"
  shows "copy_wants K S A G q sh'"
  using assms(1) by (rule copy_rule_cases) (use assms(2,3) in \<open>auto simp: copy_wants_def copy_interest_def\<close>)

lemma copy_poll_step:
  assumes "world_logged K S A G"
  shows "pa_poll A ps t sh = (sh', ret, revents) \<Longrightarrow>
      \<exists>k. sh_world sh' = (sh_world sh)\<lparr>cp_kernel := k\<rparr> \<and> same_log G (cp_kernel (sh_world sh)) k"
    and "pa_socket_error A fd sh = (sh', ret', err, len) \<Longrightarrow>
      \<exists>k. sh_world sh' = (sh_world sh)\<lparr>cp_kernel := k\<rparr> \<and> same_log G (cp_kernel (sh_world sh)) k"
  using assms unfolding world_logged_def polls_logged_def by blast+

lemma copy_kernel_step:
  assumes "\<exists>k. sh_world sh' = (sh_world sh)\<lparr>cp_kernel := k\<rparr> \<and> same_log G (cp_kernel (sh_world sh)) k"
  shows "copied G s (sh_world sh) \<longrightarrow> copied G s (sh_world sh')"
    and "(input_interest (sh_world sh) \<longrightarrow> input_interest (sh_world sh')) \<and>
      (from_socket_interest (sh_world sh) \<longrightarrow> from_socket_interest (sh_world sh')) \<and>
      (to_socket_interest (sh_world sh) \<longrightarrow> to_socket_interest (sh_world sh')) \<and>
      (output_interest (sh_world sh) \<longrightarrow> output_interest (sh_world sh'))"
  using assms by (auto simp: kernel_keeps_interest copied_same_log)

lemma copy_callback_keeps:
  assumes "r \<in> set (the_copy_rules K S)" and "keeps_copied K S A G s sh" and "copy_wants K S A G r sh"
    and "br_callback r sh = Inr sh'"
  shows "keeps_copied K S A G s sh'"
  unfolding keeps_copied_def
proof
  assume h: "world_logged K S A G \<and> s \<noteq> STDIN_FILENO \<and> s \<noteq> STDOUT_FILENO"
  then have ok: "reads_logged K G" "writes_logged K G" "calls_logged K S G"
    and c: "copied G s (sh_world sh)" and i: "br_interest r sh = Inr (sh, True)"
    using assms(2,3) by (auto simp: world_logged_def keeps_copied_def copy_wants_def)
  from assms(1) show "copied G s (sh_world sh')"
  proof (rule copy_rule_cases)
    fix n fd dir cb f ca
    assume r: "r = copy_rule n fd dir cb f ca"
      and cases: "(cb, f, ca) \<in> {(input_callback K, input_interest, close_outbound),
           (to_socket_callback K S, to_socket_interest, close_outbound),
           (from_socket_callback K, from_socket_interest, close_inbound),
           (output_callback K, output_interest, close_inbound)}"
    have f: "f (sh_world sh)" and cb: "cb (sh_world sh) = Inr (sh_world sh')"
      using i assms(4) unfolding r by (auto simp: copy_interest_def copy_callback_def)
    from cases consider "cb = input_callback K" "f = input_interest" | "cb = to_socket_callback K S"
      | "cb = from_socket_callback K" "f = from_socket_interest" | "cb = output_callback K" by auto
    then show ?thesis
    proof cases
      case 1
      show ?thesis by (rule input_callback_copied [OF ok(1) c]) (use 1 f cb h in auto)
    next
      case 2
      show ?thesis by (rule to_socket_callback_copied [OF ok(2,3) c]) (use 2 cb h in auto)
    next
      case 3
      show ?thesis by (rule from_socket_callback_copied [OF ok(1) c]) (use 3 f cb h in auto)
    next
      case 4
      show ?thesis by (rule output_callback_copied [OF ok(2,3) c]) (use 4 cb h in auto)
    qed
  qed
qed

interpretation copying: loop_contract A "set (the_copy_rules K S)" "keeps_copied K S A G s" "copy_wants K S A G"
proof (unfold_locales, goal_cases)
  case (1 r sh sh')
  then show ?case using copy_interest_pure [OF 1(1,3)] by (simp add: copy_wants_def)
next
  case (2 r sh sh' b)
  then show ?case using copy_interest_pure [OF 2(1,3)] by simp
next
  case (3 r q sh sh' b)
  then show ?case using copy_interest_pure [OF 3(1,4)] by simp
next
  case (4 r sh sh')
  from copy_cancel_is [OF 4(1,3)] obtain ca w where
    "ca \<in> {close_outbound, close_inbound}" "ca (sh_world sh) = Inr w" "sh' = sh\<lparr>sh_world := w\<rparr>" .
  with closing_keeps(1) [OF this(1,2)] 4(2) show ?case by (simp add: keeps_copied_def)
next
  case (5 r q sh sh')
  from copy_cancel_is [OF 5(1,5)] obtain ca w where
    "ca \<in> {close_outbound, close_inbound}" "ca (sh_world sh) = Inr w" "sh' = sh\<lparr>sh_world := w\<rparr>" .
  with closing_keeps [OF this(1,2)] show ?case by (intro copy_wants_keep [OF 5(2,6)]) simp
next
  case (6 r sh sh' b)
  then show ?case by (auto elim!: copy_rule_cases simp: default_recover_def)
next
  case (7 r q sh sh' b)
  then show ?case by (auto elim!: copy_rule_cases simp: default_recover_def)
next
  case (8 sh ps t sh' ret revents)
  then show ?case
    unfolding keeps_copied_def using copy_kernel_step(1) [OF copy_poll_step(1) [OF _ 8(2)]] by blast
next
  case (9 q sh ps t sh' ret revents)
  show ?case
    by (rule copy_wants_keep [OF 9(1,4)]) (rule copy_kernel_step(2) [OF copy_poll_step(1) [OF _ 9(3)]])
next
  case (10 sh fd sh' ret err len)
  then show ?case
    unfolding keeps_copied_def using copy_kernel_step(1) [OF copy_poll_step(2) [OF _ 10(2)]] by blast
next
  case (11 q sh fd sh' ret err len)
  show ?case
    by (rule copy_wants_keep [OF 11(1,4)]) (rule copy_kernel_step(2) [OF copy_poll_step(2) [OF _ 11(3)]])
next
  case (12 r sh sh')
  show ?case by (rule copy_callback_keeps [OF 12])
qed

subsection \<open>Running the copy\<close>

inductive copy_step ::
  "'k copier poll_api \<Rightarrow> 'k copier event_loop \<times> 'k copier shared \<Rightarrow>
   'k copier event_loop \<times> 'k copier shared \<Rightarrow> bool" for A where
  "wait_next_event A (-1) el sh = Inr (el', sh', res) \<Longrightarrow> copy_step A (el, sh) (el', sh')"

inductive_cases copy_stepE: "copy_step A (el, sh) (el', sh')"

lemma copy_steps_keep:
  assumes "(copy_step A)\<^sup>*\<^sup>* (el, sh) (el', sh')"
    and "el_non_fd_rules el = []" and "set (el_fd_rules el) \<subseteq> set (the_copy_rules K S)"
    and "distinct (el_fd_rules el)" and "keeps_copied K S A G s sh"
  shows "keeps_copied K S A G s sh' \<and> el_non_fd_rules el' = [] \<and>
         set (el_fd_rules el') \<subseteq> set (the_copy_rules K S) \<and> distinct (el_fd_rules el')"
  using assms
proof (induction rule: rtranclp_induct2)
  case refl
  then show ?case by blast
next
  case (step el1 sh1 el2 sh2)
  from step.hyps(2) obtain res where "wait_next_event A (-1) el1 sh1 = Inr (el2, sh2, res)"
    by (rule copy_stepE)
  with step.IH [OF step.prems] show ?case by (intro copying.wait_keeps [of A _ el1 sh1]) auto
qed

lemma copy_loop_steps_to:
  assumes "copy_loop A el sh = Some r"
  shows "\<forall>sh'. r = Inr sh' \<longrightarrow> (\<exists>el'. (copy_step A)\<^sup>*\<^sup>* (el, sh) (el', sh'))"
  using assms
proof (induction A el sh r rule: copy_loop.raw_induct [rotated, consumes 1])
  case (1 f A el sh r)
  show ?case
  proof (intro allI impI)
    fix sh'
    assume "r = Inr sh'"
    with 1(2) obtain el1 sh1 res where w: "wait_next_event A (-1) el sh = Inr (el1, sh1, res)"
      and r: "if res = Exit then sh1 = sh' else f A el1 sh1 = Some r"
      by (auto split: sum.splits if_splits)
    from w have st: "copy_step A (el, sh) (el1, sh1)" by (rule copy_step.intros)
    show "\<exists>el'. (copy_step A)\<^sup>*\<^sup>* (el, sh) (el', sh')"
    proof (cases "res = Exit")
      case True
      with r st show ?thesis by auto
    next
      case False
      with r have "f A el1 sh1 = Some r" by simp
      from 1(1) [OF this] \<open>r = Inr sh'\<close> obtain el' where "(copy_step A)\<^sup>*\<^sup>* (el1, sh1) (el', sh')" by blast
      with st show ?thesis by (blast intro: converse_rtranclp_into_rtranclp)
    qed
  qed
qed

lemma copy_loop_steps:
  "copy_loop A el sh = Some (Inr sh') \<Longrightarrow> \<exists>el'. (copy_step A)\<^sup>*\<^sup>* (el, sh) (el', sh')"
  using copy_loop_steps_to by blast

lemma start_copy_copied:
  assumes "calls_logged K S G" and "start_copy K S capacity socket k = Inr (el, w)"
    and "\<forall>fd. bl_in G k fd = [] \<and> bl_out G k fd = []"
  shows "copied G (fw_fd socket) w \<and> el_fd_rules el = the_copy_rules K S \<and> el_non_fd_rules el = []"
proof -
  obtain i k1 ou k2 so k3 i2 k4 ou2 k5 where
    s: "new_fd_wrapper K STDIN_FILENO k = Inr (i, k1)" "new_fd_wrapper K STDOUT_FILENO k1 = Inr (ou, k2)"
      "fd_set_blocking K False socket k2 = Inr (so, k3)" "fd_set_blocking K False i k3 = Inr (i2, k4)"
      "fd_set_blocking K False ou k4 = Inr (ou2, k5)" "copy_rules K S (new_event_loop capacity) = Inr el"
    and w: "w = \<lparr>cp_socket = so, cp_input = i2, cp_output = ou2,
               cp_outbound = new_byte_stream buffer_size, cp_inbound = new_byte_stream buffer_size,
               cp_outbound_shutdown = False, cp_inbound_shutdown = False, cp_kernel = k5\<rparr>"
    using assms(2) by (auto simp: start_copy_def)
  note l = new_fd_wrapper_logged [OF assms(1) s(1)] new_fd_wrapper_logged [OF assms(1) s(2)]
    set_blocking_logged [OF assms(1) s(3)] set_blocking_logged [OF assms(1) s(4)]
    set_blocking_logged [OF assms(1) s(5)]
  have "copied G (fw_fd socket) w"
    using l assms(3) unfolding w by (simp add: copied_def same_log_def stream_simps)
  then show ?thesis using copy_rules_are [OF s(6)] by simp
qed

text \<open>An example: three bytes from the standard input to the socket.\<close>

definition relay_start :: relay_device where
  "relay_start = \<lparr>rd_pending = (\<lambda>_. [])(0 := [1, 2, 3], 3 := [7, 8]), rd_in = (\<lambda>_. []), rd_out = (\<lambda>_. [])\<rparr>"

definition relay_socket :: fd_wrapper where
  "relay_socket = \<lparr>fw_fd = 3, fw_eof = False, fw_closed = False, fw_non_blocking = False,
                   fw_read_count = 0, fw_write_count = 0\<rparr>"

lemma relay_logged: "world_logged relay_kernel relay_sockets (relay_poll cp_kernel) relay_log"
proof -
  have "\<exists>k. w = w\<lparr>cp_kernel := k\<rparr> \<and> same_log relay_log (cp_kernel w) k" for w :: "relay_device copier"
    by (rule exI [of _ "cp_kernel w"]) (simp add: same_log_def)
  then show ?thesis
    by (auto simp: world_logged_def polls_logged_def relay_device_logged dest!: relay_poll_pure)
qed

lemma relay_pump_in:
  assumes "available_capacity bs > 0"
  shows "pump_in relay_kernel fw bs d =
     (case relay_read (fw_fd fw) (unat (available_capacity bs)) d of (d', r, data) \<Rightarrow>
       let fw' = (register_read fw)\<lparr>fw_eof := fw_eof fw \<or> data = []\<rparr>;
           bs' = writer_push data bs
       in Inr (fw', if fw_eof fw' then writer_close bs' else bs', d'))"
proof -
  let ?b = "replicate (unat (available_capacity bs)) (0 :: byte)"
  have "unat (available_capacity bs) \<noteq> 0" using assms by (simp add: unat_eq_zero word_neq_0_conv)
  then have b: "?b \<noteq> []" by simp
  obtain d' r data where r: "relay_read (fw_fd fw) (unat (available_capacity bs)) d = (d', r, data)"
    by (cases "relay_read (fw_fd fw) (unat (available_capacity bs)) d")
  then have "k_read relay_kernel (fw_fd fw) (if ?b = [] then kReadBufferSize else length ?b) d = (d', r, data)"
    using b by (simp add: relay_kernel_def)
  from fd_read_result [OF relay_reads_ok this] r show ?thesis
    by (auto simp: pump_in_def Let_def relay_read_def ok_ret_def)
qed

definition relay_world ::
  "fd_wrapper \<Rightarrow> fd_wrapper \<Rightarrow> byte_stream \<Rightarrow> relay_device \<Rightarrow> relay_device copier shared" where
  "relay_world input socket out d =
     \<lparr>sh_world = \<lparr>cp_socket = socket, cp_input = input,
        cp_output = \<lparr>fw_fd = 1, fw_eof = False, fw_closed = False, fw_non_blocking = True,
                     fw_read_count = 0, fw_write_count = 0\<rparr>,
        cp_outbound = out, cp_inbound = new_byte_stream buffer_size, cp_outbound_shutdown = False,
        cp_inbound_shutdown = False, cp_kernel = d\<rparr>, sh_cancelled = {}\<rparr>"

definition relay_fd :: "int \<Rightarrow> u32 \<Rightarrow> u32 \<Rightarrow> fd_wrapper" where
  "relay_fd fd reads writes = \<lparr>fw_fd = fd, fw_eof = False, fw_closed = False, fw_non_blocking = True,
                               fw_read_count = reads, fw_write_count = writes\<rparr>"

lemma relay_starts:
  "\<exists>el. start_copy relay_kernel relay_sockets 64 relay_socket relay_start =
      Inr (el, sh_world (relay_world (relay_fd 0 0 0) (relay_fd 3 0 0) (new_byte_stream buffer_size) relay_start)) \<and>
    el_fd_rules el = the_copy_rules relay_kernel relay_sockets \<and> el_non_fd_rules el = []"
proof -
  obtain el where el: "copy_rules relay_kernel relay_sockets (new_event_loop 64) = Inr el"
    using copy_rules_exist [of 64 relay_kernel relay_sockets] by auto
  have g: "k_getfl relay_kernel = (\<lambda>fd d. (d, ok_ret 0))" "k_setfl relay_kernel = (\<lambda>fd f d. (d, ok_ret 0))"
    by (simp_all add: relay_kernel_def)
  show ?thesis
    using copy_rules_are [OF el]
    by (intro exI [of _ el]) (simp add: start_copy_def el new_fd_wrapper_def fd_set_blocking_def g ok_ret_def
        fd_check_system_call_def STDIN_FILENO_def STDOUT_FILENO_def relay_world_def relay_fd_def relay_socket_def)
qed

lemma relay_step:
  assumes "el_fd_rules el = rs" "el_non_fd_rules el = []"
    and "\<forall>r \<in> set rs. live sh wants r" and "list_ex wants rs"
    and "relay_ready cp_kernel sh wants rs = Some i"
    and "serve_rule (el_categories el) (rs ! i) sh = Inr sh'"
  shows "copy_step (relay_poll cp_kernel) (el, sh) (el, sh')"
  by (rule copy_step.intros [OF relay_serves [OF assms]])

definition relay_wants :: "relay_device copier shared \<Rightarrow> relay_device copier fd_rule \<Rightarrow> bool" where
  "relay_wants sh r = (case br_interest r sh of Inr (_, b) \<Rightarrow> b | _ \<Rightarrow> False)"

lemmas relay_simps = the_copy_rules_def relay_world_def copy_rule_def relay_fd_def copy_interest_def
  input_interest_def can_pump_in_def to_socket_interest_def can_pump_out_def new_byte_stream_def
  available_capacity_def buffer_size_def reader_has_error_def reader_bytes_buffered_def
  reader_is_finished_def writer_push_def relay_start_def relay_read_def ok_ret_def Let_def

lemma relay_step1:
  assumes rules: "el_fd_rules el = the_copy_rules relay_kernel relay_sockets" "el_non_fd_rules el = []"
  shows "copy_step (relay_poll cp_kernel)
    (el, relay_world (relay_fd 0 0 0) (relay_fd 3 0 0) (new_byte_stream buffer_size) relay_start)
    (el, relay_world (relay_fd 0 1 0) (relay_fd 3 0 0) (writer_push [1, 2, 3] (new_byte_stream buffer_size))
           (fst (relay_read 0 1048576 relay_start)))"
    (is "copy_step _ (_, ?sh) (_, ?sh')")
proof (rule relay_step [OF rules, where wants = "relay_wants ?sh" and i = 0])
  show "\<forall>r \<in> set (the_copy_rules relay_kernel relay_sockets). live ?sh (relay_wants ?sh) r"
    by (simp add: relay_wants_def live_def cancel_requested_def the_copy_rules_def copy_rule_def
        copy_interest_def relay_world_def relay_fd_def)
  show "list_ex (relay_wants ?sh) (the_copy_rules relay_kernel relay_sockets)"
    by (simp add: relay_wants_def relay_simps)
  show "relay_ready cp_kernel ?sh (relay_wants ?sh) (the_copy_rules relay_kernel relay_sockets) = Some 0"
    by (simp add: relay_wants_def relay_simps relay_ready_def ready_def upt_rec relay_poll_def pollfd_of_def POLLIN_def POLLOUT_def)
  show "serve_rule (el_categories el) (the_copy_rules relay_kernel relay_sockets ! 0) ?sh = Inr ?sh'"
    by (simp add: relay_simps copy_callback_def serve_rule_def input_callback_def relay_pump_in service_count_def
        register_read_def)
qed

lemma relay_step2:
  assumes rules: "el_fd_rules el = the_copy_rules relay_kernel relay_sockets" "el_non_fd_rules el = []"
  shows "copy_step (relay_poll cp_kernel)
    (el, relay_world (relay_fd 0 1 0) (relay_fd 3 0 0) (writer_push [1, 2, 3] (new_byte_stream buffer_size))
           (fst (relay_read 0 1048576 relay_start)))
    (el, relay_world (relay_fd 0 1 0) (relay_fd 3 0 1)
           (reader_pop 3 (writer_push [1, 2, 3] (new_byte_stream buffer_size)))
           (fst (k_writev relay_kernel 3 [[1, 2, 3]] (fst (relay_read 0 1048576 relay_start)))))"
    (is "copy_step _ (_, ?sh) (_, ?sh')")
proof (rule relay_step [OF rules, where wants = "relay_wants ?sh" and i = 1])
  show "\<forall>r \<in> set (the_copy_rules relay_kernel relay_sockets). live ?sh (relay_wants ?sh) r"
    by (simp add: relay_wants_def live_def cancel_requested_def the_copy_rules_def copy_rule_def
        copy_interest_def relay_world_def relay_fd_def)
  show "list_ex (relay_wants ?sh) (the_copy_rules relay_kernel relay_sockets)"
    by (simp add: relay_wants_def relay_simps)
  show "relay_ready cp_kernel ?sh (relay_wants ?sh) (the_copy_rules relay_kernel relay_sockets) = Some 1"
    by (simp add: relay_wants_def relay_simps relay_ready_def ready_def upt_rec relay_poll_def pollfd_of_def POLLIN_def POLLOUT_def)
  show "serve_rule (el_categories el) (the_copy_rules relay_kernel relay_sockets ! 1) ?sh = Inr ?sh'"
    by (simp add: relay_simps copy_callback_def serve_rule_def to_socket_callback_def pump_out_def
        service_count_def register_write_def fd_write_def fd_writev_def fd_check_system_call_def
        relay_kernel_def reader_peek_def reader_pop_def pop_loop.simps)
qed

subsection \<open>Properties\<close>

text \<open>
  C14: Whatever the event loop serves and in whatever order, no byte is lost, repeated or
  reordered: what was read from the standard input is what was written to the socket
  followed by what waits in the outbound stream, and what was read from the socket is what
  was written to the standard output followed by what waits in the inbound stream; the
  same holds when the copy returns.
\<close>

theorem copy_relays:
  assumes "world_logged K S A G" and "start_copy K S capacity socket k = Inr (el, w)"
    and "fw_fd socket \<noteq> STDIN_FILENO" and "fw_fd socket \<noteq> STDOUT_FILENO"
    and "\<forall>fd. bl_in G k fd = [] \<and> bl_out G k fd = []"
    and "(copy_step A)\<^sup>*\<^sup>* (el, \<lparr>sh_world = w, sh_cancelled = {}\<rparr>) (el', sh) \<or>
         bidirectional_stream_copy K S A capacity socket k = Some (Inr sh)"
  shows "bl_in G (cp_kernel (sh_world sh)) STDIN_FILENO =
           bl_out G (cp_kernel (sh_world sh)) (fw_fd socket) @ stream_content (cp_outbound (sh_world sh)) \<and>
         bl_in G (cp_kernel (sh_world sh)) (fw_fd socket) =
           bl_out G (cp_kernel (sh_world sh)) STDOUT_FILENO @ stream_content (cp_inbound (sh_world sh))"
proof -
  let ?sh = "\<lparr>sh_world = w, sh_cancelled = {}\<rparr>" and ?s = "fw_fd socket"
  have "calls_logged K S G" using assms(1) by (simp add: world_logged_def)
  note start = start_copy_copied [OF this assms(2,5)]
  obtain el' where steps: "(copy_step A)\<^sup>*\<^sup>* (el, ?sh) (el', sh)"
    using assms(6) copy_loop_steps [of A el ?sh sh] by (auto simp: bidirectional_stream_copy_def assms(2))
  have "keeps_copied K S A G ?s ?sh" using start by (simp add: keeps_copied_def)
  moreover have "el_non_fd_rules el = []" "set (el_fd_rules el) \<subseteq> set (the_copy_rules K S)"
    "distinct (el_fd_rules el)" using start distinct_copy_rules by simp_all
  ultimately have "keeps_copied K S A G ?s sh" using copy_steps_keep [OF steps] by blast
  then show ?thesis using assms(1,3,4) by (simp add: keeps_copied_def copied_def)
qed

theorem copy_relays_witness:
  "\<exists>el el' w sh. start_copy relay_kernel relay_sockets 64 relay_socket relay_start = Inr (el, w) \<and>
     (copy_step (relay_poll cp_kernel))\<^sup>*\<^sup>* (el, \<lparr>sh_world = w, sh_cancelled = {}\<rparr>) (el', sh) \<and>
     rd_out (cp_kernel (sh_world sh)) 3 = [1, 2, 3] \<and>
     rd_in (cp_kernel (sh_world sh)) STDIN_FILENO =
       rd_out (cp_kernel (sh_world sh)) 3 @ stream_content (cp_outbound (sh_world sh)) \<and>
     rd_in (cp_kernel (sh_world sh)) 3 =
       rd_out (cp_kernel (sh_world sh)) STDOUT_FILENO @ stream_content (cp_inbound (sh_world sh))"
proof -
  let ?w = "relay_world (relay_fd 0 0 0) (relay_fd 3 0 0) (new_byte_stream buffer_size) relay_start"
  let ?sh = "relay_world (relay_fd 0 1 0) (relay_fd 3 0 1)
           (reader_pop 3 (writer_push [1, 2, 3] (new_byte_stream buffer_size)))
           (fst (k_writev relay_kernel 3 [[1, 2, 3]] (fst (relay_read 0 1048576 relay_start))))"
  obtain el where s: "start_copy relay_kernel relay_sockets 64 relay_socket relay_start = Inr (el, sh_world ?w)"
    and rules: "el_fd_rules el = the_copy_rules relay_kernel relay_sockets" "el_non_fd_rules el = []"
    using relay_starts by blast
  have "?w = \<lparr>sh_world = sh_world ?w, sh_cancelled = {}\<rparr>" by (simp add: relay_world_def)
  moreover have "(copy_step (relay_poll cp_kernel))\<^sup>*\<^sup>* (el, ?w) (el, ?sh)"
    by (rule converse_rtranclp_into_rtranclp [OF relay_step1 [OF rules] r_into_rtranclp [where r = "copy_step (relay_poll cp_kernel)", OF relay_step2 [OF rules]]])
  ultimately have steps: "(copy_step (relay_poll cp_kernel))\<^sup>*\<^sup>* (el, \<lparr>sh_world = sh_world ?w, sh_cancelled = {}\<rparr>) (el, ?sh)"
    by simp
  have out: "rd_out (cp_kernel (sh_world ?sh)) 3 = [1, 2, 3]"
    by (simp add: relay_world_def relay_kernel_def relay_read_def relay_start_def Let_def)
  have fd: "fw_fd relay_socket = 3" "fw_fd relay_socket \<noteq> STDIN_FILENO" "fw_fd relay_socket \<noteq> STDOUT_FILENO"
    by (simp_all add: relay_socket_def STDIN_FILENO_def STDOUT_FILENO_def)
  have log: "bl_in relay_log = rd_in" "bl_out relay_log = rd_out" by (simp_all add: relay_log_def)
  have "\<forall>fd. bl_in relay_log relay_start fd = [] \<and> bl_out relay_log relay_start fd = []"
    by (simp add: log relay_start_def)
  from copy_relays [OF relay_logged s fd(2,3) this disjI1 [OF steps]] s steps out
  show ?thesis unfolding fd(1) log by blast
qed

end
