(* ===== verification/Exit_Status.thy ===== *)
theory Exit_Status
  imports Prelude
begin

text \<open>
  How a program ends: with a status, or aborted; and the handlers of the functions \<open>main\<close>.
\<close>

datatype exit_status = EXIT_SUCCESS | EXIT_FAILURE | Aborted

text \<open>A value, or the exit of the program.\<close>

type_synonym 'a or_exit = "exit_status + 'a"

text \<open>
  The handler of \<open>main\<close>: exceptions end the program with a failure, undefined behaviour is
  not caught.
\<close>

fun catch_exceptions :: "(exit_status \<times> 'a) result option \<Rightarrow> (exit_status \<times> 'a option) result option" where
  "catch_exceptions None = None"
| "catch_exceptions (Some (Inl (Throws m))) = Some (Inr (EXIT_FAILURE, None))"
| "catch_exceptions (Some (Inl e)) = Some (Inl e)"
| "catch_exceptions (Some (Inr (status, x))) = Some (Inr (status, Some x))"

end
