(* ===== verification/Socket_Ends.thy ===== *)
theory Socket_Ends
  imports Socket_Relay
begin

text \<open>
  Closures that end: no closure of the event loop of an open connection runs forever
  (\<open>util/tcp_minnow_socket.cc\<close>), and neither does an operation of the two adapters of
  \<open>util/tuntap_adapter.cc\<close>.  A function on \<open>result\<close> that calls a loop returns \<open>Diverges\<close>
  when the loop does not end; \<open>ends\<close> excludes that.
\<close>

subsection \<open>What always ends\<close>

lemma ends_errors [simp]: "ends (Inl (unix_error message attempt errno))" "ends (Inl (tagged_error message attempt errno))"
  by (simp_all add: unix_error_def tagged_error_def)

text \<open>Descriptors and sockets.\<close>

lemma fd_operations_end [simp]:
  "ends (fd_check_system_call K attempt r fw)" "ends (fd_read K buffer fw k)" "ends (fd_readv K buffers fw k)"
  "ends (fd_writev K buffers fw k)" "ends (fd_write K buffer fw k)" "ends (socket_shutdown K S how fw k)"
proof -
  show "ends (fd_check_system_call K attempt r fw)" for attempt r fw by (simp add: fd_check_system_call_def)
  then show "ends (fd_writev K buffers fw k)" "ends (fd_write K buffer fw k)" "ends (socket_shutdown K S how fw k)"
    for buffers by (auto simp: fd_writev_def fd_write_def socket_shutdown_def Let_def split: prod.split)
  show "ends (fd_read K buffer fw k)" "ends (fd_readv K buffers fw k)"
    by (auto simp: fd_read_def fd_readv_def Let_def split: prod.split)
qed

text \<open>Addresses.\<close>

lemma address_operations_end [simp]:
  "ends (address_ip_port gni gai_message a)" "ends (address_port gni gai_message a)"
  "ends (address_to_string gni gai_message a)" "ends (address_of_ip gai gai_message ip port)"
  "ends (ipv4_numeric a)"
proof -
  have "ends (stoi s)" for s by (simp add: stoi_def Let_def)
  then show "ends (address_ip_port gni gai_message a)"
    by (auto simp: address_ip_port_def simp del: ends_bind intro!: ends_bindI split: prod.split)
  then show "ends (address_port gni gai_message a)" "ends (address_to_string gni gai_message a)"
    by (auto simp: address_port_def address_to_string_def)
  show "ends (address_of_ip gai gai_message ip port)"
    by (auto simp: address_of_ip_def address_resolve_def address_of_raw_def split: prod.split option.split)
  show "ends (ipv4_numeric a)" by (simp add: ipv4_numeric_def)
qed

lemma debug_destination_ends [simp]: "ends (debug_destination E cfg)"
  by (simp add: debug_destination_def)

text \<open>Receiving a segment.\<close>

lemma copies_end [simp]: "ends (memcpy dst i src j n)" "ends (memset dst i c n)" "ends (memmove_front shift n data)"
  by (simp_all add: memcpy_def memset_def memmove_front_def)

lemma circ_operations_end [simp]: "ends (circ_insert i data cb)" "ends (circ_pop i n cb)"
  by (auto simp: circ_insert_def circ_pop_def Let_def simp del: ends_bind intro!: ends_bindI)

lemma reassembler_insert_ends [simp]: "ends (reassembler_insert i data is_last ra out)"
proof -
  have "ends (ra_deliver ra out)" for ra out
    by (auto simp: ra_deliver_def simp del: ends_bind intro!: ends_bindI split: list.split)
  then show ?thesis
    by (auto simp: reassembler_insert_def Let_def simp del: ends_bind intro!: ends_bindI split: prod.split)
qed

lemma peer_receive_ends [simp]: "ends (peer_receive seg p)"
proof -
  have "ends (sender_receive msg s)" for msg s
    by (auto simp: sender_receive_def receive_new_ack_def Let_def split: option.split)
  moreover have "ends (receiver_receive msg r ra inbound)" for msg r ra inbound
    by (auto simp: receiver_receive_def Let_def simp del: ends_bind intro!: ends_bindI split: prod.split)
  ultimately show ?thesis
    by (auto simp: peer_receive_def Let_def simp del: ends_bind intro!: ends_bindI split: prod.split)
qed

text \<open>Pushing and collecting: what the loops return when they return.\<close>

lemma read_stream_ends [simp]: "ends (read_stream bs n)"
proof -
  have "ends (read_loop len bs out)" for len bs out
    by (induction len bs out rule: read_loop.induct) (subst read_loop.simps, simp add: Let_def)
  then show ?thesis by (simp add: read_stream_def)
qed

lemma push_loop_ends:
  assumes "push_loop budget segment s outbound = Some r"
  shows "ends r"
proof (rule push_loop.raw_induct [of "\<lambda>_ _ _ _ r. ends r", OF _ assms])
  fix f budget segment s outbound r
  assume IH: "\<And>budget segment s outbound r. f budget segment s outbound = Some r \<Longrightarrow> ends r"
    and body: "(if budget > 0 \<or> sm_SYN segment then
        (case push_round budget segment s outbound of
           Inl e \<Rightarrow> Some (Inl e)
         | Inr st \<Rightarrow>
             (case st of (budget, segment, s, outbound) \<Rightarrow>
                if reader_bytes_buffered outbound = 0 then Some (Inr (s, outbound))
                else f budget segment s outbound))
      else Some (Inr (s, outbound))) = Some r"
  have "ends (push_round budget segment s outbound)"
    by (auto simp: push_round_def Let_def simp del: ends_bind intro!: ends_bindI split: prod.split)
  with body show "ends r"
    by (auto simp: ends_def dest: IH [unfolded ends_def] split: sum.splits if_splits)
qed

lemma peer_push_ends: "peer_push p = Some r \<Longrightarrow> ends r"
  by (auto simp: peer_push_def sender_push_def Let_def split: option.splits dest!: push_loop_ends)

lemma peer_maybe_send_ends: "peer_maybe_send p = Some r \<Longrightarrow> ends r"
proof -
  assume r: "peer_maybe_send p = Some r"
  have "ends (sender_maybe_send s)" for s
    by (auto simp: sender_maybe_send_def Let_def split: list.split)
  then have "ends (peer_make_segment msg q)" for msg q
    by (auto simp: peer_make_segment_def Let_def simp del: ends_bind intro!: ends_bindI split: prod.split)
  with r show ?thesis
    by (auto simp: peer_maybe_send_def Let_def simp del: ends_bind intro!: ends_bindI dest: peer_push_ends split: if_splits)
qed

lemma collect_loop_result_ends:
  assumes "collect_loop p queued = Some r"
  shows "ends r"
proof (rule collect_loop.raw_induct [of "\<lambda>_ _ r. ends r", OF _ assms])
  fix f p queued r
  assume IH: "\<And>p queued r. f p queued = Some r \<Longrightarrow> ends r"
    and body: "(case peer_maybe_send p of
        None \<Rightarrow> None
      | Some (Inl e) \<Rightarrow> Some (Inl e)
      | Some (Inr (p, None)) \<Rightarrow> Some (Inr (p, queued))
      | Some (Inr (p, Some seg)) \<Rightarrow> f p (queued @ [seg])) = Some r"
  with peer_maybe_send_ends [of p] show "ends r"
    by (auto simp: ends_def dest: IH [unfolded ends_def] split: option.splits sum.splits)
qed

subsection \<open>Closures that end\<close>

text \<open>
  On an open connection no closure of a rule runs forever, if the operations of the adapter do
  not.
\<close>

definition adapter_ends :: "('a, 'k) adapter_ops \<Rightarrow> bool" where
  "adapter_ends ops \<longleftrightarrow> (\<forall>a k. ends (ao_read ops a k)) \<and> (\<forall>seg a k. ends (ao_write ops seg a k))"

definition open_socket :: "('a, 'k) minnow \<Rightarrow> bool" where
  "open_socket w \<longleftrightarrow> (\<exists>p. sk_tcp w = Some p \<and> peer_open p)"

lemma open_socketI [intro]: "sk_tcp w = Some p \<Longrightarrow> peer_open p \<Longrightarrow> open_socket w"
  by (simp add: open_socket_def)

lemma the_tcp_ends [simp]: "ends (the_tcp w)"
  by (simp add: the_tcp_def split: option.split)

lemma on_tcp_open:
  assumes "open_socket w" and "\<And>p p'. peer_open p \<Longrightarrow> f p = Inr p' \<Longrightarrow> peer_open p'" and "on_tcp f w = Inr w'"
  shows "open_socket w'"
  using assms by (auto simp: open_socket_def on_tcp_def the_tcp_def)

lemma collect_stays_open:
  assumes "open_socket w"
  shows "ends (collect_segments w)" and "collect_segments w = Inr w' \<Longrightarrow> open_socket w'"
proof -
  obtain p where p: "sk_tcp w = Some p" "peer_open p" using assms by (auto simp: open_socket_def)
  obtain r where r: "collect_loop p (sk_outgoing w) = Some r"
    and o: "\<forall>p' queued'. r = Inr (p', queued') \<longrightarrow> peer_open p'"
    using collect_loop_ends [OF p(2), of "sk_outgoing w"] by blast
  from collect_loop_result_ends [OF r] show "ends (collect_segments w)"
    using p r by (auto simp: collect_segments_def)
  show "open_socket w'" if "collect_segments w = Inr w'"
    using that p r o by (auto simp: collect_segments_def open_socket_def)
qed

lemma open_pushes:
  assumes "open_socket w"
  shows "ends (on_tcp (\<lambda>p. returned (peer_push p)) w)"
    and "on_tcp (\<lambda>p. returned (peer_push p)) w = Inr w' \<Longrightarrow> open_socket w'"
proof -
  obtain p where p: "sk_tcp w = Some p" "peer_open p" using assms by (auto simp: open_socket_def)
  obtain p' where "peer_push p = Some (Inr p')" "peer_open p'" using open_push_returns [OF p(2)] by blast
  then show "ends (on_tcp (\<lambda>p. returned (peer_push p)) w)"
    and "on_tcp (\<lambda>p. returned (peer_push p)) w = Inr w' \<Longrightarrow> open_socket w'"
    using p(1) by (auto simp: on_tcp_def the_tcp_def open_socket_def)
qed

lemma network_callback_open:
  assumes "adapter_ends (en_ops E)" and "open_socket w"
  shows "ends (network_callback E w)" and "network_callback E w = Inr w' \<Longrightarrow> open_socket w'"
proof -
  have rd: "ends (ao_read (en_ops E) a k)" for a k using assms(1) by (simp add: adapter_ends_def)
  have on: "ends (on_tcp (peer_receive seg) w)" for seg :: tcp_segment and w :: "('a, 'b) minnow"
    by (simp add: on_tcp_def)
  have w1: "open_socket (w\<lparr>sk_adapter := a, sk_kernel := k\<rparr>)" for a k
    using assms(2) by (simp add: open_socket_def)
  have c: "open_socket w2" if "on_tcp (peer_receive seg) (w\<lparr>sk_adapter := a, sk_kernel := k\<rparr>) = Inr w2" for seg a k w2
    by (rule on_tcp_open [OF w1 _ that]) (rule peer_receive_open)
  show "ends (network_callback E w)"
    unfolding network_callback_def Let_def
    by (auto simp: rd on simp del: ends_bind intro!: ends_bindI collect_stays_open(1) intro: c split: prod.split option.split)
  show "open_socket w'" if w': "network_callback E w = Inr w'"
  proof -
    obtain a k seg where r: "ao_read (en_ops E) (sk_adapter w) (sk_kernel w) = Inr (a, k, seg)"
      using w' by (auto simp: network_callback_def)
    let ?w = "w\<lparr>sk_adapter := a, sk_kernel := k\<rparr>"
    obtain w2 where w2: "(case seg of None \<Rightarrow> Inr ?w
        | Some seg \<Rightarrow> bind_result (on_tcp (peer_receive seg) ?w) collect_segments) = Inr w2"
      and w'2: "w' = w2 \<or> w' = w2\<lparr>sk_fully_acked := True\<rparr>"
      using w' r by (auto simp: network_callback_def Let_def split: if_splits option.splits)
    have "open_socket w2" using w2 w1 by (auto split: option.splits intro: collect_stays_open(2) c)
    with w'2 show ?thesis by (auto simp: open_socket_def)
  qed
qed

lemma outbound_cancel_open:
  assumes "open_socket w"
  shows "outbound_cancel w = Inr w' \<Longrightarrow> open_socket w'"
  using assms peer_open_close
  by (auto simp: open_socket_def outbound_cancel_def on_tcp_def the_tcp_def)

lemma outbound_cancel_ends [simp]: "ends (outbound_cancel w)"
  by (simp add: outbound_cancel_def on_tcp_def)

lemma outbound_stays_open:
  assumes "open_socket w"
  shows "ends (outbound_callback E w)" and "outbound_callback E w = Inr w' \<Longrightarrow> open_socket w'"
proof -
  let ?written = "\<lambda>w data fw k. on_tcp (\<lambda>p. Inr (p\<lparr>pe_outbound := writer_push data (pe_outbound p)\<rparr>))
      (w\<lparr>sk_thread_data := fw, sk_kernel := k\<rparr>)"
  have 1: "open_socket w1" if "?written w data fw k = Inr w1" for data fw k w1
    using that assms peer_open_write by (auto simp: open_socket_def on_tcp_def the_tcp_def)
  have 2: "open_socket w2" if "(if fw_eof (sk_thread_data w1)
        then bind_result (outbound_cancel w1) (\<lambda>w. bind_result (debug_destination E (sk_config E w)) (\<lambda>_. Inr w))
        else Inr w1) = Inr w2" "open_socket w1" for w1 w2
    using that outbound_cancel_open by (auto split: if_splits)
  have e: "ends (?written w data fw k)" for data fw k by (simp add: on_tcp_def)
  obtain p where p: "the_tcp w = Inr p" using assms by (auto simp: open_socket_def the_tcp_def)
  show "ends (outbound_callback E w)"
    unfolding outbound_callback_def Let_def p bind_result.simps prod.case_distrib
    by (rule ends_bindI, simp, clarsimp split del: if_split simp del: ends_bind bind_result_Inr_iff,
        rule ends_bindI, rule e, rule ends_bindI, simp, rule ends_bindI, rule open_pushes(1), erule 2, erule 1,
        rule collect_stays_open(1), erule open_pushes(2) [rotated], erule 2, erule 1)
  show "open_socket w'" if w': "outbound_callback E w = Inr w'"
  proof -
    from w' obtain data fw k w1 w2 w3 where w: "?written w data fw k = Inr w1"
      "(if fw_eof (sk_thread_data w1)
        then bind_result (outbound_cancel w1) (\<lambda>w. bind_result (debug_destination E (sk_config E w)) (\<lambda>_. Inr w))
        else Inr w1) = Inr w2" "on_tcp (\<lambda>p. returned (peer_push p)) w2 = Inr w3" "collect_segments w3 = Inr w'"
      unfolding outbound_callback_def Let_def p bind_result.simps by (auto split del: if_split)
    show ?thesis by (rule collect_stays_open(2) [OF open_pushes(2) [OF 2 [OF w(2) 1 [OF w(1)]] w(3)] w(4)])
  qed
qed

lemma inbound_callback_open:
  assumes "open_socket w"
  shows "ends (inbound_callback E w)" and "inbound_callback E w = Inr w' \<Longrightarrow> open_socket w'"
proof -
  show "ends (inbound_callback E w)"
    unfolding inbound_callback_def Let_def
    by (auto simp del: ends_bind bind_result_Inr_iff intro!: ends_bindI split: prod.split)
  show "open_socket w'" if "inbound_callback E w = Inr w'"
    using assms that by (auto simp: open_socket_def inbound_callback_def the_tcp_def Let_def peer_open_def split: if_splits)
qed

lemma sending_callback_open:
  assumes "adapter_ends (en_ops E)" and "open_socket w"
  shows "ends (sending_callback E w)" and "sending_callback E w = Inr w' \<Longrightarrow> open_socket w'"
proof -
  have "ends (write_segments (en_ops E) segs a k)" for segs a k
    using assms(1) by (induction segs arbitrary: a k) (auto simp: adapter_ends_def)
  then show "ends (sending_callback E w)" by (auto simp: sending_callback_def)
  show "open_socket w'" if "sending_callback E w = Inr w'"
    using assms(2) that by (auto simp: open_socket_def sending_callback_def)
qed

lemma tcp_callback_open:
  assumes "r \<in> set (the_tcp_rules E)" and "adapter_ends (en_ops E)" and "open_socket (sh_world sh)"
  shows "ends (br_callback r sh)" and "br_callback r sh = Inr sh' \<Longrightarrow> open_socket (sh_world sh')"
  using assms(1)
  by (rule tcp_rule_cases, use network_callback_open [OF assms(2,3)] outbound_stays_open [OF assms(3), of E]
      inbound_callback_open [OF assms(3), of E] sending_callback_open [OF assms(2,3)]
      in \<open>auto simp: as_callback_def\<close>)+

lemma tcp_closures_end:
  assumes "r \<in> set (the_tcp_rules E)"
  shows "ends (br_interest r sh)" and "ends (fr_cancel r sh)" and "ends (fr_recover r sh)"
  using assms
  by (auto elim!: tcp_rule_cases simp: as_interest_def as_callback_def default_cancel_def default_recover_def
      network_interest_def outbound_interest_def inbound_interest_def sending_interest_def)

subsection \<open>Adapters that end\<close>

lemma parse_byte_ends [simp]: "ends (bl_peek bl)" "ends (bl_remove_prefix n bl)" "ends (parser_remove_prefix n p)" "ends (parse_byte p)"
proof -
  show pk: "ends (bl_peek bl)" for bl by (simp add: bl_peek_def split: list.split)
  show rp: "ends (bl_remove_prefix n bl)" for n bl
    by (induction n bl rule: bl_remove_prefix.induct) (subst bl_remove_prefix.simps, simp add: Let_def split: list.split)
  show "ends (parser_remove_prefix n p)" for n p using rp by (simp add: parser_remove_prefix_def)
  then show "ends (parse_byte p)" using pk
    by (simp add: parse_byte_def del: ends_bind split: list.split) (auto intro!: ends_bindI simp del: ends_bind split: list.split)
qed

lemma parse_integer_ends [simp]: "ends (parse_integer out p)"
proof -
  have "ends (parse_bytes_into n w p)" for n p and w :: "'a word"
    by (induction n arbitrary: w p) (auto simp del: ends_bind intro!: ends_bindI split: prod.split)
  then show ?thesis
    by (auto simp: parse_integer_def Let_def simp del: ends_bind intro!: ends_bindI split: prod.split)
qed

lemma parse_array_ends [simp]: "ends (parse_array bs p)"
  by (induction bs arbitrary: p) (auto simp del: ends_bind intro!: ends_bindI split: prod.split)

lemma parse_rest_ends [simp]: "ends (parse_all_remaining p)" "ends (parse_all_remaining_joined p)"
proof -
  have "ends (bl_dump_all bl)" for bl by (simp add: bl_dump_all_def split: list.split)
  then show "ends (parse_all_remaining p)" "ends (parse_all_remaining_joined p)"
    by (simp_all add: parse_all_remaining_def parse_all_remaining_joined_def bl_dump_all_joined_def)
qed

lemma parse_object_ends: "(\<And>p. ends (f p)) \<Longrightarrow> ends (parse_object f bufs)"
  by (auto simp: parse_object_def)

lemma ipv4_compute_checksum_ends [simp]: "ends (ipv4_compute_checksum h)"
  by (simp add: ipv4_compute_checksum_def ipv4_serialize_def Let_def)

lemma parse_datagram_ends [simp]: "ends (parse_object (ipv4_datagram_parse d) bufs)"
proof -
  have "ends (ipv4_check h p)" for h p by (auto simp: ipv4_check_def Let_def)
  then have "ends (ipv4_parse h p)" for h p
    unfolding ipv4_parse_def by (auto simp del: ends_bind intro!: ends_bindI split: prod.split)
  then have "ends (ipv4_datagram_parse d p)" for p
    unfolding ipv4_datagram_parse_def by (auto simp del: ends_bind intro!: ends_bindI split: prod.split)
  then show ?thesis by (rule parse_object_ends)
qed

lemma parse_segment_ends [simp]: "ends (parse_object (tcp_segment_parse pseudo g) bufs)"
proof -
  have "ends (tcp_segment_parse pseudo g p)" for p
    unfolding tcp_segment_parse_def Let_def by (auto simp del: ends_bind intro!: ends_bindI split: prod.split)
  then show ?thesis by (rule parse_object_ends)
qed

lemma unwrap_tcp_in_ip_ends [simp]: "ends (unwrap_tcp_in_ip L dgram fa)"
proof -
  have "ends (foreign fa n a)" for n a by (simp add: foreign_def)
  moreover have "ends (accept_peer L h seg fa)" for h seg
    by (auto simp: accept_peer_def simp del: ends_bind intro!: ends_bindI)
  ultimately show ?thesis
    unfolding unwrap_tcp_in_ip_def Let_def
    by (auto simp del: ends_bind intro!: ends_bindI split: prod.split option.split)
qed

lemma wrap_tcp_in_ip_ends [simp]: "ends (wrap_tcp_in_ip L seg fa)"
  unfolding wrap_tcp_in_ip_def Let_def by (auto simp del: ends_bind intro!: ends_bindI)

lemma serialize_datagram_ends [simp]: "ends (serialize_datagram d)"
  by (auto simp: serialize_datagram_def serialize_object_def ipv4_datagram_serialize_def ipv4_serialize_def Let_def)

lemma tun_ops_end: "adapter_ends (tun_ops K L)"
proof -
  have "ends (tun_read K L tu k)" "ends (tun_write K L seg tu k)" for tu k seg
    unfolding tun_read_def tun_write_def Let_def
    by (auto simp del: ends_bind intro!: ends_bindI split: prod.split)
  then show ?thesis by (simp add: adapter_ends_def tun_ops_def)
qed

lemma after_sending_returns:
  assumes "\<And>et k. ends (f et k)"
  shows "ends (returned (after_sending K et k f))"
proof -
  obtain ni r where d: "drain_loop ni_maybe_send (write_frame K) (et_interface et) (et_tap et, k) = Some (ni, r)"
    using frames.drain_ends [of "write_frame K" "et_interface et" "(et_tap et, k)"] by blast
  have "ends r" by (rule frames.drain_result_ends [OF d]) (auto simp: write_frame_def split: prod.split)
  with d assms show ?thesis
    by (cases r) (auto simp: after_sending_def send_pending_def ends_def split: prod.splits)
qed

lemma interface_operations_end:
  "ends (recv_frame (lib_address L) frame ni)" "ends (send_datagram (lib_address L) dgram a ni)"
proof -
  have arp: "ends (arp_create (lib_address L) op eth ip eth' ip')" for op eth ip eth' ip'
    unfolding arp_create_def by (auto simp del: ends_bind intro!: ends_bindI)
  have ser: "ends (serialize_object (arp_serialize m))" for m
    by (auto simp: serialize_object_def arp_serialize_def Let_def)
  have "ends (send_waiting dst ds ni)" for dst ds ni
    by (induction ds arbitrary: ni) (auto simp: Let_def)
  then have "ends (arp_received (lib_address L) m ni)" for m ni
    unfolding arp_received_def Let_def by (auto simp: arp ser simp del: ends_bind intro!: ends_bindI)
  moreover have "ends (arp_parse m p)" for m p
    unfolding arp_parse_def Let_def by (auto simp del: ends_bind intro!: ends_bindI split: prod.split)
  then have "ends (parse_object (arp_parse m) bufs)" for m bufs by (rule parse_object_ends)
  ultimately show "ends (recv_frame (lib_address L) frame ni)"
    unfolding recv_frame_def by (auto simp del: ends_bind intro!: ends_bindI split: prod.split)
  show "ends (send_datagram (lib_address L) dgram a ni)"
    unfolding send_datagram_def Let_def
    by (auto simp: arp ser simp del: ends_bind intro!: ends_bindI split: option.split)
qed

lemma ethernet_ops_end: "adapter_ends (ethernet_ops K L)"
proof -
  have "ends (ethernet_frame_parse f p)" for f p
    unfolding ethernet_frame_parse_def ethernet_header_parse_def
    by (auto simp del: ends_bind intro!: ends_bindI split: prod.split)
  then have frame: "ends (parse_object (ethernet_frame_parse f) bufs)" for f bufs by (rule parse_object_ends)
  have sum: "ends (returned (case r of Inl e \<Rightarrow> Some (Inl e) | Inr x \<Rightarrow> f x))"
    if "ends r" "\<And>x. ends (returned (f x))" for r :: "'x result" and f :: "'x \<Rightarrow> 'y result option"
    using that by (cases r) (auto simp: ends_def)
  have "ends (returned (ethernet_read K L et k))" for et k
    unfolding ethernet_read_def Let_def
    by (auto simp: frame interface_operations_end simp del: ends_bind
        intro!: sum after_sending_returns ends_bindI split: prod.split option.split)
  moreover have "ends (returned (ethernet_write K L seg et k))" for seg et k
    unfolding ethernet_write_def Let_def
    by (auto simp: interface_operations_end simp del: ends_bind
        intro!: sum after_sending_returns ends_bindI split: prod.split)
  ultimately show ?thesis by (simp add: adapter_ends_def ethernet_ops_def)
qed

end
