(* ===== verification/Socket_Close.thy ===== *)
theory Socket_Close
  imports Socket_Ends Exit_Status
begin

text \<open>
  The end of a socket: \<open>wait_until_closed\<close> and the destructor of \<open>util/tcp_minnow_socket.cc\<close>, which
  wait for the thread that runs \<open>_tcp_main\<close>.  The thread is between two iterations of its loop
  when they start, and nothing else uses the socket from then on.
\<close>

subsection \<open>Joining the thread\<close>

text \<open>
  \<open>_tcp_main\<close> throws again what it catches: an exception that leaves the function of a thread
  aborts the program.  A thread that does not end is not joined, whether its loop goes on
  forever or something that it calls does.
\<close>

fun join_thread :: "'a result option \<Rightarrow> 'a or_exit result option" where
  "join_thread None = None"
| "join_thread (Some (Inl Diverges)) = None"
| "join_thread (Some (Inl (Throws m))) = Some (Inr (Inl Aborted))"
| "join_thread (Some (Inl (Undefined m))) = Some (Inl (Undefined m))"
| "join_thread (Some (Inr x)) = Some (Inr (Inr x))"

lemma join_thread_ends: "join_thread r \<noteq> None \<longleftrightarrow> (\<exists>x. r = Some x \<and> ends x)"
  by (cases r rule: join_thread.cases) auto

text \<open>\<open>joinable\<close> is whether a thread was started and not waited for yet.\<close>

definition minnow_wait_until_closed ::
  "('a, 'k) minnow_env \<Rightarrow> bool \<Rightarrow> ('a, 'k) minnow_loop \<Rightarrow> ('a, 'k) minnow_shared \<Rightarrow>
   (('a, 'k) minnow_loop \<times> ('a, 'k) minnow_shared) or_exit result option" where
  "minnow_wait_until_closed E joinable el sh =
     (let w = sh_world sh
      in case socket_shutdown (en_kernel E) (en_sockets E) SHUT_RDWR (sk_fd w) (sk_kernel w) of
           Inl e \<Rightarrow> Some (Inl e)
         | Inr (fd, k) \<Rightarrow>
             (let sh = sh\<lparr>sh_world := w\<lparr>sk_fd := fd, sk_kernel := k\<rparr>\<rparr>
              in if joinable then join_thread (tcp_main E el sh) else Some (Inr (Inr (el, sh)))))"

definition minnow_destroy ::
  "('a, 'k) minnow_env \<Rightarrow> bool \<Rightarrow> ('a, 'k) minnow_loop \<Rightarrow> ('a, 'k) minnow_shared \<Rightarrow>
   (('a, 'k) minnow_loop \<times> ('a, 'k) minnow_shared) or_exit result option" where
  "minnow_destroy E joinable el sh =
     (if joinable then join_thread (tcp_main E el (sh\<lparr>sh_world := (sh_world sh)\<lparr>sk_abort := True\<rparr>\<rparr>))
      else Some (Inr (Inr (el, sh))))"

subsection \<open>The flag that stops the loop\<close>

lemma collect_segments_abort: "collect_segments w = Inr w' \<Longrightarrow> sk_abort w' = sk_abort w"
  by (auto simp: collect_segments_def split: option.splits)

lemma on_tcp_abort: "on_tcp f w = Inr w' \<Longrightarrow> sk_abort w' = sk_abort w"
  by (auto simp: on_tcp_def)

lemma outbound_cancel_abort: "outbound_cancel w = Inr w' \<Longrightarrow> sk_abort w' = sk_abort w"
  by (auto simp: outbound_cancel_def dest: on_tcp_abort)

lemma network_callback_abort:
  assumes "network_callback E w = Inr w'"
  shows "sk_abort w' = sk_abort w"
proof -
  obtain a k seg where rd: "ao_read (en_ops E) (sk_adapter w) (sk_kernel w) = Inr (a, k, seg)"
    using assms by (auto simp: network_callback_def)
  let ?w = "w\<lparr>sk_adapter := a, sk_kernel := k\<rparr>"
  obtain w2 where w2: "(case seg of None \<Rightarrow> Inr ?w
      | Some seg \<Rightarrow> bind_result (on_tcp (peer_receive seg) ?w) collect_segments) = Inr w2"
    and w': "w' = w2 \<or> w' = w2\<lparr>sk_fully_acked := True\<rparr>"
    using assms rd by (auto simp: network_callback_def Let_def split: if_splits option.splits)
  have "sk_abort w2 = sk_abort w"
  proof (cases seg)
    case None
    then show ?thesis using w2 by auto
  next
    case (Some g)
    then obtain w1 where w1: "on_tcp (peer_receive g) ?w = Inr w1" "collect_segments w1 = Inr w2"
      using w2 by auto
    from on_tcp_abort [OF w1(1)] collect_segments_abort [OF w1(2)] show ?thesis by simp
  qed
  with w' show ?thesis by auto
qed

lemma outbound_callback_abort:
  assumes "outbound_callback E w = Inr w'"
  shows "sk_abort w' = sk_abort w"
proof -
  obtain data fw k where
    "bind_result (on_tcp (\<lambda>p. Inr (p\<lparr>pe_outbound := writer_push data (pe_outbound p)\<rparr>))
        (w\<lparr>sk_thread_data := fw, sk_kernel := k\<rparr>)) (\<lambda>w.
     bind_result (if fw_eof (sk_thread_data w)
        then bind_result (outbound_cancel w) (\<lambda>w. bind_result (debug_destination E (sk_config E w)) (\<lambda>_. Inr w))
        else Inr w) (\<lambda>w. bind_result (on_tcp (\<lambda>p. returned (peer_push p)) w) collect_segments)) = Inr w'"
    using assms by (auto simp: outbound_callback_def Let_def simp del: bind_result_Inr_iff)
      (auto simp only: bind_result_Inr_iff prod.case)
  then obtain w1 w2 w3 where w: "on_tcp (\<lambda>p. Inr (p\<lparr>pe_outbound := writer_push data (pe_outbound p)\<rparr>))
        (w\<lparr>sk_thread_data := fw, sk_kernel := k\<rparr>) = Inr w1"
    "(if fw_eof (sk_thread_data w1)
        then bind_result (outbound_cancel w1) (\<lambda>w. bind_result (debug_destination E (sk_config E w)) (\<lambda>_. Inr w))
        else Inr w1) = Inr w2"
    "on_tcp (\<lambda>p. returned (peer_push p)) w2 = Inr w3" "collect_segments w3 = Inr w'"
    by (auto simp only: bind_result_Inr_iff)
  have "w2 = w1 \<or> outbound_cancel w1 = Inr w2" using w(2) by (auto split: if_splits)
  with on_tcp_abort [OF w(1)] on_tcp_abort [OF w(3)] collect_segments_abort [OF w(4)] outbound_cancel_abort
  show ?thesis by auto
qed

lemma inbound_callback_abort: "inbound_callback E w = Inr w' \<Longrightarrow> sk_abort w' = sk_abort w"
  by (auto simp: inbound_callback_def Let_def split: if_splits)

lemma sending_callback_abort: "sending_callback E w = Inr w' \<Longrightarrow> sk_abort w' = sk_abort w"
  by (auto simp: sending_callback_def)

lemma tcp_callback_abort:
  assumes "r \<in> set (the_tcp_rules E)" and "br_callback r sh = Inr sh'"
  shows "sk_abort (sh_world sh') = sk_abort (sh_world sh)"
  using assms(1)
  by (rule tcp_rule_cases) (use assms(2) in \<open>auto simp: as_callback_def dest: network_callback_abort
      outbound_callback_abort inbound_callback_abort sending_callback_abort\<close>)

text \<open>Nothing clears the flag while \<open>poll\<close> waits.\<close>

definition polls_keep_abort :: "('a, 'k) minnow poll_api \<Rightarrow> bool" where
  "polls_keep_abort A \<longleftrightarrow>
     (\<forall>ps t sh sh' ret revents. pa_poll A ps t sh = (sh', ret, revents) \<longrightarrow>
        sk_abort (sh_world sh) \<longrightarrow> sk_abort (sh_world sh')) \<and>
     (\<forall>fd sh sh' ret err len. pa_socket_error A fd sh = (sh', ret, err, len) \<longrightarrow>
        sk_abort (sh_world sh) \<longrightarrow> sk_abort (sh_world sh'))"

text \<open>
  While the thread stops, the connection stays open: no closure that the pass serves runs
  forever.
\<close>

definition stopping ::
  "('a, 'k) minnow_env \<Rightarrow> 'k byte_log \<Rightarrow> int \<Rightarrow> ('a, 'k) minnow_shared \<Rightarrow> bool" where
  "stopping E G s sh \<longleftrightarrow> polls_keep_abort (en_poll E) \<and> polls_apart (en_poll E) G s \<and> adapter_ends (en_ops E) \<and>
     sk_abort (sh_world sh) \<and> open_socket (sh_world sh)"

lemma only_waits_open: "only_waits G s w w' \<Longrightarrow> open_socket w \<Longrightarrow> open_socket w'"
  by (auto simp: only_waits_def open_socket_def)

lemma only_waits_stopping:
  assumes "stopping E G s sh" and "only_waits G s (sh_world sh) (sh_world sh')"
    and "sk_abort (sh_world sh) \<longrightarrow> sk_abort (sh_world sh')"
  shows "stopping E G s sh'"
  using assms only_waits_open [OF assms(2)] by (simp add: stopping_def)

lemma polls_apartD:
  assumes "polls_apart A G s"
  shows "pa_poll A ps t sh = (sh', ret, revents) \<Longrightarrow> only_waits G s (sh_world sh) (sh_world sh')"
    and "pa_socket_error A fd sh = (sh', ret', err, len) \<Longrightarrow> only_waits G s (sh_world sh) (sh_world sh')"
  using assms unfolding polls_apart_def by blast+

lemma polls_keep_abortD:
  assumes "polls_keep_abort A"
  shows "pa_poll A ps t sh = (sh', ret, revents) \<Longrightarrow> sk_abort (sh_world sh) \<longrightarrow> sk_abort (sh_world sh')"
    and "pa_socket_error A fd sh = (sh', ret', err, len) \<Longrightarrow> sk_abort (sh_world sh) \<longrightarrow> sk_abort (sh_world sh')"
  using assms unfolding polls_keep_abort_def by blast+

lemma stopping_polls: "stopping E G s sh \<Longrightarrow> polls_apart (en_poll E) G s \<and> polls_keep_abort (en_poll E)"
  by (simp add: stopping_def)

interpretation stopping_loop:
  loop_failures "en_poll E" "set (the_tcp_rules E)" "stopping E G s" "\<lambda>r sh. True" "\<lambda>e. e = Diverges"
proof (unfold_locales, goal_cases)
  case (2 r sh sh' b)
  then show ?case using tcp_interest_pure(1) by blast
next
  case (4 r sh sh')
  from tcp_cancel_is [OF 4(1,3)] 4(2) show ?case
    by (auto simp: stopping_def dest: outbound_cancel_abort intro: outbound_cancel_open)
next
  case (6 r sh sh' b)
  then show ?case by (auto elim!: tcp_rule_cases simp: default_recover_def)
next
  case (8 sh ps t sh' ret revents)
  then show ?case using only_waits_stopping polls_apartD(1) polls_keep_abortD(1) stopping_polls by metis
next
  case (10 sh fd sh' ret err len)
  then show ?case using only_waits_stopping polls_apartD(2) polls_keep_abortD(2) stopping_polls by metis
next
  case (12 r sh sh')
  from 12(2) tcp_callback_abort [OF 12(1,4)] tcp_callback_open(2) [OF 12(1) _ _ 12(4)] show ?case
    by (simp add: stopping_def)
next
  case (14 r sh e)
  then show ?case using tcp_closures_end(1) by (metis ends_def)
next
  case (15 r sh e)
  then show ?case using tcp_closures_end(2) by (metis ends_def)
next
  case (16 r sh e)
  then show ?case using tcp_closures_end(3) by (metis ends_def)
next
  case (17 r sh e)
  then show ?case using tcp_callback_open(1) by (metis ends_def stopping_def)
qed auto

text \<open>
  Once the flag is set the loop ends with the pass of the event loop that it is in.
\<close>

definition last_pass ::
  "('a, 'k) minnow_env \<Rightarrow> ('a, 'k) minnow_loop \<Rightarrow> ('a, 'k) minnow_shared \<Rightarrow>
   (('a, 'k) minnow_loop \<times> ('a, 'k) minnow_shared \<times> loop_result) result" where
  "last_pass E el sh =
     (let w = sh_world sh; (k, now) = en_clock E (sk_kernel w)
      in wait_next_event (en_poll E) TCP_TICK_MS el (sh\<lparr>sh_world := w\<lparr>sk_abort := True, sk_kernel := k\<rparr>\<rparr>))"

lemma stopped_loop:
  assumes "polls_keep_abort (en_poll E)" and "polls_apart (en_poll E) G s" and "adapter_ends (en_ops E)"
    and "open_socket (sh_world sh)" and "tcp_loop_ok E el"
  shows "ends (last_pass E el sh)"
    and "tcp_loop E (\<lambda>w. Inr True) el (sh\<lparr>sh_world := (sh_world sh)\<lparr>sk_abort := True\<rparr>\<rparr>) =
       Some (bind_result (last_pass E el sh) (\<lambda>(el, sh, ret). Inr (el, sh)))"
    and "last_pass E el sh = Inr (el', sh', ret) \<Longrightarrow> open_socket (sh_world sh')"
proof -
  obtain k base_time where c: "en_clock E (sk_kernel (sh_world sh)) = (k, base_time)"
    by (cases "en_clock E (sk_kernel (sh_world sh))")
  let ?sh = "sh\<lparr>sh_world := (sh_world sh)\<lparr>sk_abort := True, sk_kernel := k\<rparr>\<rparr>"
  have l: "last_pass E el sh = wait_next_event (en_poll E) TCP_TICK_MS el ?sh"
    using c by (simp add: last_pass_def)
  have "stopping E G s ?sh" using assms(1-4) by (auto simp: stopping_def open_socket_def)
  note stop = assms(5) [unfolded tcp_loop_ok_def, THEN conjunct1]
    assms(5) [unfolded tcp_loop_ok_def, THEN conjunct2, THEN conjunct1]
    assms(5) [unfolded tcp_loop_ok_def, THEN conjunct2, THEN conjunct2] this
  show "ends (last_pass E el sh)"
    using stopping_loop.wait_fails [OF _ stop, of TCP_TICK_MS] unfolding l ends_def by blast
  note keeps = stopping_loop.wait_keeps [OF _ stop, of TCP_TICK_MS, THEN conjunct1, unfolded stopping_def]
  show "open_socket (sh_world sh')" if "last_pass E el sh = Inr (el', sh', ret)"
    using keeps [OF that [unfolded l]] by blast
  show "tcp_loop E (\<lambda>w. Inr True) el (sh\<lparr>sh_world := (sh_world sh)\<lparr>sk_abort := True\<rparr>\<rparr>) =
       Some (bind_result (last_pass E el sh) (\<lambda>(el, sh, ret). Inr (el, sh)))"
  proof (cases "last_pass E el sh")
    case (Inl e)
    then show ?thesis using c unfolding l
      by (simp add: tcp_loop_def, subst tcp_loop_from.simps) (simp add: tcp_iteration_def)
  next
    case (Inr x)
    obtain el' sh' ret where x: "x = (el', sh', ret)" by (cases x)
    have "sk_abort (sh_world sh')" using keeps [OF Inr [unfolded x l]] by blast
    then show ?thesis using c Inr unfolding l
      by (simp add: tcp_loop_def, subst tcp_loop_from.simps) (simp add: tcp_iteration_def x)
  qed
qed

lemma shutdown_throws: "socket_shutdown K S how fw k = Inl e \<Longrightarrow> \<exists>m. e = Throws m"
  by (auto simp: socket_shutdown_def fd_check_system_call_def unix_error_def tagged_error_def bind_result_Inl_iff
      split: prod.splits if_splits)

subsection \<open>Properties\<close>

text \<open>
  C32: The destructor of a connected socket returns, whatever state the socket has reached: the
  thread that it waits for ends with the pass of the event loop that it is in, and nothing
  that this pass serves runs forever.  What comes of it is what came of that pass: the peer is
  gone when the pass and the shutdown of the thread's socket succeeded, the program is aborted
  when one of them threw an exception, and behaviour is undefined when it was undefined in the
  pass.
\<close>

theorem socket_destroy_returns:
  assumes "socket_world E G s Q mine" and "fresh_socket G s mine w"
    and "socket_reaches E cfg c_ad random capacity w sh"
    and "length (bl_in G (sk_kernel (sh_world sh)) s) + 2 < 2 ^ 64"
    and "tcp_loop_ok E el" and "polls_keep_abort (en_poll E)" and "adapter_ends (en_ops E)"
  shows "\<exists>r. minnow_destroy E True el sh = Some r \<and>
     (case last_pass E el sh of
        Inl (Throws m) \<Rightarrow> r = Inr (Inl Aborted)
      | Inl (Undefined m) \<Rightarrow> r = Inl (Undefined m)
      | Inl Diverges \<Rightarrow> False
      | Inr (el', sh', ret) \<Rightarrow>
          (case socket_shutdown (en_kernel E) (en_sockets E) SHUT_RDWR (sk_fd (sh_world sh')) (sk_kernel (sh_world sh')) of
             Inl e \<Rightarrow> r = Inr (Inl Aborted)
           | Inr (fd, k) \<Rightarrow>
               r = Inr (Inr (el', sh'\<lparr>sh_world := (sh_world sh')\<lparr>sk_fd := fd, sk_kernel := k, sk_tcp := None\<rparr>\<rparr>))))"
proof -
  have o: "open_socket (sh_world sh)" using socket_reaches_open [OF assms(1-4)] by (auto simp: open_socket_def)
  have a: "polls_apart (en_poll E) G s" using assms(1) by (simp add: socket_world_def)
  note stopped = stopped_loop [OF assms(6) a assms(7) o assms(5)]
  define sh0 where "sh0 = sh\<lparr>sh_world := (sh_world sh)\<lparr>sk_abort := True\<rparr>\<rparr>"
  have d: "minnow_destroy E True el sh = join_thread (tcp_main E el sh0)" by (simp add: minnow_destroy_def sh0_def)
  have "sk_tcp (sh_world sh0) \<noteq> None" using o by (auto simp: open_socket_def sh0_def)
  note main = tcp_main_def [of E el sh0, unfolded if_not_P [OF this] stopped(2) [folded sh0_def] option.map Let_def]
  show ?thesis
  proof (cases "last_pass E el sh")
    case (Inl e)
    have "tcp_main E el sh0 = Some (Inl e)" unfolding main Inl by simp
    then show ?thesis using stopped(1) unfolding d Inl by (cases e) simp_all
  next
    case (Inr x)
    obtain el' sh' ret where x: "x = (el', sh', ret)" by (cases x)
    have p: "sk_tcp (sh_world sh') \<noteq> None" using stopped(3) [OF Inr [unfolded x]] by (auto simp: open_socket_def)
    show ?thesis
    proof (cases "socket_shutdown (en_kernel E) (en_sockets E) SHUT_RDWR (sk_fd (sh_world sh')) (sk_kernel (sh_world sh'))")
      case s: (Inl e)
      obtain m where e: "e = Throws m" using shutdown_throws [OF s] by blast
      have "tcp_main E el sh0 = Some (Inl (Throws m))" unfolding main Inr x by (simp add: s e)
      then show ?thesis unfolding d Inr x by (simp add: s)
    next
      case s: (Inr y)
      obtain fd k where y: "y = (fd, k)" by (cases y)
      have "tcp_main E el sh0 =
          Some (Inr (el', sh'\<lparr>sh_world := (sh_world sh')\<lparr>sk_fd := fd, sk_kernel := k, sk_tcp := None\<rparr>\<rparr>))"
        unfolding main Inr x by (simp add: s y p)
      then show ?thesis unfolding d Inr x by (simp add: s y)
    qed
  qed
qed

text \<open>
  Witness: a connected socket over a TUN device whose application has written three bytes, which it has read.
\<close>

theorem socket_destroy_returns_witness:
  "\<exists>sh el r. socket_reaches deaf_env default_tcp_config deaf_config 7 64 deaf_socket sh \<and>
     add_tcp_rules deaf_env (new_event_loop 64) = Inr el \<and> minnow_destroy deaf_env True el sh = Some r"
proof -
  obtain sh where sh: "socket_reaches deaf_env default_tcp_config deaf_config 7 64 deaf_socket sh"
    and r: "rd_in (sk_kernel (sh_world sh)) 3 = [1, 2, 3]"
    by (rule deaf_reached)
  obtain el where el: "add_tcp_rules deaf_env (new_event_loop 64) = Inr el"
    using add_tcp_rules_exist [of 64 deaf_env] by auto
  then have ok: "tcp_loop_ok deaf_env el"
    using add_tcp_rules_are [OF el] distinct_tcp_rules by (simp add: tcp_loop_ok_def)
  have p: "polls_keep_abort (en_poll deaf_env)"
    unfolding polls_keep_abort_def deaf_env_def by (auto dest: relay_poll_pure)
  have e: "adapter_ends (en_ops deaf_env)" by (simp add: deaf_env_def tun_ops_end)
  have "length (bl_in relay_log (sk_kernel (sh_world sh)) 3) + 2 < 2 ^ 64" using r by (simp add: relay_log_def)
  from socket_destroy_returns [OF deaf_world deaf_fresh sh this ok p e] sh el show ?thesis by blast
qed

end
