(* ===== verification/Debug_Printing.thy ===== *)
theory Debug_Printing
  imports Byte_Stream Circ_Buffer Interval_Set Reassembler Exceptions
begin

text \<open>
  The debug output of \<open>src/CircBuffer.h\<close>, \<open>src/Intervals.h\<close>, \<open>src/reassembler.hh\<close> and
  \<open>src/byte_stream.hh\<close>.  The operators write to the stream they are given and, in places, to the
  standard output instead: what they print is a list of pieces with the stream of each.
\<close>

subsection \<open>The circular buffer\<close>

datatype print_stream = Given | Standard_Output

type_synonym printed = "(print_stream \<times> string) list"

definition NEWLINE :: string where "NEWLINE = [CHR 0x0A]"

definition print_ruler :: "circ_buffer \<Rightarrow> printed" where
  "print_ruler c =
     replicate (unat (4 * of_nat (length (cb_buffer c)) + 1 :: u64)) (Standard_Output, ''='') @
     [(Standard_Output, NEWLINE)]"

text \<open>The row that marks the first cell that was not popped.\<close>

definition print_marks :: "circ_buffer \<Rightarrow> u64 \<Rightarrow> printed" where
  "print_marks c offset =
     concat (map (\<lambda>i. (if i = unat offset then [(Given, ''| * '')] else []) @ [(Given, ''|   '')])
       [0..<unat (cb_size c)]) @ [(Given, NEWLINE)]"

text \<open>The row of absolute indices.\<close>

definition cell_address :: "circ_buffer \<Rightarrow> u64 \<Rightarrow> u64 \<Rightarrow> u64" where
  "cell_address c offset i =
     (if i < offset then cb_first_unpopped c - offset + i + cb_size c
      else cb_first_unpopped c - offset + i)"

definition print_address :: "u64 \<Rightarrow> printed" where
  "print_address virtual_address =
     (if virtual_address < 100 then [(Given, '' '')] else []) @
     (if virtual_address < 10 then [(Given, '' '')] else []) @
     [(Given, decimal (unat virtual_address))]"

definition print_bar :: "circ_buffer \<Rightarrow> printed" where
  "print_bar c = (if cb_buffer c \<noteq> [] then [(Given, ''|'')] else [])"

definition print_addresses :: "circ_buffer \<Rightarrow> u64 \<Rightarrow> printed" where
  "print_addresses c offset =
     concat (map (\<lambda>i. (Given, ''|'') # print_address (cell_address c offset (of_nat i))) [0..<unat (cb_size c)]) @
     print_bar c @ [(Standard_Output, NEWLINE)]"

text \<open>The rows of cell numbers, counted in an \<open>int\<close>, and of their contents.\<close>

definition print_numbers :: "circ_buffer \<Rightarrow> printed result" where
  "print_numbers c =
     (if length (cb_buffer c) \<ge> 2 ^ 31 then Inl (Undefined ''signed overflow'')
      else Inr (concat (map (\<lambda>i. [(Given, ''| ''), (Given, decimal i)] @ (if i < 10 then [(Given, '' '')] else []))
                  [0..<length (cb_buffer c)]) @ print_bar c @ [(Given, NEWLINE)]))"

definition print_contents :: "circ_buffer \<Rightarrow> printed" where
  "print_contents c =
     concat (map (\<lambda>elem. [(Given, ''| ''), (Given, [char_of (unat elem)]), (Given, '' '')]) (cb_buffer c)) @
     print_bar c @ [(Given, NEWLINE)]"

definition print_circ_buffer :: "circ_buffer \<Rightarrow> printed result" where
  "print_circ_buffer c =
     (if cb_size c = 0 then Inl (Undefined ''modulo by zero'')
      else let offset = cb_first_unpopped c mod cb_size c
        in bind_result (print_numbers c) (\<lambda>numbers.
           Inr (print_ruler c @ print_marks c offset @ print_addresses c offset @ numbers @
                print_contents c @ print_ruler c @ [(Standard_Output, NEWLINE)])))"

subsection \<open>The interval set\<close>

definition show_interval :: "interval \<Rightarrow> string" where
  "show_interval i = ''['' @ decimal (unat (fst i)) @ '', '' @ decimal (unat (snd i)) @ '') ''"

definition show_set :: "interval_set \<Rightarrow> printed" where
  "show_set s = map (\<lambda>i. (Standard_Output, show_interval i)) s @ [(Standard_Output, NEWLINE)]"

definition print_interval_set :: "interval_set \<Rightarrow> printed" where
  "print_interval_set s = map (\<lambda>i. (Given, show_interval i)) s @ [(Given, NEWLINE)]"

subsection \<open>The reassembler and the byte stream\<close>

definition print_bool :: "bool \<Rightarrow> string" where
  "print_bool b = (if b then ''1'' else ''0'')"

definition print_number :: "u64 \<Rightarrow> string" where
  "print_number n = decimal (unat n)"

definition print_reassembler :: "reassembler \<Rightarrow> printed result" where
  "print_reassembler r =
     bind_result (print_circ_buffer (ra_fixed_buffer r)) (\<lambda>buffer.
     Inr (map (Pair Given)
            [''===== Reassembler Begin ===='', NEWLINE,
             ''First Unassembled Index: '', print_number (ra_first_unassembled r), NEWLINE,
             ''First Unacceptable Index: '', print_number (ra_first_unacceptable r), NEWLINE,
             ''Buffer: '', NEWLINE] @
          buffer @ [(Standard_Output, NEWLINE), (Given, ''Interval Set: ''), (Given, NEWLINE)] @
          print_interval_set (ra_intervals r) @
          map (Pair Given)
            [''Reassembler Size: '', print_number (ra_size r), NEWLINE,
             ''Last Substring Recieved?: '', print_bool (ra_last_received r),
             ''  Last Index: '', print_number (ra_last_index r), NEWLINE,
             ''===== Reassembler End ===='', NEWLINE]))"

definition print_bytestream :: "byte_stream \<Rightarrow> string" where
  "print_bytestream bs =
     ''Capacity: '' @ print_number (bs_capacity bs) @ NEWLINE @
     ''Current Size: '' @ print_number (bs_current_size bs) @ NEWLINE @
     ''Is Closed: '' @ print_bool (bs_closed bs) @ NEWLINE @
     ''Error Set?: '' @ print_bool (bs_error bs) @ NEWLINE @
     ''Bytes Pushed: '' @ print_number (bs_bytes_pushed bs) @ NEWLINE @
     ''Bytes Popped: '' @ print_number (bs_bytes_popped bs) @ NEWLINE @
     ''Buffer:  '' @ NEWLINE @
     concat (map (\<lambda>buffer. map (\<lambda>b. char_of (unat b)) buffer @ NEWLINE) (bs_q bs)) @ NEWLINE"

subsection \<open>The absolute indices\<close>

text \<open>
  Under each cell stands the index that lives there among the next \<open>size\<close> ones from the
  first one that was not popped, as long as none of them passes \<open>2\<^sup>6\<^sup>4\<close>.
\<close>

lemma cell_address_lives_there:
  assumes "0 < cb_size c" and "i < cb_size c" and "unat (cb_first_unpopped c) + unat (cb_size c) < 2 ^ 64"
  shows "cell_address c (cb_first_unpopped c mod cb_size c) i mod cb_size c = i \<and>
         unat (cb_first_unpopped c) \<le> unat (cell_address c (cb_first_unpopped c mod cb_size c) i) \<and>
         unat (cell_address c (cb_first_unpopped c mod cb_size c) i) < unat (cb_first_unpopped c) + unat (cb_size c)"
proof -
  let ?f = "unat (cb_first_unpopped c)" and ?n = "unat (cb_size c)" and ?i = "unat i"
  have n: "0 < ?n" and i: "?i < ?n" using assms(1,2) by (simp_all add: word_less_nat_alt)
  have m: "unat (cb_first_unpopped c mod cb_size c) = ?f mod ?n" by (simp add: unat_mod)
  define base where "base = ?f - ?f mod ?n"
  have base: "base + ?f mod ?n = ?f" "base mod ?n = 0" by (simp_all add: base_def minus_mod_eq_mult_div)
  have low: "unat (cb_first_unpopped c - cb_first_unpopped c mod cb_size c) = base"
    by (simp add: base_def m unat_sub word_le_nat_alt)
  have lt: "?f mod ?n < ?n" using n by simp
  have a: "unat (cell_address c (cb_first_unpopped c mod cb_size c) i) =
      (if ?i < ?f mod ?n then base + ?i + ?n else base + ?i)"
  proof (cases "?i < ?f mod ?n")
    case True
    then have "base + ?i + ?n < 2 ^ 64" using base(1) assms(3) by linarith
    then show ?thesis using True
      by (simp add: cell_address_def word_less_nat_alt m low unat_add_small)
  next
    case False
    then have "base + ?i < 2 ^ 64" using base(1) assms(3) i by linarith
    then show ?thesis using False by (simp add: cell_address_def word_less_nat_alt m low unat_add_small)
  qed
  have "unat (cell_address c (cb_first_unpopped c mod cb_size c) i) mod ?n = ?i"
    unfolding a using base(2) i by (auto simp: mod_add_eq [symmetric])
  then have "cell_address c (cb_first_unpopped c mod cb_size c) i mod cb_size c = i"
    by (simp add: word_unat_eq_iff unat_mod)
  moreover have "?f \<le> unat (cell_address c (cb_first_unpopped c mod cb_size c) i) \<and>
      unat (cell_address c (cb_first_unpopped c mod cb_size c) i) < ?f + ?n"
    unfolding a using base(1) lt i by (cases "?i < ?f mod ?n"; simp only: if_True if_False; linarith)
  ultimately show ?thesis by simp
qed

end
