(* ===== verification/Webget.thy ===== *)
theory Webget
  imports Byte_Log Relay_Device Tcp_Over_Ip Exit_Status
begin

text \<open>
  The program \<open>apps/webget.cc\<close>: it writes one request to a TCP socket and prints what comes
  back until the stream ends.
\<close>

subsection \<open>The program\<close>

definition string_bytes :: "string \<Rightarrow> bytes" where
  "string_bytes s = map of_char s"

definition CRLF :: string where
  "CRLF = [char_of (13 :: nat), char_of (10 :: nat)]"

subsection \<open>The request and the answer\<close>

definition http_request :: "string \<Rightarrow> string \<Rightarrow> string" where
  "http_request host path =
     ''GET '' @ path @ '' HTTP/1.1'' @ CRLF @ ''Host: '' @ host @ CRLF @ ''Connection: close'' @ CRLF @ CRLF"

text \<open>The loop: the buffer is passed on as the last call of \<open>read\<close> left it.\<close>

partial_function (option) print_until_eof ::
  "'k kernel \<Rightarrow> bytes \<Rightarrow> bytes \<Rightarrow> fd_wrapper \<Rightarrow> 'k \<Rightarrow> (bytes \<times> fd_wrapper \<times> 'k) result option" where
  "print_until_eof K cout buffer fw k =
     (if fw_eof fw then Some (Inr (cout, fw, k))
      else case fd_read K buffer fw k of
             Inl e \<Rightarrow> Some (Inl e)
           | Inr (buffer, fw, k) \<Rightarrow> print_until_eof K (cout @ buffer) buffer fw k)"

definition send_request ::
  "'k kernel \<Rightarrow> 'k socket_api \<Rightarrow> net_lib \<Rightarrow> string \<Rightarrow> string \<Rightarrow> 'k \<Rightarrow> (fd_wrapper \<times> 'k) result" where
  "send_request K S L host path k =
     bind_result (address_of_host (nl_gai L) (nl_gai_message L) host ''http'') (\<lambda>a.
     bind_result (new_tcp_socket K S k) (\<lambda>(socket, k).
     bind_result (socket_connect K S a socket k) (\<lambda>k.
     bind_result (fd_write K (string_bytes (http_request host path)) socket k) (\<lambda>(n, socket, k).
     Inr (socket, k)))))"

text \<open>The socket is closed at the end, by its destructor.\<close>

definition get_URL ::
  "'k kernel \<Rightarrow> 'k socket_api \<Rightarrow> net_lib \<Rightarrow> string \<Rightarrow> string \<Rightarrow> 'k \<Rightarrow> (bytes \<times> 'k) result option" where
  "get_URL K S L host path k =
     (case send_request K S L host path k of
        Inl e \<Rightarrow> Some (Inl e)
      | Inr (socket, k) \<Rightarrow>
          map_option (\<lambda>r. bind_result r (\<lambda>(cout, socket, k). Inr (cout, fd_destroy K socket k)))
            (print_until_eof K [] [] socket k))"

definition webget_main ::
  "'k kernel \<Rightarrow> 'k socket_api \<Rightarrow> net_lib \<Rightarrow> string list \<Rightarrow> 'k \<Rightarrow> (exit_status \<times> (bytes \<times> 'k) option) result option" where
  "webget_main K S L args k =
     (if args = [] then Some (Inr (Aborted, None))
      else if length args \<noteq> 3 then Some (Inr (EXIT_FAILURE, Some ([], k)))
      else catch_exceptions
             (map_option (\<lambda>r. bind_result r (\<lambda>x. Inr (EXIT_SUCCESS, x)))
                (get_URL K S L (args ! 1) (args ! 2) k)))"

subsection \<open>What the program moves\<close>

text \<open>Creating and connecting a socket moves no bytes.\<close>

definition opens_logged :: "'k socket_api \<Rightarrow> 'k byte_log \<Rightarrow> bool" where
  "opens_logged S G \<longleftrightarrow>
     (\<forall>d t p k. same_log G k (fst (sa_socket S d t p k))) \<and>
     (\<forall>fd a k. same_log G k (fst (sa_connect S fd a k)))"

lemma same_log_trans: "same_log G k k' \<Longrightarrow> same_log G k' k'' \<Longrightarrow> same_log G k k''"
  by (simp add: same_log_def)

lemma fd_read_empty: "fd_read K [] fw k = fd_read K (replicate kReadBufferSize 0) fw k"
  by (simp add: fd_read_def kReadBufferSize_def)

lemma fd_read_moves_any:
  assumes "reads_logged K G" and "fd_read K buffer fw k = Inr (data, fw', k')"
  shows "bl_in G k' = (bl_in G k)(fw_fd fw := bl_in G k (fw_fd fw) @ data) \<and>
         bl_out G k' = bl_out G k \<and> fw_fd fw' = fw_fd fw"
proof (cases "buffer = []")
  case True
  then have "fd_read K (replicate kReadBufferSize 0) fw k = Inr (data, fw', k')"
    using assms(2) fd_read_empty by metis
  then show ?thesis using fd_read_moves [OF assms(1)] by (simp add: kReadBufferSize_def)
next
  case False
  then show ?thesis using fd_read_moves [OF assms] by simp
qed

lemma print_until_eof_moves:
  assumes "print_until_eof K cout buffer fw k = Some r"
  shows "reads_logged K G \<longrightarrow> (\<forall>cout' fw' k'. r = Inr (cout', fw', k') \<longrightarrow>
    (\<exists>data. cout' = cout @ data \<and> bl_in G k' = (bl_in G k)(fw_fd fw := bl_in G k (fw_fd fw) @ data) \<and>
       bl_out G k' = bl_out G k \<and> fw_fd fw' = fw_fd fw \<and> fw_eof fw'))"
  using assms
proof (induction K cout buffer fw k r rule: print_until_eof.raw_induct [rotated, consumes 1])
  case (1 f K cout buffer fw k r)
  show ?case
  proof (intro impI allI)
    fix cout' fw' k'
    assume G: "reads_logged K G" and r: "r = Inr (cout', fw', k')"
    show "\<exists>data. cout' = cout @ data \<and> bl_in G k' = (bl_in G k)(fw_fd fw := bl_in G k (fw_fd fw) @ data) \<and>
       bl_out G k' = bl_out G k \<and> fw_fd fw' = fw_fd fw \<and> fw_eof fw'"
    proof (cases "fw_eof fw")
      case True
      then show ?thesis using 1(2) r by simp
    next
      case False
      with 1(2) r obtain d fw1 k1 where d: "fd_read K buffer fw k = Inr (d, fw1, k1)"
        and f: "f K (cout @ d) d fw1 k1 = Some r" by (auto split: sum.splits)
      from 1(1) [OF f] G r obtain data where "cout' = (cout @ d) @ data"
        "bl_in G k' = (bl_in G k1)(fw_fd fw1 := bl_in G k1 (fw_fd fw1) @ data)" "bl_out G k' = bl_out G k1"
        "fw_fd fw' = fw_fd fw1" "fw_eof fw'" by blast
      with fd_read_moves_any [OF G d] show ?thesis by (intro exI [of _ "d @ data"]) simp
    qed
  qed
qed

lemma new_tcp_socket_logged:
  assumes "calls_logged K S G" and "opens_logged S G" and "new_tcp_socket K S k = Inr (fw, k')"
  shows "same_log G k k'"
proof -
  obtain k1 r where s: "sa_socket S (int AF_INET) SOCK_STREAM 0 k = (k1, r)" by (cases "sa_socket S (int AF_INET) SOCK_STREAM 0 k")
  then have "same_log G k k1" using assms(2) unfolding opens_logged_def by (metis fst_conv)
  moreover have "same_log G k1 k'"
    using assms(3) s new_fd_wrapper_logged [OF assms(1)]
    by (auto simp: new_tcp_socket_def new_socket_def)
  ultimately show ?thesis by (rule same_log_trans)
qed

lemma socket_connect_logged:
  assumes "opens_logged S G" and "socket_connect K S a fw k = Inr k'"
  shows "same_log G k k'"
proof -
  obtain k1 r where s: "sa_connect S (fw_fd fw) (raw_sockaddr a) k = (k1, r)"
    by (cases "sa_connect S (fw_fd fw) (raw_sockaddr a) k")
  then have "same_log G k k1" using assms(1) unfolding opens_logged_def by (metis fst_conv)
  then show ?thesis using assms(2) s by (auto simp: socket_connect_def)
qed

lemma fd_write_some: "fd_write K buffer fw k = Inr (n, fw', k') \<Longrightarrow> buffer \<noteq> [] \<Longrightarrow> 0 < n"
  by (auto simp: fd_write_def fd_writev_def Let_def fd_check_system_call_def split: if_splits prod.splits)

lemma fd_destroy_logged: "calls_logged K S G \<Longrightarrow> same_log G k (fd_destroy K fw k)"
  by (simp add: fd_destroy_def calls_logged_def) (simp add: same_log_def)

text \<open>The answer ends: what is left of it goes down with every read that returns bytes.\<close>

definition answers_end :: "'k kernel \<Rightarrow> bool" where
  "answers_end K \<longleftrightarrow>
     (\<exists>left :: int \<Rightarrow> 'k \<Rightarrow> nat. \<forall>fd n k k' r data.
        k_read K fd n k = (k', r, data) \<longrightarrow> data \<noteq> [] \<longrightarrow> left fd k' < left fd k)"

lemma fd_read_ends:
  assumes "reads_logged K G" and "fd_read K buffer fw k = Inr (data, fw', k')"
  shows "fw_eof fw' \<or> (\<exists>n r. data \<noteq> [] \<and> k_read K (fw_fd fw) n k = (k', r, data))"
proof -
  let ?n = "if buffer = [] then kReadBufferSize else length buffer"
  obtain k1 r d where r: "k_read K (fw_fd fw) ?n k = (k1, r, d)" by (cases "k_read K (fw_fd fw) ?n k")
  then have ok: "transfer_ok ?n r d" and e: "\<not> would_block fw r"
    using assms(1) unfolding reads_logged_def would_block_def by blast+
  show ?thesis
    using assms(2) r ok e
    by (auto simp: fd_read_def Let_def transfer_ok_def set_eof_def register_read_def split: if_splits)
qed

lemma print_until_eof_ends:
  assumes "reads_logged K G" and "answers_end K"
  shows "print_until_eof K cout buffer fw k \<noteq> None"
proof -
  obtain left :: "int \<Rightarrow> 'a \<Rightarrow> nat" where left: "\<And>fd n k k' r data.
        k_read K fd n k = (k', r, data) \<Longrightarrow> data \<noteq> [] \<Longrightarrow> left fd k' < left fd k"
    using assms(2) unfolding answers_end_def by metis
  show ?thesis
  proof (induction "left (fw_fd fw) k" arbitrary: cout buffer fw k rule: less_induct)
    case less
    show ?case
    proof (cases "\<exists>data fw' k'. \<not> fw_eof fw \<and> fd_read K buffer fw k = Inr (data, fw', k')")
      case True
      then obtain data fw' k' where d: "\<not> fw_eof fw" "fd_read K buffer fw k = Inr (data, fw', k')" by blast
      have same: "fw_fd fw' = fw_fd fw" using fd_read_moves_any [OF assms(1) d(2)] by simp
      have "print_until_eof K (cout @ data) data fw' k' \<noteq> None"
      proof (cases "fw_eof fw'")
        case True
        then show ?thesis by (subst print_until_eof.simps) simp
      next
        case False
        then show ?thesis using fd_read_ends [OF assms(1) d(2)] left same less by metis
      qed
      then show ?thesis using d by (subst print_until_eof.simps) simp
    next
      case False
      then show ?thesis by (subst print_until_eof.simps) (auto split: sum.splits)
    qed
  qed
qed

subsection \<open>An example\<close>

definition answering :: relay_device where
  "answering = \<lparr>rd_pending = (\<lambda>_. [])(3 := [72, 73]), rd_in = (\<lambda>_. []), rd_out = (\<lambda>_. [])\<rparr>"

lemma relay_fd_read:
  "fd_read relay_kernel buffer fw d =
     (let n = (if buffer = [] then kReadBufferSize else length buffer);
          data = take n (rd_pending d (fw_fd fw))
      in Inr (data, (register_read fw)\<lparr>fw_eof := fw_eof fw \<or> data = []\<rparr>, fst (relay_read (fw_fd fw) n d)))"
proof -
  let ?n = "if buffer = [] then kReadBufferSize else length buffer"
  have "k_read relay_kernel (fw_fd fw) ?n d =
      (fst (relay_read (fw_fd fw) ?n d), ok_ret (int (length (take ?n (rd_pending d (fw_fd fw))))), take ?n (rd_pending d (fw_fd fw)))"
    by (simp add: relay_kernel_def relay_read_def Let_def)
  from fd_read_result [OF relay_reads_ok this] show ?thesis by (simp add: ok_ret_def Let_def)
qed

lemma answering_request: "string_bytes (http_request host path) \<noteq> []"
  by (simp add: string_bytes_def http_request_def)

lemma get_URL_answering:
  "\<exists>k'. get_URL relay_kernel relay_sockets numeric_lib ''1'' ''/'' answering = Some (Inr ([72, 73], k'))"
proof -
  obtain k where s: "send_request relay_kernel relay_sockets numeric_lib ''1'' ''/'' answering =
      Inr (\<lparr>fw_fd = 3, fw_eof = False, fw_closed = False, fw_non_blocking = False, fw_read_count = 0,
            fw_write_count = 1\<rparr>, k)" and k: "rd_pending k 3 = [72, 73]"
  proof (rule that)
    let ?request = "string_bytes (http_request ''1'' ''/'')"
    show "send_request relay_kernel relay_sockets numeric_lib ''1'' ''/'' answering = Inr (\<lparr>fw_fd = 3,
        fw_eof = False, fw_closed = False, fw_non_blocking = False, fw_read_count = 0, fw_write_count = 1\<rparr>,
        answering\<lparr>rd_out := (rd_out answering)(3 := rd_out answering 3 @ ?request)\<rparr>)"
      using answering_request
      by (simp add: send_request_def address_of_host_def address_resolve_def address_of_raw_def numeric_lib_def
          numeric_gai_def new_tcp_socket_def new_socket_def relay_sockets_def ok_ret_def check_system_call_def
          new_fd_wrapper_def relay_kernel_def fd_check_system_call_def socket_connect_def fd_write_def fd_writev_def
          register_write_def Let_def STORAGE_SIZE_def)
  qed (simp add: answering_def)
  have "\<exists>fw' k'. print_until_eof relay_kernel [] [] \<lparr>fw_fd = 3, fw_eof = False, fw_closed = False,
      fw_non_blocking = False, fw_read_count = 0, fw_write_count = 1\<rparr> k = Some (Inr ([72, 73], fw', k'))"
    using k
    by (subst print_until_eof.simps, simp add: relay_fd_read kReadBufferSize_def Let_def)
       (subst print_until_eof.simps, simp add: relay_fd_read relay_read_def register_read_def Let_def kReadBufferSize_def,
        subst print_until_eof.simps, simp)
  with s show ?thesis by (auto simp: get_URL_def)
qed

text \<open>What the program prints, when it ends, and when it does.\<close>

lemma get_URL_moves:
  assumes "reads_logged K G" and "writes_logged K G" and "calls_logged K S G" and "opens_logged S G"
    and "get_URL K S L host path k = Some (Inr (cout, k'))"
  shows "\<exists>fd n. 0 < n \<and> bl_in G k' = (bl_in G k)(fd := bl_in G k fd @ cout) \<and>
           bl_out G k' = (bl_out G k)(fd := bl_out G k fd @ take n (string_bytes (http_request host path)))"
proof -
  obtain socket k1 where s: "send_request K S L host path k = Inr (socket, k1)"
    and p: "map_option (\<lambda>r. bind_result r (\<lambda>(cout, socket, k). Inr (cout, fd_destroy K socket k)))
            (print_until_eof K [] [] socket k1) = Some (Inr (cout, k'))"
    using assms(5) by (auto simp: get_URL_def split: sum.splits)
  let ?request = "string_bytes (http_request host path)"
  obtain a fw ka kb n where w: "new_tcp_socket K S k = Inr (fw, ka)" "socket_connect K S a fw ka = Inr kb"
    "fd_write K ?request fw kb = Inr (n, socket, k1)"
    using s by (auto simp: send_request_def)
  have kb: "same_log G k kb"
    using new_tcp_socket_logged [OF assms(3,4) w(1)] socket_connect_logged [OF assms(4) w(2)]
    by (rule same_log_trans)
  have "?request \<noteq> []" by (simp add: string_bytes_def http_request_def)
  then have n: "0 < n" by (rule fd_write_some [OF w(3)])
  obtain r where r: "print_until_eof K [] [] socket k1 = Some r"
    "bind_result r (\<lambda>(cout, socket, k). Inr (cout, fd_destroy K socket k)) = Inr (cout, k')"
    using p by auto
  then obtain fw' k2 where e: "print_until_eof K [] [] socket k1 = Some (Inr (cout, fw', k2))"
    and k': "k' = fd_destroy K fw' k2"
    by (cases r) auto
  have "bl_in G k2 = (bl_in G k1)(fw_fd socket := bl_in G k1 (fw_fd socket) @ cout)" "bl_out G k2 = bl_out G k1"
    using print_until_eof_moves [OF e, of G] assms(1) by auto
  with fd_write_moves [OF assms(2) w(3)] kb fd_destroy_logged [OF assms(3), of k2 fw'] n
  show ?thesis unfolding k' by (intro exI [of _ "fw_fd fw"] exI [of _ n]) (simp add: same_log_def)
qed

lemma get_URL_ends:
  assumes "reads_logged K G" and "answers_end K"
  shows "get_URL K S L host path k \<noteq> None"
  using print_until_eof_ends [OF assms] by (auto simp: get_URL_def split: sum.splits)

lemma relay_answers_end: "answers_end relay_kernel"
  unfolding answers_end_def
  by (rule exI [of _ "\<lambda>fd d. length (rd_pending d fd)"]) (auto simp: relay_kernel_def relay_read_def ok_ret_def Let_def)

subsection \<open>Properties\<close>

text \<open>
  C15: When the answer ends so does the program.  Unless it reports an error, what it prints is
  exactly what was ever read from its socket, in order, up to the end of the stream; on the
  socket it writes a non-empty prefix of the request, and nothing anywhere else.  (It does not
  look at how much of the request was taken.)
\<close>

theorem webget_prints_answer:
  assumes "reads_logged K G" and "writes_logged K G" and "calls_logged K S G" and "opens_logged S G"
    and "answers_end K"
  shows "\<exists>r. get_URL K S L host path k = Some r \<and>
     (\<forall>cout k'. r = Inr (cout, k') \<longrightarrow>
       (\<exists>fd n. 0 < n \<and> bl_in G k' = (bl_in G k)(fd := bl_in G k fd @ cout) \<and>
          bl_out G k' = (bl_out G k)(fd := bl_out G k fd @ take n (string_bytes (http_request host path)))))"
proof -
  obtain r where r: "get_URL K S L host path k = Some r"
    using get_URL_ends [OF assms(1,5), of S L host path k] by blast
  with get_URL_moves [OF assms(1-4), of L host path k] show ?thesis by blast
qed

text \<open>
  Witness: a server that answers with two bytes.
\<close>

theorem webget_prints_answer_witness:
  "\<exists>k' fd (n :: nat). get_URL relay_kernel relay_sockets numeric_lib ''1'' ''/'' answering = Some (Inr ([72, 73], k')) \<and>
     0 < n \<and> bl_in relay_log k' = (bl_in relay_log answering)(fd := bl_in relay_log answering fd @ [72, 73])"
proof -
  obtain k' where g: "get_URL relay_kernel relay_sockets numeric_lib ''1'' ''/'' answering = Some (Inr ([72, 73], k'))"
    using get_URL_answering by blast
  have o: "opens_logged relay_sockets relay_log"
    by (simp add: opens_logged_def relay_sockets_def same_log_def)
  from webget_prints_answer [OF relay_device_logged(1,3,4) o relay_answers_end, of numeric_lib "''1''" "''/''" answering]
  have "\<exists>fd n. 0 < n \<and> bl_in relay_log k' = (bl_in relay_log answering)(fd := bl_in relay_log answering fd @ [72, 73]) \<and>
      bl_out relay_log k' = (bl_out relay_log answering)(fd := bl_out relay_log answering fd @
        take n (string_bytes (http_request ''1'' ''/'')))"
    unfolding g by simp
  then obtain fd and n :: nat where "0 < n"
    "bl_in relay_log k' = (bl_in relay_log answering)(fd := bl_in relay_log answering fd @ [72, 73])" by auto
  with g show ?thesis by (intro exI [of _ k'] exI [of _ fd] exI [of _ n]) simp
qed

end
