(* ===== verification/Iptest.thy ===== *)
theory Iptest
  imports Adapters Tcp_Minnow_Socket Webget
begin

text \<open>
  The program \<open>apps/iptest.cc\<close>: it writes one datagram, with a fixed segment inside, to a TUN
  device.
\<close>

subsection \<open>The program\<close>

definition iptest_segment :: tcp_segment where
  "iptest_segment =
     \<lparr>tg_sender = \<lparr>sm_seqno = Wrap32 12345, sm_SYN = True, sm_payload = map of_char ''Hello'', sm_FIN = True\<rparr>,
      tg_receiver = \<lparr>rm_ackno = None, rm_window_size = 9987\<rparr>, tg_reset = False,
      tg_udinfo = \<lparr>ud_src_port = 54321, ud_dst_port = 8080, ud_cksum = 0\<rparr>\<rparr>"

text \<open>
  The segment is serialized first; its checksum is computed afterwards, into a segment that is
  not used again.
\<close>

definition iptest_datagram :: "(tcp_segment \<times> ipv4_datagram) result" where
  "iptest_datagram =
     (let seg = iptest_segment;
          h = default_ipv4_header\<lparr>ip_src := push_bit 24 127 OR 1,
                ip_dst := push_bit 24 198 OR push_bit 16 41 OR 4, ip_len := 45\<rparr>
      in bind_result (ipv4_compute_checksum h) (\<lambda>h.
         let payload = serialize_segment seg;
             seg = tcp_compute_checksum (ipv4_pseudo_checksum h) seg
         in Inr (seg, \<lparr>dg_header = h, dg_payload = payload\<rparr>)))"

definition iptest_program_body :: "'k kernel \<Rightarrow> string \<Rightarrow> 'k \<Rightarrow> 'k result" where
  "iptest_program_body K dev k =
     bind_result (open_tuntap K dev True k) (\<lambda>(tun, k).
     bind_result iptest_datagram (\<lambda>(seg, dgram).
     bind_result (serialize_datagram dgram) (\<lambda>bufs.
     bind_result (fd_writev K bufs tun k) (\<lambda>(n, tun, k).
     Inr (fd_destroy K tun k)))))"

definition iptest_main :: "'k kernel \<Rightarrow> string list \<Rightarrow> 'k \<Rightarrow> (exit_status \<times> 'k option) result option" where
  "iptest_main K args k =
     (if args = [] then Some (Inr (Aborted, None))
      else if length args \<noteq> 2 then Some (Inr (EXIT_FAILURE, Some k))
      else catch_exceptions
             (Some (bind_result (iptest_program_body K (args ! 1) k) (\<lambda>k. Inr (EXIT_SUCCESS, k)))))"

subsection \<open>What is sent\<close>

definition parses_as_segment :: "ipv4_header \<Rightarrow> bytes list \<Rightarrow> bool result" where
  "parses_as_segment h payload =
     bind_result (parse_object (tcp_segment_parse (ipv4_pseudo_checksum h) empty_tcp_segment) payload) (\<lambda>(g, valid).
     Inr valid)"

lemma iptest_sends:
  obtains seg h where "iptest_datagram = Inr (seg, \<lparr>dg_header = h, dg_payload = serialize_segment iptest_segment\<rparr>)"
    and "ipv4_plain h" and "ipv4_compute_checksum h = Inr h"
    and "checksum_value (checksum_add (concat (serialize_segment iptest_segment))
           (new_checksum (ipv4_pseudo_checksum h))) \<noteq> 0"
    and "parses_as_segment h (serialize_segment seg) = Inr True"
proof -
  have "case iptest_datagram of Inl e \<Rightarrow> False | Inr (seg, d) \<Rightarrow>
     dg_payload d = serialize_segment iptest_segment \<and> ip_ver (dg_header d) = 4 \<and> ip_hlen (dg_header d) = 5 \<and>
     ip_offset (dg_header d) < 0x2000 \<and>
     (case ipv4_compute_checksum (dg_header d) of Inl e \<Rightarrow> False | Inr h \<Rightarrow> ip_cksum h = ip_cksum (dg_header d)) \<and>
     checksum_value (checksum_add (concat (serialize_segment iptest_segment))
       (new_checksum (ipv4_pseudo_checksum (dg_header d)))) \<noteq> 0 \<and>
     parses_as_segment (dg_header d) (serialize_segment seg) = Inr True"
    by code_simp
  moreover from this obtain seg d where id: "iptest_datagram = Inr (seg, d)" by (auto split: sum.splits)
  ultimately have d: "dg_payload d = serialize_segment iptest_segment"
    "ipv4_plain (dg_header d)"
    "checksum_value (checksum_add (concat (serialize_segment iptest_segment))
       (new_checksum (ipv4_pseudo_checksum (dg_header d)))) \<noteq> 0"
    "parses_as_segment (dg_header d) (serialize_segment seg) = Inr True"
    and c: "case ipv4_compute_checksum (dg_header d) of Inl e \<Rightarrow> False | Inr h \<Rightarrow> ip_cksum h = ip_cksum (dg_header d)"
    unfolding id sum.case prod.case ipv4_plain_def by blast+
  have "ipv4_compute_checksum (dg_header d) = Inr (dg_header d)"
    using c d(2) by (simp add: ipv4_compute_checksum_ok ipv4_plain_def)
  moreover have "d = \<lparr>dg_header = dg_header d, dg_payload = serialize_segment iptest_segment\<rparr>"
    by (cases d) (use d(1) in simp)
  ultimately show thesis using that [of seg "dg_header d"] id d(2-4) by simp
qed

text \<open>An adapter that reads the bytes of such a datagram, however they are cut, ignores them.\<close>

lemma tun_read_bad_checksum:
  assumes K: "reads_ok K"
    and r: "k_readv K (fw_fd (tu_tun tu)) [IPV4_LENGTH, kReadBufferSize] k = (k', r, ipv4_bytes h @ rest)"
      "sr_value r \<ge> 0"
    and h: "ipv4_plain h" "ipv4_compute_checksum h = Inr h" and long: "20 \<le> length rest"
    and bad: "checksum_value (checksum_add rest (new_checksum (ipv4_pseudo_checksum h))) \<noteq> 0"
    and ends: "ipv4_numeric (fc_source (fa_cfg (tu_base tu))) = Inr a"
      "ipv4_numeric (fc_destination (fa_cfg (tu_base tu))) = Inr b"
  shows "tun_read K L tu k = Inr (tu\<lparr>tu_tun := register_read (tu_tun tu)\<rparr>, k', None)"
proof -
  have "unwrap_tcp_in_ip L \<lparr>dg_header = h, dg_payload = bufs\<rparr> (tu_base tu) = Inr (tu_base tu, None)"
    if "concat bufs = rest" "readable 20 bufs" for bufs
    using parse_bad_checksum [of bufs "ipv4_pseudo_checksum h" 20 empty_tcp_segment] that bad ends
    by (auto simp: unwrap_tcp_in_ip_def foreign_def Let_def)
  from tun_read_datagram [OF K r h long, of L "tu_base tu" None] this show ?thesis by (cases tu) auto
qed

subsection \<open>Properties\<close>

text \<open>
  C34: The program writes one datagram to its device.  No adapter that is given the bytes of
  it in one read gets a segment out of it, whatever its addresses and whether or not it
  listens: the read succeeds and ignores the datagram, because its segment was serialized
  before the checksum was computed.  Serialized afterwards, the same segment parses.
\<close>

theorem iptest_segment_rejected:
  "\<exists>seg d bufs. iptest_datagram = Inr (seg, d) \<and> parses_as_segment (dg_header d) (serialize_segment seg) = Inr True \<and>
     length (concat bufs) = 45 \<and>
     (\<forall>(K :: 'k kernel) dev k. iptest_program_body K dev k =
        bind_result (open_tuntap K dev True k) (\<lambda>(tun, k).
        bind_result (fd_writev K bufs tun k) (\<lambda>(n, tun, k). Inr (fd_destroy K tun k)))) \<and>
     (\<forall>(K :: 'l kernel) L tu k k' r a b.
        reads_ok K \<and> sr_value r \<ge> 0 \<and>
        k_readv K (fw_fd (tu_tun tu)) [IPV4_LENGTH, kReadBufferSize] k = (k', r, concat bufs) \<and>
        ipv4_numeric (fc_source (fa_cfg (tu_base tu))) = Inr a \<and>
        ipv4_numeric (fc_destination (fa_cfg (tu_base tu))) = Inr b \<longrightarrow>
        tun_read K L tu k = Inr (tu\<lparr>tu_tun := register_read (tu_tun tu)\<rparr>, k', None))"
proof -
  let ?seg = "concat (serialize_segment iptest_segment)"
  obtain seg h where d: "iptest_datagram = Inr (seg, \<lparr>dg_header = h, dg_payload = serialize_segment iptest_segment\<rparr>)"
    "ipv4_plain h" "ipv4_compute_checksum h = Inr h"
    "checksum_value (checksum_add ?seg (new_checksum (ipv4_pseudo_checksum h))) \<noteq> 0"
    "parses_as_segment h (serialize_segment seg) = Inr True"
    by (rule iptest_sends)
  let ?d = "\<lparr>dg_header = h, dg_payload = serialize_segment iptest_segment\<rparr>"
  have "ip_ver (dg_header ?d) = 4" using d(2) by (simp add: ipv4_plain_def)
  then obtain rest where s: "serialize_datagram ?d = Inr (ipv4_bytes (dg_header ?d) # rest)"
    and rest: "concat rest = concat (dg_payload ?d)"
    by (rule serialize_datagram_ok)
  let ?bufs = "ipv4_bytes (dg_header ?d) # rest"
  have len: "length ?seg = 25" by (simp add: serialize_segment_buffers iptest_segment_def)
  have bytes: "concat ?bufs = ipv4_bytes h @ ?seg" using rest by simp
  have "iptest_program_body K dev k = bind_result (open_tuntap K dev True k) (\<lambda>(tun, k).
        bind_result (fd_writev K ?bufs tun k) (\<lambda>(n, tun, k). Inr (fd_destroy K tun k)))"
    for K :: "'k kernel" and dev k by (simp add: iptest_program_body_def d(1) s)
  moreover have "tun_read K L tu k = Inr (tu\<lparr>tu_tun := register_read (tu_tun tu)\<rparr>, k', None)"
    if "reads_ok K" "sr_value r \<ge> 0" "ipv4_numeric (fc_source (fa_cfg (tu_base tu))) = Inr a"
      "ipv4_numeric (fc_destination (fa_cfg (tu_base tu))) = Inr b"
      "k_readv K (fw_fd (tu_tun tu)) [IPV4_LENGTH, kReadBufferSize] k = (k', r, concat ?bufs)"
    for K :: "'l kernel" and L tu k k' r a b
    by (rule tun_read_bad_checksum [OF that(1) that(5) [unfolded bytes] that(2) d(2,3) _ d(4) that(3,4)])
       (simp add: len)
  moreover have "length (concat ?bufs) = 45" unfolding bytes using len by simp
  moreover have "parses_as_segment (dg_header ?d) (serialize_segment seg) = Inr True" using d(5) by simp
  ultimately show ?thesis using d(1)
    by (intro exI [of _ seg] exI [of _ ?d] exI [of _ ?bufs] conjI allI impI) blast+
qed

text \<open>
  Witness: an adapter at the addressed end, that expects the ports of the segment, reads the
  bytes from a queue.
\<close>

theorem iptest_segment_rejected_witness:
  "\<exists>bufs k tu. length (concat bufs) = 45 \<and>
     iptest_program_body queue_kernel ''tun'' [] =
       bind_result (open_tuntap queue_kernel ''tun'' True []) (\<lambda>(tun, k).
       bind_result (fd_writev queue_kernel bufs tun k) (\<lambda>(n, tun, k). Inr (fd_destroy queue_kernel tun k))) \<and>
     tun_read queue_kernel numeric_lib
       (queue_tun False (inet_address 0xC6290004 8080) (inet_address 0x7F000001 54321)) (concat bufs) = Inr (tu, k, None)"
proof -
  let ?tu = "queue_tun False (inet_address 0xC6290004 8080) (inet_address 0x7F000001 54321)"
  obtain bufs where len: "length (concat bufs) = 45"
    and p: "\<forall>(K :: bytes kernel) dev k. iptest_program_body K dev k =
        bind_result (open_tuntap K dev True k) (\<lambda>(tun, k).
        bind_result (fd_writev K bufs tun k) (\<lambda>(n, tun, k). Inr (fd_destroy K tun k)))"
    and t: "\<forall>(K :: bytes kernel) L tu k k' r a b.
        reads_ok K \<and> sr_value r \<ge> 0 \<and>
        k_readv K (fw_fd (tu_tun tu)) [IPV4_LENGTH, kReadBufferSize] k = (k', r, concat bufs) \<and>
        ipv4_numeric (fc_source (fa_cfg (tu_base tu))) = Inr a \<and>
        ipv4_numeric (fc_destination (fa_cfg (tu_base tu))) = Inr b \<longrightarrow>
        tun_read K L tu k = Inr (tu\<lparr>tu_tun := register_read (tu_tun tu)\<rparr>, k', None)"
    using iptest_segment_rejected [where 'k = bytes and 'l = bytes] by (elim exE conjE) (rule that)
  have "concat bufs \<noteq> []" using len by (metis list.size(3) zero_neq_numeral)
  then have "k_readv queue_kernel (fw_fd (tu_tun ?tu)) [IPV4_LENGTH, kReadBufferSize] (concat bufs) =
      ([], \<lparr>sr_value = 45, sr_errno = 0\<rparr>, concat bufs)"
    using len by (simp only: queue_kernel_def kernel.simps take_pending_def)
      (simp add: IPV4_LENGTH_def kReadBufferSize_def)
  moreover have "ipv4_numeric (fc_source (fa_cfg (tu_base ?tu))) = Inr 0xC6290004"
    "ipv4_numeric (fc_destination (fa_cfg (tu_base ?tu))) = Inr 0x7F000001"
    by (simp_all add: queue_tun_def end_at_def)
  ultimately have "tun_read queue_kernel numeric_lib ?tu (concat bufs) =
      Inr (?tu\<lparr>tu_tun := register_read (tu_tun ?tu)\<rparr>, [], None)"
    by (intro t [rule_format, where r = "\<lparr>sr_value = 45, sr_errno = 0\<rparr>"] conjI queue_kernel_ok) simp_all
  with len p show ?thesis by blast
qed

end
