(* ===== verification/Lossy_Socket.thy ===== *)
theory Lossy_Socket
  imports Socket_Ends
begin

text \<open>
  The socket over an adapter that loses segments at random
  (\<open>TCPMinnowSocket<LossyTCPOverIPv4OverTunFdAdapter>\<close> of \<open>util/tcp_minnow_socket.cc\<close>).
\<close>

subsection \<open>The lossy adapter as an adapter\<close>

text \<open>
  \<open>LossyFdAdapter\<close> wraps an adapter together with the system it works on; its configuration
  and its descriptor are those of the adapter inside.
\<close>

definition lossy_inside ::
  "(('r, 'a \<times> 'k) lossy_adapter \<Rightarrow> (('r, 'a \<times> 'k) lossy_adapter \<times> 'x) result) \<Rightarrow>
   ('r, 'a) lossy_adapter \<Rightarrow> 'k \<Rightarrow> (('r, 'a) lossy_adapter \<times> 'k \<times> 'x) result" where
  "lossy_inside f lo k =
     bind_result (f \<lparr>lo_rand = lo_rand lo, lo_adapter = (lo_adapter lo, k)\<rparr>) (\<lambda>(lo, x).
     Inr (\<lparr>lo_rand = lo_rand lo, lo_adapter = fst (lo_adapter lo)\<rparr>, snd (lo_adapter lo), x))"

definition lossy_ops ::
  "('r \<Rightarrow> nat \<times> 'r) \<Rightarrow> ('a, 'k) adapter_ops \<Rightarrow> (('r, 'a) lossy_adapter, 'k) adapter_ops" where
  "lossy_ops rnd ops =
     (let config = (\<lambda>(a, k). fa_cfg (ao_base ops a))
      in \<lparr>ao_read = lossy_inside (lossy_read rnd config
                     (\<lambda>(a, k). bind_result (ao_read ops a k) (\<lambda>(a, k, seg). Inr ((a, k), seg)))),
          ao_write = (\<lambda>seg lo k. bind_result (lossy_inside (\<lambda>lo. bind_result
                       (lossy_write rnd config
                         (\<lambda>seg (a, k). bind_result (ao_write ops seg a k) (\<lambda>(seg, a, k). Inr (seg, a, k))) seg lo)
                       (\<lambda>(seg, lo). Inr (lo, seg))) lo k) (\<lambda>(lo, k, seg). Inr (seg, lo, k))),
          ao_tick = (\<lambda>ms lo k. bind_result (lossy_inside (\<lambda>lo. bind_result
                       (lossy_tick (\<lambda>(a, k). ao_tick ops ms a k) lo) (\<lambda>lo. Inr (lo, ()))) lo k) (\<lambda>(lo, k, _). Inr (lo, k))),
          ao_base = (\<lambda>lo. ao_base ops (lo_adapter lo)),
          ao_set_base = (\<lambda>fa lo. lo\<lparr>lo_adapter := ao_set_base ops fa (lo_adapter lo)\<rparr>),
          ao_fd = (\<lambda>lo. ao_fd ops (lo_adapter lo))\<rparr>)"

text \<open>It ends when the adapter inside does.\<close>

lemma lossy_ops_end:
  assumes "adapter_ends ops"
  shows "adapter_ends (lossy_ops rnd ops)"
proof -
  have "ends (ao_read ops a k)" "ends (ao_write ops seg a k)" for a k seg
    using assms by (simp_all add: adapter_ends_def)
  then show ?thesis
    unfolding adapter_ends_def lossy_ops_def lossy_inside_def lossy_read_def lossy_write_def Let_def
    by (auto simp del: ends_bind intro!: ends_bindI split: prod.split)
qed

subsection \<open>Losing segments keeps the adapter apart\<close>

lemma should_drop_adapter: "lo_adapter (snd (should_drop rnd up cfg lo)) = lo_adapter lo"
  by (simp add: should_drop_def Let_def split: prod.split)

lemma lossy_read_is:
  assumes "ao_read (lossy_ops rnd ops) lo k = Inr (lo', k', seg)"
  shows "\<exists>seg'. ao_read ops (lo_adapter lo) k = Inr (lo_adapter lo', k', seg') \<and> (seg = None \<or> seg = seg')"
proof -
  let ?lo = "\<lambda>r a k. \<lparr>lo_rand = r, lo_adapter = (a, k)\<rparr>"
  obtain a k1 seg' where r: "ao_read ops (lo_adapter lo) k = Inr (a, k1, seg')"
    using assms by (auto simp: lossy_ops_def lossy_inside_def lossy_read_def Let_def)
  obtain b lo1 where d: "should_drop rnd False (fa_cfg (ao_base ops a)) (?lo (lo_rand lo) a k1) = (b, lo1)"
    by (cases "should_drop rnd False (fa_cfg (ao_base ops a)) (?lo (lo_rand lo) a k1)")
  have "lo_adapter lo1 = (a, k1)"
    using should_drop_adapter [of rnd False "fa_cfg (ao_base ops a)" "?lo (lo_rand lo) a k1"] d by simp
  with assms r d show ?thesis by (auto simp: lossy_ops_def lossy_inside_def lossy_read_def Let_def)
qed

lemma lossy_write_is:
  assumes "ao_write (lossy_ops rnd ops) g lo k = Inr (g', lo', k')"
  shows "lo_adapter lo' = lo_adapter lo \<and> k' = k \<or> ao_write ops g (lo_adapter lo) k = Inr (g', lo_adapter lo', k')"
proof -
  let ?lo = "\<lparr>lo_rand = lo_rand lo, lo_adapter = (lo_adapter lo, k)\<rparr>"
  obtain b lo1 where d: "should_drop rnd True (fa_cfg (ao_base ops (lo_adapter lo))) ?lo = (b, lo1)"
    by (cases "should_drop rnd True (fa_cfg (ao_base ops (lo_adapter lo))) ?lo")
  have "lo_adapter lo1 = (lo_adapter lo, k)"
    using should_drop_adapter [of rnd True "fa_cfg (ao_base ops (lo_adapter lo))" ?lo] d by simp
  with assms d show ?thesis by (cases b) (auto simp: lossy_ops_def lossy_inside_def lossy_write_def Let_def)
qed

lemma lossy_tick_is:
  "ao_tick (lossy_ops rnd ops) ms lo k = Inr (lo', k') \<Longrightarrow>
   ao_tick ops ms (lo_adapter lo) k = Inr (lo_adapter lo', k')"
  by (auto simp: lossy_ops_def lossy_inside_def lossy_tick_def Let_def)

lemma lossy_adapter_apart:
  assumes "adapter_apart ops G s Q mine"
  shows "adapter_apart (lossy_ops rnd ops) G s Q (\<lambda>lo. mine (lo_adapter lo))"
proof (rule adapter_apartI, goal_cases)
  case (1 lo k lo' k' seg)
  from lossy_read_is [OF 1(2)] obtain seg' where
    r: "ao_read ops (lo_adapter lo) k = Inr (lo_adapter lo', k', seg')" "seg = None \<or> seg = seg'" by blast
  from adapter_apartD(1) [OF assms r(1) 1(1)] r(2) show ?case by auto
next
  case (2 g lo k g' lo' k')
  from lossy_write_is [OF 2(2)] show ?case
  proof
    assume "ao_write ops g (lo_adapter lo) k = Inr (g', lo_adapter lo', k')"
    from adapter_apartD(2) [OF assms this 2(1)] show ?thesis .
  qed (use 2(1) in simp)
next
  case (3 fa lo)
  from adapter_apartD(3) [OF assms 3] show ?case by (simp add: lossy_ops_def Let_def)
next
  case (4 ms lo k lo' k')
  from adapter_apartD(4) [OF assms lossy_tick_is [OF 4(2)] 4(1)] show ?case .
qed

end
