(* ===== verification/Tcp_Programs.thy ===== *)
theory Tcp_Programs
  imports Webget Lossy_Socket Stream_Copy
begin

text \<open>
  The programs \<open>apps/tcp_native.cc\<close>, over the sockets of the operating system, and
  \<open>apps/tcp_ipv4.cc\<close>, over the library's own TCP; of the latter the command line, the making
  of the socket and the connection, after which it runs as two threads.
\<close>

subsection \<open>Comparing arguments\<close>

definition strncmp_equal :: "string \<Rightarrow> string \<Rightarrow> nat \<Rightarrow> bool" where
  "strncmp_equal a b n \<longleftrightarrow> take n (a @ [char_of (0 :: nat)]) = take n (b @ [char_of (0 :: nat)])"

subsection \<open>tcp_native\<close>

definition server_socket ::
  "'k kernel \<Rightarrow> 'k socket_api \<Rightarrow> net_lib \<Rightarrow> string \<Rightarrow> string \<Rightarrow> 'k \<Rightarrow> (fd_wrapper \<times> 'k) result" where
  "server_socket K S L host service k =
     bind_result (new_tcp_socket K S k) (\<lambda>(listening_socket, k).
     bind_result (set_reuseaddr K S listening_socket k) (\<lambda>k.
     bind_result (address_of_host (nl_gai L) (nl_gai_message L) host service) (\<lambda>a.
     bind_result (socket_bind K S a listening_socket k) (\<lambda>k.
     bind_result (tcp_listen K S 16 listening_socket k) (\<lambda>k.
     bind_result (tcp_accept K S listening_socket k) (\<lambda>(conn, listening_socket, k).
     Inr (conn, fd_destroy K listening_socket k)))))))"

definition client_socket ::
  "'k kernel \<Rightarrow> 'k socket_api \<Rightarrow> net_lib \<Rightarrow> string \<Rightarrow> string \<Rightarrow> 'k \<Rightarrow> (fd_wrapper \<times> 'k) result" where
  "client_socket K S L host service k =
     bind_result (new_tcp_socket K S k) (\<lambda>(connecting_socket, k).
     bind_result (address_of_host (nl_gai L) (nl_gai_message L) host service) (\<lambda>a.
     bind_result (socket_connect K S a connecting_socket k) (\<lambda>k.
     Inr (connecting_socket, k))))"

text \<open>\<open>capacity\<close> is what the event loop of the copy reserves.\<close>

definition tcp_native_main ::
  "'k kernel \<Rightarrow> 'k socket_api \<Rightarrow> net_lib \<Rightarrow> 'k copier poll_api \<Rightarrow> nat \<Rightarrow> string list \<Rightarrow> 'k \<Rightarrow>
   (exit_status \<times> 'k copier shared option) result option" where
  "tcp_native_main K S L A capacity args k =
     (if args = [] then Some (Inr (Aborted, None))
      else if length args < 3 then Some (Inr (EXIT_FAILURE, None))
      else
        let server_mode = strncmp_equal ''-l'' (args ! 1) 3
        in if server_mode \<and> length args < 4 then Some (Inr (EXIT_FAILURE, None))
           else catch_exceptions
                  (case (if server_mode then server_socket K S L (args ! 2) (args ! 3) k
                         else client_socket K S L (args ! 1) (args ! 2) k) of
                     Inl e \<Rightarrow> Some (Inl e)
                   | Inr (socket, k) \<Rightarrow>
                       map_option (\<lambda>r. bind_result r (\<lambda>sh. Inr (EXIT_SUCCESS, sh)))
                         (bidirectional_stream_copy K S A capacity socket k)))"

subsection \<open>Numbers\<close>

text \<open>\<open>strtol\<close> with base 0, for a \<open>long\<close> of 64 bits.\<close>

definition is_space :: "char \<Rightarrow> bool" where
  "is_space c \<longleftrightarrow> (of_char c :: nat) = 32 \<or> 9 \<le> (of_char c :: nat) \<and> (of_char c :: nat) \<le> 13"

definition digit_value :: "char \<Rightarrow> nat" where
  "digit_value c =
     (let n = (of_char c :: nat)
      in if 48 \<le> n \<and> n \<le> 57 then n - 48
         else if 97 \<le> n \<and> n \<le> 122 then n - 87
         else if 65 \<le> n \<and> n \<le> 90 then n - 55 else 255)"

definition digits_value :: "nat \<Rightarrow> string \<Rightarrow> nat" where
  "digits_value base s =
     foldl (\<lambda>n c. base * n + digit_value c) 0 (takeWhile (\<lambda>c. digit_value c < base) s)"

definition magnitude :: "string \<Rightarrow> nat" where
  "magnitude s =
     (if s \<noteq> [] \<and> hd s = CHR ''0'' then
        if length s \<ge> 3 \<and> s ! 1 \<in> {CHR ''x'', CHR ''X''} \<and> digit_value (s ! 2) < 16
        then digits_value 16 (drop 2 s) else digits_value 8 s
      else digits_value 10 s)"

definition strtol :: "string \<Rightarrow> int" where
  "strtol s =
     (let s = dropWhile is_space s;
          negative = (s \<noteq> [] \<and> hd s = CHR ''-'');
          s = (if s \<noteq> [] \<and> hd s \<in> {CHR ''-'', CHR ''+''} then tl s else s);
          n = int (magnitude s)
      in if negative then max (- n) (- (2 ^ 63)) else min n (2 ^ 63 - 1))"

subsection \<open>The options of tcp_ipv4\<close>

definition TUN_DFLT :: string where "TUN_DFLT = ''tun144''"
definition LOCAL_ADDRESS_DFLT :: string where "LOCAL_ADDRESS_DFLT = ''169.254.144.9''"

record ipv4_options =
  op_fsm :: tcp_config
  op_filt :: fd_adapter_config
  op_tundev :: "string option"
  op_listen :: bool
  op_source_address :: string
  op_source_port :: string

text \<open>
  The product of the loss rate with 65535, and its conversion to an integer, is the parameter
  \<open>lossrate\<close>: it is undefined for some numbers.
\<close>

definition check_argc :: "string list \<Rightarrow> nat \<Rightarrow> bool" where
  "check_argc args current \<longleftrightarrow> current + 3 < length args"

text \<open>The bodies of the branches that take one argument; \<open>None\<close> is no option.\<close>

definition set_option ::
  "(string \<Rightarrow> u16 result) \<Rightarrow> string \<Rightarrow> string \<Rightarrow> ipv4_options \<Rightarrow> ipv4_options result option" where
  "set_option lossrate option value st =
     (if strncmp_equal ''-a'' option 3 then Some (Inr (st\<lparr>op_source_address := value\<rparr>))
      else if strncmp_equal ''-s'' option 3 then Some (Inr (st\<lparr>op_source_port := value\<rparr>))
      else if strncmp_equal ''-w'' option 3
      then Some (Inr (st\<lparr>op_fsm := (op_fsm st)\<lparr>cfg_recv_capacity := word_of_int (strtol value)\<rparr>\<rparr>))
      else if strncmp_equal ''-t'' option 3
      then Some (Inr (st\<lparr>op_fsm := (op_fsm st)\<lparr>cfg_rt_timeout := word_of_int (strtol value)\<rparr>\<rparr>))
      else if strncmp_equal ''-d'' option 3 then Some (Inr (st\<lparr>op_tundev := Some value\<rparr>))
      else if strncmp_equal ''-Lu'' option 3
      then Some (bind_result (lossrate value) (\<lambda>r. Inr (st\<lparr>op_filt := (op_filt st)\<lparr>fc_loss_rate_up := r\<rparr>\<rparr>)))
      else if strncmp_equal ''-Ld'' option 3
      then Some (bind_result (lossrate value) (\<lambda>r. Inr (st\<lparr>op_filt := (op_filt st)\<lparr>fc_loss_rate_dn := r\<rparr>\<rparr>)))
      else None)"

text \<open>
  The loop, to the index of the first positional argument.  Behind the end of the arguments
  \<open>argc - curr\<close> would wrap around and \<open>args[curr]\<close> be read there.
\<close>

function parse_options ::
  "(string \<Rightarrow> u16 result) \<Rightarrow> string list \<Rightarrow> nat \<Rightarrow> ipv4_options \<Rightarrow> (nat \<times> ipv4_options) or_exit result" where
  "parse_options lossrate args current st =
     (if current > length args then Inl (Undefined ''argument out of range'')
      else if length args - current > 2 then
        if strncmp_equal ''-l'' (args ! current) 3
        then parse_options lossrate args (current + 1) (st\<lparr>op_listen := True\<rparr>)
        else case set_option lossrate (args ! current) (args ! (current + 1)) st of
               Some r \<Rightarrow>
                 if check_argc args current
                 then bind_result r (parse_options lossrate args (current + 2))
                 else Inr (Inl EXIT_FAILURE)
             | None \<Rightarrow>
                 Inr (Inl (if strncmp_equal ''-h'' (args ! current) 3 then EXIT_SUCCESS else EXIT_FAILURE))
      else Inr (Inr (current, st)))"
  by pat_completeness auto
termination by (relation "measure (\<lambda>(lossrate, args, current, st). length args - current)") auto

declare parse_options.simps [simp del]

text \<open>The two arguments behind the options.\<close>

definition positional_arguments ::
  "net_lib \<Rightarrow> string list \<Rightarrow> nat \<Rightarrow> ipv4_options \<Rightarrow>
   (tcp_config \<times> fd_adapter_config \<times> bool \<times> string option) or_exit result" where
  "positional_arguments L args current st =
     (if current + 1 \<ge> length args then Inl (Undefined ''argument out of range'')
      else if op_listen st then
        bind_result (address_of_host (nl_gai L) (nl_gai_message L) ''0'' (args ! (current + 1))) (\<lambda>source.
        bind_result (lib_port L source) (\<lambda>port.
        if port = 0 then Inr (Inl EXIT_FAILURE)
        else Inr (Inr (op_fsm st, (op_filt st)\<lparr>fc_source := source\<rparr>, True, op_tundev st))))
      else
        bind_result (address_of_host (nl_gai L) (nl_gai_message L) (args ! current) (args ! (current + 1))) (\<lambda>destination.
        bind_result (address_of_host (nl_gai L) (nl_gai_message L) (op_source_address st) (op_source_port st)) (\<lambda>source.
        Inr (Inr (op_fsm st, (op_filt st)\<lparr>fc_destination := destination, fc_source := source\<rparr>, False,
                  op_tundev st)))))"

definition get_config ::
  "net_lib \<Rightarrow> (string \<Rightarrow> u16 result) \<Rightarrow> u32 \<Rightarrow> string list \<Rightarrow>
   (tcp_config \<times> fd_adapter_config \<times> bool \<times> string option) or_exit result" where
  "get_config L lossrate random args =
     bind_result (default_fd_adapter_config L) (\<lambda>c_filt.
     bind_result
       (parse_options lossrate args 1
          \<lparr>op_fsm = default_tcp_config, op_filt = c_filt, op_tundev = None, op_listen = False,
           op_source_address = LOCAL_ADDRESS_DFLT,
           op_source_port = decimal (unat (ucast random :: u16))\<rparr>) (\<lambda>r.
     case r of
       Inl status \<Rightarrow> Inr (Inl status)
     | Inr (current, st) \<Rightarrow> positional_arguments L args current st))"

subsection \<open>Starting tcp_ipv4\<close>

text \<open>
  \<open>main\<close> up to where the connection stands: the socket over the lossy TUN adapter, and its
  event loop.  \<open>seed\<close> is the state of the engine that draws the losses, \<open>port\<close> and \<open>isn\<close> what
  the random devices yield.
\<close>

definition new_lossy_socket ::
  "(('r, tun_adapter) lossy_adapter, 'k) minnow_env \<Rightarrow> 'r \<Rightarrow> string \<Rightarrow> 'k \<Rightarrow>
   (('r, tun_adapter) lossy_adapter, 'k) minnow result" where
  "new_lossy_socket E seed dev k =
     bind_result (open_tuntap (en_kernel E) dev True k) (\<lambda>(tun, k).
     bind_result (new_fd_adapter (en_lib E)) (\<lambda>fa.
     new_minnow E \<lparr>lo_rand = seed, lo_adapter = \<lparr>tu_base = fa, tu_tun = tun\<rparr>\<rparr> k))"

definition start_tcp_ipv4 ::
  "(('r, tun_adapter) lossy_adapter, 'k) minnow_env \<Rightarrow> 'r \<Rightarrow> u32 \<Rightarrow> nat \<Rightarrow>
   tcp_config \<times> fd_adapter_config \<times> bool \<times> string option \<Rightarrow> 'k \<Rightarrow>
   ((('r, tun_adapter) lossy_adapter, 'k) minnow_loop \<times> (('r, tun_adapter) lossy_adapter, 'k) minnow_shared) result option" where
  "start_tcp_ipv4 E seed isn capacity config k =
     (case config of (c_fsm, c_filt, listen, tun_dev_name) \<Rightarrow>
        case new_lossy_socket E seed (case tun_dev_name of None \<Rightarrow> TUN_DFLT | Some d \<Rightarrow> d) k of
          Inl e \<Rightarrow> Some (Inl e)
        | Inr w \<Rightarrow>
            (if listen then minnow_listen_and_accept else minnow_connect) E c_fsm c_filt isn
              (new_event_loop capacity) \<lparr>sh_world = w, sh_cancelled = {}\<rparr>)"

definition tcp_ipv4_main ::
  "(('r, tun_adapter) lossy_adapter, 'k) minnow_env \<Rightarrow> (string \<Rightarrow> u16 result) \<Rightarrow> 'r \<Rightarrow> u32 \<Rightarrow> u32 \<Rightarrow> nat \<Rightarrow>
   string list \<Rightarrow> 'k \<Rightarrow>
   ((('r, tun_adapter) lossy_adapter, 'k) minnow_loop \<times> (('r, tun_adapter) lossy_adapter, 'k) minnow_shared)
     or_exit result option" where
  "tcp_ipv4_main E lossrate seed port isn capacity args k =
     (if args = [] then Some (Inr (Inl Aborted))
      else if length args < 3 then Some (Inr (Inl EXIT_FAILURE))
      else case get_config (en_lib E) lossrate port args of
             Inl (Throws m) \<Rightarrow> Some (Inr (Inl EXIT_FAILURE))
           | Inl e \<Rightarrow> Some (Inl e)
           | Inr (Inl status) \<Rightarrow> Some (Inr (Inl status))
           | Inr (Inr config) \<Rightarrow>
               map_option (\<lambda>r. case r of Inl (Throws m) \<Rightarrow> Inr (Inl EXIT_FAILURE) | Inl e \<Rightarrow> Inl e | Inr x \<Rightarrow> Inr (Inr x))
                 (start_tcp_ipv4 E seed isn capacity config k))"

subsection \<open>Reading the arguments\<close>

lemma bind_result_error:
  "bind_result m f = Inl e \<longleftrightarrow> m = Inl e \<or> (\<exists>x. m = Inr x \<and> f x = Inl e)"
  by (cases m) auto

lemma parse_options_ends:
  assumes "current + 2 \<le> length args"
  shows "case parse_options lossrate args current st of
           Inl e \<Rightarrow> (\<exists>s. lossrate s = Inl e)
         | Inr (Inl status) \<Rightarrow> status \<in> {EXIT_SUCCESS, EXIT_FAILURE}
         | Inr (Inr (c, st')) \<Rightarrow> c + 2 = length args"
  using assms
proof (induction lossrate args current st rule: parse_options.induct)
  case (1 lossrate args current st)
  show ?case
  proof (cases "length args - current > 2")
    case False
    then show ?thesis using 1(3) by (subst parse_options.simps) auto
  next
    case more: True
    show ?thesis
    proof (cases "strncmp_equal ''-l'' (args ! current) 3")
      case True
      then show ?thesis using 1(1) 1(3) more by (subst parse_options.simps) simp
    next
      case noL: False
      show ?thesis
      proof (cases "set_option lossrate (args ! current) (args ! (current + 1)) st")
        case None
        then show ?thesis using 1(3) more noL by (subst parse_options.simps) simp
      next
        case (Some r)
        show ?thesis
        proof (cases "check_argc args current")
          case True
          show ?thesis
          proof (cases r)
            case (Inl e)
            then have "\<exists>s. lossrate s = Inl e"
              using Some by (auto simp: set_option_def bind_result_error split: if_splits)
            then show ?thesis using 1(3) more noL Some True Inl by (subst parse_options.simps) simp
          next
            case (Inr st')
            have "current + 2 + 2 \<le> length args" using True by (simp add: check_argc_def)
            then show ?thesis using 1(2) [OF _ more noL Some True, of st'] 1(3) more noL Some True Inr
              by (subst parse_options.simps) simp
          qed
        next
          case False
          then show ?thesis using 1(3) more noL Some by (subst parse_options.simps) simp
        qed
      qed
    qed
  qed
qed

lemma positional_arguments_read:
  assumes "current + 2 = length args"
  shows "case positional_arguments L args current st of
           Inl e \<Rightarrow> (\<exists>host service. address_of_host (nl_gai L) (nl_gai_message L) host service = Inl e) \<or>
             (\<exists>a. lib_port L a = Inl e)
         | Inr (Inl status) \<Rightarrow> status = EXIT_FAILURE
         | Inr (Inr (c_fsm, c_filt, listen, dev)) \<Rightarrow>
             if listen
             then address_of_host (nl_gai L) (nl_gai_message L) ''0'' (last args) = Inr (fc_source c_filt) \<and>
                  lib_port L (fc_source c_filt) \<noteq> Inr 0
             else address_of_host (nl_gai L) (nl_gai_message L) (args ! (length args - 2)) (last args) =
                    Inr (fc_destination c_filt)"
proof -
  let ?host = "address_of_host (nl_gai L) (nl_gai_message L)"
  have "length args - 1 = current + 1" "length args - 2 = current" "args \<noteq> []" using assms by auto
  then have at: "args ! Suc current = last args" "args ! current = args ! (length args - 2)" "\<not> length args \<le> Suc current"
    using assms by (simp_all add: last_conv_nth)
  show ?thesis
  proof (cases "op_listen st")
    case True
    then show ?thesis
      by (cases "?host ''0'' (last args)"; cases "lib_port L (projr (?host ''0'' (last args)))")
        (auto simp: positional_arguments_def at)
  next
    case False
    then show ?thesis
      by (cases "?host (args ! (length args - 2)) (last args)"; cases "?host (op_source_address st) (op_source_port st)")
        (auto simp: positional_arguments_def at(1,3) at(2) [symmetric])
  qed
qed

text \<open>
  C31: With the three arguments that \<open>main\<close> asks for, reading the command line never leaves the
  argument vector: it yields a configuration, an exit of the program, or an error of the
  addresses or of a loss rate.  A configuration takes its peer, or the port it listens on,
  from the last two arguments, whatever options come before them; a server never gets port 0.
  The address that a server binds is the text 0, whatever its argument \<open><host>\<close> says, although
  the usage text calls \<open><host>:<port>\<close> the address to bind.
\<close>

theorem get_config_reads_arguments:
  assumes "3 \<le> length args"
  shows "case get_config L lossrate random args of
           Inl e \<Rightarrow> (\<exists>s. lossrate s = Inl e) \<or> default_fd_adapter_config L = Inl e \<or>
             (\<exists>host service. address_of_host (nl_gai L) (nl_gai_message L) host service = Inl e) \<or>
             (\<exists>a. lib_port L a = Inl e)
         | Inr (Inl status) \<Rightarrow> status \<in> {EXIT_SUCCESS, EXIT_FAILURE}
         | Inr (Inr (c_fsm, c_filt, listen, dev)) \<Rightarrow>
             if listen
             then address_of_host (nl_gai L) (nl_gai_message L) ''0'' (last args) = Inr (fc_source c_filt) \<and>
                  lib_port L (fc_source c_filt) \<noteq> Inr 0
             else address_of_host (nl_gai L) (nl_gai_message L) (args ! (length args - 2)) (last args) =
                    Inr (fc_destination c_filt)"
proof (cases "default_fd_adapter_config L")
  case (Inl e)
  then show ?thesis by (simp add: get_config_def)
next
  case (Inr c_filt)
  define st where "st = \<lparr>op_fsm = default_tcp_config, op_filt = c_filt, op_tundev = None, op_listen = False,
       op_source_address = LOCAL_ADDRESS_DFLT, op_source_port = decimal (unat (ucast random :: u16))\<rparr>"
  have g: "get_config L lossrate random args = bind_result (parse_options lossrate args 1 st) (\<lambda>r.
      case r of Inl status \<Rightarrow> Inr (Inl status) | Inr (current, st) \<Rightarrow> positional_arguments L args current st)"
    by (simp add: get_config_def Inr st_def)
  have ends: "case parse_options lossrate args 1 st of Inl e \<Rightarrow> (\<exists>s. lossrate s = Inl e)
     | Inr (Inl status) \<Rightarrow> status \<in> {EXIT_SUCCESS, EXIT_FAILURE} | Inr (Inr (c, st')) \<Rightarrow> c + 2 = length args"
    using assms by (intro parse_options_ends) simp
  consider e where "parse_options lossrate args 1 st = Inl e" | status where "parse_options lossrate args 1 st = Inr (Inl status)"
    | c st' where "parse_options lossrate args 1 st = Inr (Inr (c, st'))"
    by (metis sum.exhaust surj_pair)
  then show ?thesis
  proof cases
    case 3
    then have "c + 2 = length args" using ends by simp
    from positional_arguments_read [OF this, of L st'] 3 show ?thesis
      unfolding g by (auto split: sum.splits prod.splits)
  qed (use ends in \<open>simp_all add: g\<close>)
qed

text \<open>
  Witness: a server with a timeout of 500 milliseconds.
\<close>

theorem get_config_reads_arguments_witness:
  "\<exists>c_fsm c_filt. get_config numeric_lib (\<lambda>s. Inr 0) 7 [''tcp_ipv4'', ''-l'', ''-t'', ''0x1f4'', ''1'', ''80''] =
       Inr (Inr (c_fsm, c_filt, True, None)) \<and> cfg_rt_timeout c_fsm = 500 \<and>
     address_of_host numeric_gai (\<lambda>e. []) ''0'' ''80'' = Inr (fc_source c_filt)"
proof -
  let ?args = "[''tcp_ipv4'', ''-l'', ''-t'', ''0x1f4'', ''1'', ''80'']"
  have "case get_config numeric_lib (\<lambda>s. Inr 0) 7 ?args of
      Inr (Inr (c_fsm, c_filt, listen, dev)) \<Rightarrow> cfg_rt_timeout c_fsm = 500 \<and> listen \<and> dev = None | _ \<Rightarrow> False"
    by code_simp
  then obtain c_fsm c_filt where g: "get_config numeric_lib (\<lambda>s. Inr 0) 7 ?args = Inr (Inr (c_fsm, c_filt, True, None))"
    and t: "cfg_rt_timeout c_fsm = 500"
    by (auto split: sum.splits prod.splits)
  have "3 \<le> length ?args" by simp
  from get_config_reads_arguments [OF this, where L = numeric_lib and lossrate = "\<lambda>s. Inr 0" and random = 7] g t show ?thesis
    by (simp add: numeric_lib_def)
qed

end
