(* ===== verification/Endtoend_Host.thy ===== *)
theory Endtoend_Host
  imports Tcp_Minnow_Socket Printing
begin

text \<open>
  The host of the program \<open>apps/endtoend.cc\<close>: frames on a descriptor, the adapter between TCP
  and a network interface whose frames go through a pair of datagram sockets, and the socket
  over that adapter.  Random bytes are parameters.
\<close>

subsection \<open>Addresses\<close>

definition random_host_ethernet_address :: "byte list \<Rightarrow> ethernet_address" where
  "random_host_ethernet_address rnd =
     (case take 6 rnd of [] \<Rightarrow> [] | b # bs \<Rightarrow> and (or b 0x02) 0xfe # bs)"

definition random_router_ethernet_address :: "byte list \<Rightarrow> ethernet_address" where
  "random_router_ethernet_address rnd = (take 6 rnd)[0 := 0x02, 1 := 0, 2 := 0]"

subsection \<open>Frames on a descriptor\<close>

definition summary :: "net_lib \<Rightarrow> ethernet_frame \<Rightarrow> string result" where
  "summary L frame =
     (let out = ethernet_header_to_string (ef_header frame) @ '', payload: ''
      in if eh_type (ef_header frame) = TYPE_IPv4 then
           bind_result (parse_object (ipv4_datagram_parse empty_ipv4_datagram) (ef_payload frame)) (\<lambda>(dgram, valid).
           Inr (out @ (if valid then ''IPv4: '' @ ipv4_to_string L (dg_header dgram) else ''bad IPv4 datagram'')))
         else if eh_type (ef_header frame) = TYPE_ARP then
           bind_result (parse_object (arp_parse empty_arp_message) (ef_payload frame)) (\<lambda>(arp, valid).
           Inr (out @ (if valid then ''ARP: '' @ arp_to_string L arp else ''bad ARP message'')))
         else Inr (out @ ''unknown frame type''))"

definition maybe_receive_frame ::
  "'k kernel \<Rightarrow> fd_wrapper \<Rightarrow> 'k \<Rightarrow> (ethernet_frame option \<times> fd_wrapper \<times> 'k) result" where
  "maybe_receive_frame K fd k =
     bind_result (fd_readv K [replicate ETHERNET_LENGTH 0, replicate IPV4_LENGTH 0, []] fd k) (\<lambda>(strs, fd, k).
     bind_result (parse_object (ethernet_frame_parse empty_ethernet_frame) strs) (\<lambda>(frame, valid).
     Inr (if valid then Some frame else None, fd, k)))"

subsection \<open>The adapter\<close>

record interface_adapter =
  ia_base :: fd_adapter
  ia_interface :: network_interface
  ia_next_hop :: address
  ia_fd :: fd_wrapper
  ia_frame_fd :: fd_wrapper

definition ia_send_pending ::
  "'k kernel \<Rightarrow> interface_adapter \<Rightarrow> 'k \<Rightarrow> (interface_adapter \<times> 'k) result option" where
  "ia_send_pending K ia k =
     map_option (\<lambda>(ni, r). bind_result r (\<lambda>(fw, k). Inr (ia\<lparr>ia_fd := fw, ia_interface := ni\<rparr>, k)))
       (drain_loop ni_maybe_send (write_frame K) (ia_interface ia) (ia_fd ia, k))"

definition new_interface_adapter ::
  "'k kernel \<Rightarrow> net_lib \<Rightarrow> byte list \<Rightarrow> (int \<Rightarrow> 'k \<Rightarrow> ((fd_wrapper \<times> fd_wrapper) \<times> 'k) result) \<Rightarrow>
   address \<Rightarrow> address \<Rightarrow> 'k \<Rightarrow> (interface_adapter \<times> 'k) result" where
  "new_interface_adapter K L rnd pair_helper ip_address next_hop k =
     bind_result (new_fd_adapter L) (\<lambda>fa.
     bind_result (pair_helper SOCK_DGRAM k) (\<lambda>((first, second), k).
     Inr (\<lparr>ia_base = fa,
           ia_interface = new_network_interface (nl_map_limit L) (random_host_ethernet_address rnd) ip_address,
           ia_next_hop = next_hop, ia_fd = first, ia_frame_fd = second\<rparr>, k)))"

text \<open>What follows the call of \<open>send_pending\<close> in each operation.\<close>

definition after_pending ::
  "'k kernel \<Rightarrow> interface_adapter \<Rightarrow> 'k \<Rightarrow> (interface_adapter \<Rightarrow> 'k \<Rightarrow> 'a result) \<Rightarrow> 'a result option" where
  "after_pending K ia k f = map_option (\<lambda>r. bind_result r (\<lambda>(ia, k). f ia k)) (ia_send_pending K ia k)"

definition ia_read ::
  "'k kernel \<Rightarrow> net_lib \<Rightarrow> interface_adapter \<Rightarrow> 'k \<Rightarrow>
   (interface_adapter \<times> 'k \<times> tcp_segment option) result option" where
  "ia_read K L ia k =
     (case maybe_receive_frame K (ia_fd ia) k of
        Inl e \<Rightarrow> Some (Inl e)
      | Inr (frame_opt, fw, k) \<Rightarrow>
          (let ia = ia\<lparr>ia_fd := fw\<rparr>
           in case frame_opt of
                None \<Rightarrow> Some (Inr (ia, k, None))
              | Some frame \<Rightarrow>
                  (case recv_frame (lib_address L) frame (ia_interface ia) of
                     Inl e \<Rightarrow> Some (Inl e)
                   | Inr (ni, ip_dgram) \<Rightarrow>
                       after_pending K (ia\<lparr>ia_interface := ni\<rparr>) k (\<lambda>ia k.
                         case ip_dgram of
                           None \<Rightarrow> Inr (ia, k, None)
                         | Some dgram \<Rightarrow>
                             bind_result (unwrap_tcp_in_ip L dgram (ia_base ia)) (\<lambda>(fa, seg).
                             Inr (ia\<lparr>ia_base := fa\<rparr>, k, seg))))))"

definition ia_write ::
  "'k kernel \<Rightarrow> net_lib \<Rightarrow> tcp_segment \<Rightarrow> interface_adapter \<Rightarrow> 'k \<Rightarrow>
   (tcp_segment \<times> interface_adapter \<times> 'k) result option" where
  "ia_write K L seg ia k =
     (case bind_result (wrap_tcp_in_ip L seg (ia_base ia)) (\<lambda>(seg, dgram).
             bind_result (send_datagram (lib_address L) dgram (ia_next_hop ia) (ia_interface ia)) (\<lambda>ni.
             Inr (seg, ni))) of
        Inl e \<Rightarrow> Some (Inl e)
      | Inr (seg, ni) \<Rightarrow> after_pending K (ia\<lparr>ia_interface := ni\<rparr>) k (\<lambda>ia k. Inr (seg, ia, k)))"

definition ia_tick ::
  "'k kernel \<Rightarrow> u64 \<Rightarrow> interface_adapter \<Rightarrow> 'k \<Rightarrow> (interface_adapter \<times> 'k) result option" where
  "ia_tick K ms_since_last_tick ia k =
     (case ni_tick ms_since_last_tick (ia_interface ia) of
        Inl e \<Rightarrow> Some (Inl e)
      | Inr ni \<Rightarrow> ia_send_pending K (ia\<lparr>ia_interface := ni\<rparr>) k)"

definition interface_ops :: "'k kernel \<Rightarrow> net_lib \<Rightarrow> (interface_adapter, 'k) adapter_ops" where
  "interface_ops K L =
     \<lparr>ao_read = (\<lambda>ia k. returned (ia_read K L ia k)),
      ao_write = (\<lambda>seg ia k. returned (ia_write K L seg ia k)),
      ao_tick = (\<lambda>ms ia k. returned (ia_tick K ms ia k)),
      ao_base = ia_base, ao_set_base = (\<lambda>fa ia. ia\<lparr>ia_base := fa\<rparr>), ao_fd = ia_fd\<rparr>"

subsection \<open>The socket\<close>

type_synonym 'k host_env = "(interface_adapter, 'k) minnow_env"
type_synonym 'k host_loop = "(interface_adapter, 'k) minnow_loop"
type_synonym 'k host_shared = "(interface_adapter, 'k) minnow_shared"

definition new_endtoend_socket ::
  "'k host_env \<Rightarrow> byte list \<Rightarrow> address \<Rightarrow> address \<Rightarrow> 'k \<Rightarrow> ((interface_adapter, 'k) minnow \<times> address) result" where
  "new_endtoend_socket E rnd ip_address next_hop k =
     bind_result (new_interface_adapter (en_kernel E) (en_lib E) rnd (socket_pair_helper E) ip_address next_hop k)
       (\<lambda>(ia, k). bind_result (new_minnow E ia k) (\<lambda>w. Inr (w, ip_address)))"

abbreviation lib_ip :: "net_lib \<Rightarrow> address \<Rightarrow> string result" where
  "lib_ip L a \<equiv> address_ip (nl_gni L) (nl_gai_message L) a"

abbreviation lib_string :: "net_lib \<Rightarrow> address \<Rightarrow> string result" where
  "lib_string L a \<equiv> address_to_string (nl_gni L) (nl_gai_message L) a"

text \<open>Each operation also yields the new local address; \<open>port\<close> is drawn at random.\<close>

definition endtoend_config ::
  "net_lib \<Rightarrow> u16 \<Rightarrow> address \<Rightarrow> address \<Rightarrow> (address \<times> fd_adapter_config) result" where
  "endtoend_config L port a local =
     bind_result (default_fd_adapter_config L) (\<lambda>cfg.
     bind_result (lib_ip L local) (\<lambda>ip.
     bind_result (lib_address L ip port) (\<lambda>local.
     bind_result (lib_string L local) (\<lambda>_.
     Inr (local, cfg\<lparr>fc_source := local, fc_destination := a\<rparr>)))))"

definition endtoend_connect ::
  "'k host_env \<Rightarrow> u16 \<Rightarrow> u32 \<Rightarrow> address \<Rightarrow> 'k host_loop \<Rightarrow> 'k host_shared \<Rightarrow> address \<Rightarrow>
   (('k host_loop \<times> 'k host_shared) \<times> address) result option" where
  "endtoend_connect E port isn a el sh local =
     (case endtoend_config (en_lib E) port a local of
        Inl e \<Rightarrow> Some (Inl e)
      | Inr (local, cfg) \<Rightarrow>
          map_option (\<lambda>r. bind_result r (\<lambda>x. Inr (x, local)))
            (minnow_connect E default_tcp_config cfg isn el sh))"

definition endtoend_bind :: "net_lib \<Rightarrow> address \<Rightarrow> address \<Rightarrow> address result" where
  "endtoend_bind L a local =
     bind_result (lib_ip L a) (\<lambda>a_ip.
     bind_result (lib_ip L local) (\<lambda>local_ip.
     if a_ip \<noteq> local_ip then bind_result (lib_string L a) (\<lambda>s. Inl (Throws (''Cannot bind to '' @ s)))
     else bind_result (lib_port L a) (\<lambda>port. lib_address L local_ip port)))"

definition endtoend_listen_and_accept ::
  "'k host_env \<Rightarrow> u32 \<Rightarrow> 'k host_loop \<Rightarrow> 'k host_shared \<Rightarrow> address \<Rightarrow>
   ('k host_loop \<times> 'k host_shared) result option" where
  "endtoend_listen_and_accept E isn el sh local =
     (case default_fd_adapter_config (en_lib E) of
        Inl e \<Rightarrow> Some (Inl e)
      | Inr cfg \<Rightarrow> minnow_listen_and_accept E default_tcp_config (cfg\<lparr>fc_source := local\<rparr>) isn el sh)"

end
