(* ===== verification/Frame_Sockets.thy ===== *)
theory Frame_Sockets
  imports Socket_Relay Endtoend_Host
begin

text \<open>
  The sockets over Ethernet frames: the adapter over a TAP device (\<open>util/tuntap_adapter.cc\<close>) and
  the one over a pair of datagram sockets (\<open>apps/endtoend.cc\<close>) move none of the bytes of the
  application, so that what a socket does for its application holds over them as well.
\<close>

subsection \<open>Sending the frames that wait\<close>

text \<open>A step that keeps a condition may be repeated.\<close>

lemma drain_keeps:
  assumes "drain_loop ni_maybe_send use ni w = Some (ni', Inr w')" and "P w"
    and step: "\<And>f w w'. P w \<Longrightarrow> use f w = Inr w' \<Longrightarrow> P w'"
  shows "P w'"
  using assms(1,2)
proof (induction "ni_ethernet_q ni" arbitrary: ni w)
  case Nil
  then have "drain_loop ni_maybe_send use ni w = Some (ni, Inr w)"
    by (subst drain_loop.simps) (simp add: ni_maybe_send_def)
  with Nil.prems show ?case by simp
next
  case (Cons f fs)
  from Cons.hyps(2) [symmetric] have q: "ni_ethernet_q ni = f # fs" .
  from frames.take_first [OF q] obtain ni1 where ni1: "ni_maybe_send ni = (ni1, Some f)" "ni_ethernet_q ni1 = fs" by blast
  from Cons.prems(1) obtain w1 where w1: "use f w = Inr w1" "drain_loop ni_maybe_send use ni1 w1 = Some (ni', Inr w')"
    by (subst (asm) drain_loop.simps) (auto simp: ni1(1) split: sum.splits)
  show ?case by (rule Cons.hyps(1) [OF ni1(2) [symmetric] w1(2) step [OF Cons.prems(2) w1(1)]])
qed

lemma frames_apart:
  assumes "writes_logged K G" and "drain_loop ni_maybe_send (write_frame K) ni (fw, k) = Some (ni', Inr (fw', k'))"
    and "fw_fd fw \<noteq> s"
  shows "apart G s k k' \<and> fw_fd fw' = fw_fd fw"
proof -
  let ?P = "\<lambda>w. apart G s k (snd w) \<and> fw_fd (fst w) = fw_fd fw"
  have "?P (fw', k')"
  proof (rule drain_keeps [OF assms(2), where P = ?P])
    fix f w w'
    assume P: "?P w" and w: "write_frame K f w = Inr w'"
    then obtain n where "fd_writev K (serialize_frame f) (fst w) (snd w) = Inr (n, fst w', snd w')"
      by (auto simp: write_frame_def)
    from fd_writev_apart [OF assms(1) this, of s] P assms(3) show "?P w'" by (auto intro: apart_trans)
  qed simp
  then show ?thesis by simp
qed

subsection \<open>The adapter over a TAP device\<close>

lemma after_sending_apart:
  assumes "writes_logged K G" and "after_sending K et k f = Some (Inr x)" and "fw_fd (et_tap et) \<noteq> s"
  obtains et' k' where "f et' k' = Inr x" and "apart G s k k'" and "fw_fd (et_tap et') \<noteq> s"
  using assms frames_apart [OF assms(1)]
  by (fastforce simp: after_sending_def send_pending_def)

lemma ethernet_read_apart:
  assumes "readv_logged K G" and w: "writes_logged K G" and r: "ethernet_read K L et k = Some (Inr (et', k', seg))"
    and m: "fw_fd (et_tap et) \<noteq> s"
  shows "fw_fd (et_tap et') \<noteq> s \<and> apart G s k k'"
proof -
  obtain strs fw k1 where v: "fd_readv K [replicate ETHERNET_LENGTH 0, replicate IPV4_LENGTH 0, []] (et_tap et) k = Inr (strs, fw, k1)"
    using r by (auto simp: ethernet_read_def split: sum.splits)
  from fd_readv_apart [OF assms(1) v m] have v': "apart G s k k1" "fw_fd fw \<noteq> s" using m by simp_all
  consider "et' = et\<lparr>et_tap := fw\<rparr>" "k' = k1"
    | ni d where "after_sending K (et\<lparr>et_tap := fw, et_interface := ni\<rparr>) k1 (\<lambda>et k.
        case d of None \<Rightarrow> Inr (et, k, None)
        | Some dgram \<Rightarrow> bind_result (unwrap_tcp_in_ip L dgram (et_base et)) (\<lambda>(fa, seg).
            Inr (et\<lparr>et_base := fa\<rparr>, k, seg))) = Some (Inr (et', k', seg))"
    using r v by (auto simp: ethernet_read_def Let_def split: sum.splits prod.splits if_splits)
  then show ?thesis
  proof cases
    case 1
    then show ?thesis using v' by simp
  next
    case 2
    from v'(2) have "fw_fd (et_tap (et\<lparr>et_tap := fw, et_interface := ni\<rparr>)) \<noteq> s" by simp
    from after_sending_apart [OF w 2 this] obtain et2 k2 where "(case d of None \<Rightarrow> Inr (et2, k2, None)
        | Some dgram \<Rightarrow> bind_result (unwrap_tcp_in_ip L dgram (et_base et2)) (\<lambda>(fa, seg).
            Inr (et2\<lparr>et_base := fa\<rparr>, k2, seg))) = Inr (et', k', seg)" "apart G s k1 k2" "fw_fd (et_tap et2) \<noteq> s" .
    then show ?thesis using apart_trans [OF v'(1)] by (auto split: option.splits)
  qed
qed

lemma ethernet_adapter_apart:
  assumes "readv_logged K G" and w: "writes_logged K G"
    and "\<And>et k et' k' g. ethernet_read K L et k = Some (Inr (et', k', Some g)) \<Longrightarrow> Q (tg_sender g)"
  shows "adapter_apart (ethernet_ops K L) G s Q (\<lambda>et. fw_fd (et_tap et) \<noteq> s)"
proof -
  have wr: "fw_fd (et_tap et') \<noteq> s \<and> apart G s k k'"
    if m: "fw_fd (et_tap et) \<noteq> s" and h: "ethernet_write K L g et k = Some (Inr (g', et', k'))" for g et k g' et' k'
  proof -
    obtain g1 ni where "after_sending K (et\<lparr>et_interface := ni\<rparr>) k (\<lambda>et k. Inr (g1, et, k)) = Some (Inr (g', et', k'))"
      using h by (auto simp: ethernet_write_def split: sum.splits)
    from after_sending_apart [OF w this, of s] m show ?thesis by auto
  qed
  have ti: "fw_fd (et_tap et') \<noteq> s \<and> apart G s k k'"
    if m: "fw_fd (et_tap et) \<noteq> s" and h: "ethernet_tick K ms et k = Some (Inr (et', k'))" for ms et k et' k'
  proof -
    obtain ni where "send_pending K (et\<lparr>et_interface := ni\<rparr>) k = Some (Inr (et', k'))"
      using h by (auto simp: ethernet_tick_def split: sum.splits)
    then have "after_sending K (et\<lparr>et_interface := ni\<rparr>) k (\<lambda>et k. Inr (et, k)) = Some (Inr (et', k'))"
      by (simp add: after_sending_def)
    from after_sending_apart [OF w this, of s] m show ?thesis by auto
  qed
  show ?thesis
  proof (rule adapter_apartI, goal_cases)
    case (1 a k a' k' seg)
    then have r: "ethernet_read K L a k = Some (Inr (a', k', seg))" by (simp add: ethernet_ops_def returned_Inr)
    from ethernet_read_apart [OF assms(1,2) r 1(1)] r assms(3) show ?case by blast
  next
    case (2 g a k g' a' k')
    then show ?case using wr by (simp add: ethernet_ops_def returned_Inr)
  next
    case (4 n a k a' k')
    then show ?case using ti by (simp add: ethernet_ops_def returned_Inr)
  qed (simp add: ethernet_ops_def)
qed

subsection \<open>The adapter over a pair of sockets\<close>

lemma after_pending_apart:
  assumes "writes_logged K G" and "after_pending K ia k f = Some (Inr x)" and "fw_fd (ia_fd ia) \<noteq> s"
  obtains ia' k' where "f ia' k' = Inr x" and "apart G s k k'" and "fw_fd (ia_fd ia') \<noteq> s"
  using assms frames_apart [OF assms(1)]
  by (fastforce simp: after_pending_def ia_send_pending_def)

lemma receive_frame_apart:
  assumes "readv_logged K G" and "maybe_receive_frame K fw k = Inr (frame_opt, fw', k')" and "fw_fd fw \<noteq> s"
  shows "apart G s k k' \<and> fw_fd fw' \<noteq> s"
  using assms(2,3) fd_readv_apart [OF assms(1)] by (fastforce simp: maybe_receive_frame_def)

lemma ia_read_apart:
  assumes "readv_logged K G" and w: "writes_logged K G" and r: "ia_read K L ia k = Some (Inr (ia', k', seg))"
    and m: "fw_fd (ia_fd ia) \<noteq> s"
  shows "fw_fd (ia_fd ia') \<noteq> s \<and> apart G s k k'"
proof -
  obtain frame_opt fw k1 where v: "maybe_receive_frame K (ia_fd ia) k = Inr (frame_opt, fw, k1)"
    using r by (auto simp: ia_read_def split: sum.splits)
  from receive_frame_apart [OF assms(1) v m] have v': "apart G s k k1" "fw_fd fw \<noteq> s" by simp_all
  consider "ia' = ia\<lparr>ia_fd := fw\<rparr>" "k' = k1"
    | ni d where "after_pending K (ia\<lparr>ia_fd := fw, ia_interface := ni\<rparr>) k1 (\<lambda>ia k.
        case d of None \<Rightarrow> Inr (ia, k, None)
        | Some dgram \<Rightarrow> bind_result (unwrap_tcp_in_ip L dgram (ia_base ia)) (\<lambda>(fa, seg).
            Inr (ia\<lparr>ia_base := fa\<rparr>, k, seg))) = Some (Inr (ia', k', seg))"
    using r v by (auto simp: ia_read_def Let_def split: sum.splits prod.splits option.splits)
  then show ?thesis
  proof cases
    case 1
    then show ?thesis using v' by simp
  next
    case 2
    from v'(2) have "fw_fd (ia_fd (ia\<lparr>ia_fd := fw, ia_interface := ni\<rparr>)) \<noteq> s" by simp
    from after_pending_apart [OF w 2 this] obtain ia2 k2 where "(case d of None \<Rightarrow> Inr (ia2, k2, None)
        | Some dgram \<Rightarrow> bind_result (unwrap_tcp_in_ip L dgram (ia_base ia2)) (\<lambda>(fa, seg).
            Inr (ia2\<lparr>ia_base := fa\<rparr>, k2, seg))) = Inr (ia', k', seg)" "apart G s k1 k2" "fw_fd (ia_fd ia2) \<noteq> s" .
    then show ?thesis using apart_trans [OF v'(1)] by (auto split: option.splits)
  qed
qed

lemma interface_adapter_apart:
  assumes "readv_logged K G" and w: "writes_logged K G"
    and "\<And>ia k ia' k' g. ia_read K L ia k = Some (Inr (ia', k', Some g)) \<Longrightarrow> Q (tg_sender g)"
  shows "adapter_apart (interface_ops K L) G s Q (\<lambda>ia. fw_fd (ia_fd ia) \<noteq> s)"
proof -
  have wr: "fw_fd (ia_fd ia') \<noteq> s \<and> apart G s k k'"
    if m: "fw_fd (ia_fd ia) \<noteq> s" and h: "ia_write K L g ia k = Some (Inr (g', ia', k'))" for g ia k g' ia' k'
  proof -
    obtain g1 ni where "after_pending K (ia\<lparr>ia_interface := ni\<rparr>) k (\<lambda>ia k. Inr (g1, ia, k)) = Some (Inr (g', ia', k'))"
      using h by (auto simp: ia_write_def split: sum.splits)
    from after_pending_apart [OF w this, of s] m show ?thesis by auto
  qed
  have ti: "fw_fd (ia_fd ia') \<noteq> s \<and> apart G s k k'"
    if m: "fw_fd (ia_fd ia) \<noteq> s" and h: "ia_tick K ms ia k = Some (Inr (ia', k'))" for ms ia k ia' k'
  proof -
    obtain ni where "ia_send_pending K (ia\<lparr>ia_interface := ni\<rparr>) k = Some (Inr (ia', k'))"
      using h by (auto simp: ia_tick_def split: sum.splits)
    then have "after_pending K (ia\<lparr>ia_interface := ni\<rparr>) k (\<lambda>ia k. Inr (ia, k)) = Some (Inr (ia', k'))"
      by (simp add: after_pending_def)
    from after_pending_apart [OF w this, of s] m show ?thesis by auto
  qed
  show ?thesis
  proof (rule adapter_apartI, goal_cases)
    case (1 a k a' k' seg)
    then have r: "ia_read K L a k = Some (Inr (a', k', seg))" by (simp add: interface_ops_def returned_Inr)
    from ia_read_apart [OF assms(1,2) r 1(1)] r assms(3) show ?case by blast
  next
    case (2 g a k g' a' k')
    then show ?case using wr by (simp add: interface_ops_def returned_Inr)
  next
    case (4 n a k a' k')
    then show ?case using ti by (simp add: interface_ops_def returned_Inr)
  qed (simp add: interface_ops_def)
qed

end
