(* ===== verification/Endtoend_Router.thy ===== *)
theory Endtoend_Router
  imports Endtoend_Host Router Loop_Contract
begin

text \<open>
  The router of the program \<open>apps/endtoend.cc\<close>: the setup of \<open>program_body\<close> and the network
  thread, an event loop that moves frames between the host, the router and a UDP socket.
\<close>

subsection \<open>Setting up\<close>

text \<open>
  The arguments of \<open>program_body\<close> from those of \<open>main\<close>: whether the program is the client, the
  host and the port of the bouncer, and whether it prints frames.  \<open>None\<close> is the usage message
  and the status of a failure.
\<close>

definition endtoend_arguments :: "string list \<Rightarrow> (bool \<times> string \<times> string \<times> bool) option" where
  "endtoend_arguments args =
     (if length args \<noteq> 4 \<and> length args \<noteq> 5 then None
      else if args ! 1 \<noteq> ''client'' \<and> args ! 1 \<noteq> ''server'' then None
      else Some (args ! 1 = ''client'', args ! 2, args ! 3, length args = 5))"

text \<open>The three empty datagrams that tell the bouncer where the program is.\<close>

definition internet_socket_setup ::
  "'k kernel \<Rightarrow> 'k socket_api \<Rightarrow> net_lib \<Rightarrow> string \<Rightarrow> string \<Rightarrow> 'k \<Rightarrow> (fd_wrapper \<times> 'k) result" where
  "internet_socket_setup K S L bounce_host bounce_port k =
     bind_result (new_udp_socket K S k) (\<lambda>(fw, k).
     bind_result (address_of_host (nl_gai L) (nl_gai_message L) bounce_host bounce_port) (\<lambda>bounce_address.
     bind_result (datagram_sendto K S bounce_address [] fw k) (\<lambda>(fw, k).
     bind_result (datagram_sendto K S bounce_address [] fw k) (\<lambda>(fw, k).
     bind_result (datagram_sendto K S bounce_address [] fw k) (\<lambda>(fw, k).
     bind_result (socket_connect K S bounce_address fw k) (\<lambda>k. Inr (fw, k)))))))"

definition router_interface_at :: "net_lib \<Rightarrow> byte list \<Rightarrow> string \<Rightarrow> async_network_interface result" where
  "router_interface_at L rnd ip =
     bind_result (lib_address L ip 0) (\<lambda>a.
     Inr (new_async_network_interface (new_network_interface (nl_map_limit L) (random_router_ethernet_address rnd) a)))"

definition route_to ::
  "net_lib \<Rightarrow> string \<Rightarrow> u8 \<Rightarrow> string option \<Rightarrow> nat \<Rightarrow> router \<Rightarrow> router result" where
  "route_to L network len next_hop n rt =
     bind_result (bind_result (lib_address L network 0) ipv4_numeric) (\<lambda>route_prefix.
     bind_result (case next_hop of None \<Rightarrow> Inr None | Some h \<Rightarrow> bind_result (lib_address L h 0) (\<lambda>a. Inr (Some a))) (\<lambda>hop.
     Inr (add_route route_prefix len hop n rt)))"

text \<open>The router with the indices of its interfaces on the side of the host and of the Internet.\<close>

definition router_setup ::
  "net_lib \<Rightarrow> bool \<Rightarrow> byte list \<Rightarrow> byte list \<Rightarrow> (router \<times> nat \<times> nat) result" where
  "router_setup L is_client rnd1 rnd2 =
     bind_result (router_interface_at L rnd1 (if is_client then ''192.168.0.1'' else ''172.16.0.1'')) (\<lambda>an.
     let (rt, host_side) = add_interface an new_router
     in bind_result (router_interface_at L rnd2 (if is_client then ''10.0.0.192'' else ''10.0.0.172'')) (\<lambda>an.
        let (rt, internet_side) = add_interface an rt
        in bind_result
             (if is_client then
                bind_result (route_to L ''192.168.0.0'' 16 None host_side rt) (\<lambda>rt.
                bind_result (route_to L ''10.0.0.0'' 8 None internet_side rt)
                  (route_to L ''172.16.0.0'' 12 (Some ''10.0.0.172'') internet_side))
              else
                bind_result (route_to L ''172.16.0.0'' 12 None host_side rt) (\<lambda>rt.
                bind_result (route_to L ''10.0.0.0'' 8 None internet_side rt)
                  (route_to L ''192.168.0.0'' 16 (Some ''10.0.0.192'') internet_side)))
             (\<lambda>rt. Inr (rt, host_side, internet_side))))"

definition host_socket_setup ::
  "'k host_env \<Rightarrow> bool \<Rightarrow> byte list \<Rightarrow> 'k \<Rightarrow> ((interface_adapter, 'k) minnow \<times> address) result" where
  "host_socket_setup E is_client rnd k =
     bind_result (lib_address (en_lib E) (if is_client then ''192.168.0.50'' else ''172.16.0.100'') 0) (\<lambda>ip.
     bind_result (lib_address (en_lib E) (if is_client then ''192.168.0.1'' else ''172.16.0.1'') 0) (\<lambda>next_hop.
     new_endtoend_socket E rnd ip next_hop k))"

subsection \<open>The state of the network thread\<close>

record 'k network =
  nw_router :: router
  nw_to_host :: "ethernet_frame list"
  nw_to_internet :: "ethernet_frame list"
  nw_frame_fd :: fd_wrapper
  nw_internet :: fd_wrapper
  nw_exit_flag :: bool
  nw_kernel :: 'k

type_synonym 'k network_shared = "'k network shared"
type_synonym 'k network_loop = "'k network event_loop"

text \<open>What the thread captured: the two sides and whether it prints what it moves.\<close>

record 'k network_env =
  ne_kernel :: "'k kernel"
  ne_lib :: net_lib
  ne_host_side :: nat
  ne_internet_side :: nat
  ne_debug :: bool

definition debug_print :: "'k network_env \<Rightarrow> ethernet_frame \<Rightarrow> unit result" where
  "debug_print N frame =
     (if ne_debug N then bind_result (summary (ne_lib N) frame) (\<lambda>_. Inr ()) else Inr ())"

subsection \<open>The rules\<close>

text \<open>A frame for an interface of the router, after which the router routes.\<close>

definition router_receives :: "'k network_env \<Rightarrow> nat \<Rightarrow> ethernet_frame \<Rightarrow> router \<Rightarrow> router result" where
  "router_receives N side frame rt =
     bind_result (router_interface side rt) (\<lambda>an.
     bind_result (async_recv_frame (lib_address (ne_lib N)) frame an) (\<lambda>an.
     case route (rt\<lparr>rt_interfaces := (rt_interfaces rt)[side := an]\<rparr>) of
       None \<Rightarrow> Inl Diverges
     | Some rt \<Rightarrow> Inr rt))"

definition from_host :: "'k network_env \<Rightarrow> 'k network \<Rightarrow> 'k network result" where
  "from_host N w =
     bind_result (maybe_receive_frame (ne_kernel N) (nw_frame_fd w) (nw_kernel w)) (\<lambda>(frame_opt, fw, k).
     let w = w\<lparr>nw_frame_fd := fw, nw_kernel := k\<rparr>
     in case frame_opt of
          None \<Rightarrow> Inr w
        | Some frame \<Rightarrow>
            bind_result (debug_print N frame) (\<lambda>_.
            bind_result (router_receives N (ne_host_side N) frame (nw_router w)) (\<lambda>rt.
            Inr (w\<lparr>nw_router := rt\<rparr>))))"

definition from_internet :: "'k network_env \<Rightarrow> 'k network \<Rightarrow> 'k network result" where
  "from_internet N w =
     bind_result (maybe_receive_frame (ne_kernel N) (nw_internet w) (nw_kernel w)) (\<lambda>(frame_opt, fw, k).
     let w = w\<lparr>nw_internet := fw, nw_kernel := k\<rparr>
     in case frame_opt of
          None \<Rightarrow> Inr w
        | Some frame \<Rightarrow>
            bind_result (debug_print N frame) (\<lambda>_.
            bind_result (router_receives N (ne_internet_side N) frame (nw_router w)) (\<lambda>rt.
            Inr (w\<lparr>nw_router := rt\<rparr>))))"

definition to_host :: "'k network_env \<Rightarrow> 'k network \<Rightarrow> 'k network result" where
  "to_host N w =
     (case nw_to_host w of
        [] \<Rightarrow> Inl (Undefined ''front of an empty queue'')
      | frame # frames \<Rightarrow>
          bind_result (debug_print N frame) (\<lambda>_.
          bind_result (write_frame (ne_kernel N) frame (nw_frame_fd w, nw_kernel w)) (\<lambda>(fw, k).
          Inr (w\<lparr>nw_frame_fd := fw, nw_kernel := k, nw_to_host := frames\<rparr>))))"

definition to_internet :: "'k network_env \<Rightarrow> 'k network \<Rightarrow> 'k network result" where
  "to_internet N w =
     (case nw_to_internet w of
        [] \<Rightarrow> Inl (Undefined ''front of an empty queue'')
      | frame # frames \<Rightarrow>
          bind_result (debug_print N frame) (\<lambda>_.
          bind_result (write_frame (ne_kernel N) frame (nw_internet w, nw_kernel w)) (\<lambda>(fw, k).
          Inr (w\<lparr>nw_internet := fw, nw_kernel := k, nw_to_internet := frames\<rparr>))))"

definition net_callback :: "('k network \<Rightarrow> 'k network result) \<Rightarrow> 'k network callback" where
  "net_callback f sh = bind_result (f (sh_world sh)) (\<lambda>w. Inr (sh\<lparr>sh_world := w\<rparr>))"

definition add_network_rules :: "'k network_env \<Rightarrow> 'k network_loop \<Rightarrow> 'k network_loop result" where
  "add_network_rules N el =
     bind_result (add_named_fd_rule ''frames from host to router'' (\<lambda>sh. nw_frame_fd (sh_world sh)) In
       (net_callback (from_host N)) default_interest default_cancel default_recover el) (\<lambda>(el, _).
     bind_result (add_named_fd_rule ''frames from router to host'' (\<lambda>sh. nw_frame_fd (sh_world sh)) Out
       (net_callback (to_host N)) (\<lambda>sh. Inr (sh, nw_to_host (sh_world sh) \<noteq> []))
       default_cancel default_recover el) (\<lambda>(el, _).
     bind_result (add_named_fd_rule ''frames from router to Internet'' (\<lambda>sh. nw_internet (sh_world sh)) Out
       (net_callback (to_internet N)) (\<lambda>sh. Inr (sh, nw_to_internet (sh_world sh) \<noteq> []))
       default_cancel default_recover el) (\<lambda>(el, _).
     bind_result (add_named_fd_rule ''frames from Internet to router'' (\<lambda>sh. nw_internet (sh_world sh)) In
       (net_callback (from_internet N)) default_interest default_cancel default_recover el) (\<lambda>(el, _).
     Inr el))))"

subsection \<open>The loop of the thread\<close>

text \<open>An interface of the router ticks, and what it has to send moves to a queue.\<close>

definition tick_side :: "nat \<Rightarrow> u64 \<Rightarrow> router \<Rightarrow> router result" where
  "tick_side side ms rt =
     bind_result (router_interface side rt) (\<lambda>an.
     bind_result (ni_tick ms (an_interface an)) (\<lambda>ni.
     Inr (rt\<lparr>rt_interfaces := (rt_interfaces rt)[side := an\<lparr>an_interface := ni\<rparr>]\<rparr>)))"

definition collect_side ::
  "nat \<Rightarrow> router \<Rightarrow> ethernet_frame list \<Rightarrow> (router \<times> ethernet_frame list) result" where
  "collect_side side rt queue =
     bind_result (router_interface side rt) (\<lambda>an.
     case drain_loop ni_maybe_send (\<lambda>f q. Inr (q @ [f])) (an_interface an) queue of
       None \<Rightarrow> Inl Diverges
     | Some (ni, r) \<Rightarrow>
         bind_result r (\<lambda>queue.
         Inr (rt\<lparr>rt_interfaces := (rt_interfaces rt)[side := an\<lparr>an_interface := ni\<rparr>]\<rparr>, queue)))"

definition after_event :: "'k network_env \<Rightarrow> 'k network \<Rightarrow> 'k network result" where
  "after_event N w =
     bind_result (tick_side (ne_host_side N) 10 (nw_router w)) (\<lambda>rt.
     bind_result (tick_side (ne_internet_side N) 10 rt) (\<lambda>rt.
     bind_result (collect_side (ne_host_side N) rt (nw_to_host w)) (\<lambda>(rt, router_to_host).
     bind_result (collect_side (ne_internet_side N) rt (nw_to_internet w)) (\<lambda>(rt, router_to_internet).
     Inr (w\<lparr>nw_router := rt, nw_to_host := router_to_host, nw_to_internet := router_to_internet\<rparr>)))))"

partial_function (option) network_loop ::
  "'k network_env \<Rightarrow> 'k network poll_api \<Rightarrow> 'k network_loop \<Rightarrow> 'k network_shared \<Rightarrow> 'k network_shared result option" where
  "network_loop N A el sh =
     (case wait_next_event A 10 el sh of
        Inl e \<Rightarrow> Some (Inl e)
      | Inr (el, sh, res) \<Rightarrow>
          if res = Exit then Some (Inr sh)
          else case after_event N (sh_world sh) of
                 Inl e \<Rightarrow> Some (Inl e)
               | Inr w \<Rightarrow>
                   (let sh = sh\<lparr>sh_world := w\<rparr>
                    in if nw_exit_flag w then Some (Inr sh) else network_loop N A el sh))"

text \<open>
  The thread ends on any exception, after it has printed it; undefined behaviour is not
  caught.
\<close>

definition network_thread ::
  "'k network_env \<Rightarrow> 'k network poll_api \<Rightarrow> nat \<Rightarrow> 'k network \<Rightarrow> 'k network_shared option result option" where
  "network_thread N A capacity w =
     (case (case add_network_rules N (new_event_loop capacity) of
              Inl e \<Rightarrow> Some (Inl e)
            | Inr el \<Rightarrow> network_loop N A el \<lparr>sh_world = w, sh_cancelled = {}\<rparr>) of
        None \<Rightarrow> None
      | Some (Inl (Throws m)) \<Rightarrow> Some (Inr None)
      | Some (Inl e) \<Rightarrow> Some (Inl e)
      | Some (Inr sh) \<Rightarrow> Some (Inr (Some sh)))"

subsection \<open>An interface that is given no datagrams\<close>

definition arp_frame :: "ethernet_frame \<Rightarrow> bool" where
  "arp_frame f \<longleftrightarrow> eh_type (ef_header f) = TYPE_ARP"

definition arp_only :: "network_interface \<Rightarrow> bool" where
  "arp_only ni \<longleftrightarrow>
     (\<forall>key q. ni_datagram_qs ni key = Some q \<longrightarrow> q = []) \<and> (\<forall>f \<in> set (ni_ethernet_q ni). arp_frame f)"

lemma arp_only_new: "arp_only (new_network_interface limit e a)"
  by (simp add: arp_only_def new_network_interface_def)

lemma learn_mapping_queues:
  "ni_datagram_qs (learn_mapping m ni) = ni_datagram_qs ni" "ni_ethernet_q (learn_mapping m ni) = ni_ethernet_q ni"
  by (simp_all add: learn_mapping_def map_assign_def Let_def split: option.split)

lemma arp_received_arp_only:
  assumes "arp_received resolve m ni = Inr ni'" and "arp_only ni"
  shows "arp_only ni'"
proof -
  let ?ni = "learn_mapping m ni"
  have q: "(case ni_datagram_qs ?ni (arp_sender_ip_address m) of None \<Rightarrow> [] | Some q \<Rightarrow> q) = []"
    using assms(2) by (auto simp: arp_only_def learn_mapping_queues split: option.split)
  show ?thesis
    using assms(1)
  proof (rule arp_received_cases, unfold q)
    fix x y
    assume "send_waiting (arp_sender_ethernet_address m) [] (learn_mapping m ni) = Inr x"
      and y: "y = x\<lparr>ni_datagram_qs := (ni_datagram_qs x)(arp_sender_ip_address m \<mapsto> []),
        ni_arp_request_times := (ni_arp_request_times x)(arp_sender_ip_address m := None)\<rparr>"
      and ni': "ni' = y \<or> (\<exists>payload. ni' = y\<lparr>ni_ethernet_q := ni_ethernet_q y @ [frame_create (ni_ethernet_address y)
        (arp_sender_ethernet_address m) TYPE_ARP payload]\<rparr>)"
    then have "arp_only y" using assms(2) by (auto simp: arp_only_def learn_mapping_queues)
    with ni' show ?thesis
      by (elim disjE exE) (auto simp: arp_only_def arp_frame_def frame_create_def)
  qed
qed

lemma recv_frame_arp_only:
  "recv_frame resolve frame ni = Inr (ni', d) \<Longrightarrow> arp_only ni \<Longrightarrow> arp_only ni'"
  by (auto simp: recv_frame_def split: if_splits dest: arp_received_arp_only)

lemma expire_entries_queues:
  "expire_entries es ni = Inr ni' \<Longrightarrow>
   ni_datagram_qs ni' = ni_datagram_qs ni \<and> ni_ethernet_q ni' = ni_ethernet_q ni"
  by (induction es ni rule: expire_entries.induct) (auto split: if_splits option.splits)

lemma ni_tick_arp_only:
  assumes "ni_tick ms ni = Inr ni'" and "arp_only ni"
  shows "arp_only ni'"
  using expire_entries_queues assms by (fastforce simp: ni_tick_def arp_only_def Let_def)

subsection \<open>The invariant of the network thread\<close>

definition router_arp_only :: "router \<Rightarrow> bool" where
  "router_arp_only rt \<longleftrightarrow> (\<forall>an \<in> set (rt_interfaces rt). arp_only (an_interface an))"

definition network_arp_only :: "'k network \<Rightarrow> bool" where
  "network_arp_only w \<longleftrightarrow>
     router_arp_only (nw_router w) \<and> (\<forall>f \<in> set (nw_to_host w) \<union> set (nw_to_internet w). arp_frame f)"

lemma router_interface_arp_only:
  "router_interface side rt = Inr an \<Longrightarrow> router_arp_only rt \<Longrightarrow> arp_only (an_interface an)"
  by (auto simp: router_interface_def router_arp_only_def split: if_splits)

lemma router_update_arp_only:
  "router_arp_only rt \<Longrightarrow> arp_only (an_interface an) \<Longrightarrow>
   router_arp_only (rt\<lparr>rt_interfaces := (rt_interfaces rt)[side := an]\<rparr>)"
  by (auto simp: router_arp_only_def dest: set_update_subset_insert [THEN subsetD])

lemma route_arp_only: "route rt = Some rt' \<Longrightarrow> router_arp_only rt \<Longrightarrow> router_arp_only rt'"
  by (auto simp: route_def route_interfaces_drain router_arp_only_def)

lemma async_recv_frame_arp_only:
  assumes "async_recv_frame resolve frame an = Inr an'" and "arp_only (an_interface an)"
  shows "arp_only (an_interface an')"
proof -
  obtain ni d where d: "recv_frame resolve frame (an_interface an) = Inr (ni, d)"
    using assms(1) by (auto simp: async_recv_frame_def)
  then have "an_interface an' = ni"
    using assms(1) by (auto simp: async_recv_frame_def Let_def split: option.splits)
  with recv_frame_arp_only [OF d assms(2)] show ?thesis by simp
qed

lemma router_receives_arp_only:
  assumes "router_receives N side frame rt = Inr rt'" and "router_arp_only rt"
  shows "router_arp_only rt'"
proof -
  obtain an an' where a: "router_interface side rt = Inr an"
    "async_recv_frame (lib_address (ne_lib N)) frame an = Inr an'"
    "route (rt\<lparr>rt_interfaces := (rt_interfaces rt)[side := an']\<rparr>) = Some rt'"
    using assms(1) by (auto simp: router_receives_def split: option.splits)
  have "arp_only (an_interface an')"
    by (rule async_recv_frame_arp_only [OF a(2) router_interface_arp_only [OF a(1) assms(2)]])
  from route_arp_only [OF a(3) router_update_arp_only [OF assms(2) this]] show ?thesis .
qed

lemma from_host_arp_only:
  assumes "from_host N w = Inr w'" and "network_arp_only w"
  shows "network_arp_only w'"
  using assms router_receives_arp_only
  by (fastforce simp: from_host_def network_arp_only_def Let_def split: option.splits)

lemma from_internet_arp_only:
  assumes "from_internet N w = Inr w'" and "network_arp_only w"
  shows "network_arp_only w'"
  using assms router_receives_arp_only
  by (fastforce simp: from_internet_def network_arp_only_def Let_def split: option.splits)

lemma to_host_arp_only: "to_host N w = Inr w' \<Longrightarrow> network_arp_only w \<Longrightarrow> network_arp_only w'"
  by (auto simp: to_host_def network_arp_only_def split: list.splits)

lemma to_internet_arp_only: "to_internet N w = Inr w' \<Longrightarrow> network_arp_only w \<Longrightarrow> network_arp_only w'"
  by (auto simp: to_internet_def network_arp_only_def split: list.splits)

lemma tick_side_arp_only:
  assumes "tick_side side ms rt = Inr rt'" and "router_arp_only rt"
  shows "router_arp_only rt'"
proof -
  obtain an ni where a: "router_interface side rt = Inr an" "ni_tick ms (an_interface an) = Inr ni"
    and rt': "rt' = rt\<lparr>rt_interfaces := (rt_interfaces rt)[side := an\<lparr>an_interface := ni\<rparr>]\<rparr>"
    using assms(1) by (auto simp: tick_side_def)
  have "arp_only ni" by (rule ni_tick_arp_only [OF a(2) router_interface_arp_only [OF a(1) assms(2)]])
  then show ?thesis unfolding rt' by (intro router_update_arp_only [OF assms(2)]) simp
qed

text \<open>What is collected is what the interface had to send.\<close>

lemma drain_interface:
  "\<exists>ni'. drain_loop ni_maybe_send (\<lambda>f q. Inr (q @ [f])) ni queue = Some (ni', Inr (queue @ ni_ethernet_q ni)) \<and>
     ni_ethernet_q ni' = [] \<and> ni_datagram_qs ni' = ni_datagram_qs ni"
proof -
  have "use_all (\<lambda>f q. Inr (q @ [f])) (ni_ethernet_q ni) queue = Inr (queue @ ni_ethernet_q ni)"
    using use_all_push [of "\<lambda>f. f" "ni_ethernet_q ni" queue] by simp
  from frames.drain_total [OF this] obtain ni' where
    "drain_loop ni_maybe_send (\<lambda>f q. Inr (q @ [f])) ni queue = Some (ni', Inr (queue @ ni_ethernet_q ni))"
    "ni_ethernet_q ni' = []" "ni'\<lparr>ni_ethernet_q := []\<rparr> = ni\<lparr>ni_ethernet_q := []\<rparr>" by blast
  moreover from this(3) have "ni_datagram_qs ni' = ni_datagram_qs ni"
    by (auto dest: arg_cong [where f = ni_datagram_qs])
  ultimately show ?thesis by blast
qed

lemma collect_side_arp_only:
  assumes "collect_side side rt queue = Inr (rt', queue')" and "router_arp_only rt" and "\<forall>f \<in> set queue. arp_frame f"
  shows "router_arp_only rt' \<and> (\<forall>f \<in> set queue'. arp_frame f)"
proof -
  obtain an where a: "router_interface side rt = Inr an" using assms(1) by (auto simp: collect_side_def)
  have ok: "arp_only (an_interface an)" by (rule router_interface_arp_only [OF a assms(2)])
  obtain ni where d: "drain_loop ni_maybe_send (\<lambda>f q. Inr (q @ [f])) (an_interface an) queue =
      Some (ni, Inr (queue @ ni_ethernet_q (an_interface an)))"
    and ni: "ni_ethernet_q ni = []" "ni_datagram_qs ni = ni_datagram_qs (an_interface an)"
    using drain_interface by blast
  have r: "rt' = rt\<lparr>rt_interfaces := (rt_interfaces rt)[side := an\<lparr>an_interface := ni\<rparr>]\<rparr>"
    "queue' = queue @ ni_ethernet_q (an_interface an)"
    using assms(1) a d by (auto simp: collect_side_def)
  have "arp_only ni" using ok ni by (simp add: arp_only_def)
  then have "router_arp_only rt'" unfolding r by (intro router_update_arp_only [OF assms(2)]) simp
  then show ?thesis using assms(3) ok by (auto simp: r arp_only_def)
qed

lemma after_event_arp_only:
  assumes "after_event N w = Inr w'" and "network_arp_only w"
  shows "network_arp_only w'"
proof -
  obtain rt1 rt2 rt3 q1 rt4 q2 where s: "tick_side (ne_host_side N) 10 (nw_router w) = Inr rt1"
    "tick_side (ne_internet_side N) 10 rt1 = Inr rt2"
    "collect_side (ne_host_side N) rt2 (nw_to_host w) = Inr (rt3, q1)"
    "collect_side (ne_internet_side N) rt3 (nw_to_internet w) = Inr (rt4, q2)"
    and w': "w' = w\<lparr>nw_router := rt4, nw_to_host := q1, nw_to_internet := q2\<rparr>"
    using assms(1) by (auto simp: after_event_def)
  have w: "router_arp_only (nw_router w)" "\<forall>f \<in> set (nw_to_host w). arp_frame f"
    "\<forall>f \<in> set (nw_to_internet w). arp_frame f" using assms(2) by (auto simp: network_arp_only_def)
  have "router_arp_only rt2" using tick_side_arp_only s(1,2) w(1) by blast
  with collect_side_arp_only [OF s(3)] w(2) have "router_arp_only rt3" "\<forall>f \<in> set q1. arp_frame f" by auto
  with collect_side_arp_only [OF s(4)] w(3) show ?thesis unfolding w' by (auto simp: network_arp_only_def)
qed

end
