(* ===== verification/Endtoend_Run.thy ===== *)
theory Endtoend_Run
  imports Endtoend_Router Relay_Device
begin

text \<open>
  The network thread of \<open>apps/endtoend.cc\<close> run by its event loop: the steps of the loop, the
  states they reach and what the router forwards.
\<close>

subsection \<open>The rules of the thread\<close>

definition network_rule ::
  "nat \<Rightarrow> ('k network \<Rightarrow> fd_wrapper) \<Rightarrow> direction \<Rightarrow> ('k network \<Rightarrow> 'k network result) \<Rightarrow>
   ('k network \<Rightarrow> bool) \<Rightarrow> 'k network fd_rule" where
  "network_rule i fd dir callback interest =
     \<lparr>br_id = i, br_category_id = i,
      br_interest = (if dir = In then default_interest else (\<lambda>sh. Inr (sh, interest (sh_world sh)))),
      br_callback = net_callback callback, fr_fd = (\<lambda>sh. fd (sh_world sh)), fr_direction = dir,
      fr_cancel = default_cancel, fr_recover = default_recover\<rparr>"

definition the_network_rules :: "'k network_env \<Rightarrow> 'k network fd_rule list" where
  "the_network_rules N =
     [network_rule 0 nw_frame_fd In (from_host N) (\<lambda>w. True),
      network_rule 1 nw_frame_fd Out (to_host N) (\<lambda>w. nw_to_host w \<noteq> []),
      network_rule 2 nw_internet Out (to_internet N) (\<lambda>w. nw_to_internet w \<noteq> []),
      network_rule 3 nw_internet In (from_internet N) (\<lambda>w. True)]"

lemma add_network_rules_are:
  assumes "add_network_rules N (new_event_loop capacity) = Inr el"
  shows "el_fd_rules el = the_network_rules N" and "el_non_fd_rules el = []"
  using assms
  by (auto simp: add_network_rules_def add_named_fd_rule_def add_category_def add_fd_rule_def new_event_loop_def
      Let_def the_network_rules_def network_rule_def numeral_2_eq_2 numeral_3_eq_3 split: if_splits)

lemma add_network_rules_exist: "4 \<le> capacity \<Longrightarrow> \<exists>el. add_network_rules N (new_event_loop capacity) = Inr el"
  by (simp add: add_network_rules_def add_named_fd_rule_def add_category_def add_fd_rule_def new_event_loop_def Let_def)

lemma distinct_network_rules: "distinct (the_network_rules N)"
  by (simp add: the_network_rules_def network_rule_def)

text \<open>
  While \<open>poll\<close> waits the other thread changes nothing of the state of the thread but the exit
  flag and the operating system.
\<close>

definition polls_still :: "'k network poll_api \<Rightarrow> bool" where
  "polls_still A \<longleftrightarrow>
     (\<forall>ps t sh sh' ret revents. pa_poll A ps t sh = (sh', ret, revents) \<longrightarrow>
        (\<exists>k b. sh_world sh' = (sh_world sh)\<lparr>nw_kernel := k, nw_exit_flag := b\<rparr>)) \<and>
     (\<forall>fd sh sh' ret err len. pa_socket_error A fd sh = (sh', ret, err, len) \<longrightarrow>
        (\<exists>k b. sh_world sh' = (sh_world sh)\<lparr>nw_kernel := k, nw_exit_flag := b\<rparr>))"

definition keeps_arp_only :: "'k network poll_api \<Rightarrow> 'k network_shared \<Rightarrow> bool" where
  "keeps_arp_only A sh \<longleftrightarrow> polls_still A \<and> network_arp_only (sh_world sh)"

lemma network_rule_cases:
  assumes "r \<in> set (the_network_rules N)"
  obtains i fd dir f interest where "r = network_rule i fd dir f interest"
    and "f \<in> {from_host N, to_host N, to_internet N, from_internet N}"
  using assms unfolding the_network_rules_def by auto

lemma network_interest_pure:
  "r \<in> set (the_network_rules N) \<Longrightarrow> br_interest r sh = Inr (sh', b) \<Longrightarrow> sh' = sh"
  by (erule network_rule_cases) (auto simp: network_rule_def default_interest_def split: if_splits)

lemma network_rule_simps [simp]:
  "br_callback (network_rule i fd dir f interest) = net_callback f"
  "fr_cancel (network_rule i fd dir f interest) = default_cancel"
  "fr_recover (network_rule i fd dir f interest) = default_recover"
  by (simp_all add: network_rule_def)

lemma network_callback_arp_only:
  assumes "r \<in> set (the_network_rules N)" and "br_callback r sh = Inr sh'" and "network_arp_only (sh_world sh)"
  shows "network_arp_only (sh_world sh')"
proof -
  obtain i fd dir f interest where r: "r = network_rule i fd dir f interest"
    and f: "f \<in> {from_host N, to_host N, to_internet N, from_internet N}"
    by (rule network_rule_cases [OF assms(1)])
  then obtain w where w: "f (sh_world sh) = Inr w" "sh_world sh' = w"
    using assms(2) by (auto simp: net_callback_def)
  from f consider "f = from_host N" | "f = to_host N" | "f = to_internet N" | "f = from_internet N" by blast
  then show ?thesis
  proof cases
    case 1
    then show ?thesis using from_host_arp_only w assms(3) by blast
  next
    case 2
    then show ?thesis using to_host_arp_only w assms(3) by blast
  next
    case 3
    then show ?thesis using to_internet_arp_only w assms(3) by blast
  next
    case 4
    then show ?thesis using from_internet_arp_only w assms(3) by blast
  qed
qed

interpretation network_keeps:
  loop_contract A "set (the_network_rules N)" "keeps_arp_only A" "\<lambda>r sh. True"
proof (unfold_locales, goal_cases)
  case (2 r sh sh' b)
  then show ?case using network_interest_pure by blast
next
  case (8 sh ps t sh' ret revents)
  then obtain k b where "sh_world sh' = (sh_world sh)\<lparr>nw_kernel := k, nw_exit_flag := b\<rparr>"
    unfolding keeps_arp_only_def polls_still_def by blast
  then show ?case using 8(1) by (simp add: keeps_arp_only_def network_arp_only_def)
next
  case (10 sh fd sh' ret err len)
  then obtain k b where "sh_world sh' = (sh_world sh)\<lparr>nw_kernel := k, nw_exit_flag := b\<rparr>"
    unfolding keeps_arp_only_def polls_still_def by blast
  then show ?case using 10(1) by (simp add: keeps_arp_only_def network_arp_only_def)
next
  case (12 r sh sh')
  then have "network_arp_only (sh_world sh')"
    by (intro network_callback_arp_only [OF 12(1,4)]) (simp add: keeps_arp_only_def)
  then show ?case using 12(2) by (simp add: keeps_arp_only_def)
qed (auto elim!: network_rule_cases dest: network_interest_pure simp: default_cancel_def default_recover_def)

text \<open>A step is one iteration of the loop, up to its last test.\<close>

inductive network_step ::
  "'k network_env \<Rightarrow> 'k network poll_api \<Rightarrow> 'k network_loop \<times> 'k network_shared \<Rightarrow>
   'k network_loop \<times> 'k network_shared \<Rightarrow> bool" for N A where
  serve: "wait_next_event A 10 el sh = Inr (el', sh', res) \<Longrightarrow> network_step N A (el, sh) (el', sh')"
| move: "after_event N (sh_world sh) = Inr w \<Longrightarrow> network_step N A (el, sh) (el, sh\<lparr>sh_world := w\<rparr>)"

definition network_loop_ok :: "'k network_env \<Rightarrow> 'k network_loop \<Rightarrow> bool" where
  "network_loop_ok N el \<longleftrightarrow>
     el_non_fd_rules el = [] \<and> set (el_fd_rules el) \<subseteq> set (the_network_rules N) \<and> distinct (el_fd_rules el)"

lemma network_steps_keep:
  assumes "(network_step N A)\<^sup>*\<^sup>* (el, sh) (el', sh')" and "network_loop_ok N el" and "keeps_arp_only A sh"
  shows "network_loop_ok N el' \<and> keeps_arp_only A sh'"
  using assms
proof (induction rule: rtranclp_induct2)
  case (step el1 sh1 el2 sh2)
  from step.IH [OF step.prems] have IH: "network_loop_ok N el1" "keeps_arp_only A sh1" by simp_all
  from step.hyps(2) show ?case
  proof cases
    case (serve res)
    from network_keeps.wait_keeps [OF serve, of N] IH show ?thesis by (simp add: network_loop_ok_def)
  next
    case (move w)
    with IH after_event_arp_only show ?thesis by (auto simp: keeps_arp_only_def)
  qed
qed simp

text \<open>The loop of the thread only makes such steps.\<close>

lemma network_loop_steps:
  assumes "network_loop N A el sh = Some r"
  shows "\<forall>sh'. r = Inr sh' \<longrightarrow> (\<exists>el'. (network_step N A)\<^sup>*\<^sup>* (el, sh) (el', sh'))"
  using assms
proof (induction N A el sh r rule: network_loop.raw_induct [rotated, consumes 1])
  case (1 f N A el sh r)
  show ?case
  proof (intro allI impI)
    fix sh'
    assume r: "r = Inr sh'"
    from 1(2) r obtain el1 sh1 res where w: "wait_next_event A 10 el sh = Inr (el1, sh1, res)"
      and rest: "(if res = Exit then Some (Inr sh1)
          else case after_event N (sh_world sh1) of
                 Inl e \<Rightarrow> Some (Inl e)
               | Inr w \<Rightarrow> (let sh = sh1\<lparr>sh_world := w\<rparr>
                    in if nw_exit_flag w then Some (Inr sh) else f N A el1 sh)) = Some r"
      by (auto split: sum.splits)
    note st = network_step.serve [OF w, of N]
    show "\<exists>el'. (network_step N A)\<^sup>*\<^sup>* (el, sh) (el', sh')"
    proof (cases "res = Exit")
      case True
      then show ?thesis using rest r st by auto
    next
      case False
      with rest r obtain w1 where w1: "after_event N (sh_world sh1) = Inr w1"
        and goes: "(if nw_exit_flag w1 then Some (Inr (sh1\<lparr>sh_world := w1\<rparr>)) else f N A el1 (sh1\<lparr>sh_world := w1\<rparr>)) = Some r"
        by (simp add: Let_def split: sum.splits)
      have two: "(network_step N A)\<^sup>*\<^sup>* (el, sh) (el1, sh1\<lparr>sh_world := w1\<rparr>)"
        using st network_step.move [OF w1, of A el1] by (meson converse_rtranclp_into_rtranclp r_into_rtranclp)
      show ?thesis
      proof (cases "nw_exit_flag w1")
        case True
        then show ?thesis using goes r two by auto
      next
        case False
        with goes have "f N A el1 (sh1\<lparr>sh_world := w1\<rparr>) = Some r" by simp
        from 1(1) [OF this] r obtain el' where "(network_step N A)\<^sup>*\<^sup>* (el1, sh1\<lparr>sh_world := w1\<rparr>) (el', sh')" by blast
        with two show ?thesis by (meson rtranclp_trans)
      qed
    qed
  qed
qed

lemma router_setup_arp_only:
  assumes "router_setup L is_client rnd1 rnd2 = Inr (rt, host_side, internet_side)"
  shows "router_arp_only rt"
  using assms
  by (auto simp: router_setup_def router_interface_at_def route_to_def add_interface_def new_router_def add_route_def
      Let_def router_arp_only_def new_async_network_interface_def arp_only_new split: if_splits option.splits)

subsection \<open>An example\<close>

text \<open>
  The host asks for the Ethernet address of the router; a resolver that knows one address.
\<close>

definition fixed_lib :: net_lib where
  "fixed_lib = numeric_lib\<lparr>nl_gai := \<lambda>node service flags family. (0, Some (sockaddr_in 7 0))\<rparr>"

definition ask_frame :: ethernet_frame where
  "ask_frame = frame_create [2, 0, 0, 0, 0, 9] ETHERNET_BROADCAST TYPE_ARP
     [arp_bytes (empty_arp_message\<lparr>arp_opcode := OPCODE_REQUEST, arp_sender_ethernet_address := [2, 0, 0, 0, 0, 9],
        arp_sender_ip_address := 9, arp_target_ip_address := 7\<rparr>)]"

definition ask_bytes :: bytes where "ask_bytes = concat (serialize_frame ask_frame)"

definition ask_env :: "relay_device network_env" where
  "ask_env = \<lparr>ne_kernel = relay_kernel, ne_lib = fixed_lib, ne_host_side = 0, ne_internet_side = 1, ne_debug = False\<rparr>"

definition side_fd :: "int \<Rightarrow> fd_wrapper" where
  "side_fd fd = \<lparr>fw_fd = fd, fw_eof = False, fw_closed = False, fw_non_blocking = False,
                 fw_read_count = 0, fw_write_count = 0\<rparr>"

definition ask_world :: "router \<Rightarrow> relay_device network" where
  "ask_world rt = \<lparr>nw_router = rt, nw_to_host = [], nw_to_internet = [], nw_frame_fd = side_fd 3, nw_internet = side_fd 4,
     nw_exit_flag = False, nw_kernel = \<lparr>rd_pending = (\<lambda>_. [])(3 := ask_bytes), rd_in = (\<lambda>_. []), rd_out = (\<lambda>_. [])\<rparr>\<rparr>"

definition side_interface :: "byte \<Rightarrow> network_interface" where
  "side_interface b = new_network_interface (nl_map_limit fixed_lib) (random_router_ethernet_address (replicate 6 b)) (inet_address 7 0)"

lemma fixed_address: "lib_address fixed_lib node port = Inr (inet_address 7 0)"
  by (simp add: fixed_lib_def address_of_ip_def address_resolve_def make_hints_def address_of_raw_def inet_address_def STORAGE_SIZE_def)

lemma fixed_numeric: "\<exists>n. ipv4_numeric (inet_address 7 0) = Inr n"
  by (simp add: ipv4_numeric_def inet_address_def address_family_def sockaddr_in_def AF_INET_def)

lemma ask_router:
  "\<exists>t. router_setup fixed_lib True (replicate 6 4) (replicate 6 5) =
     Inr (\<lparr>rt_interfaces = map (\<lambda>b. new_async_network_interface (side_interface b)) [4, 5], rt_routing_table = t\<rparr>, 0, 1)"
  using fixed_numeric
  by (auto simp: router_setup_def router_interface_at_def fixed_address add_interface_def new_router_def
      route_to_def add_route_def Let_def side_interface_def)

lemma ask_length: "length ask_bytes = 42"
  by code_simp

lemma ask_parses:
  "case parse_object (ethernet_frame_parse empty_ethernet_frame)
          [take 14 ask_bytes, take 20 (drop 14 ask_bytes), drop 34 ask_bytes] of Inl e \<Rightarrow> False
   | Inr (frame, valid) \<Rightarrow> valid \<and>
     (case recv_frame (lib_address fixed_lib) frame (side_interface 4) of Inl e \<Rightarrow> False
      | Inr (ni, d) \<Rightarrow> d = None \<and>
         (case ni_tick 10 ni of Inl e \<Rightarrow> False | Inr ni \<Rightarrow> length (ni_ethernet_q ni) = 1))"
  by code_simp

lemma side_ticks: "\<exists>ni. ni_tick 10 (side_interface 5) = Inr ni"
proof -
  have "case ni_tick 10 (side_interface 5) of Inl e \<Rightarrow> False | Inr ni \<Rightarrow> True" by code_simp
  then show ?thesis by (simp split: sum.splits)
qed

lemma ask_received:
  "\<exists>frame. maybe_receive_frame relay_kernel (nw_frame_fd (ask_world rt)) (nw_kernel (ask_world rt)) =
       Inr (Some frame, register_read (side_fd 3), fst (relay_read 3 42 (nw_kernel (ask_world rt)))) \<and>
     (\<exists>ni. recv_frame (lib_address fixed_lib) frame (side_interface 4) = Inr (ni, None) \<and>
        (\<exists>ni'. ni_tick 10 ni = Inr ni' \<and> ni_ethernet_q ni' \<noteq> []))"
proof -
  let ?bufs = "[replicate ETHERNET_LENGTH 0, replicate IPV4_LENGTH 0, []] :: bytes list"
  let ?k = "nw_kernel (ask_world rt)"
  let ?ns = "map length (butlast ?bufs) @ [kReadBufferSize]"
  have ns: "?ns = [14, 20, kReadBufferSize]" by (simp add: ETHERNET_LENGTH_def IPV4_LENGTH_def)
  have big: "42 \<le> 34 + kReadBufferSize" by (simp add: kReadBufferSize_def)
  have "relay_read 3 (34 + kReadBufferSize) ?k = relay_read 3 42 ?k"
    using ask_length big by (simp add: relay_read_def ask_world_def)
  then have r: "k_readv relay_kernel (fw_fd (side_fd 3)) ?ns ?k = (fst (relay_read 3 42 ?k), ok_ret 42, ask_bytes)"
    using ask_length unfolding ns by (simp add: relay_kernel_def side_fd_def relay_read_def ask_world_def Let_def)
  from fd_readv_pieces [OF relay_reads_ok _ r] have "fd_readv relay_kernel ?bufs (side_fd 3) ?k =
      Inr (pieces [14, 20, kReadBufferSize] ask_bytes, register_read (side_fd 3), fst (relay_read 3 42 ?k))"
    unfolding ns by (simp add: ok_ret_def)
  moreover have "pieces [14, 20, kReadBufferSize] ask_bytes =
      [take 14 ask_bytes, take 20 (drop 14 ask_bytes), drop 34 ask_bytes]"
    using ask_length by (simp add: kReadBufferSize_def)
  moreover obtain frame ni ni' where p: "parse_object (ethernet_frame_parse empty_ethernet_frame)
      [take 14 ask_bytes, take 20 (drop 14 ask_bytes), drop 34 ask_bytes] = Inr (frame, True)"
    and q: "recv_frame (lib_address fixed_lib) frame (side_interface 4) = Inr (ni, None)" "ni_tick 10 ni = Inr ni'"
      "length (ni_ethernet_q ni') = 1"
    using ask_parses by (auto split: sum.splits prod.splits)
  ultimately have "maybe_receive_frame relay_kernel (side_fd 3) ?k =
      Inr (Some frame, register_read (side_fd 3), fst (relay_read 3 42 ?k))"
    by (simp only: maybe_receive_frame_def p bind_result.simps prod.case if_True)
  then show ?thesis using q by (auto simp: ask_world_def)
qed

lemma ask_moves:
  assumes "rt = \<lparr>rt_interfaces = map (\<lambda>b. new_async_network_interface (side_interface b)) [4, 5], rt_routing_table = t\<rparr>"
  shows "\<exists>w w'. from_host ask_env (ask_world rt) = Inr w \<and> fw_read_count (nw_frame_fd w) = 1 \<and>
     after_event ask_env w = Inr w' \<and> nw_to_host w' \<noteq> []"
proof -
  obtain frame ni ni' where f: "maybe_receive_frame relay_kernel (nw_frame_fd (ask_world rt)) (nw_kernel (ask_world rt)) =
       Inr (Some frame, register_read (side_fd 3), fst (relay_read 3 42 (nw_kernel (ask_world rt))))"
    "recv_frame (lib_address fixed_lib) frame (side_interface 4) = Inr (ni, None)"
    "ni_tick 10 ni = Inr ni'" "ni_ethernet_q ni' \<noteq> []" using ask_received by blast
  obtain n5 where n5: "ni_tick 10 (side_interface 5) = Inr n5" using side_ticks by blast
  let ?an = "\<lambda>ni. \<lparr>an_interface = ni, an_datagrams_in = []\<rparr>"
  let ?rt = "rt\<lparr>rt_interfaces := [?an ni, ?an (side_interface 5)]\<rparr>"
  have "router_receives ask_env 0 frame rt = Inr ?rt"
    using f(2) by (simp add: router_receives_def router_interface_def assms async_recv_frame_def ask_env_def
        new_async_network_interface_def route_def route_interfaces_drain)
  then have w: "from_host ask_env (ask_world rt) = Inr (ask_world rt\<lparr>nw_frame_fd := register_read (side_fd 3),
      nw_kernel := fst (relay_read 3 42 (nw_kernel (ask_world rt))), nw_router := ?rt\<rparr>)" (is "_ = Inr ?w")
    using f(1) by (simp add: from_host_def ask_env_def debug_print_def ask_world_def)
  obtain m4 m5 where d: "drain_loop ni_maybe_send (\<lambda>f q. Inr (q @ [f])) ni' [] = Some (m4, Inr ([] @ ni_ethernet_q ni'))"
    "drain_loop ni_maybe_send (\<lambda>f q. Inr (q @ [f])) n5 [] = Some (m5, Inr ([] @ ni_ethernet_q n5))"
    using drain_interface by blast
  obtain w' where w': "after_event ask_env ?w = Inr w'" "nw_to_host w' \<noteq> []"
    using f(3,4) n5 d
    by (auto simp: after_event_def tick_side_def collect_side_def router_interface_def ask_env_def ask_world_def)
  have "fw_read_count (nw_frame_fd ?w) = 1" by (simp add: register_read_def side_fd_def)
  with w w' show ?thesis by blast
qed

subsection \<open>Properties\<close>

text \<open>
  C21: Whatever frames arrive on either side and however often the event loop of the network
  thread runs, every frame that it queues for the host or for the Internet is an ARP message:
  no datagram is ever forwarded, so that the two ends cannot connect.
\<close>

theorem endtoend_forwards_nothing:
  assumes "polls_still A"
    and built: "router_setup (ne_lib N) is_client rnd1 rnd2 = Inr (rt, ne_host_side N, ne_internet_side N)"
    and rules: "add_network_rules N (new_event_loop capacity) = Inr el"
    and start: "nw_router w = rt" "nw_to_host w = []" "nw_to_internet w = []"
    and run: "(network_step N A)\<^sup>*\<^sup>* (el, \<lparr>sh_world = w, sh_cancelled = {}\<rparr>) (el', sh')"
  shows "\<forall>f \<in> set (nw_to_host (sh_world sh')) \<union> set (nw_to_internet (sh_world sh')).
           eh_type (ef_header f) = TYPE_ARP"
proof -
  have "network_loop_ok N el"
    using distinct_network_rules by (auto simp: network_loop_ok_def add_network_rules_are [OF rules])
  moreover have "keeps_arp_only A \<lparr>sh_world = w, sh_cancelled = {}\<rparr>"
    using assms(1) start router_setup_arp_only [OF built] by (simp add: keeps_arp_only_def network_arp_only_def)
  ultimately show ?thesis
    using network_steps_keep [OF run] by (auto simp: keeps_arp_only_def network_arp_only_def arp_frame_def)
qed
theorem endtoend_forwards_nothing_witness:
  "\<exists>rt el el' sh'. router_setup (ne_lib ask_env) True (replicate 6 4) (replicate 6 5) = Inr (rt, 0, 1) \<and>
     add_network_rules ask_env (new_event_loop 64) = Inr el \<and>
     (network_step ask_env (relay_poll nw_kernel))\<^sup>*\<^sup>* (el, \<lparr>sh_world = ask_world rt, sh_cancelled = {}\<rparr>) (el', sh') \<and>
     nw_to_host (sh_world sh') \<noteq> [] \<and>
     (\<forall>f \<in> set (nw_to_host (sh_world sh')) \<union> set (nw_to_internet (sh_world sh')). eh_type (ef_header f) = TYPE_ARP)"
proof -
  obtain rt t where rt: "router_setup fixed_lib True (replicate 6 4) (replicate 6 5) = Inr (rt, 0, 1)"
    "rt = \<lparr>rt_interfaces = map (\<lambda>b. new_async_network_interface (side_interface b)) [4, 5], rt_routing_table = t\<rparr>"
    using ask_router by blast
  obtain el where el: "add_network_rules ask_env (new_event_loop 64) = Inr el"
    using add_network_rules_exist [of 64 ask_env] by auto
  obtain w w' where w: "from_host ask_env (ask_world rt) = Inr w" "fw_read_count (nw_frame_fd w) = 1"
    "after_event ask_env w = Inr w'" "nw_to_host w' \<noteq> []"
    using ask_moves [OF rt(2)] by blast
  let ?sh = "\<lparr>sh_world = ask_world rt, sh_cancelled = {}\<rparr>" and ?sh1 = "\<lparr>sh_world = w, sh_cancelled = {}\<rparr>"
  let ?wants = "\<lambda>r. fr_direction r = In"
  have "wait_next_event (relay_poll nw_kernel) 10 el ?sh = Inr (el, ?sh1, Success)"
  proof (rule relay_serves [OF add_network_rules_are [OF el], where wants = ?wants and i = 0])
    show "\<forall>r \<in> set (the_network_rules ask_env). live ?sh ?wants r"
      by (simp add: the_network_rules_def network_rule_def live_def cancel_requested_def default_interest_def
          ask_world_def side_fd_def)
    show "list_ex ?wants (the_network_rules ask_env)" by (simp add: the_network_rules_def network_rule_def)
    show "relay_ready nw_kernel ?sh ?wants (the_network_rules ask_env) = Some 0"
      using ask_length by (auto simp: relay_ready_def ready_def upt_rec relay_poll_def pollfd_of_def POLLIN_def POLLOUT_def
          the_network_rules_def network_rule_def ask_world_def side_fd_def)
    show "serve_rule (el_categories el) (the_network_rules ask_env ! 0) ?sh = Inr ?sh1"
      using w(1,2) by (simp add: serve_rule_def the_network_rules_def network_rule_def net_callback_def service_count_def
          ask_world_def side_fd_def)
  qed
  from network_step.serve [OF this, of ask_env] network_step.move [of ask_env ?sh1 w' "relay_poll nw_kernel" el] w(3)
  have run: "(network_step ask_env (relay_poll nw_kernel))\<^sup>*\<^sup>* (el, ?sh) (el, ?sh1\<lparr>sh_world := w'\<rparr>)"
    by (simp add: converse_rtranclp_into_rtranclp)
  have "polls_still (relay_poll nw_kernel)"
  proof -
    have "\<exists>k b. x = x\<lparr>nw_kernel := k, nw_exit_flag := b\<rparr>" for x :: "relay_device network"
      by (intro exI [of _ "nw_kernel x"] exI [of _ "nw_exit_flag x"]) simp
    then show ?thesis unfolding polls_still_def by (metis relay_poll_pure)
  qed
  from endtoend_forwards_nothing [OF this _ el _ _ _ run, of True "replicate 6 4" "replicate 6 5" rt] rt(1) el w(4) run
  show ?thesis
    by (intro exI [of _ rt] exI [of _ el] exI [of _ "?sh1\<lparr>sh_world := w'\<rparr>"]) (simp add: ask_env_def ask_world_def)
qed
end
