(* ===== verification/Spec2Isabelle.thy ===== *)
theory Spec2Isabelle
  imports Byte_Stream Wrapping_Integers Circ_Buffer Interval_Set Reassembler Reassembly
    Tcp_Receiver Tcp_Sender Sender_Run Checksum Wire Ethernet Ipv4 Tcp_Segment Network_Interface
    Outbox Router Tcp_Peer Exceptions Address File_Descriptor Tcp_Over_Ip Adapters End_To_End Event_Loop Loop_Contract Socket
    Printing Tcp_Minnow_Socket Byte_Log Relay_Device Peer_Run Socket_Run Socket_Relay Stream_Copy Exit_Status Socket_Ends Socket_Close Debug_Printing Webget Iptest
    Lossy_Socket Tcp_Programs Endtoend_Host Frame_Sockets Endtoend_Router Endtoend_Run
begin

text \<open>
  A verification of the network stack: a user-level TCP over IPv4 and Ethernet with its router,
  its event loop, its sockets and the programs built on them.

  \<^bold>\<open>The program.\<close>  A byte stream (\<open>src/byte_stream\<close>) carries bytes from a writer to a reader.  The
  receiver (\<open>src/tcp_receiver\<close>) feeds an inbound stream through the reassembler
  (\<open>src/reassembler\<close>, with \<open>src/CircBuffer.h\<close> and \<open>src/Intervals.h\<close>); the sender
  (\<open>src/tcp_sender\<close>, with \<open>src/Timer.h\<close>) cuts an outbound stream into segments and sends them again
  when a timer expires; both count in 32-bit wrapping numbers (\<open>src/wrapping_integers\<close>).  The peer
  (\<open>util/tcp_peer.hh\<close>) joins one of each.  Segments, datagrams, frames and ARP messages are
  written and read by the serializer and the parser (\<open>util/parser.hh\<close>), guarded by the Internet
  checksum (\<open>util/checksum.hh\<close>).  A network interface (\<open>src/network_interface\<close>) resolves
  Ethernet addresses by ARP; the router (\<open>src/router\<close>) holds several of them.  Adapters
  (\<open>util/tcp_over_ip\<close>, \<open>util/tuntap_adapter\<close>, \<open>util/lossy_fd_adapter.hh\<close>) turn segments into
  datagrams on a descriptor (\<open>util/file_descriptor\<close>, \<open>util/socket\<close>).  A socket
  (\<open>util/tcp_minnow_socket\<close>) runs a peer and an adapter in an event loop (\<open>util/eventloop\<close>)
  beside the application; \<open>util/bidirectional_stream_copy\<close> and the programs under \<open>apps/\<close> are such
  applications.

  \<^bold>\<open>How it is modelled.\<close>  A class is a record and a method a function on it; \<open>uint64_t\<close> and its
  like are words that wrap around; a throw, undefined behaviour and a call that does not return
  are the errors \<open>Throws\<close>, \<open>Undefined\<close> and \<open>Diverges\<close> of the sum type \<open>result\<close> (\<open>Prelude\<close>).  A loop
  that may run forever is a partial function into \<open>option\<close>, where \<open>None\<close> is divergence, and the
  theorems say when it is not \<open>None\<close>; no loop has fuel.  \<open>ends\<close> says of a result that it is not
  \<open>Diverges\<close>, and a thread that diverges inside a closure is never joined.  A \<open>std::set\<close> or queue is a list, a
  map a partial function, the closures of a rule are functions on the state of the program.
  What is not in the repository is a parameter: the system calls (records \<open>kernel\<close>, \<open>socket_api\<close>
  and \<open>poll_api\<close> over an arbitrary state of the operating system), the resolver of the C library
  (\<open>net_lib\<close>), the clock and random numbers.  The hypotheses on them are the documented ones: a
  system call transfers no more than it was asked to and reports how much, a numeric address
  resolves to itself, \<open>poll\<close> touches nothing of the program but what the other thread may.
  Each is shown to hold for a concrete instance in the witnesses.  What is proved of the bytes
  that sockets and the stream copy move also rests on reads that do not report that they would
  block: the loops read only what \<open>poll\<close> reported ready (\<open>Byte_Log\<close>).  How many elements a
  \<open>std::unordered_map\<close> takes before it is rehashed, which invalidates the iterators that a network
  interface keeps, is a parameter too (\<open>nl_map_limit\<close>).

  \<^bold>\<open>The theories\<close>, with the files they model and what their lemmas show:

  \<^item> \<open>Prelude\<close>: results, \<open>bind_result\<close>, lemmas on words and lists.
  \<^item> \<open>Byte_Stream\<close> (\<open>src/byte_stream\<close>): an invariant, and refinement of a bounded FIFO of bytes.
  \<^item> \<open>Wrapping_Integers\<close>: \<open>unwrap\<close> finds the closest absolute number.
  \<^item> \<open>Circ_Buffer\<close>, \<open>Interval_Set\<close>: the ring as a map from absolute indices, the set of intervals
    as a set of indices; \<open>merge_and_insert\<close> is the union.
  \<^item> \<open>Reassembler\<close>, \<open>Reassembly\<close> (\<open>src/reassembler\<close>): \<open>insert\<close> refines a map of pending bytes and
    never leaves its buffer; whatever arrives, the output is a prefix of the stream.
  \<^item> \<open>Tcp_Messages\<close>, \<open>Tcp_Receiver\<close>, \<open>Timer\<close>, \<open>Tcp_Sender\<close>, \<open>Sender_Run\<close>: messages; delivery and
    acknowledgment; how \<open>push\<close> fills the window; the transition system of the sender and its
    invariant that what is outstanding is one contiguous range.
  \<^item> \<open>End_To_End\<close>: a sender and a receiver over a network that loses, repeats and reorders.
  \<^item> \<open>Wire\<close>, \<open>Checksum\<close>, \<open>Ethernet\<close>, \<open>Ipv4\<close>, \<open>Tcp_Segment\<close> (\<open>util/parser.hh\<close> and the header
    files): round trips of each format, checksums that verify.
  \<^item> \<open>Outbox\<close>: queues emptied by \<open>while (auto x = maybe_take())\<close>, as a locale; interpreted by the
    network interface and by the asynchronous interface.
  \<^item> \<open>Network_Interface\<close>, \<open>Router\<close>: ARP exchanges deliver; histories of an interface, in which
    mappings expire 30 seconds after they were learned; \<open>route\<close> discards.
  \<^item> \<open>Tcp_Peer\<close>: what a peer answers, and the first segment of a passive open.
  \<^item> \<open>Exceptions\<close>, \<open>Address\<close>, \<open>File_Descriptor\<close>, \<open>Socket\<close>: errors of system calls, addresses,
    reads and writes of descriptors, sockets of the operating system.
  \<^item> \<open>Tcp_Over_Ip\<close>, \<open>Adapters\<close>: wrapping, the lossy adapter, the TUN and TAP adapters.
  \<^item> \<open>Event_Loop\<close>, \<open>Loop_Contract\<close>: \<open>wait_next_event\<close>; a locale of what the closures of the rules
    have to keep for the loop to keep it, interpreted for the rules of the stream copy, of a
    socket and of the network thread; and one that extends it by the errors that a pass of the
    loop cannot end with, interpreted for a socket that is being closed.
  \<^item> \<open>Printing\<close>, \<open>Debug_Printing\<close>: the textual forms.
  \<^item> \<open>Byte_Log\<close>, \<open>Relay_Device\<close>: which bytes ever crossed which descriptor; an operating
    system for the examples.
  \<^item> \<open>Tcp_Minnow_Socket\<close>, \<open>Peer_Run\<close>, \<open>Socket_Run\<close>, \<open>Socket_Relay\<close>, \<open>Frame_Sockets\<close>,
    \<open>Lossy_Socket\<close>, \<open>Socket_Ends\<close>, \<open>Socket_Close\<close>: the socket; its states refine the transition systems of the
    sender and the receiver; what it relays; the four adapters it is used with keep apart from
    the bytes of the application; no closure of an open connection and no operation of an
    adapter runs forever; its end.
  \<^item> \<open>Stream_Copy\<close> (\<open>util/bidirectional_stream_copy\<close>): nothing is lost, added or reordered.
  \<^item> \<open>Exit_Status\<close>, \<open>Webget\<close>, \<open>Iptest\<close>, \<open>Tcp_Programs\<close> (\<open>apps/tcp_native.cc\<close> and
    \<open>apps/tcp_ipv4.cc\<close>), \<open>Endtoend_Host\<close>, \<open>Endtoend_Router\<close>, \<open>Endtoend_Run\<close> (\<open>apps/endtoend.cc\<close>): the
    programs.

  \<^bold>\<open>Bounds.\<close>  Theorems about streams assume that fewer than \<open>2 ^ 64\<close> bytes cross them, those over
  wrapping sequence numbers that the other side is less than \<open>2 ^ 31\<close> away.  An event loop has at
  most 64 categories and calls a rule that stays interested 128 times, as in the code.

  \<^bold>\<open>Not modelled.\<close>  Threads: a socket is modelled by the loop of its thread, with what the
  application does meanwhile in the effects of \<open>poll\<close>; the programs \<open>tcp_ipv4\<close> and \<open>endtoend\<close>
  are therefore modelled up to where two threads run side by side.  The sharing of one
  descriptor between duplicates and the closing of descriptors by destructors, except where
  a program ends; \<open>demangle\<close> and the usage messages; output that is switched off at
  compile time; the tests and the files that CMake generates.
\<close>

end
